(* ===== verification/Go_Prelude.thy ===== *)
theory Go_Prelude
  imports Main "HOL-Library.Word"
begin

text \<open>
  Shared vocabulary of the development: Go's machine integers, the outcome of a Go call
  (a value or a panic), checked indexing and slicing, and the binary search of package sort.
  The generic lemmas on these carry the proofs of the component theories.

  A Go \<^verbatim>\<open>int\<close> that counts bytes or elements of a slice is a HOL \<open>int\<close> or \<open>nat\<close>; where the source
  relies on its 64-bit wrap-around (the length checks of the decoder) the wrap is written out
  with \<open>wrap64\<close>. \<^verbatim>\<open>uint64\<close> and \<^verbatim>\<open>int64\<close> are \<open>64 word\<close>, read with \<open>unat\<close> and \<open>sint\<close>.
  A nil pointer is \<open>None\<close>.
\<close>

unbundle bit_operations_syntax

type_synonym byte = "8 word"
type_synonym uint64 = "64 word"
type_synonym int64 = "64 word"
type_synonym int32 = "32 word"

text \<open>A \<^verbatim>\<open>[]byte\<close> variable distinguishes the nil slice from an empty one.\<close>

type_synonym bytes = "byte list option"

named_theorems go_simps \<open>evaluation of Go primitives whose guards hold\<close>
named_theorems go_specs \<open>behaviour of modelled operations under their preconditions\<close>

section \<open>Outcomes of Go calls\<close>

datatype panic =
    NilDeref              \<comment> \<open>nil pointer dereference\<close>
  | IndexOutOfRange
  | SliceOutOfRange
  | SliceBeyondLen        \<comment> \<open>\<open>s[0:k]\<close> with \<open>k > len s\<close>: depends on the capacity, which is not modelled\<close>
  | NilMapWrite           \<comment> \<open>assignment to an entry of a nil map\<close>
  | TypeAssertion
  | NilFuncCall
  | CloseOfClosedChannel
  | LogPanic string       \<comment> \<open>an explicit \<open>log.Panicf\<close>\<close>

datatype 'a go = Ok 'a | Panic panic

fun go_bind :: "'a go \<Rightarrow> ('a \<Rightarrow> 'b go) \<Rightarrow> 'b go" where
  "go_bind (Ok x) f = f x"
| "go_bind (Panic p) f = Panic p"

text \<open>A Go loop over a slice whose body threads the state and may panic.\<close>

fun foldM_go :: "('s \<Rightarrow> 'a \<Rightarrow> 's go) \<Rightarrow> 's \<Rightarrow> 'a list \<Rightarrow> 's go" where
  "foldM_go f s [] = Ok s"
| "foldM_go f s (x # xs) = go_bind (f s x) (\<lambda>s'. foldM_go f s' xs)"

definition deref :: "'a option \<Rightarrow> 'a go" where
  "deref p = (case p of None \<Rightarrow> Panic NilDeref | Some x \<Rightarrow> Ok x)"

definition blen :: "bytes \<Rightarrow> nat" where
  "blen b = (case b of None \<Rightarrow> 0 | Some xs \<Rightarrow> length xs)"

definition bcontent :: "bytes \<Rightarrow> byte list" where
  "bcontent b = (case b of None \<Rightarrow> [] | Some xs \<Rightarrow> xs)"

text \<open>Two's complement reading of an \<^verbatim>\<open>int\<close> sum that may wrap.\<close>

definition wrap64 :: "int \<Rightarrow> int" where
  "wrap64 x = sint (word_of_int x :: 64 word)"

section \<open>Indexing and slicing\<close>

definition index64 :: "'a list \<Rightarrow> uint64 \<Rightarrow> 'a go" where
  "index64 xs i = (if unat i < length xs then Ok (xs ! unat i) else Panic IndexOutOfRange)"

definition indexInt :: "'a list \<Rightarrow> int \<Rightarrow> 'a go" where
  "indexInt xs i = (if 0 \<le> i \<and> i < int (length xs) then Ok (xs ! nat i) else Panic IndexOutOfRange)"

definition store :: "'a list \<Rightarrow> int \<Rightarrow> 'a \<Rightarrow> 'a list go" where
  "store xs i v =
     (if 0 \<le> i \<and> i < int (length xs) then Ok (xs[nat i := v]) else Panic IndexOutOfRange)"

text \<open>\<open>xs[i:]\<close> with an unsigned bound, and \<open>xs[0:k]\<close>.\<close>

definition sliceFrom :: "'a list \<Rightarrow> uint64 \<Rightarrow> 'a list go" where
  "sliceFrom xs i = (if unat i \<le> length xs then Ok (drop (unat i) xs) else Panic SliceOutOfRange)"

definition sliceTo :: "'a list \<Rightarrow> uint64 \<Rightarrow> 'a list go" where
  "sliceTo xs k = (if unat k \<le> length xs then Ok (take (unat k) xs) else Panic SliceBeyondLen)"

definition prefixTo :: "'a list \<Rightarrow> int \<Rightarrow> 'a list go" where
  "prefixTo xs k =
     (if k < 0 then Panic SliceOutOfRange
      else if k \<le> int (length xs) then Ok (take (nat k) xs) else Panic SliceBeyondLen)"

section \<open>sort.Search\<close>

text \<open>
  Package sort's binary search over \<open>[0, n)\<close>; the probe may panic. The two bounds are the
  loop variables \<open>i\<close> and \<open>j\<close> of the library's loop.
\<close>

function sort_Search_loop :: "(nat \<Rightarrow> bool go) \<Rightarrow> nat \<Rightarrow> nat \<Rightarrow> nat go" where
  "sort_Search_loop f i j =
     (if i < j then
        (let h = (i + j) div 2 in
         case f h of
           Panic p \<Rightarrow> Panic p
         | Ok b \<Rightarrow> if \<not> b then sort_Search_loop f (h + 1) j else sort_Search_loop f i h)
      else Ok i)"
  by pat_completeness auto
termination
  by (relation "measure (\<lambda>(f, i, j). j - i)") auto

declare sort_Search_loop.simps [simp del]

definition sort_Search :: "nat \<Rightarrow> (nat \<Rightarrow> bool go) \<Rightarrow> nat go" where
  "sort_Search n f = sort_Search_loop f 0 n"

section \<open>Lemmas\<close>

lemma go_bind_eq_Ok [simp]: "go_bind m f = Ok y \<longleftrightarrow> (\<exists>x. m = Ok x \<and> f x = Ok y)"
  by (cases m) auto

lemma go_bind_assoc: "go_bind (go_bind m f) g = go_bind m (\<lambda>x. go_bind (f x) g)"
  by (cases m) auto

lemma go_bind_Ok_right [simp]: "go_bind m Ok = m"
  by (cases m) auto

lemma foldM_go_append: "foldM_go f s (xs @ ys) = go_bind (foldM_go f s xs) (\<lambda>s'. foldM_go f s' ys)"
  by (induction xs arbitrary: s) (simp_all add: go_bind_assoc)

text \<open>An invariant of the body is an invariant of the loop.\<close>

lemma foldM_go_inv:
  assumes "I s" "\<And>s x s'. I s \<Longrightarrow> x \<in> set xs \<Longrightarrow> f s x = Ok s' \<Longrightarrow> I s'" "foldM_go f s xs = Ok s'"
  shows "I s'"
proof -
  have "I s \<Longrightarrow> set ys \<subseteq> set xs \<Longrightarrow> foldM_go f s ys = Ok s' \<Longrightarrow> I s'" for ys s
  proof (induction ys arbitrary: s)
    case (Cons x ys)
    then obtain s1 where "f s x = Ok s1" "foldM_go f s1 ys = Ok s'" by auto
    with Cons.prems show ?case by (intro Cons.IH[of s1]) (auto intro: assms(2))
  qed simp
  with assms(1,3) show ?thesis by blast
qed

lemma go_bind_cong [fundef_cong]:
  "m = m' \<Longrightarrow> (\<And>x. m' = Ok x \<Longrightarrow> f x = f' x) \<Longrightarrow> go_bind m f = go_bind m' f'"
  by (cases m') auto

lemma deref_simps [simp]: "deref None = Panic NilDeref" "deref (Some x) = Ok x"
  by (simp_all add: deref_def)

lemma deref_eq_Ok [simp]: "deref p = Ok x \<longleftrightarrow> p = Some x"
  by (cases p) auto

lemma blen_simps [simp]: "blen None = 0" "blen (Some xs) = length xs"
  by (simp_all add: blen_def)

lemma bcontent_simps [simp]: "bcontent None = []" "bcontent (Some xs) = xs"
  by (simp_all add: bcontent_def)

lemma length_bcontent [simp]: "length (bcontent b) = blen b"
  by (cases b) auto

lemma store_mid [go_simps]:
  "i = int (length pre) \<Longrightarrow> store (pre @ x # post) i v = Ok (pre @ v # post)"
  by (simp add: store_def)

lemma store_length: "store xs i v = Ok ys \<Longrightarrow> length ys = length xs"
  by (auto simp: store_def split: if_splits)

lemma wrap64_id: "- (2 ^ 63) \<le> x \<Longrightarrow> x < 2 ^ 63 \<Longrightarrow> wrap64 x = x"
  by (simp add: wrap64_def sint_sbintrunc' signed_take_bit_int_eq_self)

lemma wrap64_neg: "2 ^ 63 \<le> x \<Longrightarrow> x < 2 ^ 64 \<Longrightarrow> wrap64 x = x - 2 ^ 64"
proof -
  assume x: "2 ^ 63 \<le> x" "x < 2 ^ 64"
  have "(x + 2 ^ 63) mod 2 ^ 64 = (x + 2 ^ 63 - 2 ^ 64) mod 2 ^ 64"
    by (metis minus_mod_self2)
  also have "\<dots> = x + 2 ^ 63 - 2 ^ 64" using x by (intro mod_pos_pos_trivial) auto
  finally show ?thesis by (simp add: wrap64_def int_word_sint)
qed

lemma wrap64_cases: "0 \<le> x \<Longrightarrow> x < 2 ^ 64 \<Longrightarrow> wrap64 x < 0 \<or> wrap64 x = x"
  using wrap64_id[of x] wrap64_neg[of x] by (cases "x < 2 ^ 63") auto

lemma wrap64_less: "wrap64 x < 2 ^ 63"
  using sint_lt[of "word_of_int x :: 64 word"] by (simp add: wrap64_def)

lemma sint_of_nat_64: "n < 2 ^ 63 \<Longrightarrow> sint (of_nat n :: 64 word) = int n"
  using wrap64_id[of "int n"] by (simp add: wrap64_def)

lemma unat_less_64: "unat (w :: uint64) < 2 ^ 64"
proof -
  have "LENGTH(64) = 64" by simp
  then show ?thesis using unsigned_less[where 'a=nat, of w] by (simp only:)
qed

lemma unat_of_nat_64: "n < 2 ^ 64 \<Longrightarrow> unat (of_nat n :: uint64) = n"
  by (simp add: unat_of_nat)

text \<open>Vote counts that do not wrap.\<close>

lemma one_more_vote: "n < 2 ^ 63 \<Longrightarrow> of_nat n < (of_nat n + 1 :: uint64)"
  using unat_of_nat_64[of n] unat_of_nat_64[of "Suc n"] by (simp add: word_less_nat_alt add.commute)

lemma not_more_votes: "m + 1 \<le> n \<Longrightarrow> n < 2 ^ 63 \<Longrightarrow> \<not> of_nat n < (of_nat m + 1 :: uint64)"
  using unat_of_nat_64[of n] unat_of_nat_64[of "Suc m"] by (simp add: word_less_nat_alt add.commute)

text \<open>
  The search returns the least index at which a monotone predicate holds, or \<open>n\<close>.
\<close>

lemma sort_Search_loop_correct:
  assumes "\<And>k. k < n \<Longrightarrow> f k = Ok (P k)"
    and "\<And>a b. a \<le> b \<Longrightarrow> b < n \<Longrightarrow> P a \<Longrightarrow> P b"
    and "i \<le> j" "j \<le> n"
    and "\<And>k. k < i \<Longrightarrow> \<not> P k" "\<And>k. j \<le> k \<Longrightarrow> k < n \<Longrightarrow> P k"
  shows "\<exists>r. sort_Search_loop f i j = Ok r \<and> r \<le> n \<and> (\<forall>k<r. \<not> P k) \<and> (\<forall>k. r \<le> k \<longrightarrow> k < n \<longrightarrow> P k)"
  using assms(3-6)
proof (induction "j - i" arbitrary: i j rule: less_induct)
  case less
  show ?case
  proof (cases "i < j")
    case False
    with less.prems show ?thesis by (subst sort_Search_loop.simps) auto
  next
    case True
    define h where "h = (i + j) div 2"
    have h: "i \<le> h" "h < j" "h < n" using True less.prems by (auto simp: h_def)
    have eq: "sort_Search_loop f i j =
        (if \<not> P h then sort_Search_loop f (h + 1) j else sort_Search_loop f i h)"
      using True assms(1)[OF h(3)] by (subst sort_Search_loop.simps) (simp add: h_def Let_def)
    show ?thesis
    proof (cases "P h")
      case True
      have "\<exists>r. sort_Search_loop f i h = Ok r \<and> r \<le> n \<and> (\<forall>k<r. \<not> P k) \<and> (\<forall>k. r \<le> k \<longrightarrow> k < n \<longrightarrow> P k)"
        using less.prems h True assms(2) by (intro less.hyps) auto
      with eq True show ?thesis by simp
    next
      case False
      have "\<not> P k" if "k < h + 1" for k
        using that False assms(2)[of k h] h by auto
      then have "\<exists>r. sort_Search_loop f (h + 1) j = Ok r \<and> r \<le> n \<and> (\<forall>k<r. \<not> P k) \<and> (\<forall>k. r \<le> k \<longrightarrow> k < n \<longrightarrow> P k)"
        using less.prems h by (intro less.hyps) auto
      with eq False show ?thesis by simp
    qed
  qed
qed

lemma sort_Search_correct:
  assumes "\<And>k. k < n \<Longrightarrow> f k = Ok (P k)"
    and "\<And>a b. a \<le> b \<Longrightarrow> b < n \<Longrightarrow> P a \<Longrightarrow> P b"
  obtains r where "sort_Search n f = Ok r" "r \<le> n" "\<forall>k<r. \<not> P k" "\<forall>k. r \<le> k \<longrightarrow> k < n \<longrightarrow> P k"
  using sort_Search_loop_correct[of n f P 0 n] assms unfolding sort_Search_def by auto

end
