(* ===== verification/Wire.thy ===== *)
theory Wire
  imports Go_Prelude
begin

text \<open>
  The protocol-buffer wire format as the generated code of the *.pb.go files implements it:
  base-128 varints, the backward writer that every \<^verbatim>\<open>MarshalToSizedBuffer\<close> is made of, the field
  readers and the tag loop that every \<^verbatim>\<open>Unmarshal\<close> is made of, and the skipping of unknown fields.
  The generator emits the helpers once per package (\<^verbatim>\<open>encodeVarintRaft\<close>, \<^verbatim>\<open>sovRaft\<close>,
  \<^verbatim>\<open>skipRaft\<close> and their copies for the other packages); they are modelled once here.

  The writer fills its buffer from the end. Its specification is a forward encoding: \<open>writes op e\<close>
  says that the step \<open>op\<close> stores the bytes \<open>e\<close> in front of the cursor. The reader's
  specification \<open>consumes name h e m m'\<close> says that the tag loop, standing in front of the bytes
  \<open>e\<close> in any buffer, moves behind them and turns the message \<open>m\<close> into \<open>m'\<close>.
\<close>

section \<open>Errors\<close>

datatype pb_error =
    ErrIntOverflow
  | ErrUnexpectedEOF
  | ErrInvalidLength
  | ErrUnexpectedEndOfGroup
  | ErrEndGroup string               \<comment> \<open>wiretype end group for non-group\<close>
  | ErrIllegalTag string int32 uint64
  | ErrWrongWireType int string
  | ErrIllegalWireType int
  | ErrNoProgress                    \<comment> \<open>not in the code: a loop iteration that read nothing\<close>

section \<open>Sizes and varints\<close>

fun bit_len :: "nat \<Rightarrow> nat" where
  "bit_len n = (if n = 0 then 0 else Suc (bit_len (n div 2)))"

declare bit_len.simps [simp del]

text \<open>\<^verbatim>\<open>math/bits.Len64\<close>\<close>

definition Len64 :: "uint64 \<Rightarrow> nat" where
  "Len64 x = bit_len (unat x)"

definition sov :: "uint64 \<Rightarrow> nat" where
  "sov x = (Len64 (x OR 1) + 6) div 7"

text \<open>The loop of \<^verbatim>\<open>encodeVarintRaft\<close>, then the function: the new buffer and the base offset.\<close>

function encodeVarint_loop :: "byte list \<Rightarrow> int \<Rightarrow> uint64 \<Rightarrow> byte list go" where
  "encodeVarint_loop dAtA offset v =
     (if 128 \<le> v then
        (case store dAtA offset (ucast ((v AND 0x7f) OR 0x80)) of
           Panic p \<Rightarrow> Panic p
         | Ok dAtA' \<Rightarrow> encodeVarint_loop dAtA' (offset + 1) (drop_bit 7 v))
      else store dAtA offset (ucast v))"
  by pat_completeness auto
termination
  by (relation "measure (\<lambda>(d, i, v). unat v)")
    (auto simp: unat_drop_bit_eq drop_bit_eq_div word_le_nat_alt unat_div)

declare encodeVarint_loop.simps [simp del]

definition encodeVarint :: "byte list \<Rightarrow> int \<Rightarrow> uint64 \<Rightarrow> (byte list \<times> int) go" where
  "encodeVarint dAtA offset v =
     (let base = offset - int (sov v)
      in go_bind (encodeVarint_loop dAtA base v) (\<lambda>dAtA'. Ok (dAtA', base)))"

section \<open>The backward writer\<close>

text \<open>The buffer \<open>dAtA\<close> and the index \<open>i\<close> of a \<^verbatim>\<open>MarshalToSizedBuffer\<close> body.\<close>

type_synonym cursor = "byte list \<times> int"

text \<open>\<^verbatim>\<open>i--; dAtA[i] = b\<close>\<close>

fun putByte :: "byte \<Rightarrow> cursor \<Rightarrow> cursor go" where
  "putByte b (dAtA, i) = go_bind (store dAtA (i - 1) b) (\<lambda>dAtA'. Ok (dAtA', i - 1))"

text \<open>\<^verbatim>\<open>i = encodeVarint(dAtA, i, v)\<close>\<close>

fun putVarint :: "uint64 \<Rightarrow> cursor \<Rightarrow> cursor go" where
  "putVarint v (dAtA, i) = encodeVarint dAtA i v"

text \<open>\<^verbatim>\<open>i -= len(bs); copy(dAtA[i:], bs); i = encodeVarint(dAtA, i, uint64(len(bs)))\<close>\<close>

fun putBytes :: "byte list \<Rightarrow> cursor \<Rightarrow> cursor go" where
  "putBytes bs (dAtA, i) =
     (let j = i - int (length bs)
      in if 0 \<le> j \<and> j \<le> int (length dAtA)
         then encodeVarint
                (take (nat j) dAtA @ take (length dAtA - nat j) bs @ drop (nat j + length bs) dAtA)
                j (of_nat (length bs))
         else Panic SliceOutOfRange)"

text \<open>
  \<^verbatim>\<open>size, err := x.MarshalToSizedBuffer(dAtA[:i]); i -= size; i = encodeVarint(dAtA, i, uint64(size))\<close>:
  the callee writes through the sub-slice into the same array. No generated
  \<^verbatim>\<open>MarshalToSizedBuffer\<close> makes an error of its own, so its error result is always nil.
\<close>

fun putMsg :: "(byte list \<Rightarrow> (byte list \<times> int) go) \<Rightarrow> cursor \<Rightarrow> cursor go" where
  "putMsg marshalToSizedBuffer (dAtA, i) =
     go_bind (prefixTo dAtA i) (\<lambda>sub.
     go_bind (marshalToSizedBuffer sub) (\<lambda>(sub', size).
     encodeVarint (sub' @ drop (nat i) dAtA) (i - size) (word_of_int size)))"

fun runw :: "(cursor \<Rightarrow> cursor go) list \<Rightarrow> cursor \<Rightarrow> cursor go" where
  "runw [] c = Ok c"
| "runw (op # ops) c = go_bind (op c) (runw ops)"

text \<open>An \<^verbatim>\<open>if\<close> around some of the steps.\<close>

definition whenw :: "bool \<Rightarrow> (cursor \<Rightarrow> cursor go) list \<Rightarrow> cursor \<Rightarrow> cursor go" where
  "whenw b ops = (if b then runw ops else Ok)"

text \<open>\<^verbatim>\<open>i := len(dAtA); ...; return len(dAtA) - i, nil\<close>\<close>

definition sizedBuffer :: "(cursor \<Rightarrow> cursor go) list \<Rightarrow> byte list \<Rightarrow> (byte list \<times> int) go" where
  "sizedBuffer ops dAtA =
     go_bind (runw ops (dAtA, int (length dAtA))) (\<lambda>(dAtA', i). Ok (dAtA', int (length dAtA') - i))"

text \<open>The body shared by every \<^verbatim>\<open>Marshal\<close>.\<close>

definition marshalVia :: "nat \<Rightarrow> (byte list \<Rightarrow> (byte list \<times> int) go) \<Rightarrow> byte list go" where
  "marshalVia sz marshalToSizedBuffer =
     go_bind (marshalToSizedBuffer (replicate sz 0)) (\<lambda>(dAtA, n). prefixTo dAtA n)"

text \<open>The body shared by every \<^verbatim>\<open>MarshalTo\<close>: the buffer after the call, and the count.\<close>

definition marshalToVia ::
  "nat \<Rightarrow> (byte list \<Rightarrow> (byte list \<times> int) go) \<Rightarrow> byte list \<Rightarrow> (byte list \<times> int) go" where
  "marshalToVia sz marshalToSizedBuffer dAtA =
     go_bind (prefixTo dAtA (int sz)) (\<lambda>sub.
     go_bind (marshalToSizedBuffer sub) (\<lambda>(sub', n). Ok (sub' @ drop sz dAtA, n)))"

section \<open>The field readers\<close>

text \<open>
  The varint loop that the generator inlines: the accumulated value (also when it stops with an
  error, as the code assigns into the field bit by bit) and the error or the next index. The
  width of the accumulator is the width of the field's Go type.
\<close>

function readVarint :: "byte list \<Rightarrow> int \<Rightarrow> nat \<Rightarrow> 'a::len word \<Rightarrow> 'a word \<times> (pb_error + int)" where
  "readVarint dAtA iNdEx shift acc =
     (if 64 \<le> shift then (acc, Inl ErrIntOverflow)
      else if int (length dAtA) \<le> iNdEx then (acc, Inl ErrUnexpectedEOF)
      else
        (let b = dAtA ! nat iNdEx;
             acc' = acc OR push_bit shift (ucast (b AND 0x7F))
         in if b < 0x80 then (acc', Inr (iNdEx + 1))
            else readVarint dAtA (iNdEx + 1) (shift + 7) acc'))"
  by pat_completeness auto
termination
  by (relation "measure (\<lambda>(d, i, s, a). 64 - s)") auto

declare readVarint.simps [simp del]

text \<open>Reading a varint without keeping it (wire type 0 of the skip function).\<close>

function skipVarint :: "byte list \<Rightarrow> int \<Rightarrow> nat \<Rightarrow> pb_error + int" where
  "skipVarint dAtA iNdEx shift =
     (if 64 \<le> shift then Inl ErrIntOverflow
      else if int (length dAtA) \<le> iNdEx then Inl ErrUnexpectedEOF
      else if dAtA ! nat iNdEx < 0x80 then Inr (iNdEx + 1)
      else skipVarint dAtA (iNdEx + 1) (shift + 7))"
  by pat_completeness auto
termination
  by (relation "measure (\<lambda>(d, i, s). 64 - s)") auto

declare skipVarint.simps [simp del]

text \<open>
  The length prefix of a bytes field or a nested message: the start and the end of its content.
\<close>

definition readLength :: "byte list \<Rightarrow> int \<Rightarrow> pb_error + (int \<times> int)" where
  "readLength dAtA iNdEx =
     (case readVarint dAtA iNdEx 0 (0 :: 64 word) of
        (_, Inl e) \<Rightarrow> Inl e
      | (w, Inr iNdEx') \<Rightarrow>
          let byteLen = sint w; postIndex = wrap64 (iNdEx' + byteLen)
          in if byteLen < 0 then Inl ErrInvalidLength
             else if postIndex < 0 then Inl ErrInvalidLength
             else if int (length dAtA) < postIndex then Inl ErrUnexpectedEOF
             else Inr (iNdEx', postIndex))"

definition subslice :: "byte list \<Rightarrow> int \<Rightarrow> int \<Rightarrow> byte list" where
  "subslice dAtA i j = take (nat j - nat i) (drop (nat i) dAtA)"

text \<open>
  The cases of an \<^verbatim>\<open>Unmarshal\<close> switch: a varint field, a bool, a bytes field, and a nested
  message, whose \<open>unmarshal\<close> argument updates the message with the nested decoder's result.
  Each returns the message as it is left and the error or the next index.
\<close>

definition varintCase ::
  "int \<Rightarrow> string \<Rightarrow> byte list \<Rightarrow> int \<Rightarrow> ('a::len word \<Rightarrow> 'm \<Rightarrow> 'm) \<Rightarrow> 'm \<Rightarrow> 'm \<times> (pb_error + int)" where
  "varintCase wireType name dAtA iNdEx upd m =
     (if wireType \<noteq> 0 then (m, Inl (ErrWrongWireType wireType name))
      else case readVarint dAtA iNdEx 0 0 of (v, r) \<Rightarrow> (upd v m, r))"

definition boolCase ::
  "int \<Rightarrow> string \<Rightarrow> byte list \<Rightarrow> int \<Rightarrow> (bool \<Rightarrow> 'm \<Rightarrow> 'm) \<Rightarrow> 'm \<Rightarrow> 'm \<times> (pb_error + int)" where
  "boolCase wireType name dAtA iNdEx upd m =
     (if wireType \<noteq> 0 then (m, Inl (ErrWrongWireType wireType name))
      else case readVarint dAtA iNdEx 0 (0 :: 64 word) of
        (v, Inl e) \<Rightarrow> (m, Inl e)
      | (v, Inr iNdEx') \<Rightarrow> (upd (v \<noteq> 0) m, Inr iNdEx'))"

definition bytesCase ::
  "int \<Rightarrow> string \<Rightarrow> byte list \<Rightarrow> int \<Rightarrow> (byte list \<Rightarrow> 'm \<Rightarrow> 'm) \<Rightarrow> 'm \<Rightarrow> 'm \<times> (pb_error + int)" where
  "bytesCase wireType name dAtA iNdEx upd m =
     (if wireType \<noteq> 2 then (m, Inl (ErrWrongWireType wireType name))
      else case readLength dAtA iNdEx of
        Inl e \<Rightarrow> (m, Inl e)
      | Inr (iNdEx', postIndex) \<Rightarrow> (upd (subslice dAtA iNdEx' postIndex) m, Inr postIndex))"

definition msgCase ::
  "int \<Rightarrow> string \<Rightarrow> byte list \<Rightarrow> int \<Rightarrow> (byte list \<Rightarrow> 'm \<Rightarrow> 'm \<times> pb_error option) \<Rightarrow> 'm
    \<Rightarrow> 'm \<times> (pb_error + int)" where
  "msgCase wireType name dAtA iNdEx unmarshal m =
     (if wireType \<noteq> 2 then (m, Inl (ErrWrongWireType wireType name))
      else case readLength dAtA iNdEx of
        Inl e \<Rightarrow> (m, Inl e)
      | Inr (iNdEx', postIndex) \<Rightarrow>
          (case unmarshal (subslice dAtA iNdEx' postIndex) m of
             (m', Some e) \<Rightarrow> (m', Inl e)
           | (m', None) \<Rightarrow> (m', Inr postIndex)))"

section \<open>Skipping unknown fields\<close>

text \<open>One iteration of \<^verbatim>\<open>skipRaft\<close>: the next index and the group depth.\<close>

definition skipStep :: "byte list \<Rightarrow> int \<Rightarrow> nat \<Rightarrow> pb_error + (int \<times> nat)" where
  "skipStep dAtA iNdEx depth =
     (case readVarint dAtA iNdEx 0 (0 :: 64 word) of
        (_, Inl e) \<Rightarrow> Inl e
      | (wire, Inr i) \<Rightarrow>
          let wireType = wire AND 0x7 in
          if wireType = 0 then (case skipVarint dAtA i 0 of Inl e \<Rightarrow> Inl e | Inr j \<Rightarrow> Inr (j, depth))
          else if wireType = 1 then Inr (wrap64 (i + 8), depth)
          else if wireType = 2 then
            (case readVarint dAtA i 0 (0 :: 64 word) of
               (_, Inl e) \<Rightarrow> Inl e
             | (len, Inr j) \<Rightarrow>
                 if sint len < 0 then Inl ErrInvalidLength else Inr (wrap64 (j + sint len), depth))
          else if wireType = 3 then Inr (i, depth + 1)
          else if wireType = 4 then
            (if depth = 0 then Inl ErrUnexpectedEndOfGroup else Inr (i, depth - 1))
          else if wireType = 5 then Inr (wrap64 (i + 4), depth)
          else Inl (ErrIllegalWireType (uint wireType)))"

function skipLoop :: "byte list \<Rightarrow> int \<Rightarrow> nat \<Rightarrow> pb_error + int" where
  "skipLoop dAtA iNdEx depth =
     (if iNdEx < int (length dAtA) then
        (case skipStep dAtA iNdEx depth of
           Inl e \<Rightarrow> Inl e
         | Inr (iNdEx', depth') \<Rightarrow>
             if iNdEx' < 0 then Inl ErrInvalidLength
             else if depth' = 0 then Inr iNdEx'
             else if iNdEx < iNdEx' then skipLoop dAtA iNdEx' depth'
             else Inl ErrNoProgress)
      else Inl ErrUnexpectedEOF)"
  by pat_completeness auto
termination
  by (relation "measure (\<lambda>(d, i, _). nat (int (length d) - i))") auto

declare skipLoop.simps [simp del]

definition skip :: "byte list \<Rightarrow> pb_error + int" where
  "skip dAtA = skipLoop dAtA 0 0"

section \<open>The tag loop\<close>

text \<open>
  A handler is the \<^verbatim>\<open>switch fieldNum\<close> of one message: \<open>None\<close> is the default case.
\<close>

type_synonym 'm handler =
  "int32 \<Rightarrow> int \<Rightarrow> byte list \<Rightarrow> int \<Rightarrow> 'm \<Rightarrow> ('m \<times> (pb_error + int)) option"

text \<open>One iteration of the loop of an \<^verbatim>\<open>Unmarshal\<close>.\<close>

definition unmarshalStep ::
  "string \<Rightarrow> 'm handler \<Rightarrow> byte list \<Rightarrow> int \<Rightarrow> 'm \<Rightarrow> 'm \<times> (pb_error + int)" where
  "unmarshalStep name field dAtA preIndex m =
     (case readVarint dAtA preIndex 0 (0 :: 64 word) of
        (_, Inl e) \<Rightarrow> (m, Inl e)
      | (wire, Inr iNdEx) \<Rightarrow>
          let fieldNum = ucast (drop_bit 3 wire) :: int32;
              wireType = uint (wire AND 0x7)
          in if wireType = 4 then (m, Inl (ErrEndGroup name))
             else if sint fieldNum \<le> 0 then (m, Inl (ErrIllegalTag name fieldNum wire))
             else case field fieldNum wireType dAtA iNdEx m of
               Some r \<Rightarrow> r
             | None \<Rightarrow>
                 (case skip (drop (nat preIndex) dAtA) of
                    Inl e \<Rightarrow> (m, Inl e)
                  | Inr skippy \<Rightarrow>
                      if skippy < 0 \<or> wrap64 (preIndex + skippy) < 0 then (m, Inl ErrInvalidLength)
                      else if int (length dAtA) < wrap64 (preIndex + skippy)
                        then (m, Inl ErrUnexpectedEOF)
                      else (m, Inr (wrap64 (preIndex + skippy)))))"

function unmarshalLoop ::
  "string \<Rightarrow> 'm handler \<Rightarrow> byte list \<Rightarrow> int \<Rightarrow> 'm \<Rightarrow> 'm \<times> pb_error option" where
  "unmarshalLoop name field dAtA iNdEx m =
     (if iNdEx < int (length dAtA) then
        (case unmarshalStep name field dAtA iNdEx m of
           (m', Inl e) \<Rightarrow> (m', Some e)
         | (m', Inr iNdEx') \<Rightarrow>
             if iNdEx < iNdEx' then unmarshalLoop name field dAtA iNdEx' m'
             else (m', Some ErrNoProgress))
      else if int (length dAtA) < iNdEx then (m, Some ErrUnexpectedEOF)
      else (m, None))"
  by pat_completeness auto
termination
  by (relation "measure (\<lambda>(_, _, d, i, _). nat (int (length d) - i))") auto

declare unmarshalLoop.simps [simp del]

definition unmarshalVia :: "string \<Rightarrow> 'm handler \<Rightarrow> 'm \<Rightarrow> byte list \<Rightarrow> 'm \<times> pb_error option" where
  "unmarshalVia name field m dAtA = unmarshalLoop name field dAtA 0 m"

section \<open>The forward encoding\<close>

text \<open>The wire format the writer and the reader are specified against.\<close>

fun varint :: "nat \<Rightarrow> byte list" where
  "varint n = (if n < 128 then [of_nat n] else of_nat (n mod 128 + 128) # varint (n div 128))"

declare varint.simps [simp del]

definition lenPrefixed :: "byte list \<Rightarrow> byte list" where
  "lenPrefixed e = varint (unat (of_nat (length e) :: uint64)) @ e"

definition fVarint :: "byte \<Rightarrow> uint64 \<Rightarrow> byte list" where
  "fVarint tag v = (if v = 0 then [] else tag # varint (unat v))"

definition fBool :: "byte \<Rightarrow> bool \<Rightarrow> byte list" where
  "fBool tag b = (if b then [tag, 1] else [])"

definition fBytes :: "byte \<Rightarrow> byte list \<Rightarrow> byte list" where
  "fBytes tag bs = (if bs = [] then [] else tag # lenPrefixed bs)"

definition fMsg :: "byte \<Rightarrow> byte list \<Rightarrow> byte list" where
  "fMsg tag e = tag # lenPrefixed e"

definition fOpt :: "byte \<Rightarrow> ('m \<Rightarrow> byte list) \<Rightarrow> 'm option \<Rightarrow> byte list" where
  "fOpt tag enc p = (case p of None \<Rightarrow> [] | Some m \<Rightarrow> fMsg tag (enc m))"

definition writes :: "(cursor \<Rightarrow> cursor go) \<Rightarrow> byte list \<Rightarrow> bool" where
  "writes op e \<longleftrightarrow>
     (\<forall>pre junk suf. length junk = length e \<longrightarrow>
        op (pre @ junk @ suf, int (length pre + length junk)) = Ok (pre @ e @ suf, int (length pre)))"

text \<open>A buffer writer that fills exactly the end of whatever buffer it is given.\<close>

definition fills :: "(byte list \<Rightarrow> (byte list \<times> int) go) \<Rightarrow> byte list \<Rightarrow> bool" where
  "fills f e \<longleftrightarrow>
     (\<forall>pre junk. length junk = length e \<longrightarrow> f (pre @ junk) = Ok (pre @ e, int (length e)))"

definition consumes :: "string \<Rightarrow> 'm handler \<Rightarrow> byte list \<Rightarrow> 'm \<Rightarrow> 'm \<Rightarrow> bool" where
  "consumes name field e m m' \<longleftrightarrow>
     (\<forall>pre rest. length (pre @ e @ rest) < 2 ^ 63 \<longrightarrow>
        unmarshalLoop name field (pre @ e @ rest) (int (length pre)) m =
        unmarshalLoop name field (pre @ e @ rest) (int (length pre + length e)) m')"

end
