(* ===== verification/Raft_Messages.thy ===== *)
theory Raft_Messages
  imports Wire
begin

text \<open>
  The messages of package raftpb (src/raft/raftpb/raft.pb.go): one record per Go struct, its zero
  value, and its \<^verbatim>\<open>Size\<close>, \<^verbatim>\<open>MarshalToSizedBuffer\<close>, \<^verbatim>\<open>Marshal\<close>, \<^verbatim>\<open>MarshalTo\<close> and \<^verbatim>\<open>Unmarshal\<close>, written
  over the steps of theory Wire in the order of the generated code. A receiver that may be nil
  is an option; \<open>X_field\<close> is the \<^verbatim>\<open>switch fieldNum\<close> of \<open>X\<close>'s \<^verbatim>\<open>Unmarshal\<close>.
\<close>

section \<open>Enumerations\<close>

text \<open>\<^verbatim>\<open>AppendEntriesStatus\<close> is an \<^verbatim>\<open>int32\<close> with four named values.\<close>

definition Success :: int32 where "Success = 0"
definition OldTerm :: int32 where "OldTerm = 1"
definition NotContain :: int32 where "NotContain = 2"
definition OldSnapshot :: int32 where "OldSnapshot = 3"

section \<open>Messages\<close>

subsection \<open>Args\<close>

record Args =
  Args_Term :: uint64
  Args_Leader :: uint64

definition Args_zero :: Args where
  "Args_zero = \<lparr>Args_Term = 0, Args_Leader = 0\<rparr>"

definition Args_Size :: "Args option \<Rightarrow> nat" where
  "Args_Size p =
     (case p of None \<Rightarrow> 0 | Some m \<Rightarrow>
        (if Args_Term m \<noteq> 0 then 1 + sov (Args_Term m) else 0)
        + (if Args_Leader m \<noteq> 0 then 1 + sov (Args_Leader m) else 0))"

definition Args_MarshalToSizedBuffer :: "Args option \<Rightarrow> byte list \<Rightarrow> (byte list \<times> int) go" where
  "Args_MarshalToSizedBuffer p dAtA =
     go_bind (deref p) (\<lambda>m. sizedBuffer
         [whenw (Args_Leader m \<noteq> 0) [putVarint (Args_Leader m), putByte 0x10],
          whenw (Args_Term m \<noteq> 0) [putVarint (Args_Term m), putByte 0x8]] dAtA)"

definition Args_Marshal :: "Args option \<Rightarrow> byte list go" where
  "Args_Marshal p = marshalVia (Args_Size p) (Args_MarshalToSizedBuffer p)"

definition Args_MarshalTo :: "Args option \<Rightarrow> byte list \<Rightarrow> (byte list \<times> int) go" where
  "Args_MarshalTo p dAtA = marshalToVia (Args_Size p) (Args_MarshalToSizedBuffer p) dAtA"

definition Args_field :: "Args handler" where
  "Args_field fieldNum wireType dAtA iNdEx m =
     (if fieldNum = 1 then Some (varintCase wireType ''Term'' dAtA iNdEx (\<lambda>v m. m\<lparr>Args_Term := v\<rparr>) m)
      else if fieldNum = 2 then Some (varintCase wireType ''Leader'' dAtA iNdEx (\<lambda>v m. m\<lparr>Args_Leader := v\<rparr>) m)
      else None)"

definition Args_Unmarshal :: "Args \<Rightarrow> byte list \<Rightarrow> Args \<times> pb_error option" where
  "Args_Unmarshal m dAtA = unmarshalVia ''Args'' Args_field m dAtA"

subsection \<open>Entry\<close>

record Entry =
  Entry_Term :: uint64
  Entry_Index :: uint64
  Entry_Data :: bytes

definition Entry_zero :: Entry where
  "Entry_zero = \<lparr>Entry_Term = 0, Entry_Index = 0, Entry_Data = None\<rparr>"

definition Entry_Size :: "Entry option \<Rightarrow> nat" where
  "Entry_Size p =
     (case p of None \<Rightarrow> 0 | Some m \<Rightarrow>
        (if Entry_Term m \<noteq> 0 then 1 + sov (Entry_Term m) else 0)
        + (if Entry_Index m \<noteq> 0 then 1 + sov (Entry_Index m) else 0)
        + (let l = blen (Entry_Data m) in if 0 < l then 1 + l + sov (of_nat l) else 0))"

definition Entry_MarshalToSizedBuffer :: "Entry option \<Rightarrow> byte list \<Rightarrow> (byte list \<times> int) go" where
  "Entry_MarshalToSizedBuffer p dAtA =
     go_bind (deref p) (\<lambda>m. sizedBuffer
         [whenw (0 < blen (Entry_Data m)) [putBytes (bcontent (Entry_Data m)), putByte 0x1a],
          whenw (Entry_Index m \<noteq> 0) [putVarint (Entry_Index m), putByte 0x10],
          whenw (Entry_Term m \<noteq> 0) [putVarint (Entry_Term m), putByte 0x8]] dAtA)"

definition Entry_Marshal :: "Entry option \<Rightarrow> byte list go" where
  "Entry_Marshal p = marshalVia (Entry_Size p) (Entry_MarshalToSizedBuffer p)"

definition Entry_MarshalTo :: "Entry option \<Rightarrow> byte list \<Rightarrow> (byte list \<times> int) go" where
  "Entry_MarshalTo p dAtA = marshalToVia (Entry_Size p) (Entry_MarshalToSizedBuffer p) dAtA"

definition Entry_field :: "Entry handler" where
  "Entry_field fieldNum wireType dAtA iNdEx m =
     (if fieldNum = 1 then Some (varintCase wireType ''Term'' dAtA iNdEx (\<lambda>v m. m\<lparr>Entry_Term := v\<rparr>) m)
      else if fieldNum = 2 then Some (varintCase wireType ''Index'' dAtA iNdEx (\<lambda>v m. m\<lparr>Entry_Index := v\<rparr>) m)
      else if fieldNum = 3 then Some (bytesCase wireType ''Data'' dAtA iNdEx (\<lambda>bs m. m\<lparr>Entry_Data := Some bs\<rparr>) m)
      else None)"

definition Entry_Unmarshal :: "Entry \<Rightarrow> byte list \<Rightarrow> Entry \<times> pb_error option" where
  "Entry_Unmarshal m dAtA = unmarshalVia ''Entry'' Entry_field m dAtA"

subsection \<open>AppendEntriesArgs\<close>

record AppendEntriesArgs =
  AEArgs_Args :: "Args option"
  AEArgs_Entries :: "Entry option list"
  CommitTerm :: uint64
  LeaderCommit :: uint64
  PrevLogIndex :: uint64
  PrevLogTerm :: uint64

definition AppendEntriesArgs_zero :: AppendEntriesArgs where
  "AppendEntriesArgs_zero = \<lparr>AEArgs_Args = None, AEArgs_Entries = [], CommitTerm = 0, LeaderCommit = 0, PrevLogIndex = 0, PrevLogTerm = 0\<rparr>"

definition AppendEntriesArgs_Size :: "AppendEntriesArgs option \<Rightarrow> nat" where
  "AppendEntriesArgs_Size p =
     (case p of None \<Rightarrow> 0 | Some m \<Rightarrow>
        (if AEArgs_Args m \<noteq> None then let l = Args_Size (AEArgs_Args m) in 1 + l + sov (of_nat l) else 0)
        + (\<Sum>e\<leftarrow>AEArgs_Entries m. let l = Entry_Size e in 1 + l + sov (of_nat l))
        + (if CommitTerm m \<noteq> 0 then 1 + sov (CommitTerm m) else 0)
        + (if LeaderCommit m \<noteq> 0 then 1 + sov (LeaderCommit m) else 0)
        + (if PrevLogIndex m \<noteq> 0 then 1 + sov (PrevLogIndex m) else 0)
        + (if PrevLogTerm m \<noteq> 0 then 1 + sov (PrevLogTerm m) else 0))"

definition AppendEntriesArgs_MarshalToSizedBuffer :: "AppendEntriesArgs option \<Rightarrow> byte list \<Rightarrow> (byte list \<times> int) go" where
  "AppendEntriesArgs_MarshalToSizedBuffer p dAtA =
     go_bind (deref p) (\<lambda>m. sizedBuffer
         [whenw (PrevLogTerm m \<noteq> 0) [putVarint (PrevLogTerm m), putByte 0x38],
          whenw (PrevLogIndex m \<noteq> 0) [putVarint (PrevLogIndex m), putByte 0x30],
          whenw (LeaderCommit m \<noteq> 0) [putVarint (LeaderCommit m), putByte 0x20],
          whenw (CommitTerm m \<noteq> 0) [putVarint (CommitTerm m), putByte 0x18],
          whenw (0 < length (AEArgs_Entries m))
            (map (\<lambda>e. runw [putMsg (Entry_MarshalToSizedBuffer e), putByte 0x12]) (rev (AEArgs_Entries m))),
          whenw (AEArgs_Args m \<noteq> None) [putMsg (Args_MarshalToSizedBuffer (AEArgs_Args m)), putByte 0xa]] dAtA)"

definition AppendEntriesArgs_Marshal :: "AppendEntriesArgs option \<Rightarrow> byte list go" where
  "AppendEntriesArgs_Marshal p = marshalVia (AppendEntriesArgs_Size p) (AppendEntriesArgs_MarshalToSizedBuffer p)"

definition AppendEntriesArgs_MarshalTo :: "AppendEntriesArgs option \<Rightarrow> byte list \<Rightarrow> (byte list \<times> int) go" where
  "AppendEntriesArgs_MarshalTo p dAtA = marshalToVia (AppendEntriesArgs_Size p) (AppendEntriesArgs_MarshalToSizedBuffer p) dAtA"

definition AppendEntriesArgs_field :: "AppendEntriesArgs handler" where
  "AppendEntriesArgs_field fieldNum wireType dAtA iNdEx m =
     (if fieldNum = 1 then Some (msgCase wireType ''Args'' dAtA iNdEx (\<lambda>bs m.
              case Args_Unmarshal (case AEArgs_Args m of None \<Rightarrow> Args_zero | Some x \<Rightarrow> x) bs of
                (x, err) \<Rightarrow> (m\<lparr>AEArgs_Args := Some x\<rparr>, err)) m)
      else if fieldNum = 2 then Some (msgCase wireType ''Entries'' dAtA iNdEx (\<lambda>bs m.
              case Entry_Unmarshal Entry_zero bs of
                (x, err) \<Rightarrow> (m\<lparr>AEArgs_Entries := AEArgs_Entries m @ [Some x]\<rparr>, err)) m)
      else if fieldNum = 3 then Some (varintCase wireType ''CommitTerm'' dAtA iNdEx (\<lambda>v m. m\<lparr>CommitTerm := v\<rparr>) m)
      else if fieldNum = 4 then Some (varintCase wireType ''LeaderCommit'' dAtA iNdEx (\<lambda>v m. m\<lparr>LeaderCommit := v\<rparr>) m)
      else if fieldNum = 6 then Some (varintCase wireType ''PrevLogIndex'' dAtA iNdEx (\<lambda>v m. m\<lparr>PrevLogIndex := v\<rparr>) m)
      else if fieldNum = 7 then Some (varintCase wireType ''PrevLogTerm'' dAtA iNdEx (\<lambda>v m. m\<lparr>PrevLogTerm := v\<rparr>) m)
      else None)"

definition AppendEntriesArgs_Unmarshal :: "AppendEntriesArgs \<Rightarrow> byte list \<Rightarrow> AppendEntriesArgs \<times> pb_error option" where
  "AppendEntriesArgs_Unmarshal m dAtA = unmarshalVia ''AppendEntriesArgs'' AppendEntriesArgs_field m dAtA"

subsection \<open>AppendEntriesReply\<close>

record AppendEntriesReply =
  AEReply_Term :: uint64
  AEReply_Status :: int32
  XIndex :: uint64
  XLen :: uint64
  XTerm :: uint64

definition AppendEntriesReply_zero :: AppendEntriesReply where
  "AppendEntriesReply_zero = \<lparr>AEReply_Term = 0, AEReply_Status = 0, XIndex = 0, XLen = 0, XTerm = 0\<rparr>"

definition AppendEntriesReply_Size :: "AppendEntriesReply option \<Rightarrow> nat" where
  "AppendEntriesReply_Size p =
     (case p of None \<Rightarrow> 0 | Some m \<Rightarrow>
        (if AEReply_Term m \<noteq> 0 then 1 + sov (AEReply_Term m) else 0)
        + (if AEReply_Status m \<noteq> 0 then 1 + sov (scast (AEReply_Status m)) else 0)
        + (if XIndex m \<noteq> 0 then 1 + sov (XIndex m) else 0)
        + (if XLen m \<noteq> 0 then 1 + sov (XLen m) else 0)
        + (if XTerm m \<noteq> 0 then 1 + sov (XTerm m) else 0))"

definition AppendEntriesReply_MarshalToSizedBuffer :: "AppendEntriesReply option \<Rightarrow> byte list \<Rightarrow> (byte list \<times> int) go" where
  "AppendEntriesReply_MarshalToSizedBuffer p dAtA =
     go_bind (deref p) (\<lambda>m. sizedBuffer
         [whenw (XTerm m \<noteq> 0) [putVarint (XTerm m), putByte 0x28],
          whenw (XLen m \<noteq> 0) [putVarint (XLen m), putByte 0x20],
          whenw (XIndex m \<noteq> 0) [putVarint (XIndex m), putByte 0x18],
          whenw (AEReply_Status m \<noteq> 0) [putVarint (scast (AEReply_Status m)), putByte 0x10],
          whenw (AEReply_Term m \<noteq> 0) [putVarint (AEReply_Term m), putByte 0x8]] dAtA)"

definition AppendEntriesReply_Marshal :: "AppendEntriesReply option \<Rightarrow> byte list go" where
  "AppendEntriesReply_Marshal p = marshalVia (AppendEntriesReply_Size p) (AppendEntriesReply_MarshalToSizedBuffer p)"

definition AppendEntriesReply_MarshalTo :: "AppendEntriesReply option \<Rightarrow> byte list \<Rightarrow> (byte list \<times> int) go" where
  "AppendEntriesReply_MarshalTo p dAtA = marshalToVia (AppendEntriesReply_Size p) (AppendEntriesReply_MarshalToSizedBuffer p) dAtA"

definition AppendEntriesReply_field :: "AppendEntriesReply handler" where
  "AppendEntriesReply_field fieldNum wireType dAtA iNdEx m =
     (if fieldNum = 1 then Some (varintCase wireType ''Term'' dAtA iNdEx (\<lambda>v m. m\<lparr>AEReply_Term := v\<rparr>) m)
      else if fieldNum = 2 then Some (varintCase wireType ''Status'' dAtA iNdEx (\<lambda>v m. m\<lparr>AEReply_Status := v\<rparr>) m)
      else if fieldNum = 3 then Some (varintCase wireType ''XIndex'' dAtA iNdEx (\<lambda>v m. m\<lparr>XIndex := v\<rparr>) m)
      else if fieldNum = 4 then Some (varintCase wireType ''XLen'' dAtA iNdEx (\<lambda>v m. m\<lparr>XLen := v\<rparr>) m)
      else if fieldNum = 5 then Some (varintCase wireType ''XTerm'' dAtA iNdEx (\<lambda>v m. m\<lparr>XTerm := v\<rparr>) m)
      else None)"

definition AppendEntriesReply_Unmarshal :: "AppendEntriesReply \<Rightarrow> byte list \<Rightarrow> AppendEntriesReply \<times> pb_error option" where
  "AppendEntriesReply_Unmarshal m dAtA = unmarshalVia ''AppendEntriesReply'' AppendEntriesReply_field m dAtA"

subsection \<open>SnapshotMetaData\<close>

record SnapshotMetaData =
  Meta_Index :: uint64
  Meta_Term :: uint64

definition SnapshotMetaData_zero :: SnapshotMetaData where
  "SnapshotMetaData_zero = \<lparr>Meta_Index = 0, Meta_Term = 0\<rparr>"

definition SnapshotMetaData_Size :: "SnapshotMetaData option \<Rightarrow> nat" where
  "SnapshotMetaData_Size p =
     (case p of None \<Rightarrow> 0 | Some m \<Rightarrow>
        (if Meta_Index m \<noteq> 0 then 1 + sov (Meta_Index m) else 0)
        + (if Meta_Term m \<noteq> 0 then 1 + sov (Meta_Term m) else 0))"

definition SnapshotMetaData_MarshalToSizedBuffer :: "SnapshotMetaData option \<Rightarrow> byte list \<Rightarrow> (byte list \<times> int) go" where
  "SnapshotMetaData_MarshalToSizedBuffer p dAtA =
     go_bind (deref p) (\<lambda>m. sizedBuffer
         [whenw (Meta_Term m \<noteq> 0) [putVarint (Meta_Term m), putByte 0x10],
          whenw (Meta_Index m \<noteq> 0) [putVarint (Meta_Index m), putByte 0x8]] dAtA)"

definition SnapshotMetaData_Marshal :: "SnapshotMetaData option \<Rightarrow> byte list go" where
  "SnapshotMetaData_Marshal p = marshalVia (SnapshotMetaData_Size p) (SnapshotMetaData_MarshalToSizedBuffer p)"

definition SnapshotMetaData_MarshalTo :: "SnapshotMetaData option \<Rightarrow> byte list \<Rightarrow> (byte list \<times> int) go" where
  "SnapshotMetaData_MarshalTo p dAtA = marshalToVia (SnapshotMetaData_Size p) (SnapshotMetaData_MarshalToSizedBuffer p) dAtA"

definition SnapshotMetaData_field :: "SnapshotMetaData handler" where
  "SnapshotMetaData_field fieldNum wireType dAtA iNdEx m =
     (if fieldNum = 1 then Some (varintCase wireType ''Index'' dAtA iNdEx (\<lambda>v m. m\<lparr>Meta_Index := v\<rparr>) m)
      else if fieldNum = 2 then Some (varintCase wireType ''Term'' dAtA iNdEx (\<lambda>v m. m\<lparr>Meta_Term := v\<rparr>) m)
      else None)"

definition SnapshotMetaData_Unmarshal :: "SnapshotMetaData \<Rightarrow> byte list \<Rightarrow> SnapshotMetaData \<times> pb_error option" where
  "SnapshotMetaData_Unmarshal m dAtA = unmarshalVia ''SnapshotMetaData'' SnapshotMetaData_field m dAtA"

subsection \<open>Snapshot\<close>

record Snapshot =
  Snapshot_Metadata :: "SnapshotMetaData option"
  Snapshot_Data :: bytes

definition Snapshot_zero :: Snapshot where
  "Snapshot_zero = \<lparr>Snapshot_Metadata = None, Snapshot_Data = None\<rparr>"

definition Snapshot_Size :: "Snapshot option \<Rightarrow> nat" where
  "Snapshot_Size p =
     (case p of None \<Rightarrow> 0 | Some m \<Rightarrow>
        (if Snapshot_Metadata m \<noteq> None then let l = SnapshotMetaData_Size (Snapshot_Metadata m) in 1 + l + sov (of_nat l) else 0)
        + (let l = blen (Snapshot_Data m) in if 0 < l then 1 + l + sov (of_nat l) else 0))"

definition Snapshot_MarshalToSizedBuffer :: "Snapshot option \<Rightarrow> byte list \<Rightarrow> (byte list \<times> int) go" where
  "Snapshot_MarshalToSizedBuffer p dAtA =
     go_bind (deref p) (\<lambda>m. sizedBuffer
         [whenw (0 < blen (Snapshot_Data m)) [putBytes (bcontent (Snapshot_Data m)), putByte 0x12],
          whenw (Snapshot_Metadata m \<noteq> None) [putMsg (SnapshotMetaData_MarshalToSizedBuffer (Snapshot_Metadata m)), putByte 0xa]] dAtA)"

definition Snapshot_Marshal :: "Snapshot option \<Rightarrow> byte list go" where
  "Snapshot_Marshal p = marshalVia (Snapshot_Size p) (Snapshot_MarshalToSizedBuffer p)"

definition Snapshot_MarshalTo :: "Snapshot option \<Rightarrow> byte list \<Rightarrow> (byte list \<times> int) go" where
  "Snapshot_MarshalTo p dAtA = marshalToVia (Snapshot_Size p) (Snapshot_MarshalToSizedBuffer p) dAtA"

definition Snapshot_field :: "Snapshot handler" where
  "Snapshot_field fieldNum wireType dAtA iNdEx m =
     (if fieldNum = 1 then Some (msgCase wireType ''Metadata'' dAtA iNdEx (\<lambda>bs m.
              case SnapshotMetaData_Unmarshal (case Snapshot_Metadata m of None \<Rightarrow> SnapshotMetaData_zero | Some x \<Rightarrow> x) bs of
                (x, err) \<Rightarrow> (m\<lparr>Snapshot_Metadata := Some x\<rparr>, err)) m)
      else if fieldNum = 2 then Some (bytesCase wireType ''Data'' dAtA iNdEx (\<lambda>bs m. m\<lparr>Snapshot_Data := Some bs\<rparr>) m)
      else None)"

definition Snapshot_Unmarshal :: "Snapshot \<Rightarrow> byte list \<Rightarrow> Snapshot \<times> pb_error option" where
  "Snapshot_Unmarshal m dAtA = unmarshalVia ''Snapshot'' Snapshot_field m dAtA"

subsection \<open>InstallSnapshotArgs\<close>

record InstallSnapshotArgs =
  ISArgs_Args :: "Args option"
  ISArgs_Snapshot :: "Snapshot option"

definition InstallSnapshotArgs_zero :: InstallSnapshotArgs where
  "InstallSnapshotArgs_zero = \<lparr>ISArgs_Args = None, ISArgs_Snapshot = None\<rparr>"

definition InstallSnapshotArgs_Size :: "InstallSnapshotArgs option \<Rightarrow> nat" where
  "InstallSnapshotArgs_Size p =
     (case p of None \<Rightarrow> 0 | Some m \<Rightarrow>
        (if ISArgs_Args m \<noteq> None then let l = Args_Size (ISArgs_Args m) in 1 + l + sov (of_nat l) else 0)
        + (if ISArgs_Snapshot m \<noteq> None then let l = Snapshot_Size (ISArgs_Snapshot m) in 1 + l + sov (of_nat l) else 0))"

definition InstallSnapshotArgs_MarshalToSizedBuffer :: "InstallSnapshotArgs option \<Rightarrow> byte list \<Rightarrow> (byte list \<times> int) go" where
  "InstallSnapshotArgs_MarshalToSizedBuffer p dAtA =
     go_bind (deref p) (\<lambda>m. sizedBuffer
         [whenw (ISArgs_Snapshot m \<noteq> None) [putMsg (Snapshot_MarshalToSizedBuffer (ISArgs_Snapshot m)), putByte 0x12],
          whenw (ISArgs_Args m \<noteq> None) [putMsg (Args_MarshalToSizedBuffer (ISArgs_Args m)), putByte 0xa]] dAtA)"

definition InstallSnapshotArgs_Marshal :: "InstallSnapshotArgs option \<Rightarrow> byte list go" where
  "InstallSnapshotArgs_Marshal p = marshalVia (InstallSnapshotArgs_Size p) (InstallSnapshotArgs_MarshalToSizedBuffer p)"

definition InstallSnapshotArgs_MarshalTo :: "InstallSnapshotArgs option \<Rightarrow> byte list \<Rightarrow> (byte list \<times> int) go" where
  "InstallSnapshotArgs_MarshalTo p dAtA = marshalToVia (InstallSnapshotArgs_Size p) (InstallSnapshotArgs_MarshalToSizedBuffer p) dAtA"

definition InstallSnapshotArgs_field :: "InstallSnapshotArgs handler" where
  "InstallSnapshotArgs_field fieldNum wireType dAtA iNdEx m =
     (if fieldNum = 1 then Some (msgCase wireType ''Args'' dAtA iNdEx (\<lambda>bs m.
              case Args_Unmarshal (case ISArgs_Args m of None \<Rightarrow> Args_zero | Some x \<Rightarrow> x) bs of
                (x, err) \<Rightarrow> (m\<lparr>ISArgs_Args := Some x\<rparr>, err)) m)
      else if fieldNum = 2 then Some (msgCase wireType ''Snapshot'' dAtA iNdEx (\<lambda>bs m.
              case Snapshot_Unmarshal (case ISArgs_Snapshot m of None \<Rightarrow> Snapshot_zero | Some x \<Rightarrow> x) bs of
                (x, err) \<Rightarrow> (m\<lparr>ISArgs_Snapshot := Some x\<rparr>, err)) m)
      else None)"

definition InstallSnapshotArgs_Unmarshal :: "InstallSnapshotArgs \<Rightarrow> byte list \<Rightarrow> InstallSnapshotArgs \<times> pb_error option" where
  "InstallSnapshotArgs_Unmarshal m dAtA = unmarshalVia ''InstallSnapshotArgs'' InstallSnapshotArgs_field m dAtA"

subsection \<open>InstallSnapshotReply\<close>

record InstallSnapshotReply =
  ISReply_Term :: uint64

definition InstallSnapshotReply_zero :: InstallSnapshotReply where
  "InstallSnapshotReply_zero = \<lparr>ISReply_Term = 0\<rparr>"

definition InstallSnapshotReply_Size :: "InstallSnapshotReply option \<Rightarrow> nat" where
  "InstallSnapshotReply_Size p =
     (case p of None \<Rightarrow> 0 | Some m \<Rightarrow>
        (if ISReply_Term m \<noteq> 0 then 1 + sov (ISReply_Term m) else 0))"

definition InstallSnapshotReply_MarshalToSizedBuffer :: "InstallSnapshotReply option \<Rightarrow> byte list \<Rightarrow> (byte list \<times> int) go" where
  "InstallSnapshotReply_MarshalToSizedBuffer p dAtA =
     go_bind (deref p) (\<lambda>m. sizedBuffer
         [whenw (ISReply_Term m \<noteq> 0) [putVarint (ISReply_Term m), putByte 0x8]] dAtA)"

definition InstallSnapshotReply_Marshal :: "InstallSnapshotReply option \<Rightarrow> byte list go" where
  "InstallSnapshotReply_Marshal p = marshalVia (InstallSnapshotReply_Size p) (InstallSnapshotReply_MarshalToSizedBuffer p)"

definition InstallSnapshotReply_MarshalTo :: "InstallSnapshotReply option \<Rightarrow> byte list \<Rightarrow> (byte list \<times> int) go" where
  "InstallSnapshotReply_MarshalTo p dAtA = marshalToVia (InstallSnapshotReply_Size p) (InstallSnapshotReply_MarshalToSizedBuffer p) dAtA"

definition InstallSnapshotReply_field :: "InstallSnapshotReply handler" where
  "InstallSnapshotReply_field fieldNum wireType dAtA iNdEx m =
     (if fieldNum = 1 then Some (varintCase wireType ''Term'' dAtA iNdEx (\<lambda>v m. m\<lparr>ISReply_Term := v\<rparr>) m)
      else None)"

definition InstallSnapshotReply_Unmarshal :: "InstallSnapshotReply \<Rightarrow> byte list \<Rightarrow> InstallSnapshotReply \<times> pb_error option" where
  "InstallSnapshotReply_Unmarshal m dAtA = unmarshalVia ''InstallSnapshotReply'' InstallSnapshotReply_field m dAtA"

subsection \<open>RequestVoteArgs\<close>

record RequestVoteArgs =
  RVArgs_Args :: "Args option"
  CandidateID :: uint64
  LastLogIndex :: uint64
  LastLogTerm :: uint64

definition RequestVoteArgs_zero :: RequestVoteArgs where
  "RequestVoteArgs_zero = \<lparr>RVArgs_Args = None, CandidateID = 0, LastLogIndex = 0, LastLogTerm = 0\<rparr>"

definition RequestVoteArgs_Size :: "RequestVoteArgs option \<Rightarrow> nat" where
  "RequestVoteArgs_Size p =
     (case p of None \<Rightarrow> 0 | Some m \<Rightarrow>
        (if RVArgs_Args m \<noteq> None then let l = Args_Size (RVArgs_Args m) in 1 + l + sov (of_nat l) else 0)
        + (if CandidateID m \<noteq> 0 then 1 + sov (CandidateID m) else 0)
        + (if LastLogIndex m \<noteq> 0 then 1 + sov (LastLogIndex m) else 0)
        + (if LastLogTerm m \<noteq> 0 then 1 + sov (LastLogTerm m) else 0))"

definition RequestVoteArgs_MarshalToSizedBuffer :: "RequestVoteArgs option \<Rightarrow> byte list \<Rightarrow> (byte list \<times> int) go" where
  "RequestVoteArgs_MarshalToSizedBuffer p dAtA =
     go_bind (deref p) (\<lambda>m. sizedBuffer
         [whenw (LastLogTerm m \<noteq> 0) [putVarint (LastLogTerm m), putByte 0x20],
          whenw (LastLogIndex m \<noteq> 0) [putVarint (LastLogIndex m), putByte 0x18],
          whenw (CandidateID m \<noteq> 0) [putVarint (CandidateID m), putByte 0x10],
          whenw (RVArgs_Args m \<noteq> None) [putMsg (Args_MarshalToSizedBuffer (RVArgs_Args m)), putByte 0xa]] dAtA)"

definition RequestVoteArgs_Marshal :: "RequestVoteArgs option \<Rightarrow> byte list go" where
  "RequestVoteArgs_Marshal p = marshalVia (RequestVoteArgs_Size p) (RequestVoteArgs_MarshalToSizedBuffer p)"

definition RequestVoteArgs_MarshalTo :: "RequestVoteArgs option \<Rightarrow> byte list \<Rightarrow> (byte list \<times> int) go" where
  "RequestVoteArgs_MarshalTo p dAtA = marshalToVia (RequestVoteArgs_Size p) (RequestVoteArgs_MarshalToSizedBuffer p) dAtA"

definition RequestVoteArgs_field :: "RequestVoteArgs handler" where
  "RequestVoteArgs_field fieldNum wireType dAtA iNdEx m =
     (if fieldNum = 1 then Some (msgCase wireType ''Args'' dAtA iNdEx (\<lambda>bs m.
              case Args_Unmarshal (case RVArgs_Args m of None \<Rightarrow> Args_zero | Some x \<Rightarrow> x) bs of
                (x, err) \<Rightarrow> (m\<lparr>RVArgs_Args := Some x\<rparr>, err)) m)
      else if fieldNum = 2 then Some (varintCase wireType ''CandidateID'' dAtA iNdEx (\<lambda>v m. m\<lparr>CandidateID := v\<rparr>) m)
      else if fieldNum = 3 then Some (varintCase wireType ''LastLogIndex'' dAtA iNdEx (\<lambda>v m. m\<lparr>LastLogIndex := v\<rparr>) m)
      else if fieldNum = 4 then Some (varintCase wireType ''LastLogTerm'' dAtA iNdEx (\<lambda>v m. m\<lparr>LastLogTerm := v\<rparr>) m)
      else None)"

definition RequestVoteArgs_Unmarshal :: "RequestVoteArgs \<Rightarrow> byte list \<Rightarrow> RequestVoteArgs \<times> pb_error option" where
  "RequestVoteArgs_Unmarshal m dAtA = unmarshalVia ''RequestVoteArgs'' RequestVoteArgs_field m dAtA"

subsection \<open>RequestVoteReply\<close>

record RequestVoteReply =
  RVReply_Term :: uint64
  VoteGranted :: bool

definition RequestVoteReply_zero :: RequestVoteReply where
  "RequestVoteReply_zero = \<lparr>RVReply_Term = 0, VoteGranted = False\<rparr>"

definition RequestVoteReply_Size :: "RequestVoteReply option \<Rightarrow> nat" where
  "RequestVoteReply_Size p =
     (case p of None \<Rightarrow> 0 | Some m \<Rightarrow>
        (if RVReply_Term m \<noteq> 0 then 1 + sov (RVReply_Term m) else 0)
        + (if VoteGranted m then 2 else 0))"

definition RequestVoteReply_MarshalToSizedBuffer :: "RequestVoteReply option \<Rightarrow> byte list \<Rightarrow> (byte list \<times> int) go" where
  "RequestVoteReply_MarshalToSizedBuffer p dAtA =
     go_bind (deref p) (\<lambda>m. sizedBuffer
         [whenw (VoteGranted m) [putByte (if VoteGranted m then 1 else 0), putByte 0x10],
          whenw (RVReply_Term m \<noteq> 0) [putVarint (RVReply_Term m), putByte 0x8]] dAtA)"

definition RequestVoteReply_Marshal :: "RequestVoteReply option \<Rightarrow> byte list go" where
  "RequestVoteReply_Marshal p = marshalVia (RequestVoteReply_Size p) (RequestVoteReply_MarshalToSizedBuffer p)"

definition RequestVoteReply_MarshalTo :: "RequestVoteReply option \<Rightarrow> byte list \<Rightarrow> (byte list \<times> int) go" where
  "RequestVoteReply_MarshalTo p dAtA = marshalToVia (RequestVoteReply_Size p) (RequestVoteReply_MarshalToSizedBuffer p) dAtA"

definition RequestVoteReply_field :: "RequestVoteReply handler" where
  "RequestVoteReply_field fieldNum wireType dAtA iNdEx m =
     (if fieldNum = 1 then Some (varintCase wireType ''Term'' dAtA iNdEx (\<lambda>v m. m\<lparr>RVReply_Term := v\<rparr>) m)
      else if fieldNum = 2 then Some (boolCase wireType ''VoteGranted'' dAtA iNdEx (\<lambda>v m. m\<lparr>VoteGranted := v\<rparr>) m)
      else None)"

definition RequestVoteReply_Unmarshal :: "RequestVoteReply \<Rightarrow> byte list \<Rightarrow> RequestVoteReply \<times> pb_error option" where
  "RequestVoteReply_Unmarshal m dAtA = unmarshalVia ''RequestVoteReply'' RequestVoteReply_field m dAtA"

subsection \<open>HardState\<close>

record HardState =
  HardState_Term :: uint64
  VotedFor :: uint64
  Commit :: uint64

definition HardState_zero :: HardState where
  "HardState_zero = \<lparr>HardState_Term = 0, VotedFor = 0, Commit = 0\<rparr>"

definition HardState_Size :: "HardState option \<Rightarrow> nat" where
  "HardState_Size p =
     (case p of None \<Rightarrow> 0 | Some m \<Rightarrow>
        (if HardState_Term m \<noteq> 0 then 1 + sov (HardState_Term m) else 0)
        + (if VotedFor m \<noteq> 0 then 1 + sov (VotedFor m) else 0)
        + (if Commit m \<noteq> 0 then 1 + sov (Commit m) else 0))"

definition HardState_MarshalToSizedBuffer :: "HardState option \<Rightarrow> byte list \<Rightarrow> (byte list \<times> int) go" where
  "HardState_MarshalToSizedBuffer p dAtA =
     go_bind (deref p) (\<lambda>m. sizedBuffer
         [whenw (Commit m \<noteq> 0) [putVarint (Commit m), putByte 0x18],
          whenw (VotedFor m \<noteq> 0) [putVarint (VotedFor m), putByte 0x10],
          whenw (HardState_Term m \<noteq> 0) [putVarint (HardState_Term m), putByte 0x8]] dAtA)"

definition HardState_Marshal :: "HardState option \<Rightarrow> byte list go" where
  "HardState_Marshal p = marshalVia (HardState_Size p) (HardState_MarshalToSizedBuffer p)"

definition HardState_MarshalTo :: "HardState option \<Rightarrow> byte list \<Rightarrow> (byte list \<times> int) go" where
  "HardState_MarshalTo p dAtA = marshalToVia (HardState_Size p) (HardState_MarshalToSizedBuffer p) dAtA"

definition HardState_field :: "HardState handler" where
  "HardState_field fieldNum wireType dAtA iNdEx m =
     (if fieldNum = 1 then Some (varintCase wireType ''Term'' dAtA iNdEx (\<lambda>v m. m\<lparr>HardState_Term := v\<rparr>) m)
      else if fieldNum = 2 then Some (varintCase wireType ''VotedFor'' dAtA iNdEx (\<lambda>v m. m\<lparr>VotedFor := v\<rparr>) m)
      else if fieldNum = 3 then Some (varintCase wireType ''Commit'' dAtA iNdEx (\<lambda>v m. m\<lparr>Commit := v\<rparr>) m)
      else None)"

definition HardState_Unmarshal :: "HardState \<Rightarrow> byte list \<Rightarrow> HardState \<times> pb_error option" where
  "HardState_Unmarshal m dAtA = unmarshalVia ''HardState'' HardState_field m dAtA"

subsection \<open>Log\<close>

record Log =
  Log_Entries :: "Entry option list"
  IncludedIndex :: uint64
  IncludedTerm :: uint64

definition Log_zero :: Log where
  "Log_zero = \<lparr>Log_Entries = [], IncludedIndex = 0, IncludedTerm = 0\<rparr>"

definition Log_Size :: "Log option \<Rightarrow> nat" where
  "Log_Size p =
     (case p of None \<Rightarrow> 0 | Some m \<Rightarrow>
        (\<Sum>e\<leftarrow>Log_Entries m. let l = Entry_Size e in 1 + l + sov (of_nat l))
        + (if IncludedIndex m \<noteq> 0 then 1 + sov (IncludedIndex m) else 0)
        + (if IncludedTerm m \<noteq> 0 then 1 + sov (IncludedTerm m) else 0))"

definition Log_MarshalToSizedBuffer :: "Log option \<Rightarrow> byte list \<Rightarrow> (byte list \<times> int) go" where
  "Log_MarshalToSizedBuffer p dAtA =
     go_bind (deref p) (\<lambda>m. sizedBuffer
         [whenw (IncludedTerm m \<noteq> 0) [putVarint (IncludedTerm m), putByte 0x18],
          whenw (IncludedIndex m \<noteq> 0) [putVarint (IncludedIndex m), putByte 0x10],
          whenw (0 < length (Log_Entries m))
            (map (\<lambda>e. runw [putMsg (Entry_MarshalToSizedBuffer e), putByte 0xa]) (rev (Log_Entries m)))] dAtA)"

definition Log_Marshal :: "Log option \<Rightarrow> byte list go" where
  "Log_Marshal p = marshalVia (Log_Size p) (Log_MarshalToSizedBuffer p)"

definition Log_MarshalTo :: "Log option \<Rightarrow> byte list \<Rightarrow> (byte list \<times> int) go" where
  "Log_MarshalTo p dAtA = marshalToVia (Log_Size p) (Log_MarshalToSizedBuffer p) dAtA"

definition Log_field :: "Log handler" where
  "Log_field fieldNum wireType dAtA iNdEx m =
     (if fieldNum = 1 then Some (msgCase wireType ''Entries'' dAtA iNdEx (\<lambda>bs m.
              case Entry_Unmarshal Entry_zero bs of
                (x, err) \<Rightarrow> (m\<lparr>Log_Entries := Log_Entries m @ [Some x]\<rparr>, err)) m)
      else if fieldNum = 2 then Some (varintCase wireType ''IncludedIndex'' dAtA iNdEx (\<lambda>v m. m\<lparr>IncludedIndex := v\<rparr>) m)
      else if fieldNum = 3 then Some (varintCase wireType ''IncludedTerm'' dAtA iNdEx (\<lambda>v m. m\<lparr>IncludedTerm := v\<rparr>) m)
      else None)"

definition Log_Unmarshal :: "Log \<Rightarrow> byte list \<Rightarrow> Log \<times> pb_error option" where
  "Log_Unmarshal m dAtA = unmarshalVia ''Log'' Log_field m dAtA"

subsection \<open>RaftState\<close>

record RaftState =
  RaftState_HardState :: "HardState option"
  RaftState_Log :: "Log option"

definition RaftState_zero :: RaftState where
  "RaftState_zero = \<lparr>RaftState_HardState = None, RaftState_Log = None\<rparr>"

definition RaftState_Size :: "RaftState option \<Rightarrow> nat" where
  "RaftState_Size p =
     (case p of None \<Rightarrow> 0 | Some m \<Rightarrow>
        (if RaftState_HardState m \<noteq> None then let l = HardState_Size (RaftState_HardState m) in 1 + l + sov (of_nat l) else 0)
        + (if RaftState_Log m \<noteq> None then let l = Log_Size (RaftState_Log m) in 1 + l + sov (of_nat l) else 0))"

definition RaftState_MarshalToSizedBuffer :: "RaftState option \<Rightarrow> byte list \<Rightarrow> (byte list \<times> int) go" where
  "RaftState_MarshalToSizedBuffer p dAtA =
     go_bind (deref p) (\<lambda>m. sizedBuffer
         [whenw (RaftState_Log m \<noteq> None) [putMsg (Log_MarshalToSizedBuffer (RaftState_Log m)), putByte 0x12],
          whenw (RaftState_HardState m \<noteq> None) [putMsg (HardState_MarshalToSizedBuffer (RaftState_HardState m)), putByte 0xa]] dAtA)"

definition RaftState_Marshal :: "RaftState option \<Rightarrow> byte list go" where
  "RaftState_Marshal p = marshalVia (RaftState_Size p) (RaftState_MarshalToSizedBuffer p)"

definition RaftState_MarshalTo :: "RaftState option \<Rightarrow> byte list \<Rightarrow> (byte list \<times> int) go" where
  "RaftState_MarshalTo p dAtA = marshalToVia (RaftState_Size p) (RaftState_MarshalToSizedBuffer p) dAtA"

definition RaftState_field :: "RaftState handler" where
  "RaftState_field fieldNum wireType dAtA iNdEx m =
     (if fieldNum = 1 then Some (msgCase wireType ''HardState'' dAtA iNdEx (\<lambda>bs m.
              case HardState_Unmarshal (case RaftState_HardState m of None \<Rightarrow> HardState_zero | Some x \<Rightarrow> x) bs of
                (x, err) \<Rightarrow> (m\<lparr>RaftState_HardState := Some x\<rparr>, err)) m)
      else if fieldNum = 2 then Some (msgCase wireType ''Log'' dAtA iNdEx (\<lambda>bs m.
              case Log_Unmarshal (case RaftState_Log m of None \<Rightarrow> Log_zero | Some x \<Rightarrow> x) bs of
                (x, err) \<Rightarrow> (m\<lparr>RaftState_Log := Some x\<rparr>, err)) m)
      else None)"

definition RaftState_Unmarshal :: "RaftState \<Rightarrow> byte list \<Rightarrow> RaftState \<times> pb_error option" where
  "RaftState_Unmarshal m dAtA = unmarshalVia ''RaftState'' RaftState_field m dAtA"

end
