(* ===== verification/Raft_Log.thy ===== *)
theory Raft_Log
  imports Raft_Messages
begin

text \<open>
  The replicated log of src/raft/raft_log.go: a snapshot boundary (\<open>IncludedIndex\<close>,
  \<open>IncludedTerm\<close>) and the entries behind it. The operations of \<^verbatim>\<open>raftLog\<close> are functions of the
  \<^verbatim>\<open>pb.Log\<close> it points to; an operation that changes the log returns the new one.

  The abstract log is the finite map \<open>log_view\<close> from log indices (natural numbers) to entries.
  \<open>log_wf\<close> is the representation invariant (no nil entry, consecutive indices behind the
  boundary, no index overflow). Each operation is characterised on the abstract log, and the
  interface the Raft handlers rely on is the locale \<open>replicated_log\<close>.
\<close>

section \<open>Operations\<close>

definition LastIncludedIndex :: "Log \<Rightarrow> uint64" where
  "LastIncludedIndex l = IncludedIndex l"

definition LastIncludedTerm :: "Log \<Rightarrow> uint64" where
  "LastIncludedTerm l = IncludedTerm l"

definition sliceIndex :: "Log \<Rightarrow> uint64 \<Rightarrow> uint64" where
  "sliceIndex l logIndex = logIndex - IncludedIndex l - 1"

definition EntryAt :: "Log \<Rightarrow> uint64 \<Rightarrow> Entry go" where
  "EntryAt l index =
     (if index < 0 then Panic (LogPanic ''BAD LOG INDEX'')
      else if index = 0 then Ok Entry_zero
      else if index = IncludedIndex l
        then Ok \<lparr>Entry_Term = IncludedTerm l, Entry_Index = IncludedIndex l, Entry_Data = None\<rparr>
      else if sliceIndex l index < 0 then Panic (LogPanic ''HAS BEEN TRIMMED'')
      else go_bind (index64 (Log_Entries l) (sliceIndex l index)) deref)"

definition LastEntry :: "Log \<Rightarrow> Entry go" where
  "LastEntry l =
     (if 0 < length (Log_Entries l)
      then go_bind (indexInt (Log_Entries l) (int (length (Log_Entries l)) - 1)) deref
      else Ok \<lparr>Entry_Term = IncludedTerm l, Entry_Index = IncludedIndex l, Entry_Data = None\<rparr>)"

definition Len :: "Log \<Rightarrow> uint64 go" where
  "Len l = go_bind (LastEntry l) (\<lambda>e. Ok (Entry_Index e))"

definition Append :: "Log \<Rightarrow> Entry \<Rightarrow> Log go" where
  "Append l entry =
     go_bind (Len l) (\<lambda>n.
       Ok (if Entry_Index entry = n + 1
           then l\<lparr>Log_Entries := Log_Entries l @ [Some entry]\<rparr> else l))"

definition EntriesAfter :: "Log \<Rightarrow> uint64 \<Rightarrow> Entry option list go" where
  "EntriesAfter l index = sliceFrom (Log_Entries l) (sliceIndex l index)"

definition CompactForSnapshot :: "Log \<Rightarrow> uint64 \<Rightarrow> uint64 \<Rightarrow> Log go" where
  "CompactForSnapshot l index term =
     go_bind (Len l) (\<lambda>n.
     go_bind (if n < index then Ok []
              else sliceFrom (Log_Entries l) (sliceIndex l index + 1)) (\<lambda>es.
       Ok (l\<lparr>Log_Entries := es, IncludedIndex := index, IncludedTerm := term\<rparr>)))"

definition DiscardAfterAnd :: "Log \<Rightarrow> uint64 \<Rightarrow> Log go" where
  "DiscardAfterAnd l index =
     go_bind (sliceTo (Log_Entries l) (sliceIndex l index)) (\<lambda>es. Ok (l\<lparr>Log_Entries := es\<rparr>))"

definition FirstEntryAtTerm :: "Log \<Rightarrow> uint64 \<Rightarrow> Entry option go" where
  "FirstEntryAtTerm l term =
     go_bind (sort_Search (length (Log_Entries l))
                (\<lambda>i. go_bind (deref (Log_Entries l ! i)) (\<lambda>e. Ok (term \<le> Entry_Term e)))) (\<lambda>k.
       if k < length (Log_Entries l)
       then go_bind (deref (Log_Entries l ! k)) (\<lambda>e.
              Ok (if Entry_Term e = term then Log_Entries l ! k else None))
       else Ok None)"

definition LastEntryAtTerm :: "Log \<Rightarrow> uint64 \<Rightarrow> Entry option go" where
  "LastEntryAtTerm l term =
     go_bind (sort_Search (length (Log_Entries l))
                (\<lambda>i. go_bind (deref (Log_Entries l ! i)) (\<lambda>e. Ok (term < Entry_Term e)))) (\<lambda>k.
       if 0 < k \<and> k < length (Log_Entries l)
       then go_bind (deref (Log_Entries l ! (k - 1))) (\<lambda>e.
              Ok (if Entry_Term e = term then Log_Entries l ! k else None))
       else Ok None)"

definition notUpToDate :: "Log \<Rightarrow> uint64 \<Rightarrow> uint64 \<Rightarrow> bool go" where
  "notUpToDate l index term =
     go_bind (LastEntry l) (\<lambda>lastEntry.
       Ok (if Entry_Term lastEntry < term then True
           else if Entry_Term lastEntry = term \<and> Entry_Index lastEntry \<le> index then True
           else False))"

section \<open>The abstract log and the representation invariant\<close>

definition log_base :: "Log \<Rightarrow> nat" where
  "log_base l = unat (IncludedIndex l)"

definition log_last :: "Log \<Rightarrow> nat" where
  "log_last l = log_base l + length (Log_Entries l)"

definition log_view :: "Log \<Rightarrow> nat \<rightharpoonup> Entry" where
  "log_view l n =
     (if log_base l < n \<and> n \<le> log_last l then Log_Entries l ! (n - log_base l - 1) else None)"

definition log_wf :: "Log \<Rightarrow> bool" where
  "log_wf l \<longleftrightarrow>
     log_last l < 2 ^ 64 \<and>
     (\<forall>i < length (Log_Entries l).
        case Log_Entries l ! i of
          None \<Rightarrow> False
        | Some e \<Rightarrow> unat (Entry_Index e) = log_base l + 1 + i)"

text \<open>The terms of the entries do not decrease along the log.\<close>

definition slot_term :: "Entry option \<Rightarrow> uint64" where
  "slot_term p = (case p of None \<Rightarrow> 0 | Some e \<Rightarrow> Entry_Term e)"

definition terms_sorted :: "Log \<Rightarrow> bool" where
  "terms_sorted l \<longleftrightarrow> sorted (map slot_term (Log_Entries l))"

text \<open>Term and index of the last entry, the pair elections compare.\<close>

definition last_id :: "Log \<Rightarrow> uint64 \<times> uint64" where
  "last_id l = (case LastEntry l of Ok e \<Rightarrow> (Entry_Term e, Entry_Index e) | Panic p \<Rightarrow> (0, 0))"

text \<open>\<open>es\<close> is a batch of entries with consecutive indices after \<open>p\<close>.\<close>

definition batch_at :: "nat \<Rightarrow> Entry list \<Rightarrow> bool" where
  "batch_at p es \<longleftrightarrow> (\<forall>i < length es. unat (Entry_Index (es ! i)) = p + 1 + i)"

section \<open>Laws\<close>

lemma unat_sliceIndex:
  "log_base l < unat i \<Longrightarrow> unat (sliceIndex l i) = unat i - log_base l - 1"
  unfolding sliceIndex_def log_base_def by unat_arith

lemma unat_sliceIndex_trimmed:
  assumes "unat i \<le> log_base l"
  shows "unat (sliceIndex l i) = 2 ^ 64 - 1 - (log_base l - unat i)"
proof -
  have le: "i \<le> IncludedIndex l" using assms by (simp add: word_le_nat_alt log_base_def)
  have "sliceIndex l i = - 1 - (IncludedIndex l - i)" by (simp add: sliceIndex_def)
  also have "unat \<dots> = unat (- 1 :: uint64) - unat (IncludedIndex l - i)"
    by (rule unat_sub) simp
  also have "unat (IncludedIndex l - i) = log_base l - unat i"
    using le unfolding log_base_def by (rule unat_sub)
  also have "unat (- 1 :: uint64) = 2 ^ 64 - 1" by (simp add: unsigned_minus_1_eq_mask mask_eq_exp_minus_1)
  finally show ?thesis .
qed

lemma log_wf_iff:
  "log_wf l \<longleftrightarrow> log_last l < 2 ^ 64 \<and>
     (\<forall>i < length (Log_Entries l).
        \<exists>e. Log_Entries l ! i = Some e \<and> unat (Entry_Index e) = log_base l + 1 + i)"
  by (auto simp: log_wf_def split: option.splits)

lemma log_base_simps [simp]:
  "log_base (l\<lparr>Log_Entries := es\<rparr>) = log_base l"
  "log_base (l\<lparr>IncludedIndex := i\<rparr>) = unat i"
  "log_base (l\<lparr>IncludedTerm := t\<rparr>) = log_base l"
  by (simp_all add: log_base_def)

lemma log_wf_nil_iff: "log_wf (l\<lparr>Log_Entries := []\<rparr>)"
  using unsigned_less[where 'a=nat, of "IncludedIndex l"] by (simp add: log_wf_def log_last_def log_base_def)

lemma of_nat_unat_eq: "unat (w :: 'a::len word) = n \<Longrightarrow> w = of_nat n"
  by auto

lemma log_wf_nth:
  assumes "log_wf l" "i < length (Log_Entries l)"
  obtains e where "Log_Entries l ! i = Some e" "unat (Entry_Index e) = log_base l + 1 + i"
  using assms that by (cases "Log_Entries l ! i") (auto simp: log_wf_def)

lemma LastEntry_wf:
  assumes "log_wf l"
  shows "LastEntry l = Ok (if Log_Entries l = [] then \<lparr>Entry_Term = IncludedTerm l, Entry_Index = IncludedIndex l, Entry_Data = None\<rparr> else the (log_view l (log_last l)))"
proof (cases "Log_Entries l = []")
  case True then show ?thesis by (simp add: LastEntry_def)
next
  case False
  then have k: "length (Log_Entries l) - 1 < length (Log_Entries l)" by simp
  obtain e where e: "Log_Entries l ! (length (Log_Entries l) - 1) = Some e"
    by (rule log_wf_nth[OF assms k])
  moreover have "log_view l (log_last l) = Some e"
    using False e by (simp add: log_view_def log_last_def)
  moreover have "nat (int (length (Log_Entries l)) - 1) = length (Log_Entries l) - 1" by simp
  ultimately show ?thesis using False by (simp add: LastEntry_def indexInt_def)
qed

lemma log_view_index:
  assumes "log_wf l" "log_view l n = Some e"
  shows "unat (Entry_Index e) = n" "log_base l < n" "n \<le> log_last l" "n < 2 ^ 64"
proof -
  have n: "log_base l < n" "n \<le> log_last l" "Log_Entries l ! (n - log_base l - 1) = Some e"
    using assms(2) by (auto simp: log_view_def split: if_splits)
  then have "n - log_base l - 1 < length (Log_Entries l)" by (simp add: log_last_def)
  from log_wf_nth[OF assms(1) this] n show "unat (Entry_Index e) = n" by auto
  show "log_base l < n" "n \<le> log_last l" by fact+
  show "n < 2 ^ 64" using n assms(1) by (simp add: log_wf_def)
qed

lemma log_view_Some:
  assumes "log_wf l" "log_base l < n" "n \<le> log_last l"
  obtains e where "log_view l n = Some e" 
proof -
  have "n - log_base l - 1 < length (Log_Entries l)" using assms by (simp add: log_last_def)
  from log_wf_nth[OF assms(1) this] obtain e where "Log_Entries l ! (n - log_base l - 1) = Some e" by metis
  with assms show ?thesis by (intro that) (simp add: log_view_def)
qed

lemma dom_log_view: "log_wf l \<Longrightarrow> dom (log_view l) = {log_base l <.. log_last l}"
  using log_view_Some[of l] log_view_index[of l] by (fastforce simp: dom_def)

lemma Len_wf:
  assumes "log_wf l"
  shows "Len l = Ok (of_nat (log_last l))"
proof (cases "Log_Entries l = []")
  case True
  then show ?thesis using LastEntry_wf[OF assms] by (simp add: Len_def log_last_def log_base_def)
next
  case False
  obtain e where e: "log_view l (log_last l) = Some e"
    using log_view_Some[OF assms, of "log_last l"] False by (auto simp: log_last_def)
  from log_view_index(1)[OF assms e] have "Entry_Index e = of_nat (log_last l)"
    by (rule of_nat_unat_eq)
  then show ?thesis using LastEntry_wf[OF assms] False e by (simp add: Len_def)
qed

lemma unat_of_log_last: "log_wf l \<Longrightarrow> unat (of_nat (log_last l) :: uint64) = log_last l"
  by (simp add: log_wf_def unat_of_nat)

text \<open>The complete behaviour of a lookup.\<close>

lemma EntryAt_view:
  assumes "log_wf l"
  shows "EntryAt l i =
    (if i = 0 then Ok Entry_zero
     else if i = IncludedIndex l
       then Ok \<lparr>Entry_Term = IncludedTerm l, Entry_Index = IncludedIndex l, Entry_Data = None\<rparr>
     else case log_view l (unat i) of Some e \<Rightarrow> Ok e | None \<Rightarrow> Panic IndexOutOfRange)"
proof (cases "log_base l < unat i")
  case True
  have s: "unat (sliceIndex l i) = unat i - log_base l - 1" using True by (rule unat_sliceIndex)
  show ?thesis
  proof (cases "unat i \<le> log_last l")
    case le: True
    from log_view_Some[OF assms True le] obtain e where e: "log_view l (unat i) = Some e" .
    then have "Log_Entries l ! (unat i - log_base l - 1) = Some e"
      using True le by (simp add: log_view_def)
    moreover have "unat i - log_base l - 1 < length (Log_Entries l)" 
      using True le by (simp add: log_last_def)
    ultimately show ?thesis using e s by (simp add: EntryAt_def index64_def)
  next
    case False
    then show ?thesis using s True by (auto simp: EntryAt_def index64_def log_view_def log_last_def)
  qed
next
  case False
  then have "unat (sliceIndex l i) = 2 ^ 64 - 1 - (log_base l - unat i)"
    by (intro unat_sliceIndex_trimmed) simp
  moreover have "length (Log_Entries l) \<le> 2 ^ 64 - 1 - (log_base l - unat i)"
    using assms unfolding log_wf_def log_last_def by linarith
  ultimately show ?thesis using False by (simp add: EntryAt_def index64_def log_view_def)
qed

lemma EntryAt_Some: "log_wf l \<Longrightarrow> log_view l (unat i) = Some e \<Longrightarrow> EntryAt l i = Ok e"
  using log_view_index(2)[of l "unat i" e] by (auto simp: EntryAt_view log_base_def)

text \<open>\<^verbatim>\<open>Append\<close> accepts exactly the entry that follows the last one and ignores any other.\<close>

lemma next_index_iff:
  assumes "log_wf l" "(i :: uint64) \<noteq> 0"
  shows "i = of_nat (log_last l) + 1 \<longleftrightarrow> unat i = log_last l + 1"
proof
  assume "unat i = log_last l + 1"
  then show "i = of_nat (log_last l) + 1"
    by (metis of_nat_Suc of_nat_unat_eq Suc_eq_plus1 add.commute)
next
  assume eq: "i = of_nat (log_last l) + 1"
  with assms(2) have "1 + (of_nat (log_last l) :: uint64) \<noteq> 0" by (simp add: add.commute)
  from unatSuc[OF this] show "unat i = log_last l + 1"
    unfolding eq unat_of_log_last[OF assms(1)] by (simp only: add.commute Suc_eq_plus1)
qed

lemma Append_other:
  assumes "log_wf l" "unat (Entry_Index e) \<noteq> log_last l + 1" "Entry_Index e \<noteq> 0"
  shows "Append l e = Ok l"
  using assms next_index_iff[OF assms(1,3)] by (simp add: Append_def Len_wf)

lemma Append_next:
  assumes "log_wf l" "unat (Entry_Index e) = log_last l + 1"
  shows "\<exists>l'. Append l e = Ok l' \<and> log_wf l' \<and> log_base l' = log_base l \<and>
    IncludedTerm l' = IncludedTerm l \<and> log_view l' = (log_view l)(log_last l + 1 \<mapsto> e)"
proof -
  let ?l = "l\<lparr>Log_Entries := Log_Entries l @ [Some e]\<rparr>"
  have "Entry_Index e \<noteq> 0" using assms(2) by auto
  then have "Append l e = Ok ?l"
    using assms next_index_iff[OF assms(1), of "Entry_Index e"] by (simp add: Append_def Len_wf)
  moreover have "log_last l + 1 < 2 ^ 64"
    using assms(2) unsigned_less[where 'a=nat, of "Entry_Index e"] by simp
  then have "log_wf ?l"
    using assms by (auto simp: log_wf_iff log_last_def nth_append less_Suc_eq)
  moreover have "log_view ?l = (log_view l)(log_last l + 1 \<mapsto> e)"
    by (rule ext) (auto simp: log_view_def log_last_def nth_append)
  ultimately show ?thesis by simp
qed

text \<open>Truncation keeps exactly the entries below the given index.\<close>

lemma DiscardAfterAnd_spec:
  assumes "log_wf l" "log_base l < unat i" "unat i \<le> log_last l + 1"
  shows "\<exists>l'. DiscardAfterAnd l i = Ok l' \<and> log_wf l' \<and> log_base l' = log_base l \<and>
    IncludedTerm l' = IncludedTerm l \<and> log_last l' = unat i - 1 \<and> log_view l' = log_view l |` {..<unat i}"
proof -
  let ?k = "unat i - log_base l - 1"
  let ?l = "l\<lparr>Log_Entries := take ?k (Log_Entries l)\<rparr>"
  have k: "?k \<le> length (Log_Entries l)" using assms by (simp add: log_last_def)
  have "DiscardAfterAnd l i = Ok ?l"
    using k assms by (simp add: DiscardAfterAnd_def sliceTo_def unat_sliceIndex)
  moreover have "log_wf ?l" using assms k by (auto simp: log_wf_iff log_last_def)
  moreover have "log_last ?l = unat i - 1" using assms k by (simp add: log_last_def)
  moreover have "log_view ?l = log_view l |` {..<unat i}"
    using assms k by (auto simp: log_view_def log_last_def restrict_map_def fun_eq_iff)
  ultimately show ?thesis by (intro exI[of _ ?l]) simp
qed

text \<open>The entries from an index on.\<close>

lemma EntriesAfter_spec:
  assumes "log_wf l" "log_base l < unat i" "unat i \<le> log_last l + 1"
  shows "EntriesAfter l i = Ok (map (log_view l) [unat i..<log_last l + 1])"
proof -
  let ?k = "unat i - log_base l - 1"
  have k: "?k \<le> length (Log_Entries l)" using assms by (simp add: log_last_def)
  have "drop ?k (Log_Entries l) = map (log_view l) [unat i..<log_last l + 1]"
  proof (rule nth_equalityI)
    show "length (drop ?k (Log_Entries l)) = length (map (log_view l) [unat i..<log_last l + 1])"
      using assms k by (simp add: log_last_def del: upt_Suc)
    fix j assume "j < length (drop ?k (Log_Entries l))"
    then have j: "?k + j < length (Log_Entries l)" by simp
    have "unat i + j \<le> log_last l" "unat i + j - log_base l - 1 = ?k + j"
      using j assms by (auto simp: log_last_def)
    then have "log_view l (unat i + j) = Log_Entries l ! (?k + j)"
      using assms(2) by (simp add: log_view_def)
    then show "drop ?k (Log_Entries l) ! j = map (log_view l) [unat i..<log_last l + 1] ! j"
      using j assms by (simp add: log_last_def del: upt_Suc)
  qed
  then show ?thesis using k assms by (simp add: EntriesAfter_def sliceFrom_def unat_sliceIndex)
qed

lemma unat_sliceIndex_Suc:
  "unat (sliceIndex l i + 1) = (if log_base l \<le> unat i then unat i - log_base l else 2 ^ 64 - (log_base l - unat i))"
proof -
  have eq: "sliceIndex l i + 1 = i - IncludedIndex l" by (simp add: sliceIndex_def)
  show ?thesis
  proof (cases "log_base l \<le> unat i")
    case True
    then show ?thesis unfolding eq log_base_def by (simp add: unat_sub word_le_nat_alt)
  next
    case False
    then have "unat (i - IncludedIndex l) = 2 ^ 64 - (log_base l - unat i)"
      unfolding log_base_def by (simp add: unat_sub_if_size word_size)
    with False eq show ?thesis by simp
  qed
qed

text \<open>
  Compaction at \<open>i\<close> moves the boundary to \<open>i\<close> and keeps exactly the entries above it, also when
  \<open>i\<close> lies beyond the last entry; below the present boundary it panics.
\<close>

lemma CompactForSnapshot_spec:
  assumes "log_wf l"
  shows "if unat i < log_base l then CompactForSnapshot l i t = Panic SliceOutOfRange
    else \<exists>l'. CompactForSnapshot l i t = Ok l' \<and> log_wf l' \<and> IncludedIndex l' = i \<and> IncludedTerm l' = t \<and>
      log_last l' = max (unat i) (log_last l) \<and> log_view l' = log_view l |` {unat i<..}"
proof (cases "unat i < log_base l")
  case True
  have bl: "log_base l \<le> log_last l" "log_last l < 2 ^ 64" using assms by (auto simp: log_last_def log_wf_def)
  have "\<not> (of_nat (log_last l) :: uint64) < i"
    using True bl by (simp add: word_less_nat_alt unat_of_log_last[OF assms])
  moreover have "length (Log_Entries l) < 2 ^ 64 - (log_base l - unat i)"
    using True bl by (simp add: log_last_def)
  ultimately show ?thesis using True
    by (simp add: CompactForSnapshot_def Len_wf[OF assms] sliceFrom_def unat_sliceIndex_Suc)
next
  case False
  define es where "es = drop (unat i - log_base l) (Log_Entries l)"
  define l' where "l' = l\<lparr>Log_Entries := es, IncludedIndex := i, IncludedTerm := t\<rparr>"
  have lt: "(of_nat (log_last l) :: uint64) < i \<longleftrightarrow> log_last l < unat i"
    by (simp only: word_less_nat_alt unat_of_log_last[OF assms])
  have "CompactForSnapshot l i t = Ok l'"
  proof (cases "log_last l < unat i")
    case True
    then have "es = []" by (simp add: es_def log_last_def)
    then show ?thesis using True by (simp add: CompactForSnapshot_def Len_wf[OF assms] lt l'_def)
  next
    case le: False
    then have "unat i - log_base l \<le> length (Log_Entries l)" by (simp add: log_last_def)
    then show ?thesis using le False
      by (simp add: CompactForSnapshot_def Len_wf[OF assms] lt sliceFrom_def unat_sliceIndex_Suc l'_def es_def)
  qed
  moreover have last: "log_last l' = max (unat i) (log_last l)"
    using False by (simp add: l'_def es_def log_last_def)
  moreover have "\<exists>e. es ! j = Some e \<and> unat (Entry_Index e) = unat i + 1 + j" if "j < length es" for j
  proof -
    have "unat i - log_base l + j < length (Log_Entries l)" using that False by (simp add: es_def)
    from log_wf_nth[OF assms this] obtain e where "Log_Entries l ! (unat i - log_base l + j) = Some e"
      "unat (Entry_Index e) = log_base l + 1 + (unat i - log_base l + j)" .
    then show ?thesis using False that by (simp add: es_def)
  qed
  then have "log_wf l'"
    using assms last unsigned_less[where 'a=nat, of i] by (auto simp: log_wf_iff l'_def)
  moreover have "log_view l' = log_view l |` {unat i<..}"
    using False by (auto simp: log_view_def l'_def es_def log_last_def restrict_map_def fun_eq_iff)
  moreover have "IncludedIndex l' = i" "IncludedTerm l' = t" by (simp_all add: l'_def)
  ultimately show ?thesis using False by auto
qed

section \<open>Search by term\<close>

lemma terms_sorted_nth:
  "terms_sorted l \<Longrightarrow> a \<le> b \<Longrightarrow> b < length (Log_Entries l) \<Longrightarrow>
   slot_term (Log_Entries l ! a) \<le> slot_term (Log_Entries l ! b)"
  unfolding terms_sorted_def using sorted_nth_mono[of "map slot_term (Log_Entries l)" a b] by simp

lemma log_view_slot: "k < length (Log_Entries l) \<Longrightarrow> log_view l (log_base l + 1 + k) = Log_Entries l ! k"
  by (simp add: log_view_def log_last_def)

lemma log_view_slotE:
  assumes "log_view l n = Some e"
  obtains k where "k < length (Log_Entries l)" "n = log_base l + 1 + k" "Log_Entries l ! k = Some e"
proof
  show "n - log_base l - 1 < length (Log_Entries l)" "n = log_base l + 1 + (n - log_base l - 1)"
    "Log_Entries l ! (n - log_base l - 1) = Some e"
    using assms by (auto simp: log_view_def log_last_def split: if_splits)
qed

lemma search_terms:
  assumes "log_wf l" "terms_sorted l" "\<And>a b. a \<le> b \<Longrightarrow> Q a \<Longrightarrow> Q b"
  obtains r where
    "sort_Search (length (Log_Entries l))
       (\<lambda>i. go_bind (deref (Log_Entries l ! i)) (\<lambda>e. Ok (Q (Entry_Term e)))) = Ok r"
    "r \<le> length (Log_Entries l)" "\<forall>k<r. \<not> Q (slot_term (Log_Entries l ! k))"
    "\<forall>k. r \<le> k \<longrightarrow> k < length (Log_Entries l) \<longrightarrow> Q (slot_term (Log_Entries l ! k))"
proof (rule sort_Search_correct[where n = "length (Log_Entries l)" and
    P = "\<lambda>k. Q (slot_term (Log_Entries l ! k))" and
    f = "\<lambda>i. go_bind (deref (Log_Entries l ! i)) (\<lambda>e. Ok (Q (Entry_Term e)))"])
  show "go_bind (deref (Log_Entries l ! k)) (\<lambda>e. Ok (Q (Entry_Term e))) = Ok (Q (slot_term (Log_Entries l ! k)))"
    if "k < length (Log_Entries l)" for k
    by (rule log_wf_nth[OF assms(1) that]) (simp add: slot_term_def)
  show "Q (slot_term (Log_Entries l ! b))" if "a \<le> b" "b < length (Log_Entries l)" "Q (slot_term (Log_Entries l ! a))" for a b
    using terms_sorted_nth[OF assms(2) that(1,2)] that(3) by (rule assms(3))
qed (rule that)

text \<open>\<^verbatim>\<open>FirstEntryAtTerm\<close> finds the entry of least index with the term, if there is one.\<close>

lemma FirstEntryAtTerm_spec:
  assumes "log_wf l" "terms_sorted l"
  shows "\<exists>r. FirstEntryAtTerm l t = Ok r \<and>
    (case r of
       None \<Rightarrow> \<forall>n e. log_view l n = Some e \<longrightarrow> Entry_Term e \<noteq> t
     | Some e \<Rightarrow> Entry_Term e = t \<and> log_view l (unat (Entry_Index e)) = Some e \<and>
         (\<forall>n e'. log_view l n = Some e' \<longrightarrow> n < unat (Entry_Index e) \<longrightarrow> Entry_Term e' < t))"
proof -
  let ?P = "\<lambda>k. t \<le> slot_term (Log_Entries l ! k)"
  obtain r where r: "sort_Search (length (Log_Entries l))
      (\<lambda>i. go_bind (deref (Log_Entries l ! i)) (\<lambda>e. Ok (t \<le> Entry_Term e))) = Ok r"
    "r \<le> length (Log_Entries l)" "\<forall>k<r. \<not> ?P k" "\<forall>k. r \<le> k \<longrightarrow> k < length (Log_Entries l) \<longrightarrow> ?P k"
    by (rule search_terms[OF assms, where Q = "\<lambda>x. t \<le> x"]) (erule (1) order_trans[rotated])
  show ?thesis
  proof (cases "r < length (Log_Entries l) \<and> slot_term (Log_Entries l ! r) = t")
    case True
    then obtain e where e: "Log_Entries l ! r = Some e" "unat (Entry_Index e) = log_base l + 1 + r"
      using log_wf_nth[OF assms(1)] by blast
    have "Entry_Term e' < t" if "log_view l n = Some e'" "n < unat (Entry_Index e)" for n e'
    proof -
      from that(1) obtain k where "n = log_base l + 1 + k" "Log_Entries l ! k = Some e'"
        by (rule log_view_slotE)
      then show ?thesis using r(3) that(2) e(2) by (auto simp: slot_term_def dest: spec[of _ k])
    qed
    moreover have "log_view l (unat (Entry_Index e)) = Some e"
      using log_view_slot[of r l] True e by simp
    ultimately show ?thesis using r(1) True e by (simp add: FirstEntryAtTerm_def slot_term_def)
  next
    case False
    have "Entry_Term e \<noteq> t" if "log_view l n = Some e" for n e
    proof
      assume t: "Entry_Term e = t"
      from that obtain k where k: "k < length (Log_Entries l)" "Log_Entries l ! k = Some e"
        by (rule log_view_slotE)
      then have "\<not> k < r" using r(3) t by (auto simp: slot_term_def dest: spec[of _ k])
      then have "slot_term (Log_Entries l ! r) \<le> t" "r < length (Log_Entries l)"
        using terms_sorted_nth[OF assms(2), of r k] k t by (auto simp: slot_term_def)
      with r(4) False show False by (auto intro: antisym)
    qed
    moreover have "FirstEntryAtTerm l t = Ok None"
    proof (cases "r < length (Log_Entries l)")
      case True
      from log_wf_nth[OF assms(1) True] obtain e where "Log_Entries l ! r = Some e" .
      then show ?thesis using True False r(1) by (simp add: FirstEntryAtTerm_def slot_term_def)
    qed (use r(1) in \<open>simp add: FirstEntryAtTerm_def\<close>)
    ultimately show ?thesis by simp
  qed
qed

text \<open>
  \<^verbatim>\<open>LastEntryAtTerm\<close> does not return an entry of the term: it returns the entry that follows the
  last one of the term, which has a larger term, and nil when that last one ends the log.
\<close>

lemma LastEntryAtTerm_spec:
  assumes "log_wf l" "terms_sorted l"
  shows "\<exists>r. LastEntryAtTerm l t = Ok r \<and>
    (case r of
       None \<Rightarrow> (\<forall>n e. log_view l n = Some e \<longrightarrow> Entry_Term e \<noteq> t) \<or>
               (\<forall>n e. log_view l n = Some e \<longrightarrow> Entry_Term e \<le> t)
     | Some e \<Rightarrow> t < Entry_Term e \<and> log_view l (unat (Entry_Index e)) = Some e \<and>
         (\<exists>e'. log_view l (unat (Entry_Index e) - 1) = Some e' \<and> Entry_Term e' = t))"
proof -
  let ?P = "\<lambda>k. t < slot_term (Log_Entries l ! k)"
  let ?n = "length (Log_Entries l)"
  obtain r where r: "sort_Search ?n
      (\<lambda>i. go_bind (deref (Log_Entries l ! i)) (\<lambda>e. Ok (t < Entry_Term e))) = Ok r"
    "r \<le> ?n" "\<forall>k<r. \<not> ?P k" "\<forall>k. r \<le> k \<longrightarrow> k < ?n \<longrightarrow> ?P k"
    by (rule search_terms[OF assms, where Q = "\<lambda>x. t < x"]) (erule (1) less_le_trans[rotated])
  show ?thesis
  proof (cases "0 < r \<and> r < ?n \<and> slot_term (Log_Entries l ! (r - 1)) = t")
    case True
    then obtain e where e: "Log_Entries l ! r = Some e" "unat (Entry_Index e) = log_base l + 1 + r"
      using log_wf_nth[OF assms(1)] by blast
    from True have "r - 1 < ?n" by linarith
    from log_wf_nth[OF assms(1) this] obtain e' where e': "Log_Entries l ! (r - 1) = Some e'" .
    have "t < Entry_Term e" using r(4) True e by (auto simp: slot_term_def dest: spec[of _ r])
    moreover have "log_view l (unat (Entry_Index e)) = Some e" "log_view l (unat (Entry_Index e) - 1) = Some e'"
      using log_view_slot[of r l] log_view_slot[of "r - 1" l] True e e' by auto
    ultimately show ?thesis using r(1) True e e' by (simp add: LastEntryAtTerm_def slot_term_def)
  next
    case False
    have "(\<forall>n e. log_view l n = Some e \<longrightarrow> Entry_Term e \<noteq> t) \<or> (\<forall>n e. log_view l n = Some e \<longrightarrow> Entry_Term e \<le> t)"
    proof (cases "r = ?n")
      case True
      then show ?thesis using r(3) by (fastforce simp: slot_term_def not_less elim!: log_view_slotE)
    next
      case lt: False
      have "Entry_Term e \<noteq> t" if "log_view l n = Some e" for n e
      proof
        assume t: "Entry_Term e = t"
        from that obtain k where k: "k < ?n" "Log_Entries l ! k = Some e" by (rule log_view_slotE)
        then have "k < r" using r(4) t by (metis less_irrefl not_le option.case(2) slot_term_def)
        then have "t \<le> slot_term (Log_Entries l ! (r - 1))" "r - 1 < r"
          using terms_sorted_nth[OF assms(2), of k "r - 1"] k t lt r(2) by (auto simp: slot_term_def)
        with r(2,3) False lt show False by (metis \<open>k < r\<close> antisym gr_zeroI le_neq_trans not_less_zero not_le)
      qed
      then show ?thesis by blast
    qed
    moreover have "LastEntryAtTerm l t = Ok None"
    proof (cases "0 < r \<and> r < ?n")
      case True
      then have "r - 1 < ?n" by linarith
      from log_wf_nth[OF assms(1) this] obtain e' where "Log_Entries l ! (r - 1) = Some e'" .
      then show ?thesis using True False r(1) by (simp add: LastEntryAtTerm_def slot_term_def)
    qed (use r(1) in \<open>auto simp: LastEntryAtTerm_def\<close>)
    ultimately show ?thesis using r(1) by simp
  qed
qed

text \<open>The log comparison of an election is lexicographic on term and index of the last entry.\<close>

lemma notUpToDate_spec:
  assumes "log_wf l"
  shows "notUpToDate l i t = Ok (fst (last_id l) < t \<or> fst (last_id l) = t \<and> snd (last_id l) \<le> i)"
  by (auto simp: notUpToDate_def LastEntry_wf[OF assms] last_id_def)


section \<open>The interface of the log\<close>

locale replicated_log =
  fixes wf :: "'l \<Rightarrow> bool" and base last :: "'l \<Rightarrow> nat" and view :: "'l \<Rightarrow> nat \<rightharpoonup> Entry"
    and append :: "'l \<Rightarrow> Entry \<Rightarrow> 'l go" and discard :: "'l \<Rightarrow> uint64 \<Rightarrow> 'l go"
  assumes base_le_last: "base l \<le> last l"
    and view_dom: "wf l \<Longrightarrow> dom (view l) = {base l <.. last l}"
    and append_next: "wf l \<Longrightarrow> unat (Entry_Index e) = last l + 1 \<Longrightarrow>
      \<exists>l'. append l e = Ok l' \<and> wf l' \<and> base l' = base l \<and> view l' = (view l)(last l + 1 \<mapsto> e)"
    and append_other: "wf l \<Longrightarrow> 0 < unat (Entry_Index e) \<Longrightarrow> unat (Entry_Index e) \<noteq> last l + 1 \<Longrightarrow>
      append l e = Ok l"
    and discard_law: "wf l \<Longrightarrow> base l < unat i \<Longrightarrow> unat i \<le> last l + 1 \<Longrightarrow>
      \<exists>l'. discard l i = Ok l' \<and> wf l' \<and> base l' = base l \<and> last l' = unat i - 1 \<and>
           view l' = view l |` {..<unat i}"
begin

lemma view_above: "wf l \<Longrightarrow> last l < n \<Longrightarrow> view l n = None"
  using view_dom[of l] by (metis domIff greaterThanAtMost_iff not_le)

lemma last_append:
  assumes "wf l" "wf l'" "base l' = base l" "view l' = (view l)(last l + 1 \<mapsto> e)"
  shows "last l' = last l + 1"
proof -
  have eq: "{base l <.. last l'} = insert (last l + 1) {base l <.. last l}"
    using assms view_dom[of l] view_dom[of l'] by simp
  then have "last l + 1 \<in> {base l <.. last l'}" by simp
  moreover have "last l' \<in> {base l <.. last l'} \<Longrightarrow> last l' \<le> last l + 1" using eq by auto
  ultimately show ?thesis by auto
qed

text \<open>Appending a batch in order skips what is already there and adds the rest.\<close>

lemma append_batch:
  assumes "wf l" "base l \<le> p" "p \<le> last l" "batch_at p es"
  shows "\<exists>l'. foldM_go append l es = Ok l' \<and> wf l' \<and> base l' = base l \<and>
    last l' = max (last l) (p + length es) \<and>
    (\<forall>n. view l' n = (if last l < n \<and> n \<le> p + length es then Some (es ! (n - p - 1)) else view l n))"
  using assms(4)
proof (induction es rule: rev_induct)
  case Nil
  then show ?case using assms by auto
next
  case (snoc e es)
  have "batch_at p es" using snoc.prems by (auto simp: batch_at_def nth_append dest: less_SucI)
  from snoc.IH[OF this] obtain l1 where l1: "foldM_go append l es = Ok l1" "wf l1" "base l1 = base l"
    "last l1 = max (last l) (p + length es)"
    "\<And>n. view l1 n = (if last l < n \<and> n \<le> p + length es then Some (es ! (n - p - 1)) else view l n)" by auto
  have e: "unat (Entry_Index e) = p + 1 + length es" using snoc.prems by (auto simp: batch_at_def nth_append)
  show ?case
  proof (cases "last l1 = p + length es")
    case True
    with e have "unat (Entry_Index e) = last l1 + 1" by simp
    from append_next[OF l1(2) this] obtain l2 where l2: "append l1 e = Ok l2" "wf l2" "base l2 = base l1"
      "view l2 = (view l1)(last l1 + 1 \<mapsto> e)" by auto
    have "last l2 = last l1 + 1" by (rule last_append[OF l1(2) l2(2-4)])
    then show ?thesis using l1 l2 True assms(3) by (intro exI[of _ l2]) (auto simp: foldM_go_append nth_append)
  next
    case False
    then have "append l1 e = Ok l1" using e l1(2) by (intro append_other) auto
    then show ?thesis using l1 False assms(3) by (intro exI[of _ l1]) (auto simp: foldM_go_append nth_append)
  qed
qed

text \<open>
  Truncating at the first conflict, if any, and then appending the batch: the log agrees with
  the batch on every term, is unchanged up to \<open>p\<close>, and loses entries only after a conflict.
\<close>

lemma merge_no_conflict:
  assumes "wf l" "base l \<le> p" "p \<le> last l" "batch_at p es"
    and "\<And>i e. i < length es \<Longrightarrow> view l (p + 1 + i) = Some e \<Longrightarrow> Entry_Term e = Entry_Term (es ! i)"
  shows "\<exists>l'. foldM_go append l es = Ok l' \<and> wf l' \<and> base l' = base l \<and>
    last l' = max (last l) (p + length es) \<and> view l \<subseteq>\<^sub>m view l' \<and>
    (\<forall>i < length es. \<exists>e. view l' (p + 1 + i) = Some e \<and> Entry_Term e = Entry_Term (es ! i) \<and>
       (e = es ! i \<or> view l (p + 1 + i) = Some e))"
proof -
  from append_batch[OF assms(1-4)] obtain l' where l': "foldM_go append l es = Ok l'" "wf l'"
    "base l' = base l" "last l' = max (last l) (p + length es)"
    "\<And>n. view l' n = (if last l < n \<and> n \<le> p + length es then Some (es ! (n - p - 1)) else view l n)"
    by blast
  have "view l \<subseteq>\<^sub>m view l'"
    using l'(5) view_above[OF assms(1)] by (auto simp: map_le_def)
  moreover have "\<exists>e. view l' (p + 1 + i) = Some e \<and> Entry_Term e = Entry_Term (es ! i) \<and>
      (e = es ! i \<or> view l (p + 1 + i) = Some e)"
    if "i < length es" for i
  proof (cases "last l < p + 1 + i")
    case False
    then have "p + 1 + i \<in> dom (view l)" using view_dom[OF assms(1)] assms(2) by auto
    then obtain e where "view l (p + 1 + i) = Some e" by auto
    with assms(5)[OF that this] l'(5) False show ?thesis by auto
  qed (use l'(5) that in auto)
  ultimately show ?thesis using l' by blast
qed

lemma merge_conflict:
  assumes "wf l" "base l \<le> p" "batch_at p es" "j < length es" "p + 1 + j \<le> last l"
    and "\<And>i e. i < j \<Longrightarrow> view l (p + 1 + i) = Some e \<Longrightarrow> Entry_Term e = Entry_Term (es ! i)"
  shows "\<exists>l1 l'. discard l (Entry_Index (es ! j)) = Ok l1 \<and> foldM_go append l1 es = Ok l' \<and> wf l' \<and>
    base l' = base l \<and> last l' = p + length es \<and> (\<forall>n \<le> p + j. view l' n = view l n) \<and>
    (\<forall>i < length es. \<exists>e. view l' (p + 1 + i) = Some e \<and> Entry_Term e = Entry_Term (es ! i) \<and>
       (e = es ! i \<or> view l (p + 1 + i) = Some e))"
proof -
  have c: "unat (Entry_Index (es ! j)) = p + 1 + j" using assms by (simp add: batch_at_def)
  from discard_law[OF assms(1), of "Entry_Index (es ! j)"] obtain l1 where
    l1: "discard l (Entry_Index (es ! j)) = Ok l1" "wf l1" "base l1 = base l" "last l1 = p + j"
      "view l1 = view l |` {..<p + 1 + j}"
    using c assms by auto
  have "Entry_Term e = Entry_Term (es ! i)" if "i < length es" "view l1 (p + 1 + i) = Some e" for i e
  proof -
    have "i < j" "view l (p + 1 + i) = Some e"
      using that(2) by (simp_all add: l1(5) restrict_map_def split: if_splits)
    then show ?thesis by (rule assms(6))
  qed
  note terms = this
  have p: "base l1 \<le> p" "p \<le> last l1" using assms(2) l1(3,4) by simp_all
  from merge_no_conflict[OF l1(2) p assms(3) terms]
  obtain l' where l': "foldM_go append l1 es = Ok l'" "wf l'" "base l' = base l1"
    "last l' = max (last l1) (p + length es)" "view l1 \<subseteq>\<^sub>m view l'"
    "\<And>i. i < length es \<Longrightarrow> \<exists>e. view l' (p + 1 + i) = Some e \<and> Entry_Term e = Entry_Term (es ! i) \<and>
       (e = es ! i \<or> view l1 (p + 1 + i) = Some e)" by blast
  have new: "\<exists>e. view l' (p + 1 + i) = Some e \<and> Entry_Term e = Entry_Term (es ! i) \<and>
      (e = es ! i \<or> view l (p + 1 + i) = Some e)" if "i < length es" for i
    using l'(6)[OF that] by (auto simp: l1(5) restrict_map_def split: if_splits)
  have "view l' n = view l n" if "n \<le> p + j" for n
  proof (cases "base l < n")
    case True
    then have "n \<in> dom (view l1)" using that view_dom[OF l1(2)] l1(3,4) by simp
    with l'(5) have "view l' n = view l1 n" by (simp add: map_le_def)
    then show ?thesis using that by (simp add: l1(5))
  next
    case False
    then show ?thesis using view_dom[OF l'(2)] view_dom[OF assms(1)] l'(3) l1(3)
      by (metis domIff greaterThanAtMost_iff)
  qed
  moreover have "last l' = p + length es" using l'(4) l1(4) assms(4) by simp
  ultimately show ?thesis using l1(1,3) l'(1,2,3) new by auto
qed

end

interpretation raftLog: replicated_log log_wf log_base log_last log_view Append DiscardAfterAnd
proof
  show "log_base l \<le> log_last l" for l by (simp add: log_last_def)
  show "log_wf l \<Longrightarrow> dom (log_view l) = {log_base l<..log_last l}" for l by (rule dom_log_view)
  show "\<exists>l'. Append l e = Ok l' \<and> log_wf l' \<and> log_base l' = log_base l \<and>
      log_view l' = (log_view l)(log_last l + 1 \<mapsto> e)"
    if "log_wf l" "unat (Entry_Index e) = log_last l + 1" for l e
    using Append_next[OF that] by blast
  show "Append l e = Ok l"
    if "log_wf l" "0 < unat (Entry_Index e)" "unat (Entry_Index e) \<noteq> log_last l + 1" for l e
    using that by (intro Append_other) auto
  show "\<exists>l'. DiscardAfterAnd l i = Ok l' \<and> log_wf l' \<and> log_base l' = log_base l \<and>
      log_last l' = unat i - 1 \<and> log_view l' = log_view l |` {..<unat i}"
    if "log_wf l" "log_base l < unat i" "unat i \<le> log_last l + 1" for l i
    using DiscardAfterAnd_spec[OF that] by blast
qed

end
