(* ===== verification/Persister.thy ===== *)
theory Persister
  imports Go_Prelude
begin

text \<open>
  The stable storage of src/raft/persister.go: the saved Raft state and the saved snapshot, two
  byte slices that are cloned on the way in and on the way out. What Raft relies on (a read
  returns what was saved last, the two parts are independent, the joint save is one action) is
  the locale \<open>stable_store\<close>.
\<close>

section \<open>Operations\<close>

record Persister =
  raftstate :: bytes
  ps_snapshot :: bytes

definition MakePersister :: Persister where
  "MakePersister = \<lparr>raftstate = None, ps_snapshot = None\<rparr>"

text \<open>The clone of a nil slice is an empty slice.\<close>

definition clone :: "bytes \<Rightarrow> bytes" where
  "clone orig = Some (bcontent orig)"

definition Copy :: "Persister \<Rightarrow> Persister" where
  "Copy ps = MakePersister\<lparr>raftstate := raftstate ps, ps_snapshot := ps_snapshot ps\<rparr>"

definition SaveRaftState :: "Persister \<Rightarrow> bytes \<Rightarrow> Persister" where
  "SaveRaftState ps st = ps\<lparr>raftstate := clone st\<rparr>"

definition ReadRaftState :: "Persister \<Rightarrow> bytes" where
  "ReadRaftState ps = clone (raftstate ps)"

definition RaftStateSize :: "Persister \<Rightarrow> int64" where
  "RaftStateSize ps = of_nat (blen (raftstate ps))"

definition SaveStateAndSnapshot :: "Persister \<Rightarrow> bytes \<Rightarrow> bytes \<Rightarrow> Persister" where
  "SaveStateAndSnapshot ps st snapshot = ps\<lparr>raftstate := clone st, ps_snapshot := clone snapshot\<rparr>"

definition ReadSnapshot :: "Persister \<Rightarrow> bytes" where
  "ReadSnapshot ps = clone (ps_snapshot ps)"

definition SnapshotSize :: "Persister \<Rightarrow> nat" where
  "SnapshotSize ps = blen (ps_snapshot ps)"

section \<open>The interface\<close>

text \<open>A save of the Raft state alone, or of both parts.\<close>

datatype save = SaveState bytes | SaveBoth bytes bytes

fun saved_state :: "save \<Rightarrow> byte list" where
  "saved_state (SaveState st) = bcontent st"
| "saved_state (SaveBoth st sn) = bcontent st"

fun saved_snapshot :: "save \<Rightarrow> byte list option" where
  "saved_snapshot (SaveState st) = None"
| "saved_snapshot (SaveBoth st sn) = Some (bcontent sn)"

locale stable_store =
  fixes save :: "'p \<Rightarrow> bytes \<Rightarrow> 'p" and saveBoth :: "'p \<Rightarrow> bytes \<Rightarrow> bytes \<Rightarrow> 'p"
    and readState readSnapshot :: "'p \<Rightarrow> bytes"
  assumes readState_save: "readState (save p st) = Some (bcontent st)"
    and readSnapshot_save: "readSnapshot (save p st) = readSnapshot p"
    and readState_saveBoth: "readState (saveBoth p st sn) = Some (bcontent st)"
    and readSnapshot_saveBoth: "readSnapshot (saveBoth p st sn) = Some (bcontent sn)"
begin

definition perform :: "'p \<Rightarrow> save \<Rightarrow> 'p" where
  "perform p s = (case s of SaveState st \<Rightarrow> save p st | SaveBoth st sn \<Rightarrow> saveBoth p st sn)"

lemma readState_perform: "readState (perform p s) = Some (saved_state s)"
  by (cases s) (simp_all add: perform_def readState_save readState_saveBoth)

lemma readSnapshot_perform:
  "readSnapshot (perform p s) =
     (case saved_snapshot s of None \<Rightarrow> readSnapshot p | Some sn \<Rightarrow> Some sn)"
  by (cases s) (simp_all add: perform_def readSnapshot_save readSnapshot_saveBoth)

text \<open>
  After a sequence of saves the state is that of the last save and the snapshot that of the
  last joint save.
\<close>

lemma recover_state: "readState (foldl perform p (ss @ [s])) = Some (saved_state s)"
  by (simp add: readState_perform)

lemma recover_snapshot:
  "readSnapshot (foldl perform p ss) =
     (case rev (List.map_filter saved_snapshot ss) of [] \<Rightarrow> readSnapshot p | sn # _ \<Rightarrow> Some sn)"
  by (induction ss rule: rev_induct)
    (auto simp: readSnapshot_perform map_filter_def split: option.splits list.splits)

end

interpretation ps: stable_store SaveRaftState SaveStateAndSnapshot ReadRaftState ReadSnapshot
  by unfold_locales
    (simp_all add: SaveRaftState_def SaveStateAndSnapshot_def ReadRaftState_def ReadSnapshot_def clone_def)

lemma Copy_eq: "Copy p = p"
  by (cases p) (simp add: Copy_def MakePersister_def)

lemma RaftStateSize_save:
  "blen st < 2 ^ 63 \<Longrightarrow> sint (RaftStateSize (SaveRaftState p st)) = int (blen st)"
  by (simp add: RaftStateSize_def SaveRaftState_def clone_def sint_of_nat_64)

end
