(* ===== verification/Raft.thy ===== *)
theory Raft
  imports Raft_Log Persister
begin

text \<open>
  One Raft peer, src/raft/raft.go. The peer's state is the record \<open>Raft\<close>; every method that runs
  under \<^verbatim>\<open>rf.mu\<close> is one atomic function of it. A method that releases the lock around a remote
  call is split there, into a part that prepares the call and a part that handles its outcome.

  The Go struct embeds \<^verbatim>\<open>pb.RaftState\<close>, which holds a pointer to a \<^verbatim>\<open>HardState\<close> and a pointer to a
  \<^verbatim>\<open>pb.Log\<close>, and has a second field \<^verbatim>\<open>log\<close> of type \<^verbatim>\<open>raftLog\<close>, which embeds another pointer to a
  \<^verbatim>\<open>pb.Log\<close>. The methods read and write the log through \<^verbatim>\<open>rf.log\<close> and save it through
  \<^verbatim>\<open>rf.RaftState\<close>, so whether the two pointers are equal matters: the model has a small heap of
  \<^verbatim>\<open>pb.Log\<close> objects and both pointers.

  Goroutines that a method starts are recorded in \<open>spawned\<close>, messages put on \<^verbatim>\<open>applyChan\<close> in
  \<open>applied\<close>; a context is a number, and cancelling it adds it to \<open>cancelled\<close>. Condition variables,
  timers, blocking on channels and log output have no counterpart.
\<close>

section \<open>State\<close>

datatype ServerState = ServerStateLeader | ServerStateFollower | ServerStateCandidate

record ApplyMsg =
  CommandValid :: bool
  Command :: bytes
  CommandIndex :: uint64
  SnapshotValid :: bool
  SnapshotBytes :: bytes
  SnapshotTerm :: uint64
  SnapshotIndex :: uint64

datatype raft_error =
  ErrTimeout | ErrNoReply | ErrNotLeader | ErrOldSnapshot | ErrBecomeFollower | ErrNotContain
  | ErrMakeRaft

type_synonym ctx = nat

datatype goroutine =
    Ticker uint64
  | LaunchElection uint64
  | SendRequestVoteToAll ctx
  | SendHeartBeatPeriodicallyToAll ctx
  | ReplicateToAllServers ctx
  | ReplicateLogToServer ctx nat
  | CallAppendEntries ctx nat bool
  | CallRequestVote ctx nat
  | CallInstallSnapshot ctx nat
  | ApplyCommittedLogs

abbreviation (input) no_vote :: uint64 where "no_vote \<equiv> 0"

record Raft =
  rf_peers :: nat                       \<comment> \<open>\<open>len(rf.peers)\<close>\<close>
  rf_persister :: Persister
  rf_me :: uint64
  rf_dead :: bool
  rf_state :: ServerState
  votes :: uint64
  cancelTicker :: "ctx option"
  cancelElection :: "ctx option"
  hardState :: "HardState option"       \<comment> \<open>\<open>rf.RaftState.HardState\<close>\<close>
  stateLog :: "nat option"              \<comment> \<open>\<open>rf.RaftState.Log\<close>\<close>
  rf_log :: "nat option"                \<comment> \<open>\<open>rf.log.Log\<close>\<close>
  heap :: "Log list"
  lastApplied :: uint64
  nextIndex :: "uint64 list"
  matchIndex :: "uint64 list"
  cancelLeader :: "ctx option"
  leaderId :: uint64
  doneClosed :: bool
  applied :: "ApplyMsg list"
  spawned :: "goroutine list"
  cancelled :: "ctx list"
  nextCtx :: ctx

section \<open>Access to the embedded state\<close>

definition getTerm :: "Raft \<Rightarrow> uint64 go" where
  "getTerm rf = go_bind (deref (hardState rf)) (\<lambda>h. Ok (HardState_Term h))"

definition getVotedFor :: "Raft \<Rightarrow> uint64 go" where
  "getVotedFor rf = go_bind (deref (hardState rf)) (\<lambda>h. Ok (VotedFor h))"

definition getCommit :: "Raft \<Rightarrow> uint64 go" where
  "getCommit rf = go_bind (deref (hardState rf)) (\<lambda>h. Ok (Commit h))"

text \<open>Assignments \<^verbatim>\<open>rf.HardState.X = v\<close>.\<close>

definition setTerm :: "uint64 \<Rightarrow> Raft \<Rightarrow> Raft go" where
  "setTerm t rf = go_bind (deref (hardState rf)) (\<lambda>h. Ok (rf\<lparr>hardState := Some (h\<lparr>HardState_Term := t\<rparr>)\<rparr>))"

definition setVotedFor :: "uint64 \<Rightarrow> Raft \<Rightarrow> Raft go" where
  "setVotedFor v rf = go_bind (deref (hardState rf)) (\<lambda>h. Ok (rf\<lparr>hardState := Some (h\<lparr>VotedFor := v\<rparr>)\<rparr>))"

definition setCommit :: "uint64 \<Rightarrow> Raft \<Rightarrow> Raft go" where
  "setCommit c rf = go_bind (deref (hardState rf)) (\<lambda>h. Ok (rf\<lparr>hardState := Some (h\<lparr>Commit := c\<rparr>)\<rparr>))"

text \<open>The object behind a log pointer, and a method call \<^verbatim>\<open>rf.log.Op(...)\<close> that changes it.\<close>

definition loadLog :: "Raft \<Rightarrow> nat option \<Rightarrow> Log go" where
  "loadLog rf p = go_bind (deref p) (\<lambda>a. indexInt (heap rf) (int a))"

definition theLog :: "Raft \<Rightarrow> Log go" where
  "theLog rf = loadLog rf (rf_log rf)"

definition updLog :: "(Log \<Rightarrow> Log go) \<Rightarrow> Raft \<Rightarrow> Raft go" where
  "updLog f rf =
     go_bind (deref (rf_log rf)) (\<lambda>a.
     go_bind (theLog rf) (\<lambda>l.
     go_bind (f l) (\<lambda>l'.
     go_bind (store (heap rf) (int a) l') (\<lambda>h. Ok (rf\<lparr>heap := h\<rparr>)))))"

definition raftStateOf :: "Raft \<Rightarrow> RaftState go" where
  "raftStateOf rf =
     (case stateLog rf of
        None \<Rightarrow> Ok \<lparr>RaftState_HardState = hardState rf, RaftState_Log = None\<rparr>
      | Some a \<Rightarrow> go_bind (loadLog rf (Some a)) (\<lambda>l.
          Ok \<lparr>RaftState_HardState = hardState rf, RaftState_Log = Some l\<rparr>))"

definition spawn :: "goroutine \<Rightarrow> Raft \<Rightarrow> Raft" where
  "spawn g rf = rf\<lparr>spawned := spawned rf @ [g]\<rparr>"

definition cancelCtx :: "ctx \<Rightarrow> Raft \<Rightarrow> Raft" where
  "cancelCtx c rf = rf\<lparr>cancelled := c # cancelled rf\<rparr>"

text \<open>\<^verbatim>\<open>if rf.cancelX != nil { rf.cancelX() }\<close>\<close>

definition cancelIfSet :: "ctx option \<Rightarrow> Raft \<Rightarrow> Raft" where
  "cancelIfSet c rf = (case c of None \<Rightarrow> rf | Some c \<Rightarrow> cancelCtx c rf)"

text \<open>
  \<^verbatim>\<open>min\<close> and \<^verbatim>\<open>max\<close> of util.go at \<^verbatim>\<open>uint64\<close>, the only type raft.go calls them at. The constraint \<^verbatim>\<open>Number\<close>
  does not list this type, so the package does not compile as it stands.
\<close>

definition goMin :: "uint64 \<Rightarrow> uint64 \<Rightarrow> uint64" where
  "goMin a b = (if a < b then a else b)"

definition goMax :: "uint64 \<Rightarrow> uint64 \<Rightarrow> uint64" where
  "goMax a b = (if a < b then b else a)"

section \<open>Queries\<close>

definition GetState :: "Raft \<Rightarrow> (uint64 \<times> bool) go" where
  "GetState rf = go_bind (getTerm rf) (\<lambda>t. Ok (t, rf_state rf = ServerStateLeader))"

definition GetLeaderId :: "Raft \<Rightarrow> uint64" where
  "GetLeaderId rf = leaderId rf"

definition LogSize :: "Raft \<Rightarrow> int64" where
  "LogSize rf = RaftStateSize (rf_persister rf)"

definition HasCurrentTermLog :: "Raft \<Rightarrow> bool go" where
  "HasCurrentTermLog rf =
     go_bind (theLog rf) (\<lambda>l. go_bind (LastEntry l) (\<lambda>e. go_bind (getTerm rf) (\<lambda>t. Ok (t \<le> Entry_Term e))))"

section \<open>Persistence\<close>

definition persistRaftStateData :: "Raft \<Rightarrow> bytes go" where
  "persistRaftStateData rf =
     go_bind (raftStateOf rf) (\<lambda>s. go_bind (RaftState_Marshal (Some s)) (\<lambda>data. Ok (Some data)))"

definition persist :: "Raft \<Rightarrow> Raft go" where
  "persist rf =
     go_bind (persistRaftStateData rf) (\<lambda>data. Ok (rf\<lparr>rf_persister := SaveRaftState (rf_persister rf) data\<rparr>))"

definition persistWithSnapshot :: "bytes \<Rightarrow> Raft \<Rightarrow> Raft go" where
  "persistWithSnapshot snapshot rf =
     go_bind (persistRaftStateData rf) (\<lambda>stateData.
       Ok (rf\<lparr>rf_persister := SaveStateAndSnapshot (rf_persister rf) stateData snapshot\<rparr>))"

text \<open>
  The decoded state replaces the embedded one also when decoding failed. The new \<^verbatim>\<open>pb.Log\<close> is a
  fresh object; \<^verbatim>\<open>rf.log\<close> is not touched.
\<close>

definition readPersistRaftState :: "bytes \<Rightarrow> Raft \<Rightarrow> Raft go" where
  "readPersistRaftState data rf =
     (if data = None \<or> blen data < 1 then
        go_bind (setTerm 0 rf) (\<lambda>rf1.
        go_bind (setVotedFor 0 rf1) (\<lambda>rf2.
          persist (rf2\<lparr>stateLog := Some (length (heap rf2)),
                       heap := heap rf2 @ [Log_zero\<lparr>Log_Entries := replicate 16 None\<rparr>]\<rparr>)))
      else
        (let p = fst (RaftState_Unmarshal RaftState_zero (bcontent data));
             rf1 = (case RaftState_Log p of
                      None \<Rightarrow> rf\<lparr>hardState := RaftState_HardState p, stateLog := None\<rparr>
                    | Some l \<Rightarrow> rf\<lparr>hardState := RaftState_HardState p,
                                  stateLog := Some (length (heap rf)), heap := heap rf @ [l]\<rparr>)
         in go_bind (deref (RaftState_Log p)) (\<lambda>l.
            let rf2 = rf1\<lparr>lastApplied := IncludedIndex l\<rparr>
            in go_bind (getTerm rf2) (\<lambda>_. Ok rf2))))"

section \<open>Snapshots taken or offered by the service\<close>

definition CondInstallSnapshot :: "uint64 \<Rightarrow> uint64 \<Rightarrow> bytes \<Rightarrow> Raft \<Rightarrow> (bool \<times> Raft) go" where
  "CondInstallSnapshot lastIncludedTerm lastIncludedIndex snapshot rf =
     go_bind (theLog rf) (\<lambda>l.
       if lastIncludedTerm < LastIncludedTerm l then Ok (False, rf)
       else if LastIncludedTerm l = lastIncludedTerm \<and> lastIncludedIndex \<le> LastIncludedIndex l
         then Ok (False, rf)
       else
         go_bind (updLog (\<lambda>l. CompactForSnapshot l lastIncludedIndex lastIncludedTerm)
                   (rf\<lparr>lastApplied := lastIncludedIndex\<rparr>)) (\<lambda>rf2.
         go_bind (persistWithSnapshot snapshot rf2) (\<lambda>rf3. Ok (True, rf3))))"

definition Raft_Snapshot :: "uint64 \<Rightarrow> bytes \<Rightarrow> Raft \<Rightarrow> Raft go" where
  "Raft_Snapshot index snapshot rf =
     go_bind (getCommit rf) (\<lambda>c.
     go_bind (setCommit (goMax c index) rf) (\<lambda>rf1.
       let rf2 = rf1\<lparr>lastApplied := goMax (lastApplied rf1) index\<rparr> in
       go_bind (theLog rf2) (\<lambda>l.
       go_bind (LastEntry l) (\<lambda>lastEntry.
       go_bind (if index \<le> Entry_Index lastEntry
                then go_bind (EntryAt l index) (\<lambda>e.
                       updLog (\<lambda>l. CompactForSnapshot l index (Entry_Term e)) rf2)
                else Ok rf2) (\<lambda>rf3.
         persistWithSnapshot snapshot rf3)))))"

section \<open>State conversion\<close>

definition convertToFollower :: "uint64 \<Rightarrow> Raft \<Rightarrow> Raft go" where
  "convertToFollower term rf =
     go_bind (setTerm term (cancelIfSet (cancelLeader rf) rf)) (\<lambda>rf1.
     go_bind (setVotedFor no_vote (rf1\<lparr>rf_state := ServerStateFollower, votes := 0, leaderId := 0\<rparr>)) (\<lambda>rf2.
     go_bind (persist rf2) (\<lambda>rf3. Ok (spawn (Ticker term) rf3))))"

definition convertToLeader :: "Raft \<Rightarrow> Raft go" where
  "convertToLeader rf =
     go_bind (getTerm rf) (\<lambda>_.
       let rf1 = (cancelIfSet (cancelLeader rf) rf)\<lparr>cancelLeader := None\<rparr>;
           rf2 = (cancelIfSet (cancelTicker rf1) rf1)\<lparr>cancelTicker := None\<rparr>;
           rf3 = rf2\<lparr>rf_state := ServerStateLeader, leaderId := rf_me rf2,
                     nextIndex := replicate (rf_peers rf2) 0, matchIndex := replicate (rf_peers rf2) 0\<rparr>
       in go_bind (setVotedFor no_vote rf3) (\<lambda>rf4.
          go_bind (persist rf4) (\<lambda>rf5.
          go_bind (if rf_peers rf5 = 0 then Ok rf5
                   else go_bind (theLog rf5) (\<lambda>l. go_bind (LastEntry l) (\<lambda>e.
                     Ok (rf5\<lparr>nextIndex := replicate (rf_peers rf5) (Entry_Index e + 1),
                             matchIndex := replicate (rf_peers rf5) 0\<rparr>)))) (\<lambda>rf6.
            let leaderCtx = nextCtx rf6;
                rf7 = rf6\<lparr>nextCtx := leaderCtx + 1, cancelLeader := Some leaderCtx\<rparr>
            in Ok (spawn (ReplicateToAllServers leaderCtx)
                    (spawn (SendHeartBeatPeriodicallyToAll leaderCtx) rf7))))))"

definition launchElection :: "uint64 \<Rightarrow> Raft \<Rightarrow> Raft go" where
  "launchElection newTerm rf =
     go_bind (if rf_state rf = ServerStateLeader
              then (case cancelLeader rf of None \<Rightarrow> Panic NilFuncCall | Some c \<Rightarrow> Ok (cancelCtx c rf))
              else Ok rf) (\<lambda>rf1.
       let c = nextCtx rf1;
           rf2 = (cancelIfSet (cancelElection rf1) (rf1\<lparr>nextCtx := c + 1\<rparr>))\<lparr>cancelElection := Some c\<rparr>;
           rf3 = rf2\<lparr>rf_state := ServerStateCandidate, leaderId := 0\<rparr>
       in go_bind (setTerm newTerm rf3) (\<lambda>rf4.
          go_bind (setVotedFor (rf_me rf4) (rf4\<lparr>votes := 1\<rparr>)) (\<lambda>rf5.
          go_bind (persist rf5) (\<lambda>rf6.
            Ok (spawn (Ticker newTerm) (spawn (SendRequestVoteToAll c) rf6))))))"

section \<open>Log replication, leader side\<close>

definition newAppendEntriesArgs :: "nat \<Rightarrow> bool \<Rightarrow> Raft \<Rightarrow> AppendEntriesArgs go" where
  "newAppendEntriesArgs server isHeartBeat rf =
     go_bind (getTerm rf) (\<lambda>term.
     go_bind (indexInt (nextIndex rf) (int server)) (\<lambda>next.
     go_bind (getCommit rf) (\<lambda>commit.
     go_bind (theLog rf) (\<lambda>l.
     go_bind (if next - 1 = LastIncludedIndex l then Ok (LastIncludedTerm l)
              else go_bind (EntryAt l (next - 1)) (\<lambda>e. Ok (Entry_Term e))) (\<lambda>prevLogTerm.
     go_bind (if commit \<le> LastIncludedIndex l then Ok (LastIncludedTerm l)
              else go_bind (EntryAt l commit) (\<lambda>e. Ok (Entry_Term e))) (\<lambda>commitTerm.
     go_bind (if \<not> isHeartBeat then EntriesAfter l next else Ok []) (\<lambda>entries.
       Ok \<lparr>AEArgs_Args = Some \<lparr>Args_Term = term, Args_Leader = rf_me rf\<rparr>,
           AEArgs_Entries = entries, CommitTerm = commitTerm, LeaderCommit = commit,
           PrevLogIndex = next - 1, PrevLogTerm = prevLogTerm\<rparr>)))))))"

definition newInstallSnapshotArgs :: "Raft \<Rightarrow> InstallSnapshotArgs go" where
  "newInstallSnapshotArgs rf =
     go_bind (getTerm rf) (\<lambda>term.
     go_bind (theLog rf) (\<lambda>l.
       Ok \<lparr>ISArgs_Args = Some \<lparr>Args_Term = term, Args_Leader = rf_me rf\<rparr>,
           ISArgs_Snapshot = Some \<lparr>Snapshot_Metadata =
               Some \<lparr>Meta_Index = LastIncludedIndex l, Meta_Term = LastIncludedIndex l\<rparr>,
             Snapshot_Data = ReadSnapshot (rf_persister rf)\<rparr>\<rparr>))"

definition commitEntryBeforeIndex :: "uint64 \<Rightarrow> Raft \<Rightarrow> Raft go" where
  "commitEntryBeforeIndex index rf =
     go_bind (getCommit rf) (\<lambda>c. if index \<le> c then Ok rf else setCommit index rf)"

definition checkIfEntryShouldBeCommitted :: "uint64 \<Rightarrow> Raft \<Rightarrow> Raft go" where
  "checkIfEntryShouldBeCommitted n rf =
     go_bind (getCommit rf) (\<lambda>c.
       if n \<le> c then Ok rf
       else go_bind (theLog rf) (\<lambda>l. go_bind (EntryAt l n) (\<lambda>e. go_bind (getTerm rf) (\<lambda>t.
         if Entry_Term e < t then Ok rf
         else if rf_peers rf div 2 < length (filter (\<lambda>m. n \<le> m) (matchIndex rf))
           then commitEntryBeforeIndex n rf
         else Ok rf))))"

definition appendEntryToLog :: "Raft \<Rightarrow> Entry \<Rightarrow> Raft go" where
  "appendEntryToLog rf entry =
     go_bind (theLog rf) (\<lambda>l. go_bind (Len l) (\<lambda>n.
       if Entry_Index entry = n + 1 then
         go_bind (updLog (\<lambda>l. Append l entry) rf) (\<lambda>rf1.
         go_bind (persist rf1) (\<lambda>rf2.
           if rf_state rf2 = ServerStateLeader
           then go_bind (store (matchIndex rf2) (uint (rf_me rf2)) (Entry_Index entry)) (\<lambda>m.
                  Ok (rf2\<lparr>matchIndex := m\<rparr>))
           else Ok rf2))
       else Ok rf))"

definition Start :: "bytes \<Rightarrow> Raft \<Rightarrow> ((uint64 \<times> uint64 \<times> bool) \<times> Raft) go" where
  "Start command rf =
     (if rf_state rf \<noteq> ServerStateLeader then Ok ((0, 0, False), rf)
      else go_bind (index64 (nextIndex rf) (rf_me rf)) (\<lambda>index.
           go_bind (store (nextIndex rf) (uint (rf_me rf)) (index + 1)) (\<lambda>ni.
             let rf1 = rf\<lparr>nextIndex := ni\<rparr> in
             go_bind (getTerm rf1) (\<lambda>term.
             go_bind (appendEntryToLog rf1 \<lparr>Entry_Term = term, Entry_Index = index, Entry_Data = command\<rparr>)
               (\<lambda>rf2. Ok ((index, term, True), rf2))))))"

text \<open>
  \<^verbatim>\<open>callAppendEntries\<close> up to the remote call: the request, or the error it returns at once.
\<close>

definition callAppendEntries_send :: "ctx \<Rightarrow> nat \<Rightarrow> bool \<Rightarrow> Raft \<Rightarrow> ((raft_error + AppendEntriesArgs) \<times> Raft) go" where
  "callAppendEntries_send c server isHeartBeat rf =
     (if rf_state rf \<noteq> ServerStateLeader then Ok (Inl ErrNotLeader, rf)
      else go_bind (indexInt (nextIndex rf) (int server)) (\<lambda>next.
           go_bind (theLog rf) (\<lambda>l.
             if next \<le> LastIncludedIndex l
             then Ok (Inl ErrOldSnapshot, spawn (CallInstallSnapshot c server) rf)
             else go_bind (newAppendEntriesArgs server isHeartBeat rf) (\<lambda>args. Ok (Inr args, rf)))))"

text \<open>The outcome of a remote call as the caller's \<^verbatim>\<open>select\<close> sees it.\<close>

datatype 'r outcome = Reply 'r | NoReply | TimedOut

text \<open>The reaction to a refused request: where to continue for this follower.\<close>

definition backUpNextIndex :: "nat \<Rightarrow> AppendEntriesReply \<Rightarrow> Raft \<Rightarrow> (raft_error option \<times> Raft) go" where
  "backUpNextIndex server reply rf =
     (if XTerm reply = 0 \<and> XLen reply \<noteq> 0
      then go_bind (store (nextIndex rf) (int server) (XLen reply)) (\<lambda>ni.
             Ok (Some ErrNotContain, rf\<lparr>nextIndex := ni\<rparr>))
      else
        go_bind (theLog rf) (\<lambda>l.
        go_bind (FirstEntryAtTerm l (XTerm reply)) (\<lambda>entry.
        go_bind (if entry \<noteq> None
                 then go_bind (LastEntryAtTerm l (XTerm reply)) (\<lambda>lastEntry.
                        case lastEntry of
                          None \<Rightarrow> go_bind (indexInt (nextIndex rf) (int server)) (\<lambda>next. Ok (next - 1))
                        | Some e \<Rightarrow> Ok (Entry_Index e))
                 else Ok (XIndex reply)) (\<lambda>next.
        go_bind (store (nextIndex rf) (int server) next) (\<lambda>ni.
          Ok (None, rf\<lparr>nextIndex := ni\<rparr>))))))"

definition callAppendEntries_receive ::
  "nat \<Rightarrow> AppendEntriesArgs \<Rightarrow> AppendEntriesReply outcome \<Rightarrow> Raft \<Rightarrow> (raft_error option \<times> Raft) go" where
  "callAppendEntries_receive server args out rf =
     (case out of
        TimedOut \<Rightarrow> Ok (Some ErrTimeout, rf)
      | NoReply \<Rightarrow> Ok (Some ErrNoReply, rf)
      | Reply reply \<Rightarrow>
          go_bind (getTerm rf) (\<lambda>term.
            if term < AEReply_Term reply
            then go_bind (convertToFollower (AEReply_Term reply) rf) (\<lambda>rf1. Ok (Some ErrBecomeFollower, rf1))
            else if rf_state rf \<noteq> ServerStateLeader then Ok (Some ErrNotLeader, rf)
            else if AEReply_Status reply = Success then
              (if 0 < length (AEArgs_Entries args) then
                 go_bind (deref (last (AEArgs_Entries args))) (\<lambda>lastEntry.
                 go_bind (store (nextIndex rf) (int server) (Entry_Index lastEntry + 1)) (\<lambda>ni.
                 go_bind (store (matchIndex rf) (int server) (Entry_Index lastEntry)) (\<lambda>mi.
                 go_bind (checkIfEntryShouldBeCommitted (Entry_Index lastEntry)
                            (rf\<lparr>nextIndex := ni, matchIndex := mi\<rparr>)) (\<lambda>rf1. Ok (None, rf1)))))
               else Ok (None, rf))
            else if AEReply_Status reply = NotContain then backUpNextIndex server reply rf
            else Ok (None, rf)))"

definition callInstallSnapshot_receive ::
  "nat \<Rightarrow> InstallSnapshotArgs \<Rightarrow> InstallSnapshotReply outcome \<Rightarrow> Raft \<Rightarrow> Raft go" where
  "callInstallSnapshot_receive server args out rf =
     (case out of
        Reply reply \<Rightarrow>
          go_bind (getTerm rf) (\<lambda>term.
            if term < ISReply_Term reply then convertToFollower (ISReply_Term reply) rf
            else go_bind (deref (ISArgs_Snapshot args)) (\<lambda>sn.
                 go_bind (deref (Snapshot_Metadata sn)) (\<lambda>meta.
                 go_bind (store (nextIndex rf) (int server) (Meta_Index meta + 1)) (\<lambda>ni.
                 go_bind (store (matchIndex rf) (int server) (Meta_Index meta)) (\<lambda>mi.
                   Ok (rf\<lparr>nextIndex := ni, matchIndex := mi\<rparr>))))))
      | _ \<Rightarrow> Ok rf)"

text \<open>
  The goroutines that drive replication, one per other peer. \<open>spawnToOthers\<close> is the loop over the
  peers that skips the own number.
\<close>

definition spawnToOthers :: "(nat \<Rightarrow> goroutine) \<Rightarrow> Raft \<Rightarrow> Raft" where
  "spawnToOthers g rf = foldl (\<lambda>rf i. if of_nat i = rf_me rf then rf else spawn (g i) rf) rf [0..<rf_peers rf]"

definition replicateToAllServers :: "ctx \<Rightarrow> Raft \<Rightarrow> Raft" where
  "replicateToAllServers c rf = spawnToOthers (ReplicateLogToServer c) rf"

text \<open>
  One turn of \<^verbatim>\<open>replicateLogToServer\<close>: it stops when the context is done, otherwise it waits for a
  new entry and starts a call, whose first part is the result. \<^verbatim>\<open>callInstallSnapshot\<close> starts with
  the request.
\<close>

definition replicateLogToServer_turn ::
  "bool \<Rightarrow> ctx \<Rightarrow> nat \<Rightarrow> Raft \<Rightarrow> ((raft_error + AppendEntriesArgs) option \<times> Raft) go" where
  "replicateLogToServer_turn ctxDone c server rf =
     (if ctxDone then Ok (None, rf)
      else go_bind (callAppendEntries_send c server False rf) (\<lambda>(r, rf1). Ok (Some r, rf1)))"

definition callInstallSnapshot_send :: "Raft \<Rightarrow> InstallSnapshotArgs go" where
  "callInstallSnapshot_send rf = newInstallSnapshotArgs rf"

text \<open>One turn of the leader's heart beat: whether it goes on.\<close>

definition sendHeartBeatPeriodicallyToAll_turn :: "bool \<Rightarrow> ctx \<Rightarrow> Raft \<Rightarrow> bool \<times> Raft" where
  "sendHeartBeatPeriodicallyToAll_turn ctxDone c rf =
     (if ctxDone then (False, rf) else (True, spawnToOthers (\<lambda>i. CallAppendEntries c i True) rf))"

text \<open>
  \<^verbatim>\<open>broadcastBeat\<close> counts the peers whose call ended in neither of the two errors; \<open>errs\<close> are the
  results of the calls that had been counted when the wait group was released.
\<close>

definition broadcastBeat :: "raft_error option list \<Rightarrow> nat" where
  "broadcastBeat errs = 1 + length (filter (\<lambda>err. err \<noteq> Some ErrNoReply \<and> err \<noteq> Some ErrTimeout) errs)"

definition checkQuorum :: "raft_error option list \<Rightarrow> Raft \<Rightarrow> bool" where
  "checkQuorum errs rf \<longleftrightarrow> rf_peers rf < broadcastBeat errs"

section \<open>Elections\<close>

definition newRequestVoteArgs :: "Raft \<Rightarrow> RequestVoteArgs go" where
  "newRequestVoteArgs rf =
     go_bind (getTerm rf) (\<lambda>term. go_bind (theLog rf) (\<lambda>l.
       Ok \<lparr>RVArgs_Args = Some (Args_zero\<lparr>Args_Term := term\<rparr>), CandidateID = rf_me rf,
           LastLogIndex = LastIncludedIndex l, LastLogTerm = LastIncludedTerm l\<rparr>))"

definition callRequestVote_send :: "Raft \<Rightarrow> RequestVoteArgs option go" where
  "callRequestVote_send rf =
     go_bind (newRequestVoteArgs rf) (\<lambda>args.
       Ok (if rf_state rf \<noteq> ServerStateCandidate then None else Some args))"

text \<open>
  The generated client stub returns a nil reply with an error and a reply with a nil error; the
  call itself (\<^verbatim>\<open>c.cc.Invoke\<close>) is the parameter \<open>invoke\<close>: the decoded reply, or \<open>None\<close> for an error.
\<close>

definition raftRPCClient :: "('a \<Rightarrow> 'r option) \<Rightarrow> 'a \<Rightarrow> 'r option \<times> bool" where
  "raftRPCClient invoke args =
     (case invoke args of None \<Rightarrow> (None, True) | Some out \<Rightarrow> (Some out, False))"

text \<open>
  The rest of \<^verbatim>\<open>callRequestVote\<close>: \<open>failed\<close> is \<^verbatim>\<open>err != nil\<close>; the result is what it puts on the reply
  channel.
\<close>

definition callRequestVote_receive ::
  "bool \<Rightarrow> RequestVoteReply option \<times> bool \<Rightarrow> Raft \<Rightarrow> (RequestVoteReply option \<times> Raft) go" where
  "callRequestVote_receive ctxDone result rf =
     (case result of (reply, failed) \<Rightarrow>
        if ctxDone then Ok (None, rf)
        else if failed then
          go_bind (deref reply) (\<lambda>r. go_bind (getTerm rf) (\<lambda>t.
            if t < RVReply_Term r
            then go_bind (convertToFollower (RVReply_Term r) rf) (\<lambda>rf1. Ok (None, rf1))
            else Ok (reply, rf)))
        else Ok (None, rf))"

text \<open>\<^verbatim>\<open>sendRequestVoteToAll\<close> before its loop: one call per other peer.\<close>

definition sendRequestVoteToAll_start :: "ctx \<Rightarrow> Raft \<Rightarrow> Raft" where
  "sendRequestVoteToAll_start c rf = spawnToOthers (CallRequestVote c) rf"

text \<open>
  One reply taken from the channel by \<^verbatim>\<open>sendRequestVoteToAll\<close>; the flag says whether its loop ends.
\<close>

definition receiveVote :: "RequestVoteReply option \<Rightarrow> Raft \<Rightarrow> (bool \<times> Raft) go" where
  "receiveVote p rf =
     go_bind (deref p) (\<lambda>reply.
       let rf1 = (if VoteGranted reply then rf\<lparr>votes := votes rf + 1\<rparr> else rf)
       in if of_nat (rf_peers rf1 div 2) < votes rf1
          then go_bind (convertToLeader rf1) (\<lambda>rf2. Ok (True, rf2))
          else Ok (False, rf1))"

text \<open>
  \<^verbatim>\<open>ticker\<close>: its start, which replaces the previous ticker, and one turn of its loop.
\<close>

definition ticker_start :: "Raft \<Rightarrow> ctx \<times> Raft" where
  "ticker_start rf =
     (let rf1 = cancelIfSet (cancelTicker rf) rf; c = nextCtx rf1
      in (c, rf1\<lparr>nextCtx := c + 1, cancelTicker := Some c\<rparr>))"

definition killed :: "Raft \<Rightarrow> bool" where
  "killed rf = rf_dead rf"

datatype ticker_event = TimerFired | HeartBeatReceived | CtxDone

definition ticker_turn :: "uint64 \<Rightarrow> ticker_event \<Rightarrow> Raft \<Rightarrow> bool \<times> Raft" where
  "ticker_turn term ev rf =
     (if killed rf then (False, rf)
      else case ev of
        TimerFired \<Rightarrow> (False, spawn (LaunchElection (term + 1)) rf)
      | HeartBeatReceived \<Rightarrow> (True, rf)
      | CtxDone \<Rightarrow> (False, rf))"

definition Kill :: "Raft \<Rightarrow> Raft go" where
  "Kill rf = (if doneClosed rf then Panic CloseOfClosedChannel
              else Ok (rf\<lparr>rf_dead := True, doneClosed := True\<rparr>))"

section \<open>Handlers of remote calls\<close>

text \<open>
  The handlers write through their named result \<^verbatim>\<open>reply\<close>, a pointer. \<open>X_with\<close> is the body of handler
  \<open>X\<close> for a given value of that pointer, \<open>X\<close> the handler itself, where the pointer is nil.

  Step 3 of \<^verbatim>\<open>AppendEntries\<close>: the flag is the early return for a trimmed entry.
\<close>

fun conflictLoop :: "Raft \<Rightarrow> Entry option list \<Rightarrow> (bool \<times> Raft) go" where
  "conflictLoop rf [] = Ok (False, rf)"
| "conflictLoop rf (p # ps) =
     go_bind (deref p) (\<lambda>entry. go_bind (theLog rf) (\<lambda>l.
       if Entry_Index entry < LastIncludedIndex l then Ok (True, rf)
       else go_bind (Len l) (\<lambda>n.
            go_bind (if Entry_Index entry \<le> n
                     then go_bind (EntryAt l (Entry_Index entry)) (\<lambda>e. Ok (Entry_Term entry \<noteq> Entry_Term e))
                     else Ok False) (\<lambda>conflict.
              if conflict
              then go_bind (updLog (\<lambda>l. DiscardAfterAnd l (Entry_Index entry)) rf) (\<lambda>rf1.
                   go_bind (persist rf1) (\<lambda>rf2. Ok (False, rf2)))
              else conflictLoop rf ps))))"

text \<open>Step 4.\<close>

definition appendLoop :: "Raft \<Rightarrow> Entry option list \<Rightarrow> Raft go" where
  "appendLoop = foldM_go (\<lambda>rf p. go_bind (deref p) (appendEntryToLog rf))"

text \<open>Step 5: the new commit index, if the entry there is the leader's.\<close>

definition followCommit :: "AppendEntriesArgs \<Rightarrow> AppendEntriesReply \<Rightarrow> Raft \<Rightarrow> (AppendEntriesReply \<times> Raft) go" where
  "followCommit args reply rf =
     go_bind (getCommit rf) (\<lambda>c.
       if c < LeaderCommit args then
         go_bind (theLog rf) (\<lambda>l.
         go_bind (LastEntry l) (\<lambda>lastEntry.
           let commitIndex = goMin (LeaderCommit args) (Entry_Index lastEntry) in
           go_bind (EntryAt l commitIndex) (\<lambda>e.
             if Entry_Term e \<noteq> CommitTerm args then Ok (reply, rf)
             else go_bind (commitEntryBeforeIndex commitIndex rf) (\<lambda>rf1.
                    Ok (reply\<lparr>AEReply_Status := Success\<rparr>, rf1)))))
       else Ok (reply\<lparr>AEReply_Status := Success\<rparr>, rf))"

definition AppendEntries_with ::
  "AppendEntriesReply option \<Rightarrow> AppendEntriesArgs \<Rightarrow> Raft \<Rightarrow> (AppendEntriesReply \<times> Raft) go" where
  "AppendEntries_with replyPtr args rf =
     go_bind (getTerm rf) (\<lambda>term.
     go_bind (deref replyPtr) (\<lambda>reply0.
     let reply = reply0\<lparr>AEReply_Term := term\<rparr> in
     go_bind (deref (AEArgs_Args args)) (\<lambda>a.
       if Args_Term a < term then Ok (reply\<lparr>AEReply_Status := OldTerm\<rparr>, rf)
       else
         go_bind (if term < Args_Term a then convertToFollower (Args_Term a) rf else Ok rf) (\<lambda>rf1.
         let rf2 = rf1\<lparr>leaderId := Args_Leader a\<rparr> in
         go_bind (theLog rf2) (\<lambda>l.
           if PrevLogIndex args < IncludedIndex l
           then Ok (reply\<lparr>AEReply_Status := OldSnapshot\<rparr>, rf2)
           else go_bind (Len l) (\<lambda>n.
             if n < PrevLogIndex args
             then go_bind (LastEntry l) (\<lambda>e.
                    Ok (reply\<lparr>AEReply_Status := NotContain, XLen := Entry_Index e + 1\<rparr>, rf2))
             else go_bind (EntryAt l (PrevLogIndex args)) (\<lambda>prevEntry.
               if Entry_Term prevEntry \<noteq> PrevLogTerm args
               then go_bind (FirstEntryAtTerm l (Entry_Term prevEntry)) (\<lambda>fe.
                    go_bind (deref fe) (\<lambda>e.
                      Ok (reply\<lparr>AEReply_Status := NotContain, XTerm := Entry_Term prevEntry,
                               XIndex := Entry_Index e\<rparr>, rf2)))
               else go_bind (conflictLoop rf2 (AEArgs_Entries args)) (\<lambda>(trimmed, rf3).
                 if trimmed then Ok (reply\<lparr>AEReply_Status := OldSnapshot\<rparr>, rf3)
                 else go_bind (appendLoop rf3 (AEArgs_Entries args)) (\<lambda>rf4.
                   followCommit args reply rf4)))))))))"

definition AppendEntries :: "AppendEntriesArgs \<Rightarrow> Raft \<Rightarrow> (AppendEntriesReply \<times> Raft) go" where
  "AppendEntries = AppendEntries_with None"

definition setRejectRequestVoteReply :: "Raft \<Rightarrow> RequestVoteReply option \<Rightarrow> RequestVoteReply go" where
  "setRejectRequestVoteReply rf p =
     go_bind (deref p) (\<lambda>reply. go_bind (getTerm rf) (\<lambda>t.
       Ok (reply\<lparr>RVReply_Term := t, VoteGranted := False\<rparr>)))"

text \<open>\<^verbatim>\<open>getVotedFor() < 0\<close> compares an unsigned number.\<close>

definition RequestVote_with ::
  "RequestVoteReply option \<Rightarrow> RequestVoteArgs \<Rightarrow> Raft \<Rightarrow> (RequestVoteReply \<times> Raft) go" where
  "RequestVote_with replyPtr args rf =
     go_bind (deref (RVArgs_Args args)) (\<lambda>a.
     go_bind (getTerm rf) (\<lambda>term.
       if Args_Term a < term
       then go_bind (setRejectRequestVoteReply rf replyPtr) (\<lambda>r. Ok (r, rf))
       else
         go_bind (if term \<le> Args_Term a then convertToFollower (Args_Term a) rf else Ok rf) (\<lambda>rf1.
         go_bind (getVotedFor rf1) (\<lambda>v.
         go_bind (if v < 0 \<or> CandidateID args = v
                  then go_bind (theLog rf1) (\<lambda>l. notUpToDate l (LastLogIndex args) (LastLogTerm args))
                  else Ok False) (\<lambda>grant.
           if grant then
             go_bind (setVotedFor (CandidateID args) rf1) (\<lambda>rf2.
             go_bind (persist rf2) (\<lambda>rf3.
             go_bind (deref replyPtr) (\<lambda>reply.
               Ok (reply\<lparr>VoteGranted := True, RVReply_Term := Args_Term a\<rparr>, rf3))))
           else go_bind (setRejectRequestVoteReply rf1 replyPtr) (\<lambda>r. Ok (r, rf1)))))))"

definition RequestVote :: "RequestVoteArgs \<Rightarrow> Raft \<Rightarrow> (RequestVoteReply \<times> Raft) go" where
  "RequestVote = RequestVote_with None"

definition InstallSnapshot_with ::
  "InstallSnapshotReply option \<Rightarrow> InstallSnapshotArgs \<Rightarrow> Raft \<Rightarrow> (InstallSnapshotReply \<times> Raft) go" where
  "InstallSnapshot_with replyPtr args rf =
     go_bind (deref (ISArgs_Args args)) (\<lambda>a.
     go_bind (deref (ISArgs_Snapshot args)) (\<lambda>sn.
     go_bind (deref (Snapshot_Metadata sn)) (\<lambda>meta.
     go_bind (getTerm rf) (\<lambda>term.
     go_bind (deref replyPtr) (\<lambda>reply0.
       let reply = reply0\<lparr>ISReply_Term := term\<rparr> in
       if Args_Term a < term then Ok (reply, rf)
       else
         go_bind (if term < Args_Term a then convertToFollower (Args_Term a) rf else Ok rf) (\<lambda>rf1.
           Ok (reply, rf1\<lparr>leaderId := Args_Leader a,
                 applied := applied rf1 @
                   [\<lparr>CommandValid = False, Command = None, CommandIndex = 0, SnapshotValid = True,
                     SnapshotBytes = Snapshot_Data sn, SnapshotTerm = Meta_Term meta,
                     SnapshotIndex = Meta_Index meta\<rparr>]\<rparr>)))))))"

definition InstallSnapshot :: "InstallSnapshotArgs \<Rightarrow> Raft \<Rightarrow> (InstallSnapshotReply \<times> Raft) go" where
  "InstallSnapshot = InstallSnapshot_with None"

section \<open>Applying committed entries\<close>

text \<open>One turn of \<^verbatim>\<open>applyCommittedLogs\<close>.\<close>

definition applyCommittedLogs_turn :: "Raft \<Rightarrow> Raft go" where
  "applyCommittedLogs_turn rf =
     go_bind (getCommit rf) (\<lambda>c.
       if lastApplied rf < c then
         (let rf1 = rf\<lparr>lastApplied := lastApplied rf + 1\<rparr> in
          go_bind (theLog rf1) (\<lambda>l.
          go_bind (EntryAt l (lastApplied rf1)) (\<lambda>entry.
            Ok (rf1\<lparr>applied := applied rf1 @
                  [\<lparr>CommandValid = True, Command = Entry_Data entry, CommandIndex = Entry_Index entry,
                    SnapshotValid = False, SnapshotBytes = None, SnapshotTerm = 0, SnapshotIndex = 0\<rparr>]\<rparr>))))
       else Ok rf)"

section \<open>Construction\<close>

text \<open>\<^verbatim>\<open>grpc.Dial\<close> is the parameter \<open>dial\<close>; only the number of the clients matters to the peer.\<close>

definition makePeers :: "('addr \<Rightarrow> 'client option) \<Rightarrow> 'addr list \<Rightarrow> 'client list option" where
  "makePeers dial addrs = those (map dial addrs)"

definition Raft_zero :: Raft where
  "Raft_zero = \<lparr>rf_peers = 0, rf_persister = MakePersister, rf_me = 0, rf_dead = False,
     rf_state = ServerStateFollower, votes = 0, cancelTicker = None, cancelElection = None,
     hardState = None, stateLog = None, rf_log = None, heap = [], lastApplied = 0, nextIndex = [],
     matchIndex = [], cancelLeader = None, leaderId = 0, doneClosed = False, applied = [],
     spawned = [], cancelled = [], nextCtx = 0\<rparr>"

definition Make :: "('addr \<Rightarrow> 'client option) \<Rightarrow> 'addr list \<Rightarrow> uint64 \<Rightarrow> Persister \<Rightarrow> (raft_error + Raft) go" where
  "Make dial peersAddr me ps =
     (case makePeers dial peersAddr of
        None \<Rightarrow> Ok (Inl ErrMakeRaft)
      | Some peers \<Rightarrow>
          (let rf = Raft_zero\<lparr>rf_peers := length peers, rf_persister := ps, rf_me := me\<rparr> in
           go_bind (setCommit 0 rf) (\<lambda>rf1.
           go_bind (readPersistRaftState (ReadRaftState ps) rf1) (\<lambda>rf2.
           go_bind (getTerm rf2) (\<lambda>t.
           go_bind (convertToFollower t rf2) (\<lambda>rf3.
             Ok (Inr (spawn ApplyCommittedLogs rf3))))))))"

end
