(* ===== verification/Wire_Laws.thy ===== *)
theory Wire_Laws
  imports Wire
begin

text \<open>
  The laws of the wire layer: how long a varint is, that the backward writer produces the forward
  encoding, that the readers invert it, that every loop makes progress, and that the tag loop is
  total on buffers a Go slice can hold (below \<open>2 ^ 63\<close> bytes). The collections \<open>writes_intros\<close> and
  \<open>consumes_intros\<close> are the rules from which the message theories build their proofs.
\<close>

named_theorems writes_intros \<open>forward encodings of writer steps\<close>
named_theorems consumes_intros \<open>effect of the tag loop on encoded fields\<close>
named_theorems enc_lengths \<open>lengths of field encodings\<close>

section \<open>Length of varints\<close>

lemma bit_len_0 [simp]: "bit_len 0 = 0"
  by (simp add: bit_len.simps)

lemma bit_len_pos: "0 < n \<Longrightarrow> bit_len n = Suc (bit_len (n div 2))"
  by (simp add: bit_len.simps)

lemma bit_len_le: "n < 2 ^ k \<Longrightarrow> bit_len n \<le> k"
proof (induction k arbitrary: n)
  case (Suc k)
  show ?case
  proof (cases "n = 0")
    case False
    have "n div 2 < 2 ^ k" using Suc.prems by simp
    with False Suc.IH show ?thesis by (simp add: bit_len_pos)
  qed simp
qed simp

lemma bit_len_shift: "2 ^ k \<le> n \<Longrightarrow> bit_len n = Suc k + bit_len (n div 2 ^ Suc k)"
proof (induction k arbitrary: n)
  case 0
  then show ?case by (simp add: bit_len_pos)
next
  case (Suc k)
  have "2 ^ k \<le> n div 2" using Suc.prems by simp
  from Suc.IH[OF this] have "bit_len (n div 2) = Suc k + bit_len (n div 2 ^ Suc (Suc k))"
    by (simp add: div_mult2_eq [symmetric])
  moreover have "0 < n" using Suc.prems zero_less_power[of "2 :: nat" "Suc k"] by linarith
  ultimately show ?case by (simp add: bit_len_pos)
qed

lemma unat_OR_1_div_2: "unat (v OR 1 :: uint64) div 2 = unat v div 2"
proof -
  have "drop_bit 1 (v OR 1) = drop_bit 1 v"
    by (rule bit_eqI) (auto simp: bit_simps)
  then have "unat (drop_bit 1 (v OR 1)) = unat (drop_bit 1 v)" by (simp only:)
  then show ?thesis unfolding unat_drop_bit_eq by (simp add: drop_bit_eq_div)
qed

lemma sov_eq: "sov v = (bit_len (unat v div 2) + 7) div 7"
proof -
  have "v OR 1 \<noteq> 0" by (metis bit_0_eq or_eq_0_iff zero_neq_one)
  then have "0 < unat (v OR 1)" by (simp add: unat_gt_0)
  from bit_len_pos[OF this] show ?thesis
    by (simp add: sov_def Len64_def unat_OR_1_div_2)
qed

lemma length_varint: "length (varint n) = (bit_len (n div 2) + 7) div 7"
proof (induction n rule: varint.induct)
  case (1 n)
  show ?case
  proof (cases "n < 128")
    case True
    then have "bit_len (n div 2) \<le> 6" by (intro bit_len_le) auto
    with True show ?thesis by (subst varint.simps) simp
  next
    case False
    have "bit_len (n div 2) = 7 + bit_len (n div 2 div 128)"
      using bit_len_shift[of 6 "n div 2"] False by simp
    also have "n div 2 div 128 = n div 128 div 2"
      by (simp add: div_mult2_eq [symmetric])
    finally have "(bit_len (n div 2) + 7) div 7 = Suc ((bit_len (n div 128 div 2) + 7) div 7)"
      by simp
    then show ?thesis using 1 False by (subst varint.simps) simp
  qed
qed

lemma sov_length: "sov v = length (varint (unat v))"
  by (simp add: sov_eq length_varint)

lemma varint_not_Nil [simp]: "varint n \<noteq> []"
  by (subst varint.simps) simp

lemma length_varint_le: "n < 2 ^ 64 \<Longrightarrow> length (varint n) \<le> 10"
proof -
  assume "n < 2 ^ 64"
  then have "bit_len (n div 2) \<le> 63" by (intro bit_len_le) simp
  then show ?thesis by (simp add: length_varint)
qed

lemma length_lenPrefixed [enc_lengths]:
  "length (lenPrefixed e) = sov (of_nat (length e)) + length e"
  by (simp add: lenPrefixed_def sov_length)

lemma length_fVarint [enc_lengths]: "length (fVarint tag v) = (if v = 0 then 0 else 1 + sov v)"
  by (simp add: fVarint_def sov_length)

lemma length_fBool [enc_lengths]: "length (fBool tag b) = (if b then 2 else 0)"
  by (simp add: fBool_def)

lemma length_fBytes [enc_lengths]:
  "length (fBytes tag bs) = (if length bs = 0 then 0 else 1 + length bs + sov (of_nat (length bs)))"
  by (simp add: fBytes_def length_lenPrefixed)

lemma length_fMsg [enc_lengths]:
  "length (fMsg tag e) = 1 + length e + sov (of_nat (length e))"
  by (simp add: fMsg_def length_lenPrefixed)

lemma fOpt_simps [simp]: "fOpt tag enc None = []" "fOpt tag enc (Some m) = fMsg tag (enc m)"
  by (simp_all add: fOpt_def)

section \<open>Seven-bit groups\<close>

lemma and_0x7f: "w AND 0x7f = take_bit 7 (w :: 'a::len word)"
  by (simp add: take_bit_eq_mask mask_eq_exp_minus_1)

lemma unat_and_0x7f: "unat (w AND 0x7f) = unat (w :: 'a::len word) mod 128"
  unfolding and_0x7f unsigned_take_bit_eq by (simp add: take_bit_eq_mod)

lemma bit_128: "bit (0x80 :: 'a::len word) k \<longleftrightarrow> k = 7 \<and> 7 < LENGTH('a)"
  using bit_exp_iff [where 'a = "'a word", of 7 k] by auto

lemma or_0x80: "((v :: uint64) AND 0x7f) OR 0x80 = (v AND 0x7f) + 0x80"
proof -
  have "(v AND 0x7f) AND 0x80 = 0"
  proof (rule bit_word_eqI)
    fix k show "bit ((v AND 0x7f) AND 0x80) k = bit 0 k"
      by (simp only: and_0x7f bit_and_iff bit_128 bit_take_bit_iff) auto
  qed
  from disjunctive_add_eq_or[OF this] show ?thesis by simp
qed

lemma continuation_byte:
  "of_nat (unat v mod 128) + 128 = (ucast (((v :: uint64) AND 0x7f) OR 0x80) :: byte)"
proof -
  have u: "unat ((v AND 0x7f) + 0x80) = unat v mod 128 + 128"
    by (simp add: unat_word_ariths unat_and_0x7f)
  have "(ucast ((v AND 0x7f) OR 0x80) :: byte) = of_nat (unat ((v AND 0x7f) + 0x80))"
    unfolding or_0x80 by simp
  then show ?thesis unfolding u by simp
qed

lemma low_group:
  assumes "n < 256"
  shows "ucast ((of_nat n :: byte) AND 0x7F) = (of_nat (n mod 128) :: 'a::len word)"
proof -
  have "ucast ((of_nat n :: byte) AND 0x7F) = (of_nat (unat ((of_nat n :: byte) AND 0x7F)) :: 'a word)"
    by simp
  also have "unat ((of_nat n :: byte) AND 0x7F) = n mod 128"
    unfolding unat_and_0x7f using assms by (simp add: unat_of_nat)
  finally show ?thesis .
qed

lemma join_groups:
  "(of_nat n :: 'a::len word) = of_nat (n mod 128) OR push_bit 7 (of_nat (n div 128))"
proof -
  have "n = take_bit 7 n OR push_bit 7 (drop_bit 7 n)"
  proof (rule bit_eqI)
    fix k show "bit n k = bit (take_bit 7 n OR push_bit 7 (drop_bit 7 n)) k"
      by (cases "k < 7") (auto simp: bit_simps)
  qed
  then have "of_nat n = (of_nat (take_bit 7 n OR push_bit 7 (drop_bit 7 n)) :: 'a word)" by simp
  then show ?thesis by (simp add: of_nat_or_eq of_nat_push_bit take_bit_eq_mod drop_bit_eq_div)
qed

lemma varint_word:
  "varint (unat (v :: uint64)) =
     (if 128 \<le> v then ucast ((v AND 0x7f) OR 0x80) # varint (unat (drop_bit 7 v)) else [ucast v])"
proof -
  have "unat (drop_bit 7 v) = unat v div 128"
    unfolding unat_drop_bit_eq by (simp add: drop_bit_eq_div)
  then show ?thesis
    by (subst varint.simps) (auto simp: continuation_byte word_le_nat_alt)
qed

section \<open>The writer\<close>

lemma encodeVarint_loop_eq:
  "length junk = length (varint (unat v)) \<Longrightarrow>
   encodeVarint_loop (pre @ junk @ suf) (int (length pre)) v = Ok (pre @ varint (unat v) @ suf)"
proof (induction "unat v" arbitrary: v pre junk rule: less_induct)
  case less
  show ?case
  proof (cases "128 \<le> v")
    case False
    with less.prems obtain j where "junk = [j]"
      by (auto simp: varint_word[of v] length_Suc_conv)
    with False show ?thesis
      by (subst encodeVarint_loop.simps) (simp add: varint_word[of v] store_mid)
  next
    case True
    let ?c = "ucast ((v AND 0x7f) OR 0x80) :: byte"
    from True less.prems obtain j junk' where junk: "junk = j # junk'"
      and len: "length junk' = length (varint (unat (drop_bit 7 v)))"
      by (cases junk) (auto simp: varint_word[of v])
    have "unat (drop_bit 7 v) < unat v"
      using True unfolding unat_drop_bit_eq by (simp add: drop_bit_eq_div word_le_nat_alt)
    from less.hyps[OF this len, of "pre @ [?c]"]
    have "encodeVarint_loop (pre @ ?c # junk' @ suf) (int (length pre) + 1) (drop_bit 7 v) =
        Ok (pre @ varint (unat v) @ suf)"
      using True by (simp add: varint_word[of v] ac_simps)
    with True junk show ?thesis
      by (subst encodeVarint_loop.simps) (simp add: store_mid)
  qed
qed

lemma encodeVarint_eq:
  "length junk = length (varint (unat v)) \<Longrightarrow>
   encodeVarint (pre @ junk @ suf) (int (length pre + length junk)) v =
     Ok (pre @ varint (unat v) @ suf, int (length pre))"
  by (simp add: encodeVarint_def sov_length encodeVarint_loop_eq)

lemma writesI:
  "(\<And>pre junk suf. length junk = length e \<Longrightarrow>
     op (pre @ junk @ suf, int (length pre + length junk)) = Ok (pre @ e @ suf, int (length pre))) \<Longrightarrow>
   writes op e"
  by (simp add: writes_def)

lemma writesD:
  "writes op e \<Longrightarrow> length junk = length e \<Longrightarrow>
   op (pre @ junk @ suf, int (length pre + length junk)) = Ok (pre @ e @ suf, int (length pre))"
  by (simp add: writes_def)

lemma writes_putByte [writes_intros]: "writes (putByte b) [b]"
  by (rule writesI) (auto simp: length_Suc_conv store_mid)

lemma writes_putVarint [writes_intros]: "writes (putVarint v) (varint (unat v))"
  by (rule writesI, subst putVarint.simps, rule encodeVarint_eq)

lemma length_split:
  assumes "length xs = a + b"
  obtains us vs where "xs = us @ vs" "length us = a" "length vs = b"
  by (rule that[of "take a xs" "drop a xs"]) (use assms in auto)

lemma writes_putBytes [writes_intros]: "writes (putBytes bs) (lenPrefixed bs)"
proof (rule writesI)
  fix pre junk suf :: "byte list"
  assume "length junk = length (lenPrefixed bs)"
  then obtain j1 j2 where junk: "junk = j1 @ j2"
    and j1: "length j1 = length (varint (unat (of_nat (length bs) :: uint64)))"
    and j2: "length j2 = length bs"
    unfolding lenPrefixed_def length_append by (rule length_split)
  have "encodeVarint (pre @ j1 @ bs @ suf) (int (length pre + length j1)) (of_nat (length bs)) =
      Ok (pre @ lenPrefixed bs @ suf, int (length pre))"
    using encodeVarint_eq[OF j1] by (simp add: lenPrefixed_def)
  then show "putBytes bs (pre @ junk @ suf, int (length pre + length junk)) =
      Ok (pre @ lenPrefixed bs @ suf, int (length pre))"
    using j2 by (simp add: junk Let_def nat_int_add ac_simps)
qed

lemma writes_putMsg [writes_intros]:
  assumes "fills f e"
  shows "writes (putMsg f) (lenPrefixed e)"
proof (rule writesI)
  fix pre junk suf :: "byte list"
  assume "length junk = length (lenPrefixed e)"
  then obtain j1 j2 where junk: "junk = j1 @ j2"
    and j1: "length j1 = length (varint (unat (of_nat (length e) :: uint64)))"
    and j2: "length j2 = length e"
    unfolding lenPrefixed_def length_append by (rule length_split)
  have f: "f (pre @ j1 @ j2) = Ok (pre @ j1 @ e, int (length e))"
    using assms j2 unfolding fills_def by (metis append_assoc)
  have "encodeVarint (pre @ j1 @ e @ suf) (int (length pre + length j1)) (of_nat (length e)) =
      Ok (pre @ lenPrefixed e @ suf, int (length pre))"
    using encodeVarint_eq[OF j1] by (simp add: lenPrefixed_def)
  then show "putMsg f (pre @ junk @ suf, int (length pre + length junk)) =
      Ok (pre @ lenPrefixed e @ suf, int (length pre))"
    using j2 f by (simp add: junk prefixTo_def nat_int_add ac_simps)
qed

lemma writes_runw_Nil: "writes (runw []) []"
  by (rule writesI) simp

lemma writes_runw_Cons:
  assumes "writes op e" "writes (runw ops) es"
  shows "writes (runw (op # ops)) (es @ e)"
proof (rule writesI)
  fix pre junk suf :: "byte list"
  assume "length junk = length (es @ e)"
  then obtain j1 j2 where junk: "junk = j1 @ j2" and j1: "length j1 = length es"
    and j2: "length j2 = length e"
    unfolding length_append by (rule length_split)
  show "runw (op # ops) (pre @ junk @ suf, int (length pre + length junk)) =
      Ok (pre @ (es @ e) @ suf, int (length pre))"
    using writesD[OF assms(1) j2, of "pre @ j1" suf] writesD[OF assms(2) j1, of pre "e @ suf"]
    by (simp add: junk ac_simps)
qed

lemma writes_whenw: "(b \<Longrightarrow> writes (runw ops) e) \<Longrightarrow> writes (whenw b ops) (if b then e else [])"
  by (auto simp: whenw_def writes_def)

lemma fills_sizedBuffer:
  assumes "writes (runw ops) e"
  shows "fills (sizedBuffer ops) e"
  unfolding fills_def sizedBuffer_def
  using writesD[OF assms, where suf = "[]"] by auto

lemma marshalVia_eq:
  assumes "fills f e" "sz = length e"
  shows "marshalVia sz f = Ok e"
proof -
  have "f ([] @ replicate sz 0) = Ok ([] @ e, int (length e))"
    using assms unfolding fills_def by (metis length_replicate)
  then show ?thesis using assms(2) by (simp add: marshalVia_def prefixTo_def)
qed

lemma marshalToVia_eq:
  assumes "fills f e" "sz = length e" "length e \<le> length dAtA"
  shows "marshalToVia sz f dAtA = Ok (e @ drop (length e) dAtA, int (length e))"
proof -
  have "f ([] @ take sz dAtA) = Ok ([] @ e, int (length e))"
    using assms unfolding fills_def by (metis length_take min.absorb2)
  then show ?thesis using assms(2,3) by (simp add: marshalToVia_def prefixTo_def)
qed

text \<open>The three shapes of an optional field, and a repeated message field.\<close>

lemma writes_fVarint [writes_intros]:
  "writes (whenw (v \<noteq> 0) [putVarint v, putByte tag]) (fVarint tag v)"
proof -
  have "writes (runw [putVarint v, putByte tag]) (([] @ [tag]) @ varint (unat v))"
    by (intro writes_runw_Cons writes_runw_Nil writes_intros)
  from writes_whenw[of "v \<noteq> 0", OF this] show ?thesis
    by (cases "v = 0") (auto simp: fVarint_def)
qed

lemma writes_fBool [writes_intros]:
  "writes (whenw b [putByte (if b then 1 else 0), putByte tag]) (fBool tag b)"
proof -
  have "writes (runw [putByte (if b then 1 else 0), putByte tag]) (([] @ [tag]) @ [if b then 1 else 0])"
    by (intro writes_runw_Cons writes_runw_Nil writes_intros)
  from writes_whenw[of b, OF this] show ?thesis by (simp add: fBool_def cong: if_cong)
qed

lemma writes_fBytes [writes_intros]:
  "writes (whenw (0 < length bs) [putBytes bs, putByte tag]) (fBytes tag bs)"
proof -
  have "writes (runw [putBytes bs, putByte tag]) (([] @ [tag]) @ lenPrefixed bs)"
    by (intro writes_runw_Cons writes_runw_Nil writes_intros)
  from writes_whenw[of "0 < length bs", OF this] show ?thesis
    by (cases "bs = []") (auto simp: fBytes_def)
qed

lemma writes_fMsg:
  assumes "fills f e"
  shows "writes (runw [putMsg f, putByte tag]) (fMsg tag e)"
proof -
  have "writes (runw [putMsg f, putByte tag]) (([] @ [tag]) @ lenPrefixed e)"
    by (intro writes_runw_Cons writes_runw_Nil writes_intros assms)
  then show ?thesis by (simp add: fMsg_def)
qed

lemma writes_repeated:
  assumes "\<And>x. x \<in> set xs \<Longrightarrow> writes (op x) (enc x)"
  shows "writes (runw (map op (rev xs))) (concat (map enc xs))"
  using assms
proof (induction xs rule: rev_induct)
  case Nil
  then show ?case by (simp add: writes_def)
next
  case (snoc x xs)
  have "writes (runw (op x # map op (rev xs))) (concat (map enc xs) @ enc x)"
    using snoc by (intro writes_runw_Cons) auto
  then show ?case by (simp del: runw.simps)
qed

section \<open>The readers\<close>

lemma readVarint_varint:
  fixes acc :: "'a::len word"
  assumes "shift + 7 * (length (varint n) - 1) < 64"
  shows "readVarint (pre @ varint n @ rest) (int (length pre)) shift acc =
    (acc OR push_bit shift (of_nat n), Inr (int (length pre + length (varint n))))"
  using assms
proof (induction n arbitrary: pre shift acc rule: varint.induct)
  case (1 n)
  show ?case
  proof (cases "n < 128")
    case True
    then have "(of_nat n :: byte) < 0x80" by (simp add: word_less_nat_alt unat_of_nat)
    with True 1 show ?thesis
      using low_group[of n, where 'a = 'a]
      by (subst readVarint.simps) (simp add: varint.simps[of n] nth_append Let_def)
  next
    case False
    define c :: byte where "c = of_nat (n mod 128 + 128)"
    have v: "varint n = c # varint (n div 128)" using False by (simp add: varint.simps[of n] c_def)
    have "unat c = n mod 128 + 128" unfolding c_def unat_of_nat by simp
    then have c: "\<not> c < 0x80" by (simp add: word_less_nat_alt)
    have low: "ucast (c AND 0x7F) = (of_nat (n mod 128) :: 'a word)"
      unfolding c_def by (subst low_group) simp_all
    have bound: "shift + 7 + 7 * (length (varint (n div 128)) - 1) < 64"
    proof -
      obtain k where "length (varint (n div 128)) = Suc k"
        using varint_not_Nil by (cases "length (varint (n div 128))") auto
      with "1.prems" show ?thesis unfolding v by simp
    qed
    have IH: "readVarint ((pre @ [c]) @ varint (n div 128) @ rest) (int (length (pre @ [c]))) (shift + 7)
        (acc OR push_bit shift (of_nat (n mod 128))) =
      ((acc OR push_bit shift (of_nat (n mod 128))) OR push_bit (shift + 7) (of_nat (n div 128)),
        Inr (int (length (pre @ [c]) + length (varint (n div 128)))))"
      by (rule "1.IH"[OF False bound])
    have "push_bit shift (of_nat (n mod 128)) OR push_bit (shift + 7) (of_nat (n div 128)) =
        (push_bit shift (of_nat n) :: 'a word)"
      by (subst (3) join_groups) (simp add: ac_simps)
    then have "acc OR push_bit shift (of_nat (n mod 128)) OR push_bit (shift + 7) (of_nat (n div 128)) =
        acc OR push_bit shift (of_nat n)"
      by (simp add: or.assoc)
    with IH c low bound show ?thesis
      by (subst readVarint.simps) (simp add: v nth_append Let_def ac_simps)
  qed
qed

lemma readVarint_word:
  "readVarint (pre @ varint (unat (v :: uint64)) @ rest) (int (length pre)) 0 (0 :: 'a::len word) =
     (ucast v, Inr (int (length pre + length (varint (unat v)))))"
proof -
  have "length (varint (unat v)) \<le> 10"
    using unsigned_less[of v] by (intro length_varint_le) simp
  then have "0 + 7 * (length (varint (unat v)) - 1) < 64" by linarith
  from readVarint_varint[OF this, of pre rest "0 :: 'a word"] show ?thesis by simp
qed

lemma readVarint_single:
  assumes "b < 0x80"
  shows "readVarint (pre @ b # rest) (int (length pre)) 0 (0 :: uint64) = (ucast b, Inr (int (length pre) + 1))"
proof -
  have "unat b < 128" using assms by (simp add: word_less_nat_alt)
  then have "varint (unat (ucast b :: uint64)) = [b]"
    by (simp add: varint.simps unsigned_ucast_eq take_bit_nat_eq_self)
  then show ?thesis
    using readVarint_word[of pre "ucast b" rest, where 'a = 64] by (simp add: ac_simps)
qed

lemma readVarint_1:
  "readVarint (pre @ 1 # rest) (int (length pre)) 0 (0 :: uint64) = (1, Inr (int (length pre) + 1))"
  using readVarint_single[of 1 pre rest] by (simp add: word_less_nat_alt)

lemma readVarint_progress:
  "readVarint dAtA i shift acc = (v, Inr j) \<Longrightarrow> i < j \<and> j \<le> int (length dAtA)"
proof (induction dAtA i shift acc rule: readVarint.induct)
  case (1 dAtA i shift acc)
  then show ?case
    by (subst (asm) (2) readVarint.simps) (fastforce simp: Let_def split: if_splits)
qed

lemma readVarint_errors:
  "readVarint dAtA i shift acc = (v, Inl e) \<Longrightarrow> e = ErrIntOverflow \<or> e = ErrUnexpectedEOF"
proof (induction dAtA i shift acc rule: readVarint.induct)
  case (1 dAtA i shift acc)
  then show ?case
    by (subst (asm) (2) readVarint.simps) (fastforce simp: Let_def split: if_splits)
qed

lemma skipVarint_progress:
  "skipVarint dAtA i shift = Inr j \<Longrightarrow> i < j \<and> j \<le> int (length dAtA)"
proof (induction dAtA i shift rule: skipVarint.induct)
  case (1 dAtA i shift)
  then show ?case
    by (subst (asm) (2) skipVarint.simps) (fastforce split: if_splits)
qed

lemma skipVarint_errors: "skipVarint dAtA i shift = Inl e \<Longrightarrow> e = ErrIntOverflow \<or> e = ErrUnexpectedEOF"
proof (induction dAtA i shift rule: skipVarint.induct)
  case (1 dAtA i shift)
  then show ?case
    by (subst (asm) (2) skipVarint.simps) (fastforce split: if_splits)
qed

lemma readLength_lenPrefixed:
  assumes "length (pre @ lenPrefixed e @ rest) < 2 ^ 63"
  shows "readLength (pre @ lenPrefixed e @ rest) (int (length pre)) =
    Inr (int (length pre + (length (lenPrefixed e) - length e)), int (length pre + length (lenPrefixed e)))"
proof -
  let ?w = "of_nat (length e) :: uint64"
  let ?v = "varint (unat ?w)"
  have len: "length e < 2 ^ 63" using assms by (simp add: lenPrefixed_def)
  have "sint ?w = int (length e)"
    using len by (rule sint_of_nat_64)
  moreover have "wrap64 (int (length pre + length ?v) + int (length e)) = int (length pre + length ?v + length e)"
    using assms by (subst wrap64_id) (auto simp: lenPrefixed_def)
  ultimately show ?thesis
    using assms readVarint_word[of pre ?w "e @ rest", where 'a = 64]
    by (simp add: readLength_def lenPrefixed_def Let_def)
qed

lemma subslice_lenPrefixed:
  "subslice (pre @ lenPrefixed e @ rest) (int (length pre) + int (length (lenPrefixed e) - length e))
     (int (length pre) + int (length (lenPrefixed e))) = e"
  by (simp add: subslice_def lenPrefixed_def nat_int_add)

lemma readLength_bounds:
  assumes "readLength dAtA i = Inr (j, k)" "0 \<le> i" "length dAtA < 2 ^ 63"
  shows "i < j \<and> j \<le> k \<and> k \<le> int (length dAtA)"
proof -
  obtain w where w: "readVarint dAtA i 0 (0 :: 64 word) = (w, Inr j)"
    and k: "k = wrap64 (j + sint w)" "0 \<le> sint w" "0 \<le> k" "k \<le> int (length dAtA)"
    using assms(1) by (auto simp: readLength_def Let_def split: prod.splits sum.splits if_splits)
  have j: "i < j" "j \<le> int (length dAtA)" using readVarint_progress[OF w] by auto
  have "sint w < 2 ^ 63" using sint_lt[of w] by simp
  then have "j + sint w < 2 ^ 64" using j assms(3) by simp
  have "j \<le> k"
  proof (cases "j + sint w < 2 ^ 63")
    case True
    then show ?thesis using k j assms(2) by (simp add: wrap64_id)
  next
    case False
    then have "wrap64 (j + sint w) < 0"
      using \<open>j + sint w < 2 ^ 64\<close> by (simp add: wrap64_neg)
    then show ?thesis using k by simp
  qed
  with j k show ?thesis by simp
qed

section \<open>The tag loop on encoded fields\<close>

lemma consumes_Nil: "consumes name field [] m m"
  by (simp add: consumes_def)

lemma consumes_append:
  assumes "consumes name field e1 m m1" "consumes name field e2 m1 m2"
  shows "consumes name field (e1 @ e2) m m2"
  unfolding consumes_def
proof (intro allI impI)
  fix pre rest :: "byte list"
  assume "length (pre @ (e1 @ e2) @ rest) < 2 ^ 63"
  then show "unmarshalLoop name field (pre @ (e1 @ e2) @ rest) (int (length pre)) m =
      unmarshalLoop name field (pre @ (e1 @ e2) @ rest) (int (length pre + length (e1 @ e2))) m2"
    using assms(1)[unfolded consumes_def, rule_format, of pre "e2 @ rest"]
      assms(2)[unfolded consumes_def, rule_format, of "pre @ e1" rest]
    by (simp add: ac_simps)
qed

lemma unmarshalVia_consumes:
  assumes "consumes name field e m m'" "length e < 2 ^ 63"
  shows "unmarshalVia name field m e = (m', None)"
  using assms(1)[unfolded consumes_def, rule_format, of "[]" "[]"] assms(2)
  by (simp add: unmarshalVia_def unmarshalLoop.simps[of _ _ _ "int (length e)"])

text \<open>
  One field: a one-byte tag that is not an end-group and has a positive field number, and a
  handler that reads exactly the rest of the encoding.
\<close>

definition tagOk :: "byte \<Rightarrow> int32 \<Rightarrow> int \<Rightarrow> bool" where
  "tagOk tag fieldNum wireType \<longleftrightarrow>
     tag < 0x80 \<and> (ucast (drop_bit 3 (ucast tag :: uint64)) :: int32) = fieldNum \<and> 0 < sint fieldNum \<and>
     uint ((ucast tag :: uint64) AND 0x7) = wireType \<and> wireType \<noteq> 4"

lemma consumes_field:
  assumes tag: "tagOk tag fieldNum wireType"
    and field: "\<And>pre rest. length (pre @ e @ rest) < 2 ^ 63 \<Longrightarrow>
      field fieldNum wireType (pre @ e @ rest) (int (length pre)) m = Some (m', Inr (int (length pre + length e)))"
  shows "consumes name field (tag # e) m m'"
  unfolding consumes_def
proof (intro allI impI)
  fix pre rest :: "byte list"
  assume len: "length (pre @ (tag # e) @ rest) < 2 ^ 63"
  define d where "d = pre @ (tag # e) @ rest"
  have r: "readVarint d (int (length pre)) 0 (0 :: uint64) = (ucast tag, Inr (int (length pre) + 1))"
    using tag readVarint_single[of tag pre "e @ rest"] by (simp add: tagOk_def d_def)
  have f: "field fieldNum wireType d (int (length pre) + 1) m =
      Some (m', Inr (int (length pre + length (tag # e))))"
    using field[of "pre @ [tag]" rest] len by (simp add: d_def ac_simps)
  have step: "unmarshalStep name field d (int (length pre)) m = (m', Inr (int (length pre + length (tag # e))))"
    using tag f by (auto simp: unmarshalStep_def r tagOk_def Let_def)
  have "int (length pre) < int (length d)" by (simp add: d_def)
  with step show "unmarshalLoop name field (pre @ (tag # e) @ rest) (int (length pre)) m =
      unmarshalLoop name field (pre @ (tag # e) @ rest) (int (length pre + length (tag # e))) m'"
    unfolding d_def [symmetric] by (subst unmarshalLoop.simps) simp
qed

lemma consumes_fVarint:
  assumes "tagOk tag fieldNum 0"
    and "\<And>d i. field fieldNum 0 d i m = Some (varintCase 0 fname d i upd m)"
    and "v \<noteq> 0 \<Longrightarrow> upd (ucast v) m = m'" "v = 0 \<Longrightarrow> m' = m"
  shows "consumes name field (fVarint tag v) m m'"
proof (cases "v = 0")
  case True
  then show ?thesis using assms(4) by (simp add: fVarint_def consumes_Nil)
next
  case False
  have "consumes name field (tag # varint (unat v)) m m'"
    using assms(1)
    by (rule consumes_field)
      (simp add: assms(2) varintCase_def readVarint_word assms(3)[OF False])
  with False show ?thesis by (simp add: fVarint_def)
qed

lemma consumes_fBool:
  assumes "tagOk tag fieldNum 0"
    and "\<And>d i. field fieldNum 0 d i m = Some (boolCase 0 fname d i upd m)"
    and "b \<Longrightarrow> upd True m = m'" "\<not> b \<Longrightarrow> m' = m"
  shows "consumes name field (fBool tag b) m m'"
proof (cases b)
  case False
  then show ?thesis using assms(4) by (simp add: fBool_def consumes_Nil)
next
  case True
  have "consumes name field (tag # [1]) m m'"
    using assms(1)
    by (rule consumes_field)
      (simp add: assms(2) boolCase_def readVarint_1 assms(3)[OF True])
  with True show ?thesis by (simp add: fBool_def)
qed

lemma consumes_fBytes:
  assumes "tagOk tag fieldNum 2"
    and "\<And>d i. field fieldNum 2 d i m = Some (bytesCase 2 fname d i upd m)"
    and "bs \<noteq> [] \<Longrightarrow> upd bs m = m'" "bs = [] \<Longrightarrow> m' = m"
  shows "consumes name field (fBytes tag bs) m m'"
proof (cases "bs = []")
  case True
  then show ?thesis using assms(4) by (simp add: fBytes_def consumes_Nil)
next
  case False
  have "consumes name field (tag # lenPrefixed bs) m m'"
    using assms(1)
  proof (rule consumes_field)
    fix pre rest :: "byte list"
    assume "length (pre @ lenPrefixed bs @ rest) < 2 ^ 63"
    from readLength_lenPrefixed[OF this]
    show "field fieldNum 2 (pre @ lenPrefixed bs @ rest) (int (length pre)) m =
        Some (m', Inr (int (length pre + length (lenPrefixed bs))))"
      using assms(3)[OF False] by (simp add: assms(2) bytesCase_def subslice_lenPrefixed)
  qed
  with False show ?thesis by (simp add: fBytes_def)
qed

lemma consumes_fMsg:
  assumes "tagOk tag fieldNum 2"
    and "\<And>d i. field fieldNum 2 d i m = Some (msgCase 2 fname d i unmarshal m)"
    and "length e < 2 ^ 63 \<Longrightarrow> unmarshal e m = (m', None)"
  shows "consumes name field (fMsg tag e) m m'"
  unfolding fMsg_def
  using assms(1)
proof (rule consumes_field)
  fix pre rest :: "byte list"
  assume len: "length (pre @ lenPrefixed e @ rest) < 2 ^ 63"
  then have "length e < 2 ^ 63" by (simp add: lenPrefixed_def)
  with readLength_lenPrefixed[OF len] assms(3)
  show "field fieldNum 2 (pre @ lenPrefixed e @ rest) (int (length pre)) m =
      Some (m', Inr (int (length pre + length (lenPrefixed e))))"
    by (simp add: assms(2) msgCase_def subslice_lenPrefixed)
qed

section \<open>Progress and totality\<close>

text \<open>
  A handler is well behaved when every case that succeeds moves forward and stays inside the
  buffer, and no case makes the artificial error. Such a handler's loop always ends with the
  message or with an error of the code.
\<close>

definition handlerOk :: "'m handler \<Rightarrow> bool" where
  "handlerOk field \<longleftrightarrow>
     (\<forall>fieldNum wireType dAtA i m m' r. 0 \<le> i \<longrightarrow> length dAtA < 2 ^ 63 \<longrightarrow>
        field fieldNum wireType dAtA i m = Some (m', r) \<longrightarrow>
        (case r of Inl e \<Rightarrow> e \<noteq> ErrNoProgress | Inr j \<Rightarrow> i < j \<and> j \<le> int (length dAtA)))"

definition stepOk :: "byte list \<Rightarrow> int \<Rightarrow> pb_error + int \<Rightarrow> bool" where
  "stepOk dAtA i r \<longleftrightarrow> (case r of Inl e \<Rightarrow> e \<noteq> ErrNoProgress | Inr j \<Rightarrow> i < j \<and> j \<le> int (length dAtA))"

lemma handlerOkI:
  "(\<And>fieldNum wireType dAtA i m m' r. 0 \<le> i \<Longrightarrow> length dAtA < 2 ^ 63 \<Longrightarrow>
     field fieldNum wireType dAtA i m = Some (m', r) \<Longrightarrow> stepOk dAtA i r) \<Longrightarrow> handlerOk field"
  by (auto simp: handlerOk_def stepOk_def)

lemma handlerOkD:
  "handlerOk field \<Longrightarrow> 0 \<le> i \<Longrightarrow> length dAtA < 2 ^ 63 \<Longrightarrow>
   field fieldNum wireType dAtA i m = Some (m', r) \<Longrightarrow> stepOk dAtA i r"
  by (auto simp: handlerOk_def stepOk_def)

lemma stepOk_mono: "stepOk dAtA j r \<Longrightarrow> i \<le> j \<Longrightarrow> stepOk dAtA i r"
  by (cases r) (auto simp: stepOk_def)

lemma readVarint_stepOk: "readVarint dAtA i s acc = (v, r) \<Longrightarrow> stepOk dAtA i r"
  by (cases r) (auto simp: stepOk_def dest: readVarint_progress readVarint_errors)

lemma readLength_errors: "readLength dAtA i = Inl e \<Longrightarrow> e \<noteq> ErrNoProgress"
  by (auto simp: readLength_def Let_def dest: readVarint_errors split: prod.splits sum.splits if_splits)

lemma varintCase_stepOk: "varintCase wt fname dAtA i upd m = (m', r) \<Longrightarrow> stepOk dAtA i r"
  by (auto simp: varintCase_def split: if_splits prod.splits dest: readVarint_stepOk)
    (auto simp: stepOk_def)

lemma boolCase_stepOk: "boolCase wt fname dAtA i upd m = (m', r) \<Longrightarrow> stepOk dAtA i r"
  by (auto simp: boolCase_def split: if_splits prod.splits sum.splits dest: readVarint_stepOk)
    (auto simp: stepOk_def)

lemma bytesCase_stepOk:
  "bytesCase wt fname dAtA i upd m = (m', r) \<Longrightarrow> 0 \<le> i \<Longrightarrow> length dAtA < 2 ^ 63 \<Longrightarrow> stepOk dAtA i r"
  by (auto simp: bytesCase_def stepOk_def split: if_splits prod.splits sum.splits
      dest: readLength_errors readLength_bounds)

lemma msgCase_stepOk:
  assumes "msgCase wt fname dAtA i unmarshal m = (m', r)" "0 \<le> i" "length dAtA < 2 ^ 63"
    and "\<And>bs x e. length bs < 2 ^ 63 \<Longrightarrow> unmarshal bs m = (x, Some e) \<Longrightarrow> e \<noteq> ErrNoProgress"
  shows "stepOk dAtA i r"
proof -
  have sub: "length (subslice dAtA j k) < 2 ^ 63" for j k
    using assms(3) by (auto simp: subslice_def)
  show ?thesis
  proof (cases r)
    case (Inl e)
    with assms(1,4) sub show ?thesis
      by (auto simp: msgCase_def stepOk_def split: if_splits prod.splits sum.splits option.splits
          dest: readLength_errors) blast
  next
    case (Inr j)
    with assms(1-3) show ?thesis
      by (auto simp: msgCase_def stepOk_def split: if_splits prod.splits sum.splits option.splits
          dest: readLength_bounds)
  qed
qed

lemma skipStep_progress:
  assumes "skipStep dAtA i depth = Inr (j, depth')" "0 \<le> i" "length dAtA < 2 ^ 63"
  shows "(j < 0 \<or> i < j) \<and> j < 2 ^ 63"
proof -
  obtain wire k where k: "readVarint dAtA i 0 (0 :: 64 word) = (wire, Inr k)"
    using assms(1) by (auto simp: skipStep_def split: prod.splits sum.splits)
  have ik: "i < k" "k \<le> int (length dAtA)" using readVarint_progress[OF k] by auto
  have fixed: "wrap64 (k + c) < 0 \<or> i < wrap64 (k + c)" if "c = 8 \<or> c = 4" for c
    using wrap64_cases[of "k + c"] ik assms(2,3) that by auto
  have var: "wrap64 (l + sint len) < 0 \<or> i < wrap64 (l + sint len)"
    if "readVarint dAtA k 0 (0 :: 64 word) = (len, Inr l)" "0 \<le> sint len" for len :: "64 word" and l
    using wrap64_cases[of "l + sint len"] readVarint_progress[OF that(1)] ik assms(2,3) that(2)
      sint_lt[of len] by auto
  have skp: "i < l \<and> l < 2 ^ 63" if "skipVarint dAtA k 0 = Inr l" for l
    using skipVarint_progress[OF that] ik assms(3) by simp
  have less: "k < 2 ^ 63" "wrap64 x < 2 ^ 63" for x using ik assms(3) wrap64_less[of x] by simp_all
  show ?thesis
    using assms(1) k ik fixed var skp less
    by (auto simp: skipStep_def Let_def split: prod.splits sum.splits if_splits)
qed

lemma skipStep_errors: "skipStep dAtA i depth = Inl e \<Longrightarrow> e \<noteq> ErrNoProgress"
  by (auto simp: skipStep_def Let_def split: prod.splits sum.splits if_splits
      dest: readVarint_errors skipVarint_errors)

lemma skipLoop_total:
  assumes "0 \<le> i" "length dAtA < 2 ^ 63"
  shows "case skipLoop dAtA i depth of Inl e \<Rightarrow> e \<noteq> ErrNoProgress | Inr j \<Rightarrow> i < j \<and> j < 2 ^ 63"
  using assms
proof (induction dAtA i depth rule: skipLoop.induct)
  case (1 d i depth)
  show ?case
  proof (cases "skipStep d i depth")
    case (Inl e)
    then show ?thesis by (subst skipLoop.simps) (auto dest: skipStep_errors)
  next
    case (Inr q)
    then obtain j depth' where q: "skipStep d i depth = Inr (j, depth')" by (cases q) auto
    have "(j < 0 \<or> i < j) \<and> j < 2 ^ 63" using q "1.prems" by (rule skipStep_progress)
    moreover have "case skipLoop d j depth' of Inl e \<Rightarrow> e \<noteq> ErrNoProgress | Inr k \<Rightarrow> j < k \<and> k < 2 ^ 63"
      if "i < int (length d)" "0 < depth'" "i < j"
      using "1.IH"[OF that(1) q refl] that "1.prems" by simp
    ultimately show ?thesis
      using q by (subst skipLoop.simps) (auto split: sum.splits)
  qed
qed

lemma skip_total:
  assumes "length dAtA < 2 ^ 63"
  shows "case skip dAtA of Inl e \<Rightarrow> e \<noteq> ErrNoProgress | Inr n \<Rightarrow> 0 < n \<and> n < 2 ^ 63"
  using skipLoop_total[OF _ assms, of 0 0] by (simp add: skip_def)

lemma unmarshalStep_stepOk:
  assumes "handlerOk field" "0 \<le> i" "length dAtA < 2 ^ 63"
    and step: "unmarshalStep name field dAtA i m = (m', r)"
  shows "stepOk dAtA i r"
proof (cases "readVarint dAtA i 0 (0 :: 64 word)")
  case (Pair wire q)
  show ?thesis
  proof (cases q)
    case (Inl e)
    with Pair step show ?thesis
      by (auto simp: unmarshalStep_def stepOk_def dest: readVarint_errors)
  next
    case (Inr j)
    have j: "i < j" "j \<le> int (length dAtA)" using readVarint_progress Pair Inr by fastforce+
    let ?f = "field (ucast (drop_bit 3 wire)) (uint (wire AND 7)) dAtA j m"
    have field: "stepOk dAtA i r" if "?f = Some (m', r)"
      using handlerOkD[OF assms(1) _ assms(3) that] assms(2) j by (auto intro: stepOk_mono)
    have "length (drop (nat i) dAtA) < 2 ^ 63" using assms(3) by simp
    note total = skip_total[OF this]
    have skp: "stepOk dAtA i r"
      if "(case skip (drop (nat i) dAtA) of Inl e \<Rightarrow> (m, Inl e) | Inr n \<Rightarrow>
          if n < 0 \<or> wrap64 (i + n) < 0 then (m, Inl ErrInvalidLength)
          else if int (length dAtA) < wrap64 (i + n) then (m, Inl ErrUnexpectedEOF)
          else (m, Inr (wrap64 (i + n)))) = (m', r)"
    proof (cases "skip (drop (nat i) dAtA)")
      case (Inl e)
      have "r = Inl e" using that unfolding Inl by simp
      moreover have "e \<noteq> ErrNoProgress" using total unfolding Inl by simp
      ultimately show ?thesis by (simp add: stepOk_def)
    next
      case (Inr n)
      have "wrap64 (i + n) < 0 \<or> wrap64 (i + n) = i + n"
        using total Inr assms(2,3) j by (intro wrap64_cases) auto
      with that total Inr show ?thesis by (auto simp: stepOk_def split: if_splits)
    qed
    show ?thesis
      using step Pair Inr field skp
      by (auto simp: unmarshalStep_def Let_def stepOk_def split: if_splits option.splits)
  qed
qed

lemma unmarshalLoop_total:
  assumes "handlerOk field" "0 \<le> i" "length dAtA < 2 ^ 63"
  shows "snd (unmarshalLoop name field dAtA i m) \<noteq> Some ErrNoProgress"
  using assms
proof (induction name field dAtA i m rule: unmarshalLoop.induct)
  case (1 name field d i m)
  obtain m' r where step: "unmarshalStep name field d i m = (m', r)" by fastforce
  have ok: "stepOk d i r" using "1.prems" step by (rule unmarshalStep_stepOk)
  show ?case
  proof (cases r)
    case (Inl e)
    with ok step show ?thesis by (subst unmarshalLoop.simps) (simp add: stepOk_def)
  next
    case (Inr j)
    have "snd (unmarshalLoop name field d j m') \<noteq> Some ErrNoProgress" if "i < int (length d)"
      using "1.IH"[OF that step [symmetric] Inr] ok Inr "1.prems" by (simp add: stepOk_def)
    with ok step Inr show ?thesis by (subst unmarshalLoop.simps) (simp add: stepOk_def)
  qed
qed

lemma unmarshalVia_total:
  assumes "handlerOk field" "length dAtA < 2 ^ 63"
  shows "snd (unmarshalVia name field m dAtA) \<noteq> Some ErrNoProgress"
  using unmarshalLoop_total[OF assms(1) _ assms(2), of 0] by (simp add: unmarshalVia_def)

end
