(* ===== verification/Message_Codec.thy ===== *)
theory Message_Codec
  imports Wire_Laws
begin

text \<open>
  The contract of a message type, as two locales. \<open>pb_codec\<close> is what the users of a message type rely
  on, be its code generated here or part of another module: \<^verbatim>\<open>Size\<close>, \<^verbatim>\<open>MarshalToSizedBuffer\<close> and
  \<^verbatim>\<open>Unmarshal\<close>, the forward encoding \<open>enc\<close> they implement, the messages \<open>ok\<close> that can be
  marshalled without a panic, and \<open>norm\<close>, the message as it is after a trip over the wire
  (an empty byte slice comes back nil). The bytes a Marshal returns, the round trip,
  and the laws of a field that holds such a message are proved once from it. \<open>pb_message\<close> is a message
  type whose \<^verbatim>\<open>Unmarshal\<close> is the tag loop over a \<^verbatim>\<open>switch\<close>; it is a \<open>pb_codec\<close>.
\<close>

definition normBytes :: "bytes \<Rightarrow> bytes" where
  "normBytes b = (if blen b = 0 then None else b)"

locale pb_codec =
  fixes sz :: "'m option \<Rightarrow> nat"
    and sized :: "'m option \<Rightarrow> byte list \<Rightarrow> (byte list \<times> int) go"
    and unmarshal :: "'m \<Rightarrow> byte list \<Rightarrow> 'm \<times> pb_error option"
    and zero :: 'm
    and enc :: "'m \<Rightarrow> byte list"
    and ok :: "'m \<Rightarrow> bool"
    and norm :: "'m \<Rightarrow> 'm"
  assumes sz_enc: "ok m \<Longrightarrow> sz (Some m) = length (enc m)"
    and sized_enc: "ok m \<Longrightarrow> fills (sized (Some m)) (enc m)"
    and unmarshal_enc: "ok m \<Longrightarrow> length (enc m) < 2 ^ 63 \<Longrightarrow> unmarshal zero (enc m) = (norm m, None)"
    and total: "length bs < 2 ^ 63 \<Longrightarrow> snd (unmarshal m bs) \<noteq> Some ErrNoProgress"
begin

lemma marshal: "ok m \<Longrightarrow> marshalVia (sz (Some m)) (sized (Some m)) = Ok (enc m)"
  using sz_enc sized_enc by (intro marshalVia_eq)

lemma marshalTo:
  "ok m \<Longrightarrow> length (enc m) \<le> length dAtA \<Longrightarrow>
   marshalToVia (sz (Some m)) (sized (Some m)) dAtA =
     Ok (enc m @ drop (length (enc m)) dAtA, int (length (enc m)))"
  using sz_enc sized_enc by (intro marshalToVia_eq)

lemma roundtrip:
  assumes "ok m" "marshalVia (sz (Some m)) (sized (Some m)) = Ok bs" "length bs < 2 ^ 63"
  shows "unmarshal zero bs = (norm m, None)"
  using assms marshal[OF assms(1)] unmarshal_enc[OF assms(1)] by auto

lemma msgCase_stepOk_field:
  assumes "msgCase wt fname dAtA i (\<lambda>bs m. case unmarshal (g m) bs of
      (x, err) \<Rightarrow> (upd x m, err)) m = (m', r)" "0 \<le> i" "length dAtA < 2 ^ 63"
  shows "stepOk dAtA i r"
  using assms
proof (rule msgCase_stepOk)
  fix bs x e
  assume "length bs < 2 ^ 63"
    "(case unmarshal (g m) bs of (x, err) \<Rightarrow> (upd x m, err)) = (x, Some e)"
  with total[of bs "g m"] show "e \<noteq> ErrNoProgress" by (auto split: prod.splits)
qed

lemma length_fOpt:
  "(\<And>m. p = Some m \<Longrightarrow> ok m) \<Longrightarrow>
   length (fOpt tag enc p) = (if p \<noteq> None then let l = sz p in 1 + l + sov (of_nat l) else 0)"
  by (cases p) (auto simp: fOpt_def length_fMsg sz_enc Let_def)

lemma length_repeated:
  "None \<notin> set ps \<Longrightarrow> (\<And>m. Some m \<in> set ps \<Longrightarrow> ok m) \<Longrightarrow>
   length (concat (map (fOpt tag enc) ps)) = (\<Sum>e\<leftarrow>ps. let l = sz e in 1 + l + sov (of_nat l))"
proof (induction ps)
  case (Cons p ps)
  then obtain m where m: "p = Some m" by (cases p) auto
  with Cons have "length (fOpt tag enc p) = (let l = sz p in 1 + l + sov (of_nat l))"
    by (subst length_fOpt) auto
  with Cons show ?case by simp
qed simp

lemma writes_fOpt:
  assumes "\<And>m. p = Some m \<Longrightarrow> ok m"
  shows "writes (whenw (p \<noteq> None) [putMsg (sized p), putByte tag]) (fOpt tag enc p)"
proof (cases p)
  case None
  then show ?thesis by (simp add: whenw_def writes_def fOpt_def)
next
  case (Some m)
  then have "writes (runw [putMsg (sized p), putByte tag]) (fMsg tag (enc m))"
    using sized_enc assms by (intro writes_fMsg) simp
  then show ?thesis using Some by (simp add: whenw_def fOpt_def del: runw.simps)
qed

lemma writes_fRepeated:
  assumes "None \<notin> set ps" "\<And>m. Some m \<in> set ps \<Longrightarrow> ok m"
  shows "writes (whenw (0 < length ps) (map (\<lambda>e. runw [putMsg (sized e), putByte tag]) (rev ps)))
    (concat (map (fOpt tag enc) ps))"
proof -
  have "writes (runw [putMsg (sized p), putByte tag]) (fOpt tag enc p)" if p: "p \<in> set ps" for p
  proof -
    obtain m where m: "p = Some m" using p assms(1) by (metis not_Some_eq)
    with p assms(2) sized_enc have "fills (sized p) (enc m)" by auto
    from writes_fMsg[OF this] show ?thesis using m by (simp add: fOpt_def del: runw.simps)
  qed
  then have "writes (runw (map (\<lambda>e. runw [putMsg (sized e), putByte tag]) (rev ps)))
      (concat (map (fOpt tag enc) ps))"
    by (rule writes_repeated)
  then show ?thesis
    by (cases "ps = []") (auto simp: whenw_def writes_def simp del: runw.simps)
qed

lemma consumes_fOpt:
  assumes "tagOk tag n 2"
    and "\<And>d i. pfield n 2 d i m = Some (msgCase 2 fname d i (\<lambda>bs m.
      case unmarshal (case get m of None \<Rightarrow> zero | Some x \<Rightarrow> x) bs of
        (x, err) \<Rightarrow> (upd x m, err)) m)"
    and "get m = None" "\<And>x. p = Some x \<Longrightarrow> ok x"
    and "\<And>x. p = Some x \<Longrightarrow> upd (norm x) m = m'" "p = None \<Longrightarrow> m' = m"
  shows "consumes pname pfield (fOpt tag enc p) m m'"
proof (cases p)
  case None
  then show ?thesis using assms(6) by (simp add: fOpt_def consumes_Nil)
next
  case (Some x)
  have "consumes pname pfield (fMsg tag (enc x)) m m'"
    using assms(1,2)
    by (rule consumes_fMsg) (use Some assms(3-5) in \<open>simp add: unmarshal_enc\<close>)
  then show ?thesis using Some by (simp add: fOpt_def)
qed

lemma consumes_repeated:
  assumes "tagOk tag n 2"
    and "\<And>d i m. pfield n 2 d i m = Some (msgCase 2 fname d i (\<lambda>bs m.
      case unmarshal zero bs of (x, err) \<Rightarrow> (upd x m, err)) m)"
    and "None \<notin> set ps" "\<And>m. Some m \<in> set ps \<Longrightarrow> ok m"
    and "\<And>x acc. upd x (st acc) = st (acc @ [Some x])"
  shows "consumes pname pfield (concat (map (fOpt tag enc) ps)) (st acc) (st (acc @ map (map_option norm) ps))"
  using assms(3,4)
proof (induction ps arbitrary: acc)
  case Nil
  then show ?case by (simp add: consumes_Nil)
next
  case (Cons p ps)
  then obtain x where x: "p = Some x" "ok x" by (cases p) auto
  have "consumes pname pfield (fMsg tag (enc x)) (st acc) (st (acc @ [Some (norm x)]))"
    using assms(1,2)
    by (rule consumes_fMsg) (use x(2) assms(5) in \<open>simp add: unmarshal_enc\<close>)
  moreover have "consumes pname pfield (concat (map (fOpt tag enc) ps)) (st (acc @ [Some (norm x)]))
      (st ((acc @ [Some (norm x)]) @ map (map_option norm) ps))"
    using Cons.prems by (intro Cons.IH) auto
  ultimately show ?case using x(1) by (auto intro: consumes_append)
qed

end

locale pb_message =
  fixes sz :: "'m option \<Rightarrow> nat"
    and sized :: "'m option \<Rightarrow> byte list \<Rightarrow> (byte list \<times> int) go"
    and name :: string
    and field :: "'m handler"
    and zero :: 'm
    and enc :: "'m \<Rightarrow> byte list"
    and ok :: "'m \<Rightarrow> bool"
    and norm :: "'m \<Rightarrow> 'm"
  assumes sz_ok: "ok m \<Longrightarrow> sz (Some m) = length (enc m)"
    and sized_ok: "ok m \<Longrightarrow> fills (sized (Some m)) (enc m)"
    and decodes: "ok m \<Longrightarrow> consumes name field (enc m) zero (norm m)"
    and handler: "handlerOk field"

sublocale pb_message \<subseteq> pb_codec sz sized "unmarshalVia name field" zero enc ok norm
proof unfold_locales
  show "unmarshalVia name field zero (enc m) = (norm m, None)" if "ok m" "length (enc m) < 2 ^ 63" for m
    using decodes that by (intro unmarshalVia_consumes)
  show "snd (unmarshalVia name field m bs) \<noteq> Some ErrNoProgress" if "length bs < 2 ^ 63" for m bs
    using handler that by (rule unmarshalVia_total)
qed (use sz_ok sized_ok in auto)

context pb_message
begin

lemma codec: "pb_codec sz sized (unmarshalVia name field) zero enc ok norm"
  by unfold_locales

end

lemma normBytes_simps [simp]: "normBytes None = None" "normBytes (Some []) = None"
  by (simp_all add: normBytes_def)

lemma normBytes_canonical: "b \<noteq> Some [] \<Longrightarrow> normBytes b = b"
  by (cases b) (auto simp: normBytes_def)

lemma normBytes_alt: "normBytes b = (if bcontent b = [] then None else Some (bcontent b))"
  by (cases b) (auto simp: normBytes_def)

lemma normBytes_idem [simp]: "normBytes (normBytes b) = normBytes b"
  by (simp add: normBytes_def)

text \<open>An enum is written sign-extended and read back at its own width.\<close>

lemma ucast_scast_enum [simp]: "(ucast (scast (v :: int32) :: uint64) :: int32) = v"
  by (rule bit_word_eqI) (auto simp: bit_simps)

lemma scast_enum_eq_0 [simp]: "(scast (v :: int32) :: uint64) = 0 \<longleftrightarrow> v = 0"
  by (metis ucast_scast_enum scast_0 ucast_0)

lemma writes_fEnum:
  "writes (whenw (v \<noteq> 0) [putVarint (scast (v :: int32)), putByte tag]) (fVarint tag (scast v))"
  using writes_fVarint[of "scast v" tag] by simp

lemma writes_fBytesOpt:
  "writes (whenw (0 < blen b) [putBytes (bcontent b), putByte tag]) (fBytes tag (bcontent b))"
  using writes_fBytes[of "bcontent b" tag] by simp

lemma writes_runw_eq: "writes (runw ops) e \<Longrightarrow> e = e' \<Longrightarrow> writes (runw ops) e'"
  by simp

lemmas field_stepOk = varintCase_stepOk boolCase_stepOk bytesCase_stepOk

end
