(* ===== verification/Raft_Codec.thy ===== *)
theory Raft_Codec
  imports Raft_Messages Message_Codec
begin

text \<open>
  The messages of package raftpb satisfy the message contract: their forward encodings, and one
  interpretation of the locale per message type. A message can be marshalled when its repeated
  fields hold no nil pointer (\<open>X_ok\<close>); \<open>X_norm\<close> is what comes back from the wire.
\<close>

section \<open>Forward encodings\<close>

definition Args_enc :: "Args \<Rightarrow> byte list" where
  "Args_enc m =
     fVarint 0x8 (Args_Term m) @
     fVarint 0x10 (Args_Leader m)"

definition Entry_enc :: "Entry \<Rightarrow> byte list" where
  "Entry_enc m =
     fVarint 0x8 (Entry_Term m) @
     fVarint 0x10 (Entry_Index m) @
     fBytes 0x1a (bcontent (Entry_Data m))"

definition Entry_norm :: "Entry \<Rightarrow> Entry" where
  "Entry_norm m = m\<lparr>Entry_Data := normBytes (Entry_Data m)\<rparr>"

definition AppendEntriesArgs_enc :: "AppendEntriesArgs \<Rightarrow> byte list" where
  "AppendEntriesArgs_enc m =
     fOpt 0xa Args_enc (AEArgs_Args m) @
     concat (map (fOpt 0x12 Entry_enc) (AEArgs_Entries m)) @
     fVarint 0x18 (CommitTerm m) @
     fVarint 0x20 (LeaderCommit m) @
     fVarint 0x30 (PrevLogIndex m) @
     fVarint 0x38 (PrevLogTerm m)"

definition AppendEntriesArgs_norm :: "AppendEntriesArgs \<Rightarrow> AppendEntriesArgs" where
  "AppendEntriesArgs_norm m = m\<lparr>AEArgs_Entries := map (map_option Entry_norm) (AEArgs_Entries m)\<rparr>"

definition AppendEntriesArgs_ok :: "AppendEntriesArgs \<Rightarrow> bool" where
  "AppendEntriesArgs_ok m \<longleftrightarrow> None \<notin> set (AEArgs_Entries m)"

definition AppendEntriesReply_enc :: "AppendEntriesReply \<Rightarrow> byte list" where
  "AppendEntriesReply_enc m =
     fVarint 0x8 (AEReply_Term m) @
     fVarint 0x10 (scast (AEReply_Status m)) @
     fVarint 0x18 (XIndex m) @
     fVarint 0x20 (XLen m) @
     fVarint 0x28 (XTerm m)"

definition SnapshotMetaData_enc :: "SnapshotMetaData \<Rightarrow> byte list" where
  "SnapshotMetaData_enc m =
     fVarint 0x8 (Meta_Index m) @
     fVarint 0x10 (Meta_Term m)"

definition Snapshot_enc :: "Snapshot \<Rightarrow> byte list" where
  "Snapshot_enc m =
     fOpt 0xa SnapshotMetaData_enc (Snapshot_Metadata m) @
     fBytes 0x12 (bcontent (Snapshot_Data m))"

definition Snapshot_norm :: "Snapshot \<Rightarrow> Snapshot" where
  "Snapshot_norm m = m\<lparr>Snapshot_Data := normBytes (Snapshot_Data m)\<rparr>"

definition InstallSnapshotArgs_enc :: "InstallSnapshotArgs \<Rightarrow> byte list" where
  "InstallSnapshotArgs_enc m =
     fOpt 0xa Args_enc (ISArgs_Args m) @
     fOpt 0x12 Snapshot_enc (ISArgs_Snapshot m)"

definition InstallSnapshotArgs_norm :: "InstallSnapshotArgs \<Rightarrow> InstallSnapshotArgs" where
  "InstallSnapshotArgs_norm m = m\<lparr>ISArgs_Snapshot := map_option Snapshot_norm (ISArgs_Snapshot m)\<rparr>"

definition InstallSnapshotReply_enc :: "InstallSnapshotReply \<Rightarrow> byte list" where
  "InstallSnapshotReply_enc m =
     fVarint 0x8 (ISReply_Term m)"

definition RequestVoteArgs_enc :: "RequestVoteArgs \<Rightarrow> byte list" where
  "RequestVoteArgs_enc m =
     fOpt 0xa Args_enc (RVArgs_Args m) @
     fVarint 0x10 (CandidateID m) @
     fVarint 0x18 (LastLogIndex m) @
     fVarint 0x20 (LastLogTerm m)"

definition RequestVoteReply_enc :: "RequestVoteReply \<Rightarrow> byte list" where
  "RequestVoteReply_enc m =
     fVarint 0x8 (RVReply_Term m) @
     fBool 0x10 (VoteGranted m)"

definition HardState_enc :: "HardState \<Rightarrow> byte list" where
  "HardState_enc m =
     fVarint 0x8 (HardState_Term m) @
     fVarint 0x10 (VotedFor m) @
     fVarint 0x18 (Commit m)"

definition Log_enc :: "Log \<Rightarrow> byte list" where
  "Log_enc m =
     concat (map (fOpt 0xa Entry_enc) (Log_Entries m)) @
     fVarint 0x10 (IncludedIndex m) @
     fVarint 0x18 (IncludedTerm m)"

definition Log_norm :: "Log \<Rightarrow> Log" where
  "Log_norm m = m\<lparr>Log_Entries := map (map_option Entry_norm) (Log_Entries m)\<rparr>"

definition Log_ok :: "Log \<Rightarrow> bool" where
  "Log_ok m \<longleftrightarrow> None \<notin> set (Log_Entries m)"

definition RaftState_enc :: "RaftState \<Rightarrow> byte list" where
  "RaftState_enc m =
     fOpt 0xa HardState_enc (RaftState_HardState m) @
     fOpt 0x12 Log_enc (RaftState_Log m)"

definition RaftState_norm :: "RaftState \<Rightarrow> RaftState" where
  "RaftState_norm m = m\<lparr>RaftState_Log := map_option Log_norm (RaftState_Log m)\<rparr>"

definition RaftState_ok :: "RaftState \<Rightarrow> bool" where
  "RaftState_ok m \<longleftrightarrow> (case RaftState_Log m of None \<Rightarrow> True | Some x \<Rightarrow> Log_ok x)"

section \<open>Laws\<close>

subsection \<open>Args\<close>

lemma Args_field_simps:
  "Args_field 1 wt dAtA iNdEx m = Some (varintCase wt ''Term'' dAtA iNdEx (\<lambda>v m. m\<lparr>Args_Term := v\<rparr>) m)"
  "Args_field 2 wt dAtA iNdEx m = Some (varintCase wt ''Leader'' dAtA iNdEx (\<lambda>v m. m\<lparr>Args_Leader := v\<rparr>) m)"
  by (simp_all add: Args_field_def)

lemma Args_size: "Args_Size (Some m) = length (Args_enc m)"
  by (simp add: Args_Size_def Args_enc_def enc_lengths Let_def)

lemma Args_fills: "fills (Args_MarshalToSizedBuffer (Some m)) (Args_enc m)"
  unfolding Args_MarshalToSizedBuffer_def Args_enc_def deref_simps go_bind.simps
  by (rule fills_sizedBuffer, rule writes_runw_eq[where e =
      "(([] @ fVarint 0x8 (Args_Term m)) @ fVarint 0x10 (Args_Leader m))"],
      intro writes_runw_Cons writes_runw_Nil writes_fVarint)
    (auto simp: append_assoc split: option.splits)

lemma Args_decodes: "consumes ''Args'' Args_field (Args_enc m) Args_zero m"
proof -
  have s1: "consumes ''Args'' Args_field (fVarint 0x8 (Args_Term m)) Args_zero
      (Args_zero\<lparr>Args_Term := Args_Term m\<rparr>)"
    by (rule consumes_fVarint[where fieldNum = 1], simp add: tagOk_def, rule Args_field_simps(1))
      (simp_all add: Args_zero_def normBytes_alt)
  have s2: "consumes ''Args'' Args_field (fVarint 0x10 (Args_Leader m)) (Args_zero\<lparr>Args_Term := Args_Term m\<rparr>)
      (Args_zero\<lparr>Args_Term := Args_Term m, Args_Leader := Args_Leader m\<rparr>)"
    by (rule consumes_fVarint[where fieldNum = 2], simp add: tagOk_def, rule Args_field_simps(2))
      (simp_all add: Args_zero_def normBytes_alt)
  have "(Args_zero\<lparr>Args_Term := Args_Term m, Args_Leader := Args_Leader m\<rparr>) = m"
    by (cases m) (simp add: Args_zero_def)
  with consumes_append[OF s1 s2] show ?thesis unfolding Args_enc_def by simp
qed

lemma Args_handler: "handlerOk Args_field"
  by (rule handlerOkI)
    (auto simp: Args_field_def split: if_splits dest: field_stepOk)

interpretation Args_pb: pb_message Args_Size Args_MarshalToSizedBuffer "''Args''" Args_field Args_zero Args_enc
  "(\<lambda>_. True)" "(\<lambda>m. m)"
  by unfold_locales (auto intro: Args_size Args_fills Args_decodes Args_handler)

subsection \<open>Entry\<close>

lemma Entry_field_simps:
  "Entry_field 1 wt dAtA iNdEx m = Some (varintCase wt ''Term'' dAtA iNdEx (\<lambda>v m. m\<lparr>Entry_Term := v\<rparr>) m)"
  "Entry_field 2 wt dAtA iNdEx m = Some (varintCase wt ''Index'' dAtA iNdEx (\<lambda>v m. m\<lparr>Entry_Index := v\<rparr>) m)"
  "Entry_field 3 wt dAtA iNdEx m = Some (bytesCase wt ''Data'' dAtA iNdEx (\<lambda>bs m. m\<lparr>Entry_Data := Some bs\<rparr>) m)"
  by (simp_all add: Entry_field_def)

lemma Entry_size: "Entry_Size (Some m) = length (Entry_enc m)"
  by (simp add: Entry_Size_def Entry_enc_def enc_lengths Let_def)

lemma Entry_fills: "fills (Entry_MarshalToSizedBuffer (Some m)) (Entry_enc m)"
  unfolding Entry_MarshalToSizedBuffer_def Entry_enc_def deref_simps go_bind.simps
  by (rule fills_sizedBuffer, rule writes_runw_eq[where e =
      "((([] @ fVarint 0x8 (Entry_Term m)) @ fVarint 0x10 (Entry_Index m)) @ fBytes 0x1a (bcontent (Entry_Data m)))"],
      intro writes_runw_Cons writes_runw_Nil writes_fVarint writes_fBytesOpt)
    (auto simp: append_assoc split: option.splits)

lemma Entry_decodes: "consumes ''Entry'' Entry_field (Entry_enc m) Entry_zero (Entry_norm m)"
proof -
  have s1: "consumes ''Entry'' Entry_field (fVarint 0x8 (Entry_Term m)) Entry_zero
      (Entry_zero\<lparr>Entry_Term := Entry_Term m\<rparr>)"
    by (rule consumes_fVarint[where fieldNum = 1], simp add: tagOk_def, rule Entry_field_simps(1))
      (simp_all add: Entry_zero_def normBytes_alt)
  have s2: "consumes ''Entry'' Entry_field (fVarint 0x10 (Entry_Index m)) (Entry_zero\<lparr>Entry_Term := Entry_Term m\<rparr>)
      (Entry_zero\<lparr>Entry_Term := Entry_Term m, Entry_Index := Entry_Index m\<rparr>)"
    by (rule consumes_fVarint[where fieldNum = 2], simp add: tagOk_def, rule Entry_field_simps(2))
      (simp_all add: Entry_zero_def normBytes_alt)
  have s3: "consumes ''Entry'' Entry_field (fBytes 0x1a (bcontent (Entry_Data m))) (Entry_zero\<lparr>Entry_Term := Entry_Term m, Entry_Index := Entry_Index m\<rparr>)
      (Entry_zero\<lparr>Entry_Term := Entry_Term m, Entry_Index := Entry_Index m, Entry_Data := normBytes (Entry_Data m)\<rparr>)"
    by (rule consumes_fBytes[where fieldNum = 3], simp add: tagOk_def, rule Entry_field_simps(3))
      (simp_all add: Entry_zero_def normBytes_alt)
  have "(Entry_zero\<lparr>Entry_Term := Entry_Term m, Entry_Index := Entry_Index m, Entry_Data := normBytes (Entry_Data m)\<rparr>) = Entry_norm m"
    by (cases m) (simp add: Entry_zero_def Entry_norm_def)
  with consumes_append[OF s1 consumes_append[OF s2 s3]] show ?thesis unfolding Entry_enc_def by simp
qed

lemma Entry_handler: "handlerOk Entry_field"
  by (rule handlerOkI)
    (auto simp: Entry_field_def split: if_splits dest: field_stepOk)

interpretation Entry_pb: pb_message Entry_Size Entry_MarshalToSizedBuffer "''Entry''" Entry_field Entry_zero Entry_enc
  "(\<lambda>_. True)" "Entry_norm"
  by unfold_locales (auto intro: Entry_size Entry_fills Entry_decodes Entry_handler)

subsection \<open>AppendEntriesArgs\<close>

lemma AppendEntriesArgs_field_simps:
  "AppendEntriesArgs_field 1 wt dAtA iNdEx m = Some (msgCase wt ''Args'' dAtA iNdEx (\<lambda>bs m.
              case Args_Unmarshal (case AEArgs_Args m of None \<Rightarrow> Args_zero | Some x \<Rightarrow> x) bs of
                (x, err) \<Rightarrow> (m\<lparr>AEArgs_Args := Some x\<rparr>, err)) m)"
  "AppendEntriesArgs_field 2 wt dAtA iNdEx m = Some (msgCase wt ''Entries'' dAtA iNdEx (\<lambda>bs m.
              case Entry_Unmarshal Entry_zero bs of
                (x, err) \<Rightarrow> (m\<lparr>AEArgs_Entries := AEArgs_Entries m @ [Some x]\<rparr>, err)) m)"
  "AppendEntriesArgs_field 3 wt dAtA iNdEx m = Some (varintCase wt ''CommitTerm'' dAtA iNdEx (\<lambda>v m. m\<lparr>CommitTerm := v\<rparr>) m)"
  "AppendEntriesArgs_field 4 wt dAtA iNdEx m = Some (varintCase wt ''LeaderCommit'' dAtA iNdEx (\<lambda>v m. m\<lparr>LeaderCommit := v\<rparr>) m)"
  "AppendEntriesArgs_field 6 wt dAtA iNdEx m = Some (varintCase wt ''PrevLogIndex'' dAtA iNdEx (\<lambda>v m. m\<lparr>PrevLogIndex := v\<rparr>) m)"
  "AppendEntriesArgs_field 7 wt dAtA iNdEx m = Some (varintCase wt ''PrevLogTerm'' dAtA iNdEx (\<lambda>v m. m\<lparr>PrevLogTerm := v\<rparr>) m)"
  by (simp_all add: AppendEntriesArgs_field_def)

lemma AppendEntriesArgs_size: "AppendEntriesArgs_ok m \<Longrightarrow> AppendEntriesArgs_Size (Some m) = length (AppendEntriesArgs_enc m)"
  by (simp add: AppendEntriesArgs_Size_def AppendEntriesArgs_enc_def enc_lengths Args_pb.length_fOpt Entry_pb.length_repeated AppendEntriesArgs_ok_def Let_def)

lemma AppendEntriesArgs_fills: "AppendEntriesArgs_ok m \<Longrightarrow> fills (AppendEntriesArgs_MarshalToSizedBuffer (Some m)) (AppendEntriesArgs_enc m)"
  unfolding AppendEntriesArgs_MarshalToSizedBuffer_def AppendEntriesArgs_enc_def deref_simps go_bind.simps
  by (rule fills_sizedBuffer, rule writes_runw_eq[where e =
      "(((((([] @ fOpt 0xa Args_enc (AEArgs_Args m)) @ concat (map (fOpt 0x12 Entry_enc) (AEArgs_Entries m))) @ fVarint 0x18 (CommitTerm m)) @ fVarint 0x20 (LeaderCommit m)) @ fVarint 0x30 (PrevLogIndex m)) @ fVarint 0x38 (PrevLogTerm m))"],
      intro writes_runw_Cons writes_runw_Nil Args_pb.writes_fOpt Entry_pb.writes_fRepeated writes_fVarint)
    (auto simp: AppendEntriesArgs_ok_def split: option.splits)

lemma AppendEntriesArgs_decodes: "AppendEntriesArgs_ok m \<Longrightarrow> consumes ''AppendEntriesArgs'' AppendEntriesArgs_field (AppendEntriesArgs_enc m) AppendEntriesArgs_zero (AppendEntriesArgs_norm m)"
proof -
  assume ok: "AppendEntriesArgs_ok m"
  have s1: "consumes ''AppendEntriesArgs'' AppendEntriesArgs_field (fOpt 0xa Args_enc (AEArgs_Args m)) AppendEntriesArgs_zero
      (AppendEntriesArgs_zero\<lparr>AEArgs_Args := AEArgs_Args m\<rparr>)"
    by (rule Args_pb.consumes_fOpt[where n = 1], simp add: tagOk_def,
        rule AppendEntriesArgs_field_simps(1)[unfolded Args_Unmarshal_def])
      (use ok in \<open>auto simp: AppendEntriesArgs_zero_def AppendEntriesArgs_ok_def\<close>)
  have "consumes ''AppendEntriesArgs'' AppendEntriesArgs_field (concat (map (fOpt 0x12 Entry_enc) (AEArgs_Entries m)))
      (AppendEntriesArgs_zero\<lparr>AEArgs_Args := AEArgs_Args m, AEArgs_Entries := []\<rparr>) (AppendEntriesArgs_zero\<lparr>AEArgs_Args := AEArgs_Args m, AEArgs_Entries := [] @ map (map_option Entry_norm) (AEArgs_Entries m)\<rparr>)"
    by (rule Entry_pb.consumes_repeated[where n = 2 and st = "\<lambda>acc. AppendEntriesArgs_zero\<lparr>AEArgs_Args := AEArgs_Args m, AEArgs_Entries := acc\<rparr>"],
        simp add: tagOk_def, rule AppendEntriesArgs_field_simps(2)[unfolded Entry_Unmarshal_def])
      (use ok in \<open>auto simp: AppendEntriesArgs_ok_def\<close>)
  then have s2: "consumes ''AppendEntriesArgs'' AppendEntriesArgs_field (concat (map (fOpt 0x12 Entry_enc) (AEArgs_Entries m))) (AppendEntriesArgs_zero\<lparr>AEArgs_Args := AEArgs_Args m\<rparr>)
      (AppendEntriesArgs_zero\<lparr>AEArgs_Args := AEArgs_Args m, AEArgs_Entries := map (map_option Entry_norm) (AEArgs_Entries m)\<rparr>)"
    by (simp add: AppendEntriesArgs_zero_def)
  have s3: "consumes ''AppendEntriesArgs'' AppendEntriesArgs_field (fVarint 0x18 (CommitTerm m)) (AppendEntriesArgs_zero\<lparr>AEArgs_Args := AEArgs_Args m, AEArgs_Entries := map (map_option Entry_norm) (AEArgs_Entries m)\<rparr>)
      (AppendEntriesArgs_zero\<lparr>AEArgs_Args := AEArgs_Args m, AEArgs_Entries := map (map_option Entry_norm) (AEArgs_Entries m), CommitTerm := CommitTerm m\<rparr>)"
    by (rule consumes_fVarint[where fieldNum = 3], simp add: tagOk_def, rule AppendEntriesArgs_field_simps(3))
      (simp_all add: AppendEntriesArgs_zero_def normBytes_alt)
  have s4: "consumes ''AppendEntriesArgs'' AppendEntriesArgs_field (fVarint 0x20 (LeaderCommit m)) (AppendEntriesArgs_zero\<lparr>AEArgs_Args := AEArgs_Args m, AEArgs_Entries := map (map_option Entry_norm) (AEArgs_Entries m), CommitTerm := CommitTerm m\<rparr>)
      (AppendEntriesArgs_zero\<lparr>AEArgs_Args := AEArgs_Args m, AEArgs_Entries := map (map_option Entry_norm) (AEArgs_Entries m), CommitTerm := CommitTerm m, LeaderCommit := LeaderCommit m\<rparr>)"
    by (rule consumes_fVarint[where fieldNum = 4], simp add: tagOk_def, rule AppendEntriesArgs_field_simps(4))
      (simp_all add: AppendEntriesArgs_zero_def normBytes_alt)
  have s5: "consumes ''AppendEntriesArgs'' AppendEntriesArgs_field (fVarint 0x30 (PrevLogIndex m)) (AppendEntriesArgs_zero\<lparr>AEArgs_Args := AEArgs_Args m, AEArgs_Entries := map (map_option Entry_norm) (AEArgs_Entries m), CommitTerm := CommitTerm m, LeaderCommit := LeaderCommit m\<rparr>)
      (AppendEntriesArgs_zero\<lparr>AEArgs_Args := AEArgs_Args m, AEArgs_Entries := map (map_option Entry_norm) (AEArgs_Entries m), CommitTerm := CommitTerm m, LeaderCommit := LeaderCommit m, PrevLogIndex := PrevLogIndex m\<rparr>)"
    by (rule consumes_fVarint[where fieldNum = 6], simp add: tagOk_def, rule AppendEntriesArgs_field_simps(5))
      (simp_all add: AppendEntriesArgs_zero_def normBytes_alt)
  have s6: "consumes ''AppendEntriesArgs'' AppendEntriesArgs_field (fVarint 0x38 (PrevLogTerm m)) (AppendEntriesArgs_zero\<lparr>AEArgs_Args := AEArgs_Args m, AEArgs_Entries := map (map_option Entry_norm) (AEArgs_Entries m), CommitTerm := CommitTerm m, LeaderCommit := LeaderCommit m, PrevLogIndex := PrevLogIndex m\<rparr>)
      (AppendEntriesArgs_zero\<lparr>AEArgs_Args := AEArgs_Args m, AEArgs_Entries := map (map_option Entry_norm) (AEArgs_Entries m), CommitTerm := CommitTerm m, LeaderCommit := LeaderCommit m, PrevLogIndex := PrevLogIndex m, PrevLogTerm := PrevLogTerm m\<rparr>)"
    by (rule consumes_fVarint[where fieldNum = 7], simp add: tagOk_def, rule AppendEntriesArgs_field_simps(6))
      (simp_all add: AppendEntriesArgs_zero_def normBytes_alt)
  have "(AppendEntriesArgs_zero\<lparr>AEArgs_Args := AEArgs_Args m, AEArgs_Entries := map (map_option Entry_norm) (AEArgs_Entries m), CommitTerm := CommitTerm m, LeaderCommit := LeaderCommit m, PrevLogIndex := PrevLogIndex m, PrevLogTerm := PrevLogTerm m\<rparr>) = AppendEntriesArgs_norm m"
    by (cases m) (simp add: AppendEntriesArgs_zero_def AppendEntriesArgs_norm_def)
  with consumes_append[OF s1 consumes_append[OF s2 consumes_append[OF s3 consumes_append[OF s4 consumes_append[OF s5 s6]]]]] show ?thesis unfolding AppendEntriesArgs_enc_def by simp
qed

lemma AppendEntriesArgs_handler: "handlerOk AppendEntriesArgs_field"
  by (rule handlerOkI)
    (auto simp: AppendEntriesArgs_field_def Args_Unmarshal_def Entry_Unmarshal_def split: if_splits dest: field_stepOk Args_pb.msgCase_stepOk_field Entry_pb.msgCase_stepOk_field)

interpretation AppendEntriesArgs_pb: pb_message AppendEntriesArgs_Size AppendEntriesArgs_MarshalToSizedBuffer "''AppendEntriesArgs''" AppendEntriesArgs_field AppendEntriesArgs_zero AppendEntriesArgs_enc
  "AppendEntriesArgs_ok" "AppendEntriesArgs_norm"
  by unfold_locales (auto intro: AppendEntriesArgs_size AppendEntriesArgs_fills AppendEntriesArgs_decodes AppendEntriesArgs_handler)

subsection \<open>AppendEntriesReply\<close>

lemma AppendEntriesReply_field_simps:
  "AppendEntriesReply_field 1 wt dAtA iNdEx m = Some (varintCase wt ''Term'' dAtA iNdEx (\<lambda>v m. m\<lparr>AEReply_Term := v\<rparr>) m)"
  "AppendEntriesReply_field 2 wt dAtA iNdEx m = Some (varintCase wt ''Status'' dAtA iNdEx (\<lambda>v m. m\<lparr>AEReply_Status := v\<rparr>) m)"
  "AppendEntriesReply_field 3 wt dAtA iNdEx m = Some (varintCase wt ''XIndex'' dAtA iNdEx (\<lambda>v m. m\<lparr>XIndex := v\<rparr>) m)"
  "AppendEntriesReply_field 4 wt dAtA iNdEx m = Some (varintCase wt ''XLen'' dAtA iNdEx (\<lambda>v m. m\<lparr>XLen := v\<rparr>) m)"
  "AppendEntriesReply_field 5 wt dAtA iNdEx m = Some (varintCase wt ''XTerm'' dAtA iNdEx (\<lambda>v m. m\<lparr>XTerm := v\<rparr>) m)"
  by (simp_all add: AppendEntriesReply_field_def)

lemma AppendEntriesReply_size: "AppendEntriesReply_Size (Some m) = length (AppendEntriesReply_enc m)"
  by (simp add: AppendEntriesReply_Size_def AppendEntriesReply_enc_def enc_lengths Let_def)

lemma AppendEntriesReply_fills: "fills (AppendEntriesReply_MarshalToSizedBuffer (Some m)) (AppendEntriesReply_enc m)"
  unfolding AppendEntriesReply_MarshalToSizedBuffer_def AppendEntriesReply_enc_def deref_simps go_bind.simps
  by (rule fills_sizedBuffer, rule writes_runw_eq[where e =
      "((((([] @ fVarint 0x8 (AEReply_Term m)) @ fVarint 0x10 (scast (AEReply_Status m))) @ fVarint 0x18 (XIndex m)) @ fVarint 0x20 (XLen m)) @ fVarint 0x28 (XTerm m))"],
      intro writes_runw_Cons writes_runw_Nil writes_fVarint writes_fEnum)
    (auto simp: append_assoc split: option.splits)

lemma AppendEntriesReply_decodes: "consumes ''AppendEntriesReply'' AppendEntriesReply_field (AppendEntriesReply_enc m) AppendEntriesReply_zero m"
proof -
  have s1: "consumes ''AppendEntriesReply'' AppendEntriesReply_field (fVarint 0x8 (AEReply_Term m)) AppendEntriesReply_zero
      (AppendEntriesReply_zero\<lparr>AEReply_Term := AEReply_Term m\<rparr>)"
    by (rule consumes_fVarint[where fieldNum = 1], simp add: tagOk_def, rule AppendEntriesReply_field_simps(1))
      (simp_all add: AppendEntriesReply_zero_def normBytes_alt)
  have s2: "consumes ''AppendEntriesReply'' AppendEntriesReply_field (fVarint 0x10 (scast (AEReply_Status m))) (AppendEntriesReply_zero\<lparr>AEReply_Term := AEReply_Term m\<rparr>)
      (AppendEntriesReply_zero\<lparr>AEReply_Term := AEReply_Term m, AEReply_Status := AEReply_Status m\<rparr>)"
    by (rule consumes_fVarint[where fieldNum = 2], simp add: tagOk_def, rule AppendEntriesReply_field_simps(2))
      (simp_all add: AppendEntriesReply_zero_def normBytes_alt)
  have s3: "consumes ''AppendEntriesReply'' AppendEntriesReply_field (fVarint 0x18 (XIndex m)) (AppendEntriesReply_zero\<lparr>AEReply_Term := AEReply_Term m, AEReply_Status := AEReply_Status m\<rparr>)
      (AppendEntriesReply_zero\<lparr>AEReply_Term := AEReply_Term m, AEReply_Status := AEReply_Status m, XIndex := XIndex m\<rparr>)"
    by (rule consumes_fVarint[where fieldNum = 3], simp add: tagOk_def, rule AppendEntriesReply_field_simps(3))
      (simp_all add: AppendEntriesReply_zero_def normBytes_alt)
  have s4: "consumes ''AppendEntriesReply'' AppendEntriesReply_field (fVarint 0x20 (XLen m)) (AppendEntriesReply_zero\<lparr>AEReply_Term := AEReply_Term m, AEReply_Status := AEReply_Status m, XIndex := XIndex m\<rparr>)
      (AppendEntriesReply_zero\<lparr>AEReply_Term := AEReply_Term m, AEReply_Status := AEReply_Status m, XIndex := XIndex m, XLen := XLen m\<rparr>)"
    by (rule consumes_fVarint[where fieldNum = 4], simp add: tagOk_def, rule AppendEntriesReply_field_simps(4))
      (simp_all add: AppendEntriesReply_zero_def normBytes_alt)
  have s5: "consumes ''AppendEntriesReply'' AppendEntriesReply_field (fVarint 0x28 (XTerm m)) (AppendEntriesReply_zero\<lparr>AEReply_Term := AEReply_Term m, AEReply_Status := AEReply_Status m, XIndex := XIndex m, XLen := XLen m\<rparr>)
      (AppendEntriesReply_zero\<lparr>AEReply_Term := AEReply_Term m, AEReply_Status := AEReply_Status m, XIndex := XIndex m, XLen := XLen m, XTerm := XTerm m\<rparr>)"
    by (rule consumes_fVarint[where fieldNum = 5], simp add: tagOk_def, rule AppendEntriesReply_field_simps(5))
      (simp_all add: AppendEntriesReply_zero_def normBytes_alt)
  have "(AppendEntriesReply_zero\<lparr>AEReply_Term := AEReply_Term m, AEReply_Status := AEReply_Status m, XIndex := XIndex m, XLen := XLen m, XTerm := XTerm m\<rparr>) = m"
    by (cases m) (simp add: AppendEntriesReply_zero_def)
  with consumes_append[OF s1 consumes_append[OF s2 consumes_append[OF s3 consumes_append[OF s4 s5]]]] show ?thesis unfolding AppendEntriesReply_enc_def by simp
qed

lemma AppendEntriesReply_handler: "handlerOk AppendEntriesReply_field"
  by (rule handlerOkI)
    (auto simp: AppendEntriesReply_field_def split: if_splits dest: field_stepOk)

interpretation AppendEntriesReply_pb: pb_message AppendEntriesReply_Size AppendEntriesReply_MarshalToSizedBuffer "''AppendEntriesReply''" AppendEntriesReply_field AppendEntriesReply_zero AppendEntriesReply_enc
  "(\<lambda>_. True)" "(\<lambda>m. m)"
  by unfold_locales (auto intro: AppendEntriesReply_size AppendEntriesReply_fills AppendEntriesReply_decodes AppendEntriesReply_handler)

subsection \<open>SnapshotMetaData\<close>

lemma SnapshotMetaData_field_simps:
  "SnapshotMetaData_field 1 wt dAtA iNdEx m = Some (varintCase wt ''Index'' dAtA iNdEx (\<lambda>v m. m\<lparr>Meta_Index := v\<rparr>) m)"
  "SnapshotMetaData_field 2 wt dAtA iNdEx m = Some (varintCase wt ''Term'' dAtA iNdEx (\<lambda>v m. m\<lparr>Meta_Term := v\<rparr>) m)"
  by (simp_all add: SnapshotMetaData_field_def)

lemma SnapshotMetaData_size: "SnapshotMetaData_Size (Some m) = length (SnapshotMetaData_enc m)"
  by (simp add: SnapshotMetaData_Size_def SnapshotMetaData_enc_def enc_lengths Let_def)

lemma SnapshotMetaData_fills: "fills (SnapshotMetaData_MarshalToSizedBuffer (Some m)) (SnapshotMetaData_enc m)"
  unfolding SnapshotMetaData_MarshalToSizedBuffer_def SnapshotMetaData_enc_def deref_simps go_bind.simps
  by (rule fills_sizedBuffer, rule writes_runw_eq[where e =
      "(([] @ fVarint 0x8 (Meta_Index m)) @ fVarint 0x10 (Meta_Term m))"],
      intro writes_runw_Cons writes_runw_Nil writes_fVarint)
    (auto simp: append_assoc split: option.splits)

lemma SnapshotMetaData_decodes: "consumes ''SnapshotMetaData'' SnapshotMetaData_field (SnapshotMetaData_enc m) SnapshotMetaData_zero m"
proof -
  have s1: "consumes ''SnapshotMetaData'' SnapshotMetaData_field (fVarint 0x8 (Meta_Index m)) SnapshotMetaData_zero
      (SnapshotMetaData_zero\<lparr>Meta_Index := Meta_Index m\<rparr>)"
    by (rule consumes_fVarint[where fieldNum = 1], simp add: tagOk_def, rule SnapshotMetaData_field_simps(1))
      (simp_all add: SnapshotMetaData_zero_def normBytes_alt)
  have s2: "consumes ''SnapshotMetaData'' SnapshotMetaData_field (fVarint 0x10 (Meta_Term m)) (SnapshotMetaData_zero\<lparr>Meta_Index := Meta_Index m\<rparr>)
      (SnapshotMetaData_zero\<lparr>Meta_Index := Meta_Index m, Meta_Term := Meta_Term m\<rparr>)"
    by (rule consumes_fVarint[where fieldNum = 2], simp add: tagOk_def, rule SnapshotMetaData_field_simps(2))
      (simp_all add: SnapshotMetaData_zero_def normBytes_alt)
  have "(SnapshotMetaData_zero\<lparr>Meta_Index := Meta_Index m, Meta_Term := Meta_Term m\<rparr>) = m"
    by (cases m) (simp add: SnapshotMetaData_zero_def)
  with consumes_append[OF s1 s2] show ?thesis unfolding SnapshotMetaData_enc_def by simp
qed

lemma SnapshotMetaData_handler: "handlerOk SnapshotMetaData_field"
  by (rule handlerOkI)
    (auto simp: SnapshotMetaData_field_def split: if_splits dest: field_stepOk)

interpretation SnapshotMetaData_pb: pb_message SnapshotMetaData_Size SnapshotMetaData_MarshalToSizedBuffer "''SnapshotMetaData''" SnapshotMetaData_field SnapshotMetaData_zero SnapshotMetaData_enc
  "(\<lambda>_. True)" "(\<lambda>m. m)"
  by unfold_locales (auto intro: SnapshotMetaData_size SnapshotMetaData_fills SnapshotMetaData_decodes SnapshotMetaData_handler)

subsection \<open>Snapshot\<close>

lemma Snapshot_field_simps:
  "Snapshot_field 1 wt dAtA iNdEx m = Some (msgCase wt ''Metadata'' dAtA iNdEx (\<lambda>bs m.
              case SnapshotMetaData_Unmarshal (case Snapshot_Metadata m of None \<Rightarrow> SnapshotMetaData_zero | Some x \<Rightarrow> x) bs of
                (x, err) \<Rightarrow> (m\<lparr>Snapshot_Metadata := Some x\<rparr>, err)) m)"
  "Snapshot_field 2 wt dAtA iNdEx m = Some (bytesCase wt ''Data'' dAtA iNdEx (\<lambda>bs m. m\<lparr>Snapshot_Data := Some bs\<rparr>) m)"
  by (simp_all add: Snapshot_field_def)

lemma Snapshot_size: "Snapshot_Size (Some m) = length (Snapshot_enc m)"
  by (simp add: Snapshot_Size_def Snapshot_enc_def enc_lengths SnapshotMetaData_pb.length_fOpt Let_def)

lemma Snapshot_fills: "fills (Snapshot_MarshalToSizedBuffer (Some m)) (Snapshot_enc m)"
  unfolding Snapshot_MarshalToSizedBuffer_def Snapshot_enc_def deref_simps go_bind.simps
  by (rule fills_sizedBuffer, rule writes_runw_eq[where e =
      "(([] @ fOpt 0xa SnapshotMetaData_enc (Snapshot_Metadata m)) @ fBytes 0x12 (bcontent (Snapshot_Data m)))"],
      intro writes_runw_Cons writes_runw_Nil SnapshotMetaData_pb.writes_fOpt writes_fBytesOpt)
    (auto simp: append_assoc split: option.splits)

lemma Snapshot_decodes: "consumes ''Snapshot'' Snapshot_field (Snapshot_enc m) Snapshot_zero (Snapshot_norm m)"
proof -
  have s1: "consumes ''Snapshot'' Snapshot_field (fOpt 0xa SnapshotMetaData_enc (Snapshot_Metadata m)) Snapshot_zero
      (Snapshot_zero\<lparr>Snapshot_Metadata := Snapshot_Metadata m\<rparr>)"
    by (rule SnapshotMetaData_pb.consumes_fOpt[where n = 1], simp add: tagOk_def,
        rule Snapshot_field_simps(1)[unfolded SnapshotMetaData_Unmarshal_def])
      (auto simp: Snapshot_zero_def)
  have s2: "consumes ''Snapshot'' Snapshot_field (fBytes 0x12 (bcontent (Snapshot_Data m))) (Snapshot_zero\<lparr>Snapshot_Metadata := Snapshot_Metadata m\<rparr>)
      (Snapshot_zero\<lparr>Snapshot_Metadata := Snapshot_Metadata m, Snapshot_Data := normBytes (Snapshot_Data m)\<rparr>)"
    by (rule consumes_fBytes[where fieldNum = 2], simp add: tagOk_def, rule Snapshot_field_simps(2))
      (simp_all add: Snapshot_zero_def normBytes_alt)
  have "(Snapshot_zero\<lparr>Snapshot_Metadata := Snapshot_Metadata m, Snapshot_Data := normBytes (Snapshot_Data m)\<rparr>) = Snapshot_norm m"
    by (cases m) (simp add: Snapshot_zero_def Snapshot_norm_def)
  with consumes_append[OF s1 s2] show ?thesis unfolding Snapshot_enc_def by simp
qed

lemma Snapshot_handler: "handlerOk Snapshot_field"
  by (rule handlerOkI)
    (auto simp: Snapshot_field_def SnapshotMetaData_Unmarshal_def split: if_splits dest: field_stepOk SnapshotMetaData_pb.msgCase_stepOk_field)

interpretation Snapshot_pb: pb_message Snapshot_Size Snapshot_MarshalToSizedBuffer "''Snapshot''" Snapshot_field Snapshot_zero Snapshot_enc
  "(\<lambda>_. True)" "Snapshot_norm"
  by unfold_locales (auto intro: Snapshot_size Snapshot_fills Snapshot_decodes Snapshot_handler)

subsection \<open>InstallSnapshotArgs\<close>

lemma InstallSnapshotArgs_field_simps:
  "InstallSnapshotArgs_field 1 wt dAtA iNdEx m = Some (msgCase wt ''Args'' dAtA iNdEx (\<lambda>bs m.
              case Args_Unmarshal (case ISArgs_Args m of None \<Rightarrow> Args_zero | Some x \<Rightarrow> x) bs of
                (x, err) \<Rightarrow> (m\<lparr>ISArgs_Args := Some x\<rparr>, err)) m)"
  "InstallSnapshotArgs_field 2 wt dAtA iNdEx m = Some (msgCase wt ''Snapshot'' dAtA iNdEx (\<lambda>bs m.
              case Snapshot_Unmarshal (case ISArgs_Snapshot m of None \<Rightarrow> Snapshot_zero | Some x \<Rightarrow> x) bs of
                (x, err) \<Rightarrow> (m\<lparr>ISArgs_Snapshot := Some x\<rparr>, err)) m)"
  by (simp_all add: InstallSnapshotArgs_field_def)

lemma InstallSnapshotArgs_size: "InstallSnapshotArgs_Size (Some m) = length (InstallSnapshotArgs_enc m)"
  by (simp add: InstallSnapshotArgs_Size_def InstallSnapshotArgs_enc_def enc_lengths Args_pb.length_fOpt Snapshot_pb.length_fOpt Let_def)

lemma InstallSnapshotArgs_fills: "fills (InstallSnapshotArgs_MarshalToSizedBuffer (Some m)) (InstallSnapshotArgs_enc m)"
  unfolding InstallSnapshotArgs_MarshalToSizedBuffer_def InstallSnapshotArgs_enc_def deref_simps go_bind.simps
  by (rule fills_sizedBuffer, rule writes_runw_eq[where e =
      "(([] @ fOpt 0xa Args_enc (ISArgs_Args m)) @ fOpt 0x12 Snapshot_enc (ISArgs_Snapshot m))"],
      intro writes_runw_Cons writes_runw_Nil Args_pb.writes_fOpt Snapshot_pb.writes_fOpt)
    (auto simp: append_assoc split: option.splits)

lemma InstallSnapshotArgs_decodes: "consumes ''InstallSnapshotArgs'' InstallSnapshotArgs_field (InstallSnapshotArgs_enc m) InstallSnapshotArgs_zero (InstallSnapshotArgs_norm m)"
proof -
  have s1: "consumes ''InstallSnapshotArgs'' InstallSnapshotArgs_field (fOpt 0xa Args_enc (ISArgs_Args m)) InstallSnapshotArgs_zero
      (InstallSnapshotArgs_zero\<lparr>ISArgs_Args := ISArgs_Args m\<rparr>)"
    by (rule Args_pb.consumes_fOpt[where n = 1], simp add: tagOk_def,
        rule InstallSnapshotArgs_field_simps(1)[unfolded Args_Unmarshal_def])
      (auto simp: InstallSnapshotArgs_zero_def)
  have s2: "consumes ''InstallSnapshotArgs'' InstallSnapshotArgs_field (fOpt 0x12 Snapshot_enc (ISArgs_Snapshot m)) (InstallSnapshotArgs_zero\<lparr>ISArgs_Args := ISArgs_Args m\<rparr>)
      (InstallSnapshotArgs_zero\<lparr>ISArgs_Args := ISArgs_Args m, ISArgs_Snapshot := map_option Snapshot_norm (ISArgs_Snapshot m)\<rparr>)"
    by (rule Snapshot_pb.consumes_fOpt[where n = 2], simp add: tagOk_def,
        rule InstallSnapshotArgs_field_simps(2)[unfolded Snapshot_Unmarshal_def])
      (auto simp: InstallSnapshotArgs_zero_def)
  have "(InstallSnapshotArgs_zero\<lparr>ISArgs_Args := ISArgs_Args m, ISArgs_Snapshot := map_option Snapshot_norm (ISArgs_Snapshot m)\<rparr>) = InstallSnapshotArgs_norm m"
    by (cases m) (simp add: InstallSnapshotArgs_zero_def InstallSnapshotArgs_norm_def)
  with consumes_append[OF s1 s2] show ?thesis unfolding InstallSnapshotArgs_enc_def by simp
qed

lemma InstallSnapshotArgs_handler: "handlerOk InstallSnapshotArgs_field"
  by (rule handlerOkI)
    (auto simp: InstallSnapshotArgs_field_def Args_Unmarshal_def Snapshot_Unmarshal_def split: if_splits dest: field_stepOk Args_pb.msgCase_stepOk_field Snapshot_pb.msgCase_stepOk_field)

interpretation InstallSnapshotArgs_pb: pb_message InstallSnapshotArgs_Size InstallSnapshotArgs_MarshalToSizedBuffer "''InstallSnapshotArgs''" InstallSnapshotArgs_field InstallSnapshotArgs_zero InstallSnapshotArgs_enc
  "(\<lambda>_. True)" "InstallSnapshotArgs_norm"
  by unfold_locales (auto intro: InstallSnapshotArgs_size InstallSnapshotArgs_fills InstallSnapshotArgs_decodes InstallSnapshotArgs_handler)

subsection \<open>InstallSnapshotReply\<close>

lemma InstallSnapshotReply_field_simps:
  "InstallSnapshotReply_field 1 wt dAtA iNdEx m = Some (varintCase wt ''Term'' dAtA iNdEx (\<lambda>v m. m\<lparr>ISReply_Term := v\<rparr>) m)"
  by (simp_all add: InstallSnapshotReply_field_def)

lemma InstallSnapshotReply_size: "InstallSnapshotReply_Size (Some m) = length (InstallSnapshotReply_enc m)"
  by (simp add: InstallSnapshotReply_Size_def InstallSnapshotReply_enc_def enc_lengths Let_def)

lemma InstallSnapshotReply_fills: "fills (InstallSnapshotReply_MarshalToSizedBuffer (Some m)) (InstallSnapshotReply_enc m)"
  unfolding InstallSnapshotReply_MarshalToSizedBuffer_def InstallSnapshotReply_enc_def deref_simps go_bind.simps
  by (rule fills_sizedBuffer, rule writes_runw_eq[where e =
      "([] @ fVarint 0x8 (ISReply_Term m))"],
      intro writes_runw_Cons writes_runw_Nil writes_fVarint)
    (auto simp: append_assoc split: option.splits)

lemma InstallSnapshotReply_decodes: "consumes ''InstallSnapshotReply'' InstallSnapshotReply_field (InstallSnapshotReply_enc m) InstallSnapshotReply_zero m"
proof -
  have s1: "consumes ''InstallSnapshotReply'' InstallSnapshotReply_field (fVarint 0x8 (ISReply_Term m)) InstallSnapshotReply_zero
      (InstallSnapshotReply_zero\<lparr>ISReply_Term := ISReply_Term m\<rparr>)"
    by (rule consumes_fVarint[where fieldNum = 1], simp add: tagOk_def, rule InstallSnapshotReply_field_simps(1))
      (simp_all add: InstallSnapshotReply_zero_def normBytes_alt)
  have "(InstallSnapshotReply_zero\<lparr>ISReply_Term := ISReply_Term m\<rparr>) = m"
    by (cases m) (simp add: InstallSnapshotReply_zero_def)
  with s1 show ?thesis unfolding InstallSnapshotReply_enc_def by simp
qed

lemma InstallSnapshotReply_handler: "handlerOk InstallSnapshotReply_field"
  by (rule handlerOkI)
    (auto simp: InstallSnapshotReply_field_def split: if_splits dest: field_stepOk)

interpretation InstallSnapshotReply_pb: pb_message InstallSnapshotReply_Size InstallSnapshotReply_MarshalToSizedBuffer "''InstallSnapshotReply''" InstallSnapshotReply_field InstallSnapshotReply_zero InstallSnapshotReply_enc
  "(\<lambda>_. True)" "(\<lambda>m. m)"
  by unfold_locales (auto intro: InstallSnapshotReply_size InstallSnapshotReply_fills InstallSnapshotReply_decodes InstallSnapshotReply_handler)

subsection \<open>RequestVoteArgs\<close>

lemma RequestVoteArgs_field_simps:
  "RequestVoteArgs_field 1 wt dAtA iNdEx m = Some (msgCase wt ''Args'' dAtA iNdEx (\<lambda>bs m.
              case Args_Unmarshal (case RVArgs_Args m of None \<Rightarrow> Args_zero | Some x \<Rightarrow> x) bs of
                (x, err) \<Rightarrow> (m\<lparr>RVArgs_Args := Some x\<rparr>, err)) m)"
  "RequestVoteArgs_field 2 wt dAtA iNdEx m = Some (varintCase wt ''CandidateID'' dAtA iNdEx (\<lambda>v m. m\<lparr>CandidateID := v\<rparr>) m)"
  "RequestVoteArgs_field 3 wt dAtA iNdEx m = Some (varintCase wt ''LastLogIndex'' dAtA iNdEx (\<lambda>v m. m\<lparr>LastLogIndex := v\<rparr>) m)"
  "RequestVoteArgs_field 4 wt dAtA iNdEx m = Some (varintCase wt ''LastLogTerm'' dAtA iNdEx (\<lambda>v m. m\<lparr>LastLogTerm := v\<rparr>) m)"
  by (simp_all add: RequestVoteArgs_field_def)

lemma RequestVoteArgs_size: "RequestVoteArgs_Size (Some m) = length (RequestVoteArgs_enc m)"
  by (simp add: RequestVoteArgs_Size_def RequestVoteArgs_enc_def enc_lengths Args_pb.length_fOpt Let_def)

lemma RequestVoteArgs_fills: "fills (RequestVoteArgs_MarshalToSizedBuffer (Some m)) (RequestVoteArgs_enc m)"
  unfolding RequestVoteArgs_MarshalToSizedBuffer_def RequestVoteArgs_enc_def deref_simps go_bind.simps
  by (rule fills_sizedBuffer, rule writes_runw_eq[where e =
      "(((([] @ fOpt 0xa Args_enc (RVArgs_Args m)) @ fVarint 0x10 (CandidateID m)) @ fVarint 0x18 (LastLogIndex m)) @ fVarint 0x20 (LastLogTerm m))"],
      intro writes_runw_Cons writes_runw_Nil Args_pb.writes_fOpt writes_fVarint)
    (auto simp: append_assoc split: option.splits)

lemma RequestVoteArgs_decodes: "consumes ''RequestVoteArgs'' RequestVoteArgs_field (RequestVoteArgs_enc m) RequestVoteArgs_zero m"
proof -
  have s1: "consumes ''RequestVoteArgs'' RequestVoteArgs_field (fOpt 0xa Args_enc (RVArgs_Args m)) RequestVoteArgs_zero
      (RequestVoteArgs_zero\<lparr>RVArgs_Args := RVArgs_Args m\<rparr>)"
    by (rule Args_pb.consumes_fOpt[where n = 1], simp add: tagOk_def,
        rule RequestVoteArgs_field_simps(1)[unfolded Args_Unmarshal_def])
      (auto simp: RequestVoteArgs_zero_def)
  have s2: "consumes ''RequestVoteArgs'' RequestVoteArgs_field (fVarint 0x10 (CandidateID m)) (RequestVoteArgs_zero\<lparr>RVArgs_Args := RVArgs_Args m\<rparr>)
      (RequestVoteArgs_zero\<lparr>RVArgs_Args := RVArgs_Args m, CandidateID := CandidateID m\<rparr>)"
    by (rule consumes_fVarint[where fieldNum = 2], simp add: tagOk_def, rule RequestVoteArgs_field_simps(2))
      (simp_all add: RequestVoteArgs_zero_def normBytes_alt)
  have s3: "consumes ''RequestVoteArgs'' RequestVoteArgs_field (fVarint 0x18 (LastLogIndex m)) (RequestVoteArgs_zero\<lparr>RVArgs_Args := RVArgs_Args m, CandidateID := CandidateID m\<rparr>)
      (RequestVoteArgs_zero\<lparr>RVArgs_Args := RVArgs_Args m, CandidateID := CandidateID m, LastLogIndex := LastLogIndex m\<rparr>)"
    by (rule consumes_fVarint[where fieldNum = 3], simp add: tagOk_def, rule RequestVoteArgs_field_simps(3))
      (simp_all add: RequestVoteArgs_zero_def normBytes_alt)
  have s4: "consumes ''RequestVoteArgs'' RequestVoteArgs_field (fVarint 0x20 (LastLogTerm m)) (RequestVoteArgs_zero\<lparr>RVArgs_Args := RVArgs_Args m, CandidateID := CandidateID m, LastLogIndex := LastLogIndex m\<rparr>)
      (RequestVoteArgs_zero\<lparr>RVArgs_Args := RVArgs_Args m, CandidateID := CandidateID m, LastLogIndex := LastLogIndex m, LastLogTerm := LastLogTerm m\<rparr>)"
    by (rule consumes_fVarint[where fieldNum = 4], simp add: tagOk_def, rule RequestVoteArgs_field_simps(4))
      (simp_all add: RequestVoteArgs_zero_def normBytes_alt)
  have "(RequestVoteArgs_zero\<lparr>RVArgs_Args := RVArgs_Args m, CandidateID := CandidateID m, LastLogIndex := LastLogIndex m, LastLogTerm := LastLogTerm m\<rparr>) = m"
    by (cases m) (simp add: RequestVoteArgs_zero_def)
  with consumes_append[OF s1 consumes_append[OF s2 consumes_append[OF s3 s4]]] show ?thesis unfolding RequestVoteArgs_enc_def by simp
qed

lemma RequestVoteArgs_handler: "handlerOk RequestVoteArgs_field"
  by (rule handlerOkI)
    (auto simp: RequestVoteArgs_field_def Args_Unmarshal_def split: if_splits dest: field_stepOk Args_pb.msgCase_stepOk_field)

interpretation RequestVoteArgs_pb: pb_message RequestVoteArgs_Size RequestVoteArgs_MarshalToSizedBuffer "''RequestVoteArgs''" RequestVoteArgs_field RequestVoteArgs_zero RequestVoteArgs_enc
  "(\<lambda>_. True)" "(\<lambda>m. m)"
  by unfold_locales (auto intro: RequestVoteArgs_size RequestVoteArgs_fills RequestVoteArgs_decodes RequestVoteArgs_handler)

subsection \<open>RequestVoteReply\<close>

lemma RequestVoteReply_field_simps:
  "RequestVoteReply_field 1 wt dAtA iNdEx m = Some (varintCase wt ''Term'' dAtA iNdEx (\<lambda>v m. m\<lparr>RVReply_Term := v\<rparr>) m)"
  "RequestVoteReply_field 2 wt dAtA iNdEx m = Some (boolCase wt ''VoteGranted'' dAtA iNdEx (\<lambda>v m. m\<lparr>VoteGranted := v\<rparr>) m)"
  by (simp_all add: RequestVoteReply_field_def)

lemma RequestVoteReply_size: "RequestVoteReply_Size (Some m) = length (RequestVoteReply_enc m)"
  by (simp add: RequestVoteReply_Size_def RequestVoteReply_enc_def enc_lengths Let_def)

lemma RequestVoteReply_fills: "fills (RequestVoteReply_MarshalToSizedBuffer (Some m)) (RequestVoteReply_enc m)"
  unfolding RequestVoteReply_MarshalToSizedBuffer_def RequestVoteReply_enc_def deref_simps go_bind.simps
  by (rule fills_sizedBuffer, rule writes_runw_eq[where e =
      "(([] @ fVarint 0x8 (RVReply_Term m)) @ fBool 0x10 (VoteGranted m))"],
      intro writes_runw_Cons writes_runw_Nil writes_fVarint writes_fBool)
    (auto simp: append_assoc split: option.splits)

lemma RequestVoteReply_decodes: "consumes ''RequestVoteReply'' RequestVoteReply_field (RequestVoteReply_enc m) RequestVoteReply_zero m"
proof -
  have s1: "consumes ''RequestVoteReply'' RequestVoteReply_field (fVarint 0x8 (RVReply_Term m)) RequestVoteReply_zero
      (RequestVoteReply_zero\<lparr>RVReply_Term := RVReply_Term m\<rparr>)"
    by (rule consumes_fVarint[where fieldNum = 1], simp add: tagOk_def, rule RequestVoteReply_field_simps(1))
      (simp_all add: RequestVoteReply_zero_def normBytes_alt)
  have s2: "consumes ''RequestVoteReply'' RequestVoteReply_field (fBool 0x10 (VoteGranted m)) (RequestVoteReply_zero\<lparr>RVReply_Term := RVReply_Term m\<rparr>)
      (RequestVoteReply_zero\<lparr>RVReply_Term := RVReply_Term m, VoteGranted := VoteGranted m\<rparr>)"
    by (rule consumes_fBool[where fieldNum = 2], simp add: tagOk_def, rule RequestVoteReply_field_simps(2))
      (simp_all add: RequestVoteReply_zero_def normBytes_alt)
  have "(RequestVoteReply_zero\<lparr>RVReply_Term := RVReply_Term m, VoteGranted := VoteGranted m\<rparr>) = m"
    by (cases m) (simp add: RequestVoteReply_zero_def)
  with consumes_append[OF s1 s2] show ?thesis unfolding RequestVoteReply_enc_def by simp
qed

lemma RequestVoteReply_handler: "handlerOk RequestVoteReply_field"
  by (rule handlerOkI)
    (auto simp: RequestVoteReply_field_def split: if_splits dest: field_stepOk)

interpretation RequestVoteReply_pb: pb_message RequestVoteReply_Size RequestVoteReply_MarshalToSizedBuffer "''RequestVoteReply''" RequestVoteReply_field RequestVoteReply_zero RequestVoteReply_enc
  "(\<lambda>_. True)" "(\<lambda>m. m)"
  by unfold_locales (auto intro: RequestVoteReply_size RequestVoteReply_fills RequestVoteReply_decodes RequestVoteReply_handler)

subsection \<open>HardState\<close>

lemma HardState_field_simps:
  "HardState_field 1 wt dAtA iNdEx m = Some (varintCase wt ''Term'' dAtA iNdEx (\<lambda>v m. m\<lparr>HardState_Term := v\<rparr>) m)"
  "HardState_field 2 wt dAtA iNdEx m = Some (varintCase wt ''VotedFor'' dAtA iNdEx (\<lambda>v m. m\<lparr>VotedFor := v\<rparr>) m)"
  "HardState_field 3 wt dAtA iNdEx m = Some (varintCase wt ''Commit'' dAtA iNdEx (\<lambda>v m. m\<lparr>Commit := v\<rparr>) m)"
  by (simp_all add: HardState_field_def)

lemma HardState_size: "HardState_Size (Some m) = length (HardState_enc m)"
  by (simp add: HardState_Size_def HardState_enc_def enc_lengths Let_def)

lemma HardState_fills: "fills (HardState_MarshalToSizedBuffer (Some m)) (HardState_enc m)"
  unfolding HardState_MarshalToSizedBuffer_def HardState_enc_def deref_simps go_bind.simps
  by (rule fills_sizedBuffer, rule writes_runw_eq[where e =
      "((([] @ fVarint 0x8 (HardState_Term m)) @ fVarint 0x10 (VotedFor m)) @ fVarint 0x18 (Commit m))"],
      intro writes_runw_Cons writes_runw_Nil writes_fVarint)
    (auto simp: append_assoc split: option.splits)

lemma HardState_decodes: "consumes ''HardState'' HardState_field (HardState_enc m) HardState_zero m"
proof -
  have s1: "consumes ''HardState'' HardState_field (fVarint 0x8 (HardState_Term m)) HardState_zero
      (HardState_zero\<lparr>HardState_Term := HardState_Term m\<rparr>)"
    by (rule consumes_fVarint[where fieldNum = 1], simp add: tagOk_def, rule HardState_field_simps(1))
      (simp_all add: HardState_zero_def normBytes_alt)
  have s2: "consumes ''HardState'' HardState_field (fVarint 0x10 (VotedFor m)) (HardState_zero\<lparr>HardState_Term := HardState_Term m\<rparr>)
      (HardState_zero\<lparr>HardState_Term := HardState_Term m, VotedFor := VotedFor m\<rparr>)"
    by (rule consumes_fVarint[where fieldNum = 2], simp add: tagOk_def, rule HardState_field_simps(2))
      (simp_all add: HardState_zero_def normBytes_alt)
  have s3: "consumes ''HardState'' HardState_field (fVarint 0x18 (Commit m)) (HardState_zero\<lparr>HardState_Term := HardState_Term m, VotedFor := VotedFor m\<rparr>)
      (HardState_zero\<lparr>HardState_Term := HardState_Term m, VotedFor := VotedFor m, Commit := Commit m\<rparr>)"
    by (rule consumes_fVarint[where fieldNum = 3], simp add: tagOk_def, rule HardState_field_simps(3))
      (simp_all add: HardState_zero_def normBytes_alt)
  have "(HardState_zero\<lparr>HardState_Term := HardState_Term m, VotedFor := VotedFor m, Commit := Commit m\<rparr>) = m"
    by (cases m) (simp add: HardState_zero_def)
  with consumes_append[OF s1 consumes_append[OF s2 s3]] show ?thesis unfolding HardState_enc_def by simp
qed

lemma HardState_handler: "handlerOk HardState_field"
  by (rule handlerOkI)
    (auto simp: HardState_field_def split: if_splits dest: field_stepOk)

interpretation HardState_pb: pb_message HardState_Size HardState_MarshalToSizedBuffer "''HardState''" HardState_field HardState_zero HardState_enc
  "(\<lambda>_. True)" "(\<lambda>m. m)"
  by unfold_locales (auto intro: HardState_size HardState_fills HardState_decodes HardState_handler)

subsection \<open>Log\<close>

lemma Log_field_simps:
  "Log_field 1 wt dAtA iNdEx m = Some (msgCase wt ''Entries'' dAtA iNdEx (\<lambda>bs m.
              case Entry_Unmarshal Entry_zero bs of
                (x, err) \<Rightarrow> (m\<lparr>Log_Entries := Log_Entries m @ [Some x]\<rparr>, err)) m)"
  "Log_field 2 wt dAtA iNdEx m = Some (varintCase wt ''IncludedIndex'' dAtA iNdEx (\<lambda>v m. m\<lparr>IncludedIndex := v\<rparr>) m)"
  "Log_field 3 wt dAtA iNdEx m = Some (varintCase wt ''IncludedTerm'' dAtA iNdEx (\<lambda>v m. m\<lparr>IncludedTerm := v\<rparr>) m)"
  by (simp_all add: Log_field_def)

lemma Log_size: "Log_ok m \<Longrightarrow> Log_Size (Some m) = length (Log_enc m)"
  by (simp add: Log_Size_def Log_enc_def enc_lengths Entry_pb.length_repeated Log_ok_def Let_def)

lemma Log_fills: "Log_ok m \<Longrightarrow> fills (Log_MarshalToSizedBuffer (Some m)) (Log_enc m)"
  unfolding Log_MarshalToSizedBuffer_def Log_enc_def deref_simps go_bind.simps
  by (rule fills_sizedBuffer, rule writes_runw_eq[where e =
      "((([] @ concat (map (fOpt 0xa Entry_enc) (Log_Entries m))) @ fVarint 0x10 (IncludedIndex m)) @ fVarint 0x18 (IncludedTerm m))"],
      intro writes_runw_Cons writes_runw_Nil Entry_pb.writes_fRepeated writes_fVarint)
    (auto simp: Log_ok_def split: option.splits)

lemma Log_decodes: "Log_ok m \<Longrightarrow> consumes ''Log'' Log_field (Log_enc m) Log_zero (Log_norm m)"
proof -
  assume ok: "Log_ok m"
  have "consumes ''Log'' Log_field (concat (map (fOpt 0xa Entry_enc) (Log_Entries m)))
      (Log_zero\<lparr>Log_Entries := []\<rparr>) (Log_zero\<lparr>Log_Entries := [] @ map (map_option Entry_norm) (Log_Entries m)\<rparr>)"
    by (rule Entry_pb.consumes_repeated[where n = 1 and st = "\<lambda>acc. Log_zero\<lparr>Log_Entries := acc\<rparr>"],
        simp add: tagOk_def, rule Log_field_simps(1)[unfolded Entry_Unmarshal_def])
      (use ok in \<open>auto simp: Log_ok_def\<close>)
  then have s1: "consumes ''Log'' Log_field (concat (map (fOpt 0xa Entry_enc) (Log_Entries m))) Log_zero
      (Log_zero\<lparr>Log_Entries := map (map_option Entry_norm) (Log_Entries m)\<rparr>)"
    by (simp add: Log_zero_def)
  have s2: "consumes ''Log'' Log_field (fVarint 0x10 (IncludedIndex m)) (Log_zero\<lparr>Log_Entries := map (map_option Entry_norm) (Log_Entries m)\<rparr>)
      (Log_zero\<lparr>Log_Entries := map (map_option Entry_norm) (Log_Entries m), IncludedIndex := IncludedIndex m\<rparr>)"
    by (rule consumes_fVarint[where fieldNum = 2], simp add: tagOk_def, rule Log_field_simps(2))
      (simp_all add: Log_zero_def normBytes_alt)
  have s3: "consumes ''Log'' Log_field (fVarint 0x18 (IncludedTerm m)) (Log_zero\<lparr>Log_Entries := map (map_option Entry_norm) (Log_Entries m), IncludedIndex := IncludedIndex m\<rparr>)
      (Log_zero\<lparr>Log_Entries := map (map_option Entry_norm) (Log_Entries m), IncludedIndex := IncludedIndex m, IncludedTerm := IncludedTerm m\<rparr>)"
    by (rule consumes_fVarint[where fieldNum = 3], simp add: tagOk_def, rule Log_field_simps(3))
      (simp_all add: Log_zero_def normBytes_alt)
  have "(Log_zero\<lparr>Log_Entries := map (map_option Entry_norm) (Log_Entries m), IncludedIndex := IncludedIndex m, IncludedTerm := IncludedTerm m\<rparr>) = Log_norm m"
    by (cases m) (simp add: Log_zero_def Log_norm_def)
  with consumes_append[OF s1 consumes_append[OF s2 s3]] show ?thesis unfolding Log_enc_def by simp
qed

lemma Log_handler: "handlerOk Log_field"
  by (rule handlerOkI)
    (auto simp: Log_field_def Entry_Unmarshal_def split: if_splits dest: field_stepOk Entry_pb.msgCase_stepOk_field)

interpretation Log_pb: pb_message Log_Size Log_MarshalToSizedBuffer "''Log''" Log_field Log_zero Log_enc
  "Log_ok" "Log_norm"
  by unfold_locales (auto intro: Log_size Log_fills Log_decodes Log_handler)

subsection \<open>RaftState\<close>

lemma RaftState_field_simps:
  "RaftState_field 1 wt dAtA iNdEx m = Some (msgCase wt ''HardState'' dAtA iNdEx (\<lambda>bs m.
              case HardState_Unmarshal (case RaftState_HardState m of None \<Rightarrow> HardState_zero | Some x \<Rightarrow> x) bs of
                (x, err) \<Rightarrow> (m\<lparr>RaftState_HardState := Some x\<rparr>, err)) m)"
  "RaftState_field 2 wt dAtA iNdEx m = Some (msgCase wt ''Log'' dAtA iNdEx (\<lambda>bs m.
              case Log_Unmarshal (case RaftState_Log m of None \<Rightarrow> Log_zero | Some x \<Rightarrow> x) bs of
                (x, err) \<Rightarrow> (m\<lparr>RaftState_Log := Some x\<rparr>, err)) m)"
  by (simp_all add: RaftState_field_def)

lemma RaftState_size: "RaftState_ok m \<Longrightarrow> RaftState_Size (Some m) = length (RaftState_enc m)"
  by (cases "RaftState_Log m") (simp_all add: RaftState_Size_def RaftState_enc_def enc_lengths HardState_pb.length_fOpt Log_pb.length_fOpt Log_size RaftState_ok_def Let_def)

lemma RaftState_fills: "RaftState_ok m \<Longrightarrow> fills (RaftState_MarshalToSizedBuffer (Some m)) (RaftState_enc m)"
  unfolding RaftState_MarshalToSizedBuffer_def RaftState_enc_def deref_simps go_bind.simps
  by (rule fills_sizedBuffer, rule writes_runw_eq[where e =
      "(([] @ fOpt 0xa HardState_enc (RaftState_HardState m)) @ fOpt 0x12 Log_enc (RaftState_Log m))"],
      intro writes_runw_Cons writes_runw_Nil HardState_pb.writes_fOpt Log_pb.writes_fOpt)
    (auto simp: RaftState_ok_def split: option.splits)

lemma RaftState_decodes: "RaftState_ok m \<Longrightarrow> consumes ''RaftState'' RaftState_field (RaftState_enc m) RaftState_zero (RaftState_norm m)"
proof -
  assume ok: "RaftState_ok m"
  have s1: "consumes ''RaftState'' RaftState_field (fOpt 0xa HardState_enc (RaftState_HardState m)) RaftState_zero
      (RaftState_zero\<lparr>RaftState_HardState := RaftState_HardState m\<rparr>)"
    by (rule HardState_pb.consumes_fOpt[where n = 1], simp add: tagOk_def,
        rule RaftState_field_simps(1)[unfolded HardState_Unmarshal_def])
      (use ok in \<open>auto simp: RaftState_zero_def RaftState_ok_def\<close>)
  have s2: "consumes ''RaftState'' RaftState_field (fOpt 0x12 Log_enc (RaftState_Log m)) (RaftState_zero\<lparr>RaftState_HardState := RaftState_HardState m\<rparr>)
      (RaftState_zero\<lparr>RaftState_HardState := RaftState_HardState m, RaftState_Log := map_option Log_norm (RaftState_Log m)\<rparr>)"
    by (rule Log_pb.consumes_fOpt[where n = 2], simp add: tagOk_def,
        rule RaftState_field_simps(2)[unfolded Log_Unmarshal_def])
      (use ok in \<open>auto simp: RaftState_zero_def RaftState_ok_def\<close>)
  have "(RaftState_zero\<lparr>RaftState_HardState := RaftState_HardState m, RaftState_Log := map_option Log_norm (RaftState_Log m)\<rparr>) = RaftState_norm m"
    by (cases m) (simp add: RaftState_zero_def RaftState_norm_def)
  with consumes_append[OF s1 s2] show ?thesis unfolding RaftState_enc_def by simp
qed

lemma RaftState_handler: "handlerOk RaftState_field"
  by (rule handlerOkI)
    (auto simp: RaftState_field_def HardState_Unmarshal_def Log_Unmarshal_def split: if_splits dest: field_stepOk HardState_pb.msgCase_stepOk_field Log_pb.msgCase_stepOk_field)

interpretation RaftState_pb: pb_message RaftState_Size RaftState_MarshalToSizedBuffer "''RaftState''" RaftState_field RaftState_zero RaftState_enc
  "RaftState_ok" "RaftState_norm"
  by unfold_locales (auto intro: RaftState_size RaftState_fills RaftState_decodes RaftState_handler)

end
