(* ===== verification/Raft_Laws.thy ===== *)
theory Raft_Laws
  imports Raft Raft_Codec
begin

text \<open>
  What the methods of a Raft peer guarantee. \<open>peer_ok\<close> is the well-formedness of a peer whose two
  log pointers are equal, \<open>leader_ok\<close> what a leader has set up, \<open>synced\<close> that stable storage holds
  the peer's term, vote and log. \<open>grows\<close> collects what every step keeps: these three, and that term
  and commit index never fall. The methods are first evaluated under \<open>peer_ok\<close> and then shown to
  stay within \<open>grows\<close>.
\<close>

section \<open>The invariants of a peer\<close>

definition hs :: "Raft \<Rightarrow> HardState" where "hs rf = the (hardState rf)"
definition lg :: "Raft \<Rightarrow> Log" where "lg rf = heap rf ! the (rf_log rf)"
definition term_of :: "Raft \<Rightarrow> uint64" where "term_of rf = HardState_Term (hs rf)"
definition voted_of :: "Raft \<Rightarrow> uint64" where "voted_of rf = VotedFor (hs rf)"
definition commit_of :: "Raft \<Rightarrow> uint64" where "commit_of rf = Commit (hs rf)"

definition with_log :: "Log \<Rightarrow> Raft \<Rightarrow> Raft" where
  "with_log l rf = rf\<lparr>heap := (heap rf)[the (rf_log rf) := l]\<rparr>"

definition peer_ok :: "Raft \<Rightarrow> bool" where
  "peer_ok rf \<longleftrightarrow> hardState rf \<noteq> None \<and> rf_log rf \<noteq> None \<and> stateLog rf = rf_log rf \<and>
     the (rf_log rf) < length (heap rf) \<and> log_wf (lg rf)"

definition leader_ok :: "Raft \<Rightarrow> bool" where
  "leader_ok rf \<longleftrightarrow> unat (rf_me rf) < rf_peers rf \<and>
     (rf_state rf = ServerStateLeader \<longrightarrow> length (nextIndex rf) = rf_peers rf \<and>
        length (matchIndex rf) = rf_peers rf \<and> cancelLeader rf \<noteq> None)"

definition rstate :: "Raft \<Rightarrow> RaftState" where
  "rstate rf = \<lparr>RaftState_HardState = Some (hs rf), RaftState_Log = Some (lg rf)\<rparr>"

text \<open>Stable storage is the encoding of the peer's state, up to the commit index.\<close>

definition synced :: "Raft \<Rightarrow> bool" where
  "synced rf \<longleftrightarrow> (\<exists>c. ReadRaftState (rf_persister rf) =
     Some (RaftState_enc \<lparr>RaftState_HardState = Some ((hs rf)\<lparr>Commit := c\<rparr>), RaftState_Log = Some (lg rf)\<rparr>))"

definition raft_ok :: "Raft \<Rightarrow> bool" where
  "raft_ok rf \<longleftrightarrow> peer_ok rf \<and> leader_ok rf \<and> synced rf"

definition grows :: "Raft \<Rightarrow> Raft \<Rightarrow> bool" where
  "grows rf rf' \<longleftrightarrow> raft_ok rf' \<and> rf_me rf' = rf_me rf \<and> rf_peers rf' = rf_peers rf \<and>
     term_of rf \<le> term_of rf' \<and> commit_of rf \<le> commit_of rf'"

lemma grows_refl: "raft_ok rf \<Longrightarrow> grows rf rf"
  by (simp add: grows_def)

lemma grows_trans: "grows a b \<Longrightarrow> grows b c \<Longrightarrow> grows a c"
  by (auto simp: grows_def)

section \<open>Record updates that leave the persistent part alone\<close>

lemmas view_defs = hs_def lg_def term_of_def voted_of_def commit_of_def

lemma hs_upd [simp]:
  "hs (rf\<lparr>hardState := Some h\<rparr>) = h"
  "hs (rf\<lparr>heap := hp\<rparr>) = hs rf" "hs (rf\<lparr>rf_persister := p\<rparr>) = hs rf" "hs (rf\<lparr>rf_state := s\<rparr>) = hs rf"
  "hs (rf\<lparr>votes := v\<rparr>) = hs rf" "hs (rf\<lparr>cancelTicker := c\<rparr>) = hs rf" "hs (rf\<lparr>cancelElection := c\<rparr>) = hs rf"
  "hs (rf\<lparr>cancelLeader := c\<rparr>) = hs rf" "hs (rf\<lparr>lastApplied := la\<rparr>) = hs rf" "hs (rf\<lparr>nextIndex := ni\<rparr>) = hs rf"
  "hs (rf\<lparr>matchIndex := ni\<rparr>) = hs rf" "hs (rf\<lparr>leaderId := ld\<rparr>) = hs rf" "hs (rf\<lparr>applied := ap\<rparr>) = hs rf"
  "hs (rf\<lparr>spawned := sp\<rparr>) = hs rf" "hs (rf\<lparr>cancelled := ca\<rparr>) = hs rf" "hs (rf\<lparr>nextCtx := n\<rparr>) = hs rf"
  "hs (rf\<lparr>rf_dead := d\<rparr>) = hs rf" "hs (rf\<lparr>doneClosed := d\<rparr>) = hs rf"
  by (simp_all add: hs_def)

lemma lg_upd [simp]:
  "lg (rf\<lparr>hardState := ho\<rparr>) = lg rf" "lg (rf\<lparr>rf_persister := p\<rparr>) = lg rf" "lg (rf\<lparr>rf_state := s\<rparr>) = lg rf"
  "lg (rf\<lparr>votes := v\<rparr>) = lg rf" "lg (rf\<lparr>cancelTicker := c\<rparr>) = lg rf" "lg (rf\<lparr>cancelElection := c\<rparr>) = lg rf"
  "lg (rf\<lparr>cancelLeader := c\<rparr>) = lg rf" "lg (rf\<lparr>lastApplied := la\<rparr>) = lg rf" "lg (rf\<lparr>nextIndex := ni\<rparr>) = lg rf"
  "lg (rf\<lparr>matchIndex := ni\<rparr>) = lg rf" "lg (rf\<lparr>leaderId := ld\<rparr>) = lg rf" "lg (rf\<lparr>applied := ap\<rparr>) = lg rf"
  "lg (rf\<lparr>spawned := sp\<rparr>) = lg rf" "lg (rf\<lparr>cancelled := ca\<rparr>) = lg rf" "lg (rf\<lparr>nextCtx := n\<rparr>) = lg rf"
  "lg (rf\<lparr>rf_dead := d\<rparr>) = lg rf" "lg (rf\<lparr>doneClosed := d\<rparr>) = lg rf"
  by (simp_all add: lg_def)

lemma peer_ok_upd [simp]:
  "peer_ok (rf\<lparr>rf_persister := p\<rparr>) = peer_ok rf" "peer_ok (rf\<lparr>rf_state := s\<rparr>) = peer_ok rf"
  "peer_ok (rf\<lparr>votes := v\<rparr>) = peer_ok rf" "peer_ok (rf\<lparr>cancelTicker := c\<rparr>) = peer_ok rf"
  "peer_ok (rf\<lparr>cancelElection := c\<rparr>) = peer_ok rf" "peer_ok (rf\<lparr>cancelLeader := c\<rparr>) = peer_ok rf"
  "peer_ok (rf\<lparr>lastApplied := la\<rparr>) = peer_ok rf" "peer_ok (rf\<lparr>nextIndex := ni\<rparr>) = peer_ok rf"
  "peer_ok (rf\<lparr>matchIndex := ni\<rparr>) = peer_ok rf" "peer_ok (rf\<lparr>leaderId := ld\<rparr>) = peer_ok rf"
  "peer_ok (rf\<lparr>applied := ap\<rparr>) = peer_ok rf" "peer_ok (rf\<lparr>spawned := sp\<rparr>) = peer_ok rf"
  "peer_ok (rf\<lparr>cancelled := ca\<rparr>) = peer_ok rf" "peer_ok (rf\<lparr>nextCtx := n\<rparr>) = peer_ok rf"
  "peer_ok (rf\<lparr>rf_dead := d\<rparr>) = peer_ok rf" "peer_ok (rf\<lparr>doneClosed := d\<rparr>) = peer_ok rf"
  by (simp_all add: peer_ok_def)

lemma peer_ok_hs [simp]: "peer_ok rf \<Longrightarrow> peer_ok (rf\<lparr>hardState := Some h\<rparr>)"
  by (simp add: peer_ok_def)

lemma peer_okD [simp]: "peer_ok rf \<Longrightarrow> hardState rf = Some (hs rf)" "peer_ok rf \<Longrightarrow> log_wf (lg rf)"
  by (auto simp: peer_ok_def hs_def)

lemma peer_okE:
  assumes "peer_ok rf"
  obtains a where "rf_log rf = Some a" "stateLog rf = Some a" "a < length (heap rf)" "lg rf = heap rf ! a"
  using assms that by (auto simp: peer_ok_def lg_def)

lemma with_log_simps [simp]:
  "hs (with_log l rf) = hs rf" "rf_me (with_log l rf) = rf_me rf" "rf_peers (with_log l rf) = rf_peers rf"
  "rf_state (with_log l rf) = rf_state rf" "nextIndex (with_log l rf) = nextIndex rf"
  "matchIndex (with_log l rf) = matchIndex rf" "cancelLeader (with_log l rf) = cancelLeader rf"
  "rf_persister (with_log l rf) = rf_persister rf" "lastApplied (with_log l rf) = lastApplied rf"
  "applied (with_log l rf) = applied rf" "leaderId (with_log l rf) = leaderId rf"
  by (simp_all add: with_log_def)

lemma peer_ok_with_log [simp]: "peer_ok rf \<Longrightarrow> peer_ok (with_log l rf) = log_wf l"
  by (auto simp: peer_ok_def with_log_def lg_def)

lemma lg_with_log [simp]: "peer_ok rf \<Longrightarrow> lg (with_log l rf) = l"
  by (auto simp: peer_ok_def with_log_def lg_def)

lemma cancelCtx_simps [simp]:
  "hs (cancelCtx c rf) = hs rf" "lg (cancelCtx c rf) = lg rf" "peer_ok (cancelCtx c rf) = peer_ok rf"
  "rf_me (cancelCtx c rf) = rf_me rf" "rf_peers (cancelCtx c rf) = rf_peers rf"
  by (simp_all add: cancelCtx_def)

lemma cancelIfSet_simps [simp]:
  "hs (cancelIfSet c rf) = hs rf" "lg (cancelIfSet c rf) = lg rf" "peer_ok (cancelIfSet c rf) = peer_ok rf"
  "rf_me (cancelIfSet c rf) = rf_me rf" "rf_peers (cancelIfSet c rf) = rf_peers rf"
  "cancelLeader (cancelIfSet c rf) = cancelLeader rf" "cancelTicker (cancelIfSet c rf) = cancelTicker rf"
  "rf_persister (cancelIfSet c rf) = rf_persister rf" "nextIndex (cancelIfSet c rf) = nextIndex rf"
  "matchIndex (cancelIfSet c rf) = matchIndex rf" "rf_state (cancelIfSet c rf) = rf_state rf"
  "lastApplied (cancelIfSet c rf) = lastApplied rf" "applied (cancelIfSet c rf) = applied rf"
  by (simp_all add: cancelIfSet_def cancelCtx_def split: option.splits)

lemma spawn_simps [simp]:
  "hs (spawn g rf) = hs rf" "lg (spawn g rf) = lg rf" "peer_ok (spawn g rf) = peer_ok rf"
  "rf_me (spawn g rf) = rf_me rf" "rf_peers (spawn g rf) = rf_peers rf" "rf_state (spawn g rf) = rf_state rf"
  "cancelLeader (spawn g rf) = cancelLeader rf" "rf_persister (spawn g rf) = rf_persister rf"
  "nextIndex (spawn g rf) = nextIndex rf" "matchIndex (spawn g rf) = matchIndex rf"
  "lastApplied (spawn g rf) = lastApplied rf" "applied (spawn g rf) = applied rf"
  "votes (spawn g rf) = votes rf" "leaderId (spawn g rf) = leaderId rf"
  by (simp_all add: spawn_def)

lemma leader_ok_upd [simp]:
  "leader_ok (rf\<lparr>hardState := h\<rparr>) = leader_ok rf"
  "leader_ok (rf\<lparr>rf_persister := p\<rparr>) = leader_ok rf"
  "leader_ok (rf\<lparr>votes := v\<rparr>) = leader_ok rf"
  "leader_ok (rf\<lparr>cancelTicker := c\<rparr>) = leader_ok rf"
  "leader_ok (rf\<lparr>cancelElection := c\<rparr>) = leader_ok rf"
  "leader_ok (rf\<lparr>lastApplied := la\<rparr>) = leader_ok rf"
  "leader_ok (rf\<lparr>leaderId := ld\<rparr>) = leader_ok rf"
  "leader_ok (rf\<lparr>applied := ap\<rparr>) = leader_ok rf"
  "leader_ok (rf\<lparr>spawned := sp\<rparr>) = leader_ok rf"
  "leader_ok (rf\<lparr>cancelled := ca\<rparr>) = leader_ok rf"
  "leader_ok (rf\<lparr>nextCtx := n\<rparr>) = leader_ok rf"
  "leader_ok (rf\<lparr>rf_dead := d\<rparr>) = leader_ok rf"
  "leader_ok (rf\<lparr>doneClosed := d\<rparr>) = leader_ok rf"
  "leader_ok (rf\<lparr>heap := hp\<rparr>) = leader_ok rf"
  by (simp_all add: leader_ok_def)

lemma leader_ok_effects [simp]:
  "leader_ok (spawn g rf) = leader_ok rf" "leader_ok (cancelCtx x rf) = leader_ok rf"
  "leader_ok (cancelIfSet co rf) = leader_ok rf" "leader_ok (with_log l rf) = leader_ok rf"
  by (simp_all add: spawn_def cancelCtx_def cancelIfSet_def with_log_def split: option.splits)

section \<open>Evaluation under the invariant\<close>

lemma getters_ok [simp]:
  "peer_ok rf \<Longrightarrow> getTerm rf = Ok (term_of rf)"
  "peer_ok rf \<Longrightarrow> getVotedFor rf = Ok (voted_of rf)"
  "peer_ok rf \<Longrightarrow> getCommit rf = Ok (commit_of rf)"
  by (simp_all add: getTerm_def getVotedFor_def getCommit_def term_of_def voted_of_def commit_of_def)

lemma setters_ok [simp]:
  "peer_ok rf \<Longrightarrow> setTerm t rf = Ok (rf\<lparr>hardState := Some ((hs rf)\<lparr>HardState_Term := t\<rparr>)\<rparr>)"
  "peer_ok rf \<Longrightarrow> setVotedFor v rf = Ok (rf\<lparr>hardState := Some ((hs rf)\<lparr>VotedFor := v\<rparr>)\<rparr>)"
  "peer_ok rf \<Longrightarrow> setCommit c rf = Ok (rf\<lparr>hardState := Some ((hs rf)\<lparr>Commit := c\<rparr>)\<rparr>)"
  by (simp_all add: setTerm_def setVotedFor_def setCommit_def)

lemma theLog_ok [simp]: "peer_ok rf \<Longrightarrow> theLog rf = Ok (lg rf)"
  by (erule peer_okE) (simp add: theLog_def loadLog_def indexInt_def)

lemma updLog_ok [simp]: "peer_ok rf \<Longrightarrow> updLog f rf = go_bind (f (lg rf)) (\<lambda>l. Ok (with_log l rf))"
  by (frule theLog_ok, erule peer_okE) (simp add: updLog_def store_def with_log_def)

lemma log_wf_Log_ok: "log_wf l \<Longrightarrow> Log_ok l"
  by (auto simp: log_wf_iff Log_ok_def in_set_conv_nth)

lemma persistRaftStateData_ok [simp]:
  assumes "peer_ok rf"
  shows "persistRaftStateData rf = Ok (Some (RaftState_enc (rstate rf)))"
proof -
  have "raftStateOf rf = Ok (rstate rf)"
    using assms peer_okD(1)[OF assms]
    by (elim peer_okE) (simp add: raftStateOf_def rstate_def loadLog_def indexInt_def)
  moreover have "RaftState_ok (rstate rf)"
    using assms by (simp add: RaftState_ok_def rstate_def log_wf_Log_ok)
  then have "RaftState_Marshal (Some (rstate rf)) = Ok (RaftState_enc (rstate rf))"
    unfolding RaftState_Marshal_def by (rule RaftState_pb.marshal)
  ultimately show ?thesis by (simp add: persistRaftStateData_def)
qed

definition saved :: "Raft \<Rightarrow> Raft" where
  "saved rf = rf\<lparr>rf_persister := SaveRaftState (rf_persister rf) (Some (RaftState_enc (rstate rf)))\<rparr>"

definition savedWith :: "bytes \<Rightarrow> Raft \<Rightarrow> Raft" where
  "savedWith sn rf =
     rf\<lparr>rf_persister := SaveStateAndSnapshot (rf_persister rf) (Some (RaftState_enc (rstate rf))) sn\<rparr>"

lemma persist_ok [simp]:
  "peer_ok rf \<Longrightarrow> persist rf = Ok (saved rf)"
  "peer_ok rf \<Longrightarrow> persistWithSnapshot sn rf = Ok (savedWith sn rf)"
  by (simp_all add: persist_def persistWithSnapshot_def saved_def savedWith_def)

lemma leader_ok_saved [simp]: "leader_ok (saved rf) = leader_ok rf" "leader_ok (savedWith sn rf) = leader_ok rf"
  by (simp_all add: saved_def savedWith_def)

lemma saved_simps [simp]:
  "hs (saved rf) = hs rf" "lg (saved rf) = lg rf" "peer_ok (saved rf) = peer_ok rf"
  "rf_me (saved rf) = rf_me rf" "rf_peers (saved rf) = rf_peers rf" "rf_state (saved rf) = rf_state rf"
  "cancelLeader (saved rf) = cancelLeader rf" "nextIndex (saved rf) = nextIndex rf"
  "matchIndex (saved rf) = matchIndex rf" "lastApplied (saved rf) = lastApplied rf"
  "applied (saved rf) = applied rf" "leaderId (saved rf) = leaderId rf" "votes (saved rf) = votes rf"
  by (simp_all add: saved_def)

lemma savedWith_simps [simp]:
  "hs (savedWith sn rf) = hs rf" "lg (savedWith sn rf) = lg rf" "peer_ok (savedWith sn rf) = peer_ok rf"
  "rf_me (savedWith sn rf) = rf_me rf" "rf_peers (savedWith sn rf) = rf_peers rf"
  "rf_state (savedWith sn rf) = rf_state rf" "cancelLeader (savedWith sn rf) = cancelLeader rf"
  "nextIndex (savedWith sn rf) = nextIndex rf" "matchIndex (savedWith sn rf) = matchIndex rf"
  "lastApplied (savedWith sn rf) = lastApplied rf" "applied (savedWith sn rf) = applied rf"
  by (simp_all add: savedWith_def)

lemma synced_saved [simp]: "synced (saved rf)" "synced (savedWith sn rf)"
  unfolding synced_def by (rule exI[of _ "Commit (hs rf)"],
    simp add: saved_def savedWith_def rstate_def ps.readState_save ps.readState_saveBoth)+

lemma synced_upd [simp]:
  "synced (rf\<lparr>rf_state := s\<rparr>) = synced rf"
  "synced (rf\<lparr>votes := v\<rparr>) = synced rf"
  "synced (rf\<lparr>cancelTicker := c\<rparr>) = synced rf"
  "synced (rf\<lparr>cancelElection := c\<rparr>) = synced rf"
  "synced (rf\<lparr>cancelLeader := c\<rparr>) = synced rf"
  "synced (rf\<lparr>lastApplied := la\<rparr>) = synced rf"
  "synced (rf\<lparr>nextIndex := ni\<rparr>) = synced rf"
  "synced (rf\<lparr>matchIndex := ni\<rparr>) = synced rf"
  "synced (rf\<lparr>leaderId := ld\<rparr>) = synced rf"
  "synced (rf\<lparr>applied := ap\<rparr>) = synced rf"
  "synced (rf\<lparr>spawned := sp\<rparr>) = synced rf"
  "synced (rf\<lparr>cancelled := ca\<rparr>) = synced rf"
  "synced (rf\<lparr>nextCtx := n\<rparr>) = synced rf"
  "synced (rf\<lparr>rf_dead := d\<rparr>) = synced rf"
  "synced (rf\<lparr>doneClosed := d\<rparr>) = synced rf"
  by (simp_all add: synced_def)

lemma synced_effects [simp]:
  "synced (spawn g rf) = synced rf" "synced (cancelCtx c rf) = synced rf" "synced (cancelIfSet co rf) = synced rf"
  by (simp_all add: spawn_def cancelCtx_def cancelIfSet_def split: option.splits)

lemma synced_commit [simp]: "synced rf \<Longrightarrow> synced (rf\<lparr>hardState := Some ((hs rf)\<lparr>Commit := c\<rparr>)\<rparr>)"
  by (auto simp: synced_def)

section \<open>State conversion\<close>

lemma convertToFollower_spec:
  assumes "peer_ok rf"
  shows "\<exists>rf'. convertToFollower t rf = Ok rf' \<and> peer_ok rf' \<and> synced rf' \<and>
    hs rf' = (hs rf)\<lparr>HardState_Term := t, VotedFor := 0\<rparr> \<and> lg rf' = lg rf \<and>
    rf_state rf' = ServerStateFollower \<and> votes rf' = 0 \<and> leaderId rf' = 0 \<and>
    rf_me rf' = rf_me rf \<and> rf_peers rf' = rf_peers rf \<and> lastApplied rf' = lastApplied rf \<and>
    applied rf' = applied rf"
  using assms by (simp add: convertToFollower_def)

lemma convertToFollower_grows:
  assumes "raft_ok rf" "term_of rf \<le> t"
  shows "\<exists>rf'. convertToFollower t rf = Ok rf' \<and> grows rf rf' \<and> lg rf' = lg rf \<and> term_of rf' = t \<and>
    voted_of rf' = 0 \<and> commit_of rf' = commit_of rf \<and> rf_state rf' = ServerStateFollower"
  using convertToFollower_spec[of rf t] assms
  by (auto simp: raft_ok_def grows_def leader_ok_def term_of_def commit_of_def voted_of_def)

lemma convertToLeader_spec:
  assumes "peer_ok rf" "unat (rf_me rf) < rf_peers rf"
  shows "\<exists>rf'. convertToLeader rf = Ok rf' \<and> raft_ok rf' \<and>
    hs rf' = (hs rf)\<lparr>VotedFor := 0\<rparr> \<and> lg rf' = lg rf \<and> rf_state rf' = ServerStateLeader \<and>
    leaderId rf' = rf_me rf \<and> rf_me rf' = rf_me rf \<and> rf_peers rf' = rf_peers rf \<and>
    nextIndex rf' = replicate (rf_peers rf) (of_nat (log_last (lg rf)) + 1) \<and>
    matchIndex rf' = replicate (rf_peers rf) 0"
proof -
  from Len_wf[OF peer_okD(2)[OF assms(1)]] obtain e where e: "LastEntry (lg rf) = Ok e"
    "Entry_Index e = of_nat (log_last (lg rf))" by (auto simp: Len_def)
  show ?thesis
    using assms e by (simp add: convertToLeader_def Let_def raft_ok_def leader_ok_def)
qed

lemma launchElection_spec:
  assumes "raft_ok rf"
  shows "\<exists>rf'. launchElection t rf = Ok rf' \<and> raft_ok rf' \<and>
    hs rf' = (hs rf)\<lparr>HardState_Term := t, VotedFor := rf_me rf\<rparr> \<and> lg rf' = lg rf \<and>
    rf_state rf' = ServerStateCandidate \<and> votes rf' = 1 \<and>
    rf_me rf' = rf_me rf \<and> rf_peers rf' = rf_peers rf"
  using assms by (auto simp: launchElection_def Let_def raft_ok_def leader_ok_def split: option.splits)

section \<open>Changing the log\<close>

text \<open>The parts of a peer that log operations leave alone.\<close>

definition log_only :: "Raft \<Rightarrow> Raft \<Rightarrow> bool" where
  "log_only rf rf' \<longleftrightarrow> raft_ok rf' \<and> hs rf' = hs rf \<and> rf_me rf' = rf_me rf \<and> rf_peers rf' = rf_peers rf \<and>
     rf_state rf' = rf_state rf \<and> nextIndex rf' = nextIndex rf \<and> lastApplied rf' = lastApplied rf \<and>
     applied rf' = applied rf \<and> leaderId rf' = leaderId rf"

lemma log_only_trans: "log_only a b \<Longrightarrow> log_only b c \<Longrightarrow> log_only a c"
  by (auto simp: log_only_def)

lemma log_only_grows: "log_only rf rf' \<Longrightarrow> grows rf rf'"
  by (simp add: log_only_def grows_def term_of_def commit_of_def)

lemma log_only_refl: "raft_ok rf \<Longrightarrow> log_only rf rf"
  by (simp add: log_only_def)

lemma store_me: "unat i < length xs \<Longrightarrow> store xs (uint i) v = Ok (xs[unat i := v])" for i :: uint64
  by (metis nat_uint_eq of_nat_less_iff store_def uint_ge_0 uint_nat)

text \<open>\<^verbatim>\<open>appendEntryToLog\<close> is \<open>Append\<close> on the log, saved.\<close>

lemma appendEntryToLog_spec:
  assumes "raft_ok rf" "Entry_Index e \<noteq> 0"
  shows "\<exists>rf' l'. appendEntryToLog rf e = Ok rf' \<and> Append (lg rf) e = Ok l' \<and> lg rf' = l' \<and> log_only rf rf' \<and>
    matchIndex rf' = (if rf_state rf = ServerStateLeader \<and> unat (Entry_Index e) = log_last (lg rf) + 1
                      then (matchIndex rf)[unat (rf_me rf) := Entry_Index e] else matchIndex rf)"
proof -
  have p: "peer_ok rf" "leader_ok rf" "log_wf (lg rf)" using assms by (auto simp: raft_ok_def)
  note iff = next_index_iff[OF p(3) assms(2)]
  show ?thesis
  proof (cases "unat (Entry_Index e) = log_last (lg rf) + 1")
    case True
    from Append_next[OF p(3) this] obtain l' where l': "Append (lg rf) e = Ok l'" "log_wf l'" by blast
    define rf1 where "rf1 = saved (with_log l' rf)"
    define rf2 where "rf2 = rf1\<lparr>matchIndex := (matchIndex rf)[unat (rf_me rf) := Entry_Index e]\<rparr>"
    have st: "store (matchIndex rf) (uint (rf_me rf)) v = Ok ((matchIndex rf)[unat (rf_me rf) := v])"
      if "rf_state rf = ServerStateLeader" for v
      using that p(2) by (simp add: store_me leader_ok_def)
    have "log_only rf rf1" "log_only rf rf2" "lg rf1 = l'" "lg rf2 = l'"
      using p l'(2) by (simp_all add: rf1_def rf2_def log_only_def raft_ok_def leader_ok_def)
    moreover have "appendEntryToLog rf e = Ok (if rf_state rf = ServerStateLeader then rf2 else rf1)"
      using p(1) l' iffD2[OF iff True] st by (simp add: appendEntryToLog_def Len_wf rf1_def rf2_def)
    moreover have "matchIndex rf1 = matchIndex rf" "matchIndex rf2 = (matchIndex rf)[unat (rf_me rf) := Entry_Index e]"
      by (simp_all add: rf1_def rf2_def)
    ultimately show ?thesis using True l'(1) by simp
  next
    case False
    then show ?thesis using assms p iff Append_other[OF p(3) False assms(2)]
      by (simp add: appendEntryToLog_def Len_wf log_only_refl)
  qed
qed

lemma appendLoop_refines:
  assumes "raft_ok rf" "0 \<notin> Entry_Index ` set es"
  shows "\<exists>rf' l'. appendLoop rf (map Some es) = Ok rf' \<and> foldM_go Append (lg rf) es = Ok l' \<and>
    lg rf' = l' \<and> log_only rf rf' \<and> (rf_state rf \<noteq> ServerStateLeader \<longrightarrow> matchIndex rf' = matchIndex rf)"
  using assms
proof (induction es arbitrary: rf)
  case Nil
  then show ?case by (simp add: appendLoop_def log_only_refl)
next
  case (Cons e es)
  from appendEntryToLog_spec[of rf e] Cons.prems obtain rf1 where
    1: "appendEntryToLog rf e = Ok rf1" "Append (lg rf) e = Ok (lg rf1)" "log_only rf rf1"
      "rf_state rf \<noteq> ServerStateLeader \<Longrightarrow> matchIndex rf1 = matchIndex rf"
    by auto
  then have "raft_ok rf1" "rf_state rf1 = rf_state rf" by (auto simp: log_only_def)
  with Cons.IH[of rf1] Cons.prems obtain rf2 where
    2: "appendLoop rf1 (map Some es) = Ok rf2" "foldM_go Append (lg rf1) es = Ok (lg rf2)" "log_only rf1 rf2"
      "rf_state rf \<noteq> ServerStateLeader \<Longrightarrow> matchIndex rf2 = matchIndex rf1" by auto
  have "log_only rf rf2" using log_only_trans[OF 1(3) 2(3)] .
  then show ?case using 1 2 by (simp add: appendLoop_def)
qed

text \<open>A truncation and a save.\<close>

lemma discard_saved:
  assumes "raft_ok rf" "DiscardAfterAnd (lg rf) i = Ok l" "log_wf l"
  shows "updLog (\<lambda>l. DiscardAfterAnd l i) rf = Ok (with_log l rf)" "persist (with_log l rf) = Ok (saved (with_log l rf))"
    "log_only rf (saved (with_log l rf))" "lg (saved (with_log l rf)) = l"
  using assms by (auto simp: raft_ok_def log_only_def leader_ok_def)

lemma batch_at_Cons: "batch_at p (e # es) \<longleftrightarrow> unat (Entry_Index e) = p + 1 \<and> batch_at (p + 1) es"
  by (auto simp: batch_at_def less_Suc_eq_0_disj)

text \<open>No entry of the batch from \<open>p\<close> on contradicts an entry of the log.\<close>

definition agrees_until :: "Log \<Rightarrow> nat \<Rightarrow> Entry list \<Rightarrow> nat \<Rightarrow> bool" where
  "agrees_until l p es j \<longleftrightarrow> (\<forall>i e. i < j \<longrightarrow> log_view l (p + 1 + i) = Some e \<longrightarrow> Entry_Term e = Entry_Term (es ! i))"

lemma agrees_untilD:
  "agrees_until l p es j \<Longrightarrow> i < j \<Longrightarrow> log_view l (p + 1 + i) = Some e \<Longrightarrow> Entry_Term e = Entry_Term (es ! i)"
  unfolding agrees_until_def by blast

lemma agrees_until_Suc:
  "agrees_until l p (x # es) (Suc k) \<longleftrightarrow>
     (\<forall>e. log_view l (p + 1) = Some e \<longrightarrow> Entry_Term e = Entry_Term x) \<and> agrees_until l (p + 1) es k"
proof -
  have "agrees_until l p (x # es) (Suc k) \<longleftrightarrow>
     (\<forall>i. i < Suc k \<longrightarrow> (\<forall>e. log_view l (p + 1 + i) = Some e \<longrightarrow> Entry_Term e = Entry_Term ((x # es) ! i)))"
    by (auto simp: agrees_until_def)
  also have "\<dots> \<longleftrightarrow> (\<forall>e. log_view l (p + 1) = Some e \<longrightarrow> Entry_Term e = Entry_Term x) \<and>
      (\<forall>i<k. \<forall>e. log_view l (p + 1 + Suc i) = Some e \<longrightarrow> Entry_Term e = Entry_Term (es ! i))"
    by (subst All_less_Suc2) simp
  also have "(\<forall>i<k. \<forall>e. log_view l (p + 1 + Suc i) = Some e \<longrightarrow> Entry_Term e = Entry_Term (es ! i)) \<longleftrightarrow>
      agrees_until l (p + 1) es k"
    by (auto simp: agrees_until_def)
  finally show ?thesis .
qed

lemma conflictLoop_step:
  assumes "raft_ok rf" "log_base (lg rf) < unat (Entry_Index x)"
  shows "\<forall>e. log_view (lg rf) (unat (Entry_Index x)) = Some e \<longrightarrow> Entry_Term e = Entry_Term x \<Longrightarrow>
      conflictLoop rf (Some x # ps) = conflictLoop rf ps"
    and "log_view (lg rf) (unat (Entry_Index x)) = Some e \<Longrightarrow> Entry_Term e \<noteq> Entry_Term x \<Longrightarrow>
      \<exists>rf1. conflictLoop rf (Some x # ps) = Ok (False, rf1) \<and> log_only rf rf1 \<and>
        matchIndex rf1 = matchIndex rf \<and> DiscardAfterAnd (lg rf) (Entry_Index x) = Ok (lg rf1)"
proof -
  have ok: "peer_ok rf" "log_wf (lg rf)" using assms by (auto simp: raft_ok_def)
  have nt: "\<not> Entry_Index x < LastIncludedIndex (lg rf)"
    using assms(2) by (simp add: LastIncludedIndex_def log_base_def word_less_nat_alt)
  have le: "Entry_Index x \<le> of_nat (log_last (lg rf)) \<longleftrightarrow> unat (Entry_Index x) \<le> log_last (lg rf)"
    by (simp only: word_le_nat_alt unat_of_log_last[OF ok(2)])
  {
    assume a: "\<forall>e. log_view (lg rf) (unat (Entry_Index x)) = Some e \<longrightarrow> Entry_Term e = Entry_Term x"
    show "conflictLoop rf (Some x # ps) = conflictLoop rf ps"
    proof (cases "unat (Entry_Index x) \<le> log_last (lg rf)")
      case True
      from log_view_Some[OF ok(2) assms(2) True] obtain y where "log_view (lg rf) (unat (Entry_Index x)) = Some y" .
      with a show ?thesis using ok nt le True EntryAt_Some[OF ok(2)] by (simp add: Len_wf)
    qed (use ok nt le in \<open>simp add: Len_wf\<close>)
  next
    assume a: "log_view (lg rf) (unat (Entry_Index x)) = Some e" "Entry_Term e \<noteq> Entry_Term x"
    have last: "unat (Entry_Index x) \<le> log_last (lg rf)" using log_view_index(3)[OF ok(2) a(1)] .
    then obtain l where l: "DiscardAfterAnd (lg rf) (Entry_Index x) = Ok l" "log_wf l"
      using DiscardAfterAnd_spec[OF ok(2) assms(2)] by auto
    note d = discard_saved[OF assms(1) l]
    show "\<exists>rf1. conflictLoop rf (Some x # ps) = Ok (False, rf1) \<and> log_only rf rf1 \<and>
        matchIndex rf1 = matchIndex rf \<and> DiscardAfterAnd (lg rf) (Entry_Index x) = Ok (lg rf1)"
      using ok nt le last a EntryAt_Some[OF ok(2) a(1)] l d
      by (intro exI[of _ "saved (with_log l rf)"]) (simp add: Len_wf)
  }
qed

lemma conflictLoop_cases:
  assumes "raft_ok rf" "batch_at p es" "log_base (lg rf) \<le> p"
  shows "agrees_until (lg rf) p es (length es) \<and> conflictLoop rf (map Some es) = Ok (False, rf) \<or>
    (\<exists>j e rf1. j < length es \<and> agrees_until (lg rf) p es j \<and>
      log_view (lg rf) (p + 1 + j) = Some e \<and> Entry_Term e \<noteq> Entry_Term (es ! j) \<and>
      conflictLoop rf (map Some es) = Ok (False, rf1) \<and> log_only rf rf1 \<and> matchIndex rf1 = matchIndex rf \<and>
      DiscardAfterAnd (lg rf) (Entry_Index (es ! j)) = Ok (lg rf1))"
  using assms(2,3)
proof (induction es arbitrary: p)
  case Nil
  then show ?case by (simp add: agrees_until_def)
next
  case (Cons x es)
  have x: "unat (Entry_Index x) = p + 1" "batch_at (p + 1) es" using Cons.prems by (auto simp: batch_at_Cons)
  have b: "log_base (lg rf) < unat (Entry_Index x)" "log_base (lg rf) \<le> p + 1" using x Cons.prems(2) by auto
  note step = conflictLoop_step[OF assms(1) b(1), where ps = "map Some es", unfolded x(1)]
  show ?case
  proof (cases "\<forall>e. log_view (lg rf) (p + 1) = Some e \<longrightarrow> Entry_Term e = Entry_Term x")
    case True
    have agrees: "agrees_until (lg rf) p (x # es) (Suc k)" if "agrees_until (lg rf) (p + 1) es k" for k
      using True that by (simp only: agrees_until_Suc simp_thms)
    from Cons.IH[OF x(2) b(2)] show ?thesis
    proof (elim disjE exE conjE)
      assume "agrees_until (lg rf) (p + 1) es (length es)" "conflictLoop rf (map Some es) = Ok (False, rf)"
      with agrees step(1)[OF True] show ?thesis by (simp del: conflictLoop.simps)
    next
      fix j e rf1
      assume "j < length es" "agrees_until (lg rf) (p + 1) es j" "log_view (lg rf) (p + 1 + 1 + j) = Some e"
        "Entry_Term e \<noteq> Entry_Term (es ! j)" "conflictLoop rf (map Some es) = Ok (False, rf1)"
        "log_only rf rf1" "matchIndex rf1 = matchIndex rf"
        "DiscardAfterAnd (lg rf) (Entry_Index (es ! j)) = Ok (lg rf1)"
      then show ?thesis using agrees[of j] step(1)[OF True]
        by (intro disjI2 exI[of _ "Suc j"] exI[of _ e] exI[of _ rf1]) (simp del: conflictLoop.simps)
    qed
  next
    case False
    then obtain e where e: "log_view (lg rf) (p + 1) = Some e" "Entry_Term e \<noteq> Entry_Term x" by blast
    from step(2)[OF this] obtain rf1 where "conflictLoop rf (map Some (x # es)) = Ok (False, rf1)"
      "log_only rf rf1" "matchIndex rf1 = matchIndex rf" "DiscardAfterAnd (lg rf) (Entry_Index x) = Ok (lg rf1)"
      unfolding list.map by blast
    then show ?thesis using e
      by (intro disjI2 exI[of _ 0] exI[of _ e] exI[of _ rf1]) (simp add: agrees_until_def del: conflictLoop.simps)
  qed
qed

section \<open>AppendEntries\<close>

text \<open>The term a log has at an index between its boundary and its last entry.\<close>

definition term_at :: "Log \<Rightarrow> uint64 \<Rightarrow> uint64" where
  "term_at l i = (if i = 0 then 0 else if i = IncludedIndex l then IncludedTerm l
                  else case log_view l (unat i) of None \<Rightarrow> 0 | Some e \<Rightarrow> Entry_Term e)"

lemma EntryAt_term_at:
  assumes "log_wf l" "log_base l \<le> unat i" "unat i \<le> log_last l"
  shows "\<exists>e. EntryAt l i = Ok e \<and> Entry_Term e = term_at l i"
proof (cases "i = 0 \<or> i = IncludedIndex l")
  case True
  then show ?thesis by (auto simp: EntryAt_view[OF assms(1)] term_at_def Entry_zero_def)
next
  case False
  then have "log_base l < unat i" using assms(2) by (metis log_base_def le_neq_trans word_unat_eq_iff)
  from log_view_Some[OF assms(1) this assms(3)] obtain e where "log_view l (unat i) = Some e" .
  then show ?thesis using False by (auto simp: EntryAt_view[OF assms(1)] term_at_def)
qed

text \<open>
  The log after accepting a batch behind \<open>p\<close>: unchanged up to \<open>p\<close>, in agreement with the batch, cut
  only if the old log contradicted the batch.
\<close>

definition merged :: "Log \<Rightarrow> nat \<Rightarrow> Entry list \<Rightarrow> Log \<Rightarrow> bool" where
  "merged l p es l' \<longleftrightarrow> log_base l' = log_base l \<and> (\<forall>n \<le> p. log_view l' n = log_view l n) \<and>
     (\<forall>i < length es. \<exists>e. log_view l' (p + 1 + i) = Some e \<and> Entry_Term e = Entry_Term (es ! i) \<and>
        (e = es ! i \<or> log_view l (p + 1 + i) = Some e)) \<and>
     (if agrees_until l p es (length es)
      then log_last l' = max (log_last l) (p + length es) \<and> log_view l \<subseteq>\<^sub>m log_view l'
      else log_last l' = p + length es)"

lemma batch_at_nonzero: "batch_at p es \<Longrightarrow> 0 \<notin> Entry_Index ` set es"
  by (auto simp: batch_at_def in_set_conv_nth) (metis Zero_not_Suc unsigned_0)

lemma accept_batch:
  assumes "raft_ok rf" "batch_at p es" "log_base (lg rf) \<le> p" "p \<le> log_last (lg rf)"
  shows "\<exists>rf1 rf2. conflictLoop rf (map Some es) = Ok (False, rf1) \<and> appendLoop rf1 (map Some es) = Ok rf2 \<and>
    log_only rf rf2 \<and> merged (lg rf) p es (lg rf2)"
proof -
  have wf: "log_wf (lg rf)" using assms by (simp add: raft_ok_def)
  note nz = batch_at_nonzero[OF assms(2)]
  from conflictLoop_cases[OF assms(1-3)] show ?thesis
  proof (elim disjE exE conjE)
    assume a: "agrees_until (lg rf) p es (length es)" "conflictLoop rf (map Some es) = Ok (False, rf)"
    from appendLoop_refines[OF assms(1) nz] obtain rf2 where
      2: "appendLoop rf (map Some es) = Ok rf2" "foldM_go Append (lg rf) es = Ok (lg rf2)" "log_only rf rf2" by blast
    have "Entry_Term e = Entry_Term (es ! i)" if "i < length es" "log_view (lg rf) (p + 1 + i) = Some e" for i e
      using agrees_untilD[OF a(1) that] .
    from raftLog.merge_no_conflict[OF wf assms(3,4,2) this]
    have m: "log_base (lg rf2) = log_base (lg rf)" "log_last (lg rf2) = max (log_last (lg rf)) (p + length es)"
      "log_view (lg rf) \<subseteq>\<^sub>m log_view (lg rf2)"
      "\<forall>i < length es. \<exists>e. log_view (lg rf2) (p + 1 + i) = Some e \<and> Entry_Term e = Entry_Term (es ! i) \<and>
        (e = es ! i \<or> log_view (lg rf) (p + 1 + i) = Some e)"
      unfolding 2(2) go.inject by blast+
    have "log_view (lg rf2) n = log_view (lg rf) n" if "n \<le> p" for n
    proof (cases "log_view (lg rf) n")
      case (Some e)
      then show ?thesis using m(3) by (metis domI map_le_def)
    next
      case None
      then have "n \<le> log_base (lg rf)" using that assms(4) dom_log_view[OF wf] by (metis domIff greaterThanAtMost_iff le_trans not_le)
      then show ?thesis using m(1) None by (simp add: log_view_def)
    qed
    with a(1) m have "merged (lg rf) p es (lg rf2)" unfolding merged_def by simp
    with a(2) 2 show ?thesis by blast
  next
    fix j e rf1
    assume a: "j < length es" "agrees_until (lg rf) p es j" "log_view (lg rf) (p + 1 + j) = Some e"
      "Entry_Term e \<noteq> Entry_Term (es ! j)" "conflictLoop rf (map Some es) = Ok (False, rf1)" "log_only rf rf1"
      "DiscardAfterAnd (lg rf) (Entry_Index (es ! j)) = Ok (lg rf1)"
    from a(6) have "raft_ok rf1" by (simp add: log_only_def)
    from appendLoop_refines[OF this nz] obtain rf2 where
      2: "appendLoop rf1 (map Some es) = Ok rf2" "foldM_go Append (lg rf1) es = Ok (lg rf2)" "log_only rf1 rf2" by blast
    have ag: "Entry_Term e = Entry_Term (es ! i)" if "i < j" "log_view (lg rf) (p + 1 + i) = Some e" for i e
      using agrees_untilD[OF a(2) that] .
    from raftLog.merge_conflict[OF wf assms(3,2) a(1) log_view_index(3)[OF wf a(3)] ag]
    have m: "log_base (lg rf2) = log_base (lg rf)" "log_last (lg rf2) = p + length es"
      "\<forall>n \<le> p + j. log_view (lg rf2) n = log_view (lg rf) n"
      "\<forall>i < length es. \<exists>e. log_view (lg rf2) (p + 1 + i) = Some e \<and> Entry_Term e = Entry_Term (es ! i) \<and>
        (e = es ! i \<or> log_view (lg rf) (p + 1 + i) = Some e)"
      unfolding a(7) go.inject using 2(2) unfolding go.inject by (metis go.inject(1))+
    have "\<not> agrees_until (lg rf) p es (length es)" using agrees_untilD a(1,3,4) by blast
    with m have "merged (lg rf) p es (lg rf2)" unfolding merged_def by simp
    with a(5) 2(1) log_only_trans[OF a(6) 2(3)] show ?thesis by blast
  qed
qed

text \<open>Adopting a term that is not older.\<close>

lemma adopt_term:
  assumes "raft_ok rf" "term_of rf \<le> t"
  shows "\<exists>rf1. (if term_of rf < t then convertToFollower t rf else Ok rf) = Ok rf1 \<and> grows rf rf1 \<and>
    lg rf1 = lg rf \<and> term_of rf1 = t \<and> commit_of rf1 = commit_of rf"
  using convertToFollower_grows[OF assms] assms grows_refl[OF assms(1)] by (cases "term_of rf < t") auto

lemma leaderId_ok [simp]:
  "raft_ok (rf\<lparr>leaderId := i\<rparr>) = raft_ok rf" "term_of (rf\<lparr>leaderId := i\<rparr>) = term_of rf"
  "commit_of (rf\<lparr>leaderId := i\<rparr>) = commit_of rf"
  by (simp_all add: raft_ok_def leader_ok_def term_of_def commit_of_def)

lemma commitEntryBeforeIndex_spec:
  assumes "raft_ok rf"
  shows "\<exists>rf'. commitEntryBeforeIndex i rf = Ok rf' \<and> grows rf rf' \<and> lg rf' = lg rf \<and> term_of rf' = term_of rf \<and>
    commit_of rf' = max (commit_of rf) i \<and> leaderId rf' = leaderId rf"
proof (cases "i \<le> commit_of rf")
  case True
  then show ?thesis using assms by (simp add: commitEntryBeforeIndex_def raft_ok_def grows_refl max_def)
next
  case False
  then show ?thesis using assms
    by (auto simp: commitEntryBeforeIndex_def raft_ok_def grows_def leader_ok_def term_of_def commit_of_def max_def)
qed

lemma last_less_iff: "log_wf l \<Longrightarrow> of_nat (log_last l) < (i :: uint64) \<longleftrightarrow> log_last l < unat i"
  by (simp only: word_less_nat_alt unat_of_log_last)

lemma less_base_iff: "i < IncludedIndex l \<longleftrightarrow> unat i < log_base l"
  by (simp add: log_base_def word_less_nat_alt)

lemma LastEntry_index: "log_wf l \<Longrightarrow> \<exists>e. LastEntry l = Ok e \<and> Entry_Index e = of_nat (log_last l)"
  using Len_wf[of l] by (auto simp: Len_def)

lemma unat_goMin: "unat (goMin a b) = min (unat a) (unat b)"
  by (simp add: goMin_def word_less_nat_alt min_def)

text \<open>The commit index a follower takes over.\<close>

definition followed_commit :: "AppendEntriesArgs \<Rightarrow> Log \<Rightarrow> uint64 \<Rightarrow> uint64" where
  "followed_commit args l c =
     (let ci = goMin (LeaderCommit args) (of_nat (log_last l))
      in if c < LeaderCommit args \<and> term_at l ci = CommitTerm args then max c ci else c)"

lemma followCommit_spec:
  assumes "raft_ok rf" "log_base (lg rf) \<le> unat (commit_of rf)"
  shows "\<exists>r rf'. followCommit args reply rf = Ok (r, rf') \<and> grows rf rf' \<and> lg rf' = lg rf \<and>
    term_of rf' = term_of rf \<and> leaderId rf' = leaderId rf \<and> commit_of rf' = followed_commit args (lg rf) (commit_of rf) \<and>
    (r = reply \<or> r = reply\<lparr>AEReply_Status := Success\<rparr>)"
proof (cases "commit_of rf < LeaderCommit args")
  case False
  then show ?thesis using assms
    by (auto simp: followCommit_def raft_ok_def followed_commit_def grows_def Let_def)
next
  case True
  have ok: "peer_ok rf" "log_wf (lg rf)" using assms by (auto simp: raft_ok_def)
  from LastEntry_index[OF ok(2)] obtain le where
    le: "LastEntry (lg rf) = Ok le" "Entry_Index le = of_nat (log_last (lg rf))" by blast
  let ?ci = "goMin (LeaderCommit args) (of_nat (log_last (lg rf)))"
  have u: "unat ?ci = min (unat (LeaderCommit args)) (log_last (lg rf))"
    by (simp only: unat_goMin unat_of_log_last[OF ok(2)])
  have "log_base (lg rf) \<le> unat ?ci" "unat ?ci \<le> log_last (lg rf)"
    using True assms(2) raftLog.base_le_last[of "lg rf"] by (auto simp: u word_less_nat_alt)
  from EntryAt_term_at[OF ok(2) this] obtain e where
    e: "EntryAt (lg rf) ?ci = Ok e" "Entry_Term e = term_at (lg rf) ?ci" by blast
  from commitEntryBeforeIndex_spec[OF assms(1), of ?ci] obtain rf1 where
    c: "commitEntryBeforeIndex ?ci rf = Ok rf1" "grows rf rf1" "lg rf1 = lg rf" "term_of rf1 = term_of rf"
      "commit_of rf1 = max (commit_of rf) ?ci" "leaderId rf1 = leaderId rf" by blast
  show ?thesis
  proof (cases "term_at (lg rf) ?ci = CommitTerm args")
    case t: True
    then have "followCommit args reply rf = Ok (reply\<lparr>AEReply_Status := Success\<rparr>, rf1)"
      using True ok(1) le e c(1) by (simp add: followCommit_def Let_def)
    moreover have "commit_of rf1 = followed_commit args (lg rf) (commit_of rf)"
      unfolding followed_commit_def Let_def c(5) using True t by (simp only: simp_thms if_True)
    ultimately show ?thesis using c by blast
  next
    case t: False
    then have "followCommit args reply rf = Ok (reply, rf)"
      using True ok(1) le e by (simp add: followCommit_def Let_def)
    moreover have "commit_of rf = followed_commit args (lg rf) (commit_of rf)"
      unfolding followed_commit_def Let_def using t by (simp only: simp_thms if_False)
    ultimately show ?thesis using grows_refl[OF assms(1)] by blast
  qed
qed

text \<open>A request the log accepts, up to the commit index.\<close>

lemma AppendEntries_until_commit:
  assumes ok: "raft_ok rf" and a: "AEArgs_Args args = Some a" "term_of rf \<le> Args_Term a"
    and es: "AEArgs_Entries args = map Some es" "batch_at (unat (PrevLogIndex args)) es"
    and prev: "log_base (lg rf) \<le> unat (PrevLogIndex args)" "unat (PrevLogIndex args) \<le> log_last (lg rf)"
      "term_at (lg rf) (PrevLogIndex args) = PrevLogTerm args"
  shows "\<exists>rf'. AppendEntries_with (Some r0) args rf = followCommit args (r0\<lparr>AEReply_Term := term_of rf\<rparr>) rf' \<and>
    grows rf rf' \<and> term_of rf' = Args_Term a \<and> leaderId rf' = Args_Leader a \<and> commit_of rf' = commit_of rf \<and>
    merged (lg rf) (unat (PrevLogIndex args)) es (lg rf')"
proof -
  from adopt_term[OF ok a(2)] obtain rf1 where
    1: "(if term_of rf < Args_Term a then convertToFollower (Args_Term a) rf else Ok rf) = Ok rf1" "grows rf rf1"
      "lg rf1 = lg rf" "term_of rf1 = Args_Term a" "commit_of rf1 = commit_of rf" by blast
  let ?rf2 = "rf1\<lparr>leaderId := Args_Leader a\<rparr>"
  have ok2: "raft_ok ?rf2" "peer_ok ?rf2" "peer_ok rf" using 1(2) ok by (auto simp: grows_def raft_ok_def)
  have wf: "log_wf (lg rf)" using ok by (simp add: raft_ok_def)
  let ?p = "unat (PrevLogIndex args)"
  have p2: "log_base (lg ?rf2) \<le> ?p" "?p \<le> log_last (lg ?rf2)" using prev 1(3) by simp_all
  from accept_batch[OF ok2(1) es(2) p2] obtain rf3 rf4 where
    3: "conflictLoop ?rf2 (map Some es) = Ok (False, rf3)" "appendLoop rf3 (map Some es) = Ok rf4"
      "log_only ?rf2 rf4" "merged (lg rf) ?p es (lg rf4)" using 1(3) by auto
  from 3(3) have 4: "commit_of rf4 = commit_of rf" "term_of rf4 = Args_Term a"
      "leaderId rf4 = Args_Leader a" using 1 by (auto simp: log_only_def commit_of_def term_of_def)
  from EntryAt_term_at[OF wf prev(1,2)] obtain e where
    e: "EntryAt (lg rf) (PrevLogIndex args) = Ok e" "Entry_Term e = PrevLogTerm args" using prev(3) by auto
  have guards: "\<not> Args_Term a < term_of rf" "\<not> PrevLogIndex args < IncludedIndex (lg rf)"
    "\<not> of_nat (log_last (lg rf)) < PrevLogIndex args"
    using a(2) prev(1,2) last_less_iff[OF wf] less_base_iff[of _ "lg rf"] by (simp_all add: not_less)
  have "AppendEntries_with (Some r0) args rf = followCommit args (r0\<lparr>AEReply_Term := term_of rf\<rparr>) rf4"
    using guards a(1) es(1) 1(1,3) ok2 3(1,2) e Len_wf[OF wf]
    by (simp add: AppendEntries_with_def Let_def)
  moreover have "grows rf rf4"
    using grows_trans[OF 1(2)] log_only_grows[OF 3(3)] by (auto simp: grows_def)
  ultimately show ?thesis using 3(4) 4 by blast
qed

lemma AppendEntries_accept:
  assumes ok: "raft_ok rf" and a: "AEArgs_Args args = Some a" "term_of rf \<le> Args_Term a"
    and es: "AEArgs_Entries args = map Some es" "batch_at (unat (PrevLogIndex args)) es"
    and prev: "log_base (lg rf) \<le> unat (PrevLogIndex args)" "unat (PrevLogIndex args) \<le> log_last (lg rf)"
      "term_at (lg rf) (PrevLogIndex args) = PrevLogTerm args"
    and commit: "log_base (lg rf) \<le> unat (commit_of rf)"
  shows "\<exists>r rf'. AppendEntries_with (Some AppendEntriesReply_zero) args rf = Ok (r, rf') \<and> grows rf rf' \<and>
    term_of rf' = Args_Term a \<and> leaderId rf' = Args_Leader a \<and>
    merged (lg rf) (unat (PrevLogIndex args)) es (lg rf') \<and>
    commit_of rf' = followed_commit args (lg rf') (commit_of rf) \<and>
    r = AppendEntriesReply_zero\<lparr>AEReply_Term := term_of rf, AEReply_Status := Success\<rparr>"
proof -
  let ?r = "AppendEntriesReply_zero\<lparr>AEReply_Term := term_of rf\<rparr>"
  from AppendEntries_until_commit[OF assms(1-8)] obtain rf4 where
    4: "AppendEntries_with (Some AppendEntriesReply_zero) args rf = followCommit args ?r rf4" "grows rf rf4"
      "term_of rf4 = Args_Term a" "leaderId rf4 = Args_Leader a" "commit_of rf4 = commit_of rf"
      "merged (lg rf) (unat (PrevLogIndex args)) es (lg rf4)" by blast
  have ok4: "raft_ok rf4" "log_base (lg rf4) \<le> unat (commit_of rf4)"
    using commit 4(2,5,6) by (simp_all add: merged_def grows_def)
  from followCommit_spec[OF ok4] obtain r rf5 where
    5: "followCommit args ?r rf4 = Ok (r, rf5)" "grows rf4 rf5" "lg rf5 = lg rf4" "term_of rf5 = term_of rf4"
      "leaderId rf5 = leaderId rf4" "commit_of rf5 = followed_commit args (lg rf4) (commit_of rf4)"
      "r = ?r \<or> r = ?r\<lparr>AEReply_Status := Success\<rparr>" by blast
  have "r = ?r\<lparr>AEReply_Status := Success\<rparr>"
    using 5(7) by (auto simp: AppendEntriesReply_zero_def Success_def)
  then show ?thesis using 4 5 grows_trans[OF 4(2) 5(2)] by auto
qed

text \<open>The refusals.\<close>

lemma AppendEntries_oldTerm:
  assumes "raft_ok rf" "AEArgs_Args args = Some a" "Args_Term a < term_of rf"
  shows "AppendEntries_with (Some r) args rf = Ok (r\<lparr>AEReply_Term := term_of rf, AEReply_Status := OldTerm\<rparr>, rf)"
  using assms by (simp add: AppendEntries_with_def raft_ok_def)

lemma AppendEntries_refuse:
  assumes ok: "raft_ok rf" and a: "AEArgs_Args args = Some a" "term_of rf \<le> Args_Term a"
  shows "\<exists>rf'. grows rf rf' \<and> lg rf' = lg rf \<and> term_of rf' = Args_Term a \<and> commit_of rf' = commit_of rf \<and>
    leaderId rf' = Args_Leader a \<and>
    (let r = r0\<lparr>AEReply_Term := term_of rf\<rparr>; p = PrevLogIndex args; l = lg rf in
     (unat p < log_base l \<longrightarrow>
        AppendEntries_with (Some r0) args rf = Ok (r\<lparr>AEReply_Status := OldSnapshot\<rparr>, rf')) \<and>
     (log_last l < unat p \<longrightarrow>
        AppendEntries_with (Some r0) args rf =
          Ok (r\<lparr>AEReply_Status := NotContain, XLen := of_nat (log_last l) + 1\<rparr>, rf')) \<and>
     (log_base l \<le> unat p \<longrightarrow> unat p \<le> log_last l \<longrightarrow> term_at l p \<noteq> PrevLogTerm args \<longrightarrow>
        AppendEntries_with (Some r0) args rf =
          go_bind (FirstEntryAtTerm l (term_at l p)) (\<lambda>fe. go_bind (deref fe) (\<lambda>e.
            Ok (r\<lparr>AEReply_Status := NotContain, XTerm := term_at l p, XIndex := Entry_Index e\<rparr>, rf')))))"
proof -
  from adopt_term[OF ok a(2)] obtain rf1 where
    1: "(if term_of rf < Args_Term a then convertToFollower (Args_Term a) rf else Ok rf) = Ok rf1" "grows rf rf1"
      "lg rf1 = lg rf" "term_of rf1 = Args_Term a" "commit_of rf1 = commit_of rf" by blast
  let ?rf2 = "rf1\<lparr>leaderId := Args_Leader a\<rparr>" and ?l = "lg rf" and ?p = "PrevLogIndex args"
  have ok2: "peer_ok ?rf2" "peer_ok rf" using 1(2) ok by (auto simp: grows_def raft_ok_def)
  have wf: "log_wf ?l" using ok by (simp add: raft_ok_def)
  have eval: "AppendEntries_with (Some r0) args rf =
      (let reply = r0\<lparr>AEReply_Term := term_of rf\<rparr> in
       if unat ?p < log_base ?l then Ok (reply\<lparr>AEReply_Status := OldSnapshot\<rparr>, ?rf2)
       else if log_last ?l < unat ?p
       then Ok (reply\<lparr>AEReply_Status := NotContain, XLen := of_nat (log_last ?l) + 1\<rparr>, ?rf2)
       else go_bind (FirstEntryAtTerm ?l (term_at ?l ?p)) (\<lambda>fe. go_bind (deref fe) (\<lambda>e.
            Ok (reply\<lparr>AEReply_Status := NotContain, XTerm := term_at ?l ?p, XIndex := Entry_Index e\<rparr>, ?rf2))))"
    if "unat ?p < log_base ?l \<or> log_last ?l < unat ?p \<or> term_at ?l ?p \<noteq> PrevLogTerm args"
  proof -
    from LastEntry_index[OF wf] obtain le where
      le: "LastEntry ?l = Ok le" "Entry_Index le = of_nat (log_last ?l)" by blast
    have nt: "\<not> Args_Term a < term_of rf" using a(2) by simp
    have e: "\<exists>e. EntryAt ?l ?p = Ok e \<and> Entry_Term e = term_at ?l ?p"
      if "\<not> unat ?p < log_base ?l" "\<not> log_last ?l < unat ?p"
      using that by (intro EntryAt_term_at[OF wf]) auto
    show ?thesis
      using that nt a(1) 1(1,3) ok2 le e Len_wf[OF wf]
      by (auto simp: AppendEntries_with_def Let_def less_base_iff last_less_iff[OF wf])
  qed
  have "grows rf ?rf2" using 1(2) by (simp add: grows_def)
  moreover have "log_base ?l \<le> log_last ?l" by (rule raftLog.base_le_last)
  ultimately show ?thesis using 1 eval
    by (intro exI[of _ ?rf2]) (auto simp: Let_def)
qed

section \<open>Every event keeps the invariant\<close>

lemma DiscardAfterAnd_wf: "log_wf l \<Longrightarrow> DiscardAfterAnd l i = Ok l' \<Longrightarrow> log_wf l'"
  by (auto simp: DiscardAfterAnd_def sliceTo_def log_wf_iff log_last_def split: if_splits)

lemma CompactForSnapshot_wf: "log_wf l \<Longrightarrow> CompactForSnapshot l i t = Ok l' \<Longrightarrow> log_wf l'"
  using CompactForSnapshot_spec[of l i t] by (auto split: if_splits)

lemma conflictLoop_log_only: "raft_ok rf \<Longrightarrow> conflictLoop rf ps = Ok (b, rf') \<Longrightarrow> log_only rf rf'"
proof (induction ps)
  case Nil
  then show ?case by (simp add: log_only_refl)
next
  case (Cons p ps)
  have ok: "peer_ok rf" "log_wf (lg rf)" using Cons.prems(1) by (auto simp: raft_ok_def)
  have d: "log_only rf (saved (with_log l rf)) \<and> peer_ok (with_log l rf)"
    if "DiscardAfterAnd (lg rf) i = Ok l" for l i
    using discard_saved(3)[OF Cons.prems(1) that] DiscardAfterAnd_wf[OF ok(2) that] ok(1) by simp
  show ?case
    using Cons ok d log_only_refl[OF Cons.prems(1)] by (auto simp: Len_wf split: if_splits)
qed

lemma appendEntryToLog_log_only:
  assumes "raft_ok rf" "Entry_Index e \<noteq> 0 \<or> log_last (lg rf) < 2 ^ 64 - 1" "appendEntryToLog rf e = Ok rf'"
  shows "log_only rf rf'"
proof (cases "Entry_Index e = 0")
  case False
  then show ?thesis using appendEntryToLog_spec[OF assms(1) False] assms(3) by auto
next
  case True
  then have l: "log_last (lg rf) + 1 < 2 ^ 64" using assms(2) by auto
  have ok: "peer_ok rf" "log_wf (lg rf)" using assms(1) by (auto simp: raft_ok_def)
  have "unat (of_nat (log_last (lg rf) + 1) :: uint64) = log_last (lg rf) + 1"
    using l by (simp only: unat_of_nat) (simp add: mod_less)
  then have "(of_nat (log_last (lg rf)) + 1 :: uint64) \<noteq> 0"
    by (metis Suc_eq_plus1 add.commute nat.distinct(1) of_nat_Suc unsigned_0)
  then have "appendEntryToLog rf e = Ok rf" using True ok by (simp add: appendEntryToLog_def Len_wf)
  then show ?thesis using assms(1,3) log_only_refl by simp
qed

lemma appendLoop_log_only:
  assumes "raft_ok rf" "\<forall>e. Some e \<in> set ps \<longrightarrow> Entry_Index e \<noteq> 0" "appendLoop rf ps = Ok rf'"
  shows "log_only rf rf'"
proof (rule foldM_go_inv[where I = "log_only rf"])
  show "log_only rf rf" using assms(1) by (rule log_only_refl)
  show "foldM_go (\<lambda>rf p. go_bind (deref p) (appendEntryToLog rf)) rf ps = Ok rf'"
    using assms(3) by (simp add: appendLoop_def)
next
  fix s x s'
  assume step: "log_only rf s" "x \<in> set ps" "go_bind (deref x) (appendEntryToLog s) = Ok s'"
  show "log_only rf s'"
  proof -
    obtain e where e: "x = Some e" "appendEntryToLog s e = Ok s'" using step(3) by (cases x) auto
    then have "log_only s s'"
      using step(1,2) assms(2) by (intro appendEntryToLog_log_only[of s e]) (auto simp: log_only_def)
    with step(1) show ?thesis by (rule log_only_trans)
  qed
qed

section \<open>The leader's side\<close>

lemma unat_pred: "0 < unat (w :: uint64) \<Longrightarrow> unat (w - 1) = unat w - 1"
  by (metis One_nat_def gr0_implies_Suc less_Suc_eq_0_disj unat_gt_0 unat_minus_one diff_Suc_1)

text \<open>The request for a follower whose next index the log still has.\<close>

lemma newAppendEntriesArgs_spec:
  assumes ok: "raft_ok rf" and server: "server < length (nextIndex rf)" and nx: "nextIndex rf ! server = nx"
    and range: "log_base (lg rf) < unat nx" "unat nx \<le> log_last (lg rf) + 1"
    and commit: "unat (commit_of rf) \<le> log_last (lg rf)"
    and boundary: "IncludedIndex (lg rf) = 0 \<longrightarrow> IncludedTerm (lg rf) = 0"
  shows "\<exists>es. newAppendEntriesArgs server hb rf = Ok
      \<lparr>AEArgs_Args = Some \<lparr>Args_Term = term_of rf, Args_Leader = rf_me rf\<rparr>, AEArgs_Entries = map Some es,
       CommitTerm = (if commit_of rf \<le> IncludedIndex (lg rf) then IncludedTerm (lg rf) else term_at (lg rf) (commit_of rf)),
       LeaderCommit = commit_of rf, PrevLogIndex = nx - 1, PrevLogTerm = term_at (lg rf) (nx - 1)\<rparr> \<and>
    batch_at (unat nx - 1) es \<and> map Some es = (if hb then [] else map (log_view (lg rf)) [unat nx..<log_last (lg rf) + 1])"
proof -
  let ?l = "lg rf"
  have pk: "peer_ok rf" "log_wf ?l" using ok by (auto simp: raft_ok_def)
  have prev: "unat (nx - 1) = unat nx - 1" using range by (intro unat_pred) simp
  obtain e1 where e1: "EntryAt ?l (nx - 1) = Ok e1" "Entry_Term e1 = term_at ?l (nx - 1)"
    using EntryAt_term_at[OF pk(2), of "nx - 1"] range unfolding prev by fastforce
  have pt: "nx - 1 = IncludedIndex ?l \<Longrightarrow> IncludedTerm ?l = term_at ?l (nx - 1)"
    using boundary by (simp add: term_at_def)
  obtain e2 where e2: "\<not> commit_of rf \<le> IncludedIndex ?l \<Longrightarrow>
      EntryAt ?l (commit_of rf) = Ok e2 \<and> Entry_Term e2 = term_at ?l (commit_of rf)"
    using EntryAt_term_at[OF pk(2) _ commit] by (metis log_base_def linear word_le_nat_alt)
  define es where "es = (if hb then [] else map (the \<circ> log_view ?l) [unat nx..<log_last ?l + 1])"
  have view: "log_view ?l n = Some (the (log_view ?l n))" "unat (Entry_Index (the (log_view ?l n))) = n"
    if "unat nx \<le> n" "n \<le> log_last ?l" for n
    using that range log_view_Some[OF pk(2), of n] log_view_index(1)[OF pk(2), of n] by (metis le_trans less_le_trans option.sel)+
  have es: "map Some es = (if hb then [] else map (log_view ?l) [unat nx..<log_last ?l + 1])"
    using view(1) by (auto simp: es_def simp del: upt_Suc)
  have batch: "batch_at (unat nx - 1) es"
    using view(2) range by (auto simp: es_def batch_at_def simp del: upt_Suc)
  have ents: "(if \<not> hb then EntriesAfter ?l nx else Ok []) = Ok (map Some es)"
    unfolding es using EntriesAfter_spec[OF pk(2) range] by simp
  have "newAppendEntriesArgs server hb rf = Ok
      \<lparr>AEArgs_Args = Some \<lparr>Args_Term = term_of rf, Args_Leader = rf_me rf\<rparr>, AEArgs_Entries = map Some es,
       CommitTerm = (if commit_of rf \<le> IncludedIndex ?l then IncludedTerm ?l else term_at ?l (commit_of rf)),
       LeaderCommit = commit_of rf, PrevLogIndex = nx - 1, PrevLogTerm = term_at ?l (nx - 1)\<rparr>"
    using pk(1) server nx e1 e2 pt ents
    by (simp add: newAppendEntriesArgs_def indexInt_def LastIncludedIndex_def LastIncludedTerm_def)
  with es batch show ?thesis by blast
qed

section \<open>Reading the state back\<close>

lemma RaftState_enc_nonempty: "RaftState_enc \<lparr>RaftState_HardState = Some h, RaftState_Log = lo\<rparr> \<noteq> []"
  by (simp add: RaftState_enc_def fOpt_def fMsg_def)

lemma readPersist_synced:
  assumes "raft_ok rf" "length (bcontent (ReadRaftState (rf_persister rf))) < 2 ^ 63"
  shows "\<exists>c rf2. readPersistRaftState (ReadRaftState (rf_persister rf)) rf1 = Ok rf2 \<and>
    hardState rf2 = Some ((hs rf)\<lparr>Commit := c\<rparr>) \<and>
    loadLog rf2 (stateLog rf2) = Ok (Log_norm (lg rf)) \<and> lastApplied rf2 = IncludedIndex (lg rf) \<and>
    rf_log rf2 = rf_log rf1"
proof -
  from assms(1) obtain c where
    c: "ReadRaftState (rf_persister rf) = Some (RaftState_enc \<lparr>RaftState_HardState = Some ((hs rf)\<lparr>Commit := c\<rparr>), RaftState_Log = Some (lg rf)\<rparr>)"
    by (auto simp: raft_ok_def synced_def)
  let ?s = "\<lparr>RaftState_HardState = Some ((hs rf)\<lparr>Commit := c\<rparr>), RaftState_Log = Some (lg rf)\<rparr>"
  have "RaftState_ok ?s" using assms(1) by (simp add: RaftState_ok_def raft_ok_def log_wf_Log_ok)
  from RaftState_pb.unmarshal_enc[OF this] have dec: "RaftState_Unmarshal RaftState_zero (RaftState_enc ?s) = (RaftState_norm ?s, None)"
    using assms(2) c by (simp add: RaftState_Unmarshal_def)
  have ne: "RaftState_enc ?s \<noteq> []" by (rule RaftState_enc_nonempty)
  let ?rf2 = "rf1\<lparr>hardState := Some ((hs rf)\<lparr>Commit := c\<rparr>), stateLog := Some (length (heap rf1)),
     heap := heap rf1 @ [Log_norm (lg rf)], lastApplied := IncludedIndex (lg rf)\<rparr>"
  have "readPersistRaftState (ReadRaftState (rf_persister rf)) rf1 = Ok ?rf2"
    unfolding c readPersistRaftState_def using ne dec
    by (simp add: RaftState_norm_def Let_def getTerm_def Log_norm_def)
  then show ?thesis by (intro exI[of _ c] exI[of _ ?rf2]) (simp add: loadLog_def indexInt_def)
qed

section \<open>The apply loop\<close>

definition command_msg :: "Entry \<Rightarrow> ApplyMsg" where
  "command_msg e = \<lparr>CommandValid = True, Command = Entry_Data e, CommandIndex = Entry_Index e,
     SnapshotValid = False, SnapshotBytes = None, SnapshotTerm = 0, SnapshotIndex = 0\<rparr>"

lemma unat_Suc_le:
  assumes "unat (i :: uint64) + k \<le> unat (c :: uint64)"
  shows "unat (i + of_nat k) = unat i + k"
proof -
  have "unat i + k < 2 ^ 64" by (rule le_less_trans[OF assms unat_less_64])
  then have "unat (of_nat (unat i + k) :: uint64) = unat i + k" by (simp only: unat_of_nat) (simp add: mod_less)
  then show ?thesis by simp
qed

lemma apply_turn:
  assumes ok: "peer_ok rf" and range: "log_base (lg rf) \<le> unat (lastApplied rf)"
    "lastApplied rf < commit_of rf" "unat (commit_of rf) \<le> log_last (lg rf)"
  shows "applyCommittedLogs_turn rf = Ok (rf\<lparr>lastApplied := lastApplied rf + 1,
    applied := applied rf @ [command_msg (the (log_view (lg rf) (unat (lastApplied rf) + 1)))]\<rparr>)"
proof -
  have u: "unat (lastApplied rf + 1) = unat (lastApplied rf) + 1"
    using unat_Suc_le[of "lastApplied rf" 1 "commit_of rf"] range(2) by (simp add: word_less_nat_alt Suc_le_eq)
  have "log_base (lg rf) < unat (lastApplied rf) + 1" "unat (lastApplied rf) + 1 \<le> log_last (lg rf)"
    using range by (auto simp: word_less_nat_alt)
  from log_view_Some[OF peer_okD(2)[OF ok] this] obtain e where e: "log_view (lg rf) (unat (lastApplied rf) + 1) = Some e" .
  then have "EntryAt (lg rf) (lastApplied rf + 1) = Ok e" using ok u by (intro EntryAt_Some) simp_all
  then show ?thesis using ok range(2) e by (simp add: applyCommittedLogs_turn_def Let_def command_msg_def)
qed

lemma apply_turns:
  assumes "raft_ok rf" "log_base (lg rf) \<le> unat (lastApplied rf)"
    "unat (lastApplied rf) + k \<le> unat (commit_of rf)" "unat (commit_of rf) \<le> log_last (lg rf)"
  shows "foldM_go (\<lambda>rf _. applyCommittedLogs_turn rf) rf (replicate k ()) = Ok (rf\<lparr>
      lastApplied := lastApplied rf + of_nat k,
      applied := applied rf @ map (\<lambda>n. command_msg (the (log_view (lg rf) n)))
        [unat (lastApplied rf) + 1..<unat (lastApplied rf) + k + 1]\<rparr>)"
  using assms(3)
proof (induction k)
  case (Suc k)
  let ?rf = "rf\<lparr>lastApplied := lastApplied rf + of_nat k,
      applied := applied rf @ map (\<lambda>n. command_msg (the (log_view (lg rf) n)))
        [unat (lastApplied rf) + 1..<unat (lastApplied rf) + k + 1]\<rparr>"
  have u: "unat (lastApplied rf + of_nat k) = unat (lastApplied rf) + k"
    using Suc.prems by (intro unat_Suc_le[of _ _ "commit_of rf"]) simp
  have "applyCommittedLogs_turn ?rf = Ok (?rf\<lparr>lastApplied := lastApplied ?rf + 1,
      applied := applied ?rf @ [command_msg (the (log_view (lg ?rf) (unat (lastApplied ?rf) + 1)))]\<rparr>)"
    using assms Suc.prems u by (intro apply_turn) (auto simp: commit_of_def word_less_nat_alt raft_ok_def)
  moreover have "replicate (Suc k) () = replicate k () @ [()]" by (simp add: replicate_append_same)
  ultimately show ?case using Suc u by (simp add: foldM_go_append add.commute add.left_commute)
qed simp

section \<open>Snapshots\<close>

lemma snapshot_compacts_law:
  assumes ok: "raft_ok rf" and range: "log_base (lg rf) \<le> unat i" "unat i \<le> log_last (lg rf)"
  shows "\<exists>rf'. Raft_Snapshot i sn rf = Ok rf' \<and> raft_ok rf' \<and> term_of rf' = term_of rf \<and>
    commit_of rf' = max (commit_of rf) i \<and> lastApplied rf' = max (lastApplied rf) i \<and>
    IncludedIndex (lg rf') = i \<and> IncludedTerm (lg rf') = term_at (lg rf) i \<and>
    log_last (lg rf') = log_last (lg rf) \<and> log_view (lg rf') = log_view (lg rf) |` {unat i<..} \<and>
    ReadSnapshot (rf_persister rf') = Some (bcontent sn)"
proof -
  have pk: "peer_ok rf" "leader_ok rf" "log_wf (lg rf)" using ok by (auto simp: raft_ok_def)
  from EntryAt_term_at[OF pk(3) range] obtain e where e: "EntryAt (lg rf) i = Ok e" "Entry_Term e = term_at (lg rf) i" by blast
  from LastEntry_index[OF pk(3)] obtain le where le: "LastEntry (lg rf) = Ok le" "Entry_Index le = of_nat (log_last (lg rf))" by blast
  have guard: "i \<le> of_nat (log_last (lg rf))" using range(2) last_less_iff[OF pk(3), of i] by (simp add: not_less[symmetric])
  from CompactForSnapshot_spec[OF pk(3), of i "term_at (lg rf) i"] range obtain l where
    l: "CompactForSnapshot (lg rf) i (term_at (lg rf) i) = Ok l" "log_wf l" "IncludedIndex l = i"
      "IncludedTerm l = term_at (lg rf) i" "log_last l = log_last (lg rf)" "log_view l = log_view (lg rf) |` {unat i<..}"
    by (auto simp: max_def split: if_splits)
  let ?rf1 = "rf\<lparr>hardState := Some ((hs rf)\<lparr>Commit := goMax (commit_of rf) i\<rparr>), lastApplied := goMax (lastApplied rf) i\<rparr>"
  have pk1: "peer_ok ?rf1" "leader_ok ?rf1" using pk by simp_all
  let ?rf' = "savedWith sn (with_log l ?rf1)"
  have "Raft_Snapshot i sn rf = Ok ?rf'"
    using pk pk1 e le guard l(1,2) by (simp add: Raft_Snapshot_def Let_def)
  moreover have "raft_ok ?rf'" "lg ?rf' = l" using pk1 l(2) by (simp_all add: raft_ok_def)
  moreover have "ReadSnapshot (rf_persister ?rf') = Some (bcontent sn)" by (simp add: savedWith_def ps.readSnapshot_saveBoth)
  moreover have "goMax a b = max a b" for a b by (auto simp: goMax_def max_def)
  ultimately show ?thesis using l pk1 by (intro exI[of _ ?rf']) (simp add: term_of_def commit_of_def)
qed

lemma cond_install_law:
  assumes ok: "raft_ok rf" and fwd: "log_base (lg rf) \<le> unat i"
  shows "if t < IncludedTerm (lg rf) \<or> t = IncludedTerm (lg rf) \<and> i \<le> IncludedIndex (lg rf)
    then CondInstallSnapshot t i sn rf = Ok (False, rf)
    else \<exists>rf'. CondInstallSnapshot t i sn rf = Ok (True, rf') \<and> raft_ok rf' \<and> hs rf' = hs rf \<and>
      lastApplied rf' = i \<and> IncludedIndex (lg rf') = i \<and> IncludedTerm (lg rf') = t \<and>
      log_view (lg rf') = log_view (lg rf) |` {unat i<..} \<and>
      ReadSnapshot (rf_persister rf') = Some (bcontent sn)"
proof -
  have pk: "peer_ok rf" "leader_ok rf" "log_wf (lg rf)" using ok by (auto simp: raft_ok_def)
  from CompactForSnapshot_spec[OF pk(3), of i t] fwd obtain l where
    l: "CompactForSnapshot (lg rf) i t = Ok l" "log_wf l" "IncludedIndex l = i" "IncludedTerm l = t"
      "log_view l = log_view (lg rf) |` {unat i<..}"
    by (auto split: if_splits)
  let ?rf1 = "rf\<lparr>lastApplied := i\<rparr>"
  have pk1: "peer_ok ?rf1" "leader_ok ?rf1" using pk by simp_all
  let ?rf' = "savedWith sn (with_log l ?rf1)"
  have "CondInstallSnapshot t i sn rf =
      (if t < IncludedTerm (lg rf) \<or> t = IncludedTerm (lg rf) \<and> i \<le> IncludedIndex (lg rf)
       then Ok (False, rf) else Ok (True, ?rf'))"
    using pk pk1 l(1,2)
    by (auto simp: CondInstallSnapshot_def LastIncludedIndex_def LastIncludedTerm_def)
  moreover have "raft_ok ?rf'" "lg ?rf' = l" "hs ?rf' = hs rf" "lastApplied ?rf' = i"
    using pk1 l(2) by (simp_all add: raft_ok_def)
  moreover have "ReadSnapshot (rf_persister ?rf') = Some (bcontent sn)" by (simp add: savedWith_def ps.readSnapshot_saveBoth)
  ultimately show ?thesis using l by auto
qed

section \<open>Handlers with a nil reply\<close>

lemma nil_reply:
  assumes "raft_ok rf"
  shows "AppendEntries aargs rf = Panic NilDeref" "RequestVote vargs rf = Panic NilDeref"
    "InstallSnapshot sargs rf = Panic NilDeref"
proof -
  have pk: "peer_ok rf" using assms by (simp add: raft_ok_def)
  show "AppendEntries aargs rf = Panic NilDeref" using pk by (simp add: AppendEntries_def AppendEntries_with_def)
  show "InstallSnapshot sargs rf = Panic NilDeref"
    using pk by (simp add: InstallSnapshot_def InstallSnapshot_with_def deref_def split: option.splits)
  show "RequestVote vargs rf = Panic NilDeref"
  proof (cases "RVArgs_Args vargs")
    case None
    then show ?thesis by (simp add: RequestVote_def RequestVote_with_def)
  next
    case (Some a)
    show ?thesis
    proof (cases "Args_Term a < term_of rf")
      case True
      then show ?thesis using Some pk by (simp add: RequestVote_def RequestVote_with_def setRejectRequestVoteReply_def)
    next
      case False
      then have "term_of rf \<le> Args_Term a" by simp
      from convertToFollower_grows[OF assms this] obtain rf1 where
        "convertToFollower (Args_Term a) rf = Ok rf1" "grows rf rf1" by blast
      then show ?thesis using Some pk False
        by (auto simp: RequestVote_def RequestVote_with_def setRejectRequestVoteReply_def grows_def raft_ok_def notUpToDate_spec)
    qed
  qed
qed

end
