(* ===== verification/Raft_Machine.thy ===== *)
theory Raft_Machine
  imports Raft_Laws
begin

text \<open>
  A Raft peer as a state machine: an event is one critical section of raft.go, \<open>handle\<close> runs it,
  and \<open>run\<close> is the reachability relation of sequences of events in any order. The handlers of
  remote calls are taken with an allocated reply. Elections start for any term, as the code lets them. Every event
  stays within \<open>sound\<close>: the peer stays well formed and its commit index does not fall; and within \<open>grows\<close>, so that its
  term does not fall either, unless it is an election for an older term.
\<close>

section \<open>Events\<close>

datatype event =
    EvAppendEntries AppendEntriesArgs
  | EvRequestVote RequestVoteArgs
  | EvInstallSnapshot InstallSnapshotArgs
  | EvStart bytes
  | EvSnapshot uint64 bytes
  | EvCondInstallSnapshot uint64 uint64 bytes
  | EvLaunchElection uint64
  | EvVote "RequestVoteReply option"
  | EvVoteReply bool "RequestVoteReply option \<times> bool"
  | EvSendEntries ctx nat bool
  | EvEntriesReply nat AppendEntriesArgs "AppendEntriesReply outcome"
  | EvSnapshotReply nat InstallSnapshotArgs "InstallSnapshotReply outcome"
  | EvReplicate ctx
  | EvHeartBeat bool ctx
  | EvRequestVotes ctx
  | EvApply
  | EvTickerStart
  | EvTickerTurn uint64 ticker_event
  | EvKill

fun handle :: "event \<Rightarrow> Raft \<Rightarrow> Raft go" where
  "handle (EvAppendEntries args) rf =
     go_bind (AppendEntries_with (Some AppendEntriesReply_zero) args rf) (\<lambda>(_, rf'). Ok rf')"
| "handle (EvRequestVote args) rf =
     go_bind (RequestVote_with (Some RequestVoteReply_zero) args rf) (\<lambda>(_, rf'). Ok rf')"
| "handle (EvInstallSnapshot args) rf =
     go_bind (InstallSnapshot_with (Some InstallSnapshotReply_zero) args rf) (\<lambda>(_, rf'). Ok rf')"
| "handle (EvStart command) rf = go_bind (Start command rf) (\<lambda>(_, rf'). Ok rf')"
| "handle (EvSnapshot index sn) rf = Raft_Snapshot index sn rf"
| "handle (EvCondInstallSnapshot t i sn) rf = go_bind (CondInstallSnapshot t i sn rf) (\<lambda>(_, rf'). Ok rf')"
| "handle (EvLaunchElection t) rf = launchElection t rf"
| "handle (EvVote p) rf = go_bind (receiveVote p rf) (\<lambda>(_, rf'). Ok rf')"
| "handle (EvVoteReply ctxDone r) rf = go_bind (callRequestVote_receive ctxDone r rf) (\<lambda>(_, rf'). Ok rf')"
| "handle (EvSendEntries c server hb) rf = go_bind (callAppendEntries_send c server hb rf) (\<lambda>(_, rf'). Ok rf')"
| "handle (EvEntriesReply server args out) rf =
     go_bind (callAppendEntries_receive server args out rf) (\<lambda>(_, rf'). Ok rf')"
| "handle (EvSnapshotReply server args out) rf = callInstallSnapshot_receive server args out rf"
| "handle (EvReplicate c) rf = Ok (replicateToAllServers c rf)"
| "handle (EvHeartBeat ctxDone c) rf = Ok (snd (sendHeartBeatPeriodicallyToAll_turn ctxDone c rf))"
| "handle (EvRequestVotes c) rf = Ok (sendRequestVoteToAll_start c rf)"
| "handle EvApply rf = applyCommittedLogs_turn rf"
| "handle EvTickerStart rf = Ok (snd (ticker_start rf))"
| "handle (EvTickerTurn t ev) rf = Ok (snd (ticker_turn t ev rf))"
| "handle EvKill rf = Kill rf"

text \<open>
  What an event must satisfy: received entries have indices, and a new command still has an index left. An
  election may be for any term.
\<close>

fun event_ok :: "event \<Rightarrow> Raft \<Rightarrow> bool" where
  "event_ok (EvAppendEntries args) rf \<longleftrightarrow> (\<forall>p \<in> set (AEArgs_Entries args). map_option Entry_Index p \<noteq> Some 0)"
| "event_ok (EvStart command) rf \<longleftrightarrow> log_last (lg rf) < 2 ^ 64 - 1"
| "event_ok _ rf \<longleftrightarrow> True"

inductive run :: "Raft \<Rightarrow> Raft \<Rightarrow> bool" where
  run_refl: "run rf rf"
| run_step: "run rf rf1 \<Longrightarrow> event_ok ev rf1 \<Longrightarrow> handle ev rf1 = Ok rf2 \<Longrightarrow> run rf rf2"

section \<open>Each event\<close>

lemma grows_same:
  assumes "raft_ok rf" "hs rf' = hs rf" "lg rf' = lg rf" "peer_ok rf'" "rf_me rf' = rf_me rf" "rf_peers rf' = rf_peers rf"
    "rf_persister rf' = rf_persister rf" "leader_ok rf'"
  shows "grows rf rf'"
  using assms by (simp add: grows_def raft_ok_def synced_def term_of_def commit_of_def)

lemma grows_ok: "grows rf rf' \<Longrightarrow> raft_ok rf'"
  by (simp add: grows_def)

lemma commit_grows:
  "raft_ok rf \<Longrightarrow> commitEntryBeforeIndex i rf = Ok rf' \<Longrightarrow> grows rf rf'"
  using commitEntryBeforeIndex_spec[of rf i] by auto

lemma followCommit_grows:
  "raft_ok rf \<Longrightarrow> followCommit args reply rf = Ok (r, rf') \<Longrightarrow> grows rf rf'"
  by (auto simp: followCommit_def Let_def split: if_splits dest: commit_grows grows_refl)

lemma AppendEntries_grows:
  assumes ok: "raft_ok rf" and es: "\<forall>e. Some e \<in> set (AEArgs_Entries args) \<longrightarrow> Entry_Index e \<noteq> 0"
    and ret: "AppendEntries_with (Some r0) args rf = Ok (r, rf')"
  shows "grows rf rf'"
proof -
  have pk: "peer_ok rf" using ok by (simp add: raft_ok_def)
  obtain a where a: "AEArgs_Args args = Some a" using ret pk by (auto simp: AppendEntries_with_def Let_def)
  show ?thesis
  proof (cases "Args_Term a < term_of rf")
    case True
    then show ?thesis using AppendEntries_oldTerm[OF ok a True, of r0] ret grows_refl[OF ok] by simp
  next
    case False
    then have "term_of rf \<le> Args_Term a" by simp
    from adopt_term[OF ok this] obtain rf1 where
      1: "(if term_of rf < Args_Term a then convertToFollower (Args_Term a) rf else Ok rf) = Ok rf1" "grows rf rf1" by blast
    define rf2 where "rf2 = rf1\<lparr>leaderId := Args_Leader a\<rparr>"
    have 2: "grows rf rf2" "raft_ok rf2" using 1(2) by (auto simp: grows_def rf2_def)
    then have pk2: "peer_ok rf2" by (simp add: raft_ok_def)
    have "rf' = rf2 \<or> (\<exists>b rf3. conflictLoop rf2 (AEArgs_Entries args) = Ok (b, rf3) \<and>
        (rf' = rf3 \<or> (\<exists>rf4 reply. appendLoop rf3 (AEArgs_Entries args) = Ok rf4 \<and> followCommit args reply rf4 = Ok (r, rf'))))"
      using ret False a pk pk2 1(1) by (auto simp: AppendEntries_with_def Let_def rf2_def[symmetric] split: if_splits)
    then show ?thesis
    proof (elim disjE exE conjE)
      fix b rf3 assume "conflictLoop rf2 (AEArgs_Entries args) = Ok (b, rf3)" "rf' = rf3"
      then show ?thesis using conflictLoop_log_only[OF 2(2)] log_only_grows grows_trans 2(1) by blast
    next
      fix b rf3 rf4 reply
      assume s: "conflictLoop rf2 (AEArgs_Entries args) = Ok (b, rf3)" "appendLoop rf3 (AEArgs_Entries args) = Ok rf4"
        "followCommit args reply rf4 = Ok (r, rf')"
      have 3: "log_only rf2 rf3" using conflictLoop_log_only[OF 2(2) s(1)] .
      then have 4: "log_only rf3 rf4" using es s(2) by (intro appendLoop_log_only) (auto simp: log_only_def)
      then have "grows rf4 rf'" using s(3) by (intro followCommit_grows) (auto simp: log_only_def)
      then show ?thesis using 2(1) log_only_grows[OF 3] log_only_grows[OF 4] grows_trans by blast
    qed (use 2 in simp)
  qed
qed

lemma RequestVote_grows:
  assumes ok: "raft_ok rf" and ret: "RequestVote_with (Some r0) args rf = Ok (r, rf')"
  shows "grows rf rf'"
proof -
  have pk: "peer_ok rf" using ok by (simp add: raft_ok_def)
  obtain a where a: "RVArgs_Args args = Some a" using ret by (auto simp: RequestVote_with_def)
  show ?thesis
  proof (cases "Args_Term a < term_of rf")
    case True
    then show ?thesis using ret a pk grows_refl[OF ok] by (simp add: RequestVote_with_def setRejectRequestVoteReply_def)
  next
    case False
    then have le: "term_of rf \<le> Args_Term a" by simp
    from convertToFollower_grows[OF ok le] obtain rf1 where
      1: "convertToFollower (Args_Term a) rf = Ok rf1" "grows rf rf1" by blast
    have pk1: "peer_ok rf1" using 1(2) by (simp add: grows_def raft_ok_def)
    have "rf' = rf1 \<or> rf' = saved (rf1\<lparr>hardState := Some ((hs rf1)\<lparr>VotedFor := CandidateID args\<rparr>)\<rparr>)"
      using ret False le a pk 1(1) pk1
      by (auto simp: RequestVote_with_def setRejectRequestVoteReply_def split: if_splits)
    then show ?thesis using 1(2) pk1 by (auto simp: grows_def raft_ok_def term_of_def commit_of_def)
  qed
qed

lemma InstallSnapshot_grows:
  assumes ok: "raft_ok rf" and ret: "InstallSnapshot_with (Some r0) args rf = Ok (r, rf')"
  shows "grows rf rf'"
proof -
  have pk: "peer_ok rf" using ok by (simp add: raft_ok_def)
  obtain a where a: "ISArgs_Args args = Some a" using ret by (auto simp: InstallSnapshot_with_def)
  show ?thesis
  proof (cases "Args_Term a < term_of rf")
    case True
    then show ?thesis using ret a pk grows_refl[OF ok] by (auto simp: InstallSnapshot_with_def Let_def)
  next
    case False
    then have "term_of rf \<le> Args_Term a" by simp
    from adopt_term[OF ok this] obtain rf1 where
      1: "(if term_of rf < Args_Term a then convertToFollower (Args_Term a) rf else Ok rf) = Ok rf1" "grows rf rf1" by blast
    have "\<exists>ap. rf' = rf1\<lparr>leaderId := Args_Leader a, applied := ap\<rparr>"
      using ret False a pk 1(1) by (auto simp: InstallSnapshot_with_def Let_def split: if_splits)
    then show ?thesis using 1(2) by (auto simp: grows_def raft_ok_def term_of_def commit_of_def)
  qed
qed

lemma index_upd_grows:
  assumes "raft_ok rf" "length ni = length (nextIndex rf)" "length mi = length (matchIndex rf)"
  shows "grows rf (rf\<lparr>nextIndex := ni, matchIndex := mi\<rparr>)"
  using assms by (intro grows_same) (auto simp: raft_ok_def leader_ok_def)

lemma Start_grows:
  assumes ok: "raft_ok rf" and room: "log_last (lg rf) < 2 ^ 64 - 1" and ret: "Start command rf = Ok (r, rf')"
  shows "grows rf rf'"
proof (cases "rf_state rf = ServerStateLeader")
  case False
  then show ?thesis using ret grows_refl[OF ok] by (simp add: Start_def)
next
  case True
  then obtain index ni t where s: "store (nextIndex rf) (uint (rf_me rf)) (index + 1) = Ok ni"
    "appendEntryToLog (rf\<lparr>nextIndex := ni\<rparr>) \<lparr>Entry_Term = t, Entry_Index = index, Entry_Data = command\<rparr> = Ok rf'"
    using ret by (auto simp: Start_def Let_def)
  have "length ni = length (nextIndex rf)" using s(1) by (auto simp: store_def split: if_splits)
  from index_upd_grows[OF ok this, of "matchIndex rf"] have g: "grows rf (rf\<lparr>nextIndex := ni\<rparr>)" by simp
  then have "log_only (rf\<lparr>nextIndex := ni\<rparr>) rf'"
    using s(2) room by (intro appendEntryToLog_log_only) (auto simp: grows_def)
  then show ?thesis using g grows_trans log_only_grows by blast
qed

text \<open>A leader whose own next index is the one after its log appends the command there.\<close>

lemma Start_appends:
  fixes command :: bytes
  assumes ok: "raft_ok rf" "rf_state rf = ServerStateLeader"
    and nxt: "unat (nextIndex rf ! unat (rf_me rf)) = log_last (lg rf) + 1"
  defines "index \<equiv> nextIndex rf ! unat (rf_me rf)"
  defines "e \<equiv> \<lparr>Entry_Term = term_of rf, Entry_Index = index, Entry_Data = command\<rparr>"
  shows "\<exists>rf'. Start command rf = Ok ((index, term_of rf, True), rf') \<and> raft_ok rf' \<and> rf_state rf' = ServerStateLeader \<and>
    log_view (lg rf') = (log_view (lg rf))(unat index \<mapsto> e) \<and> nextIndex rf' = (nextIndex rf)[unat (rf_me rf) := index + 1]"
proof -
  have me: "unat (rf_me rf) < length (nextIndex rf)" using ok by (simp add: raft_ok_def leader_ok_def)
  let ?rf1 = "rf\<lparr>nextIndex := (nextIndex rf)[unat (rf_me rf) := index + 1]\<rparr>"
  have "grows rf ?rf1" using index_upd_grows[OF ok(1), of "(nextIndex rf)[unat (rf_me rf) := index + 1]" "matchIndex rf"] by simp
  then have 1: "raft_ok ?rf1" "peer_ok ?rf1" by (auto simp: grows_def raft_ok_def)
  have f: "lg ?rf1 = lg rf" "term_of ?rf1 = term_of rf" by (simp_all add: lg_def hs_def term_of_def)
  have idx: "unat (Entry_Index e) = log_last (lg rf) + 1" "unat index = log_last (lg rf) + 1"
    using nxt by (simp_all add: e_def index_def)
  then have "Entry_Index e \<noteq> 0" by auto
  from appendEntryToLog_spec[OF 1(1) this] f obtain rf' where
    rf': "appendEntryToLog ?rf1 e = Ok rf'" "Append (lg rf) e = Ok (lg rf')" "log_only ?rf1 rf'" by auto
  have "log_wf (lg rf)" using ok(1) by (auto simp: raft_ok_def)
  from Append_next[OF this idx(1)] obtain l' where l': "Append (lg rf) e = Ok l'"
    "log_view l' = (log_view (lg rf))(log_last (lg rf) + 1 \<mapsto> e)" by blast
  then have "lg rf' = l'" using rf'(2) by simp
  then have "log_view (lg rf') = (log_view (lg rf))(unat index \<mapsto> e)" using l'(2) by (simp only: idx(2))
  moreover have "Start command rf = Ok ((index, term_of rf, True), rf')"
    using ok(2) me 1(2) rf'(1)[unfolded e_def index_def] f(2)
    by (simp add: Start_def index64_def store_me index_def Let_def)
  ultimately show ?thesis using rf'(3) ok(2) by (auto simp: log_only_def)
qed

lemma savedWith_grows:
  assumes "peer_ok rf1" "leader_ok rf1" "hs rf1 = hs rf \<or> (\<exists>c. hs rf1 = (hs rf)\<lparr>Commit := c\<rparr> \<and> commit_of rf \<le> c)"
    "rf_me rf1 = rf_me rf" "rf_peers rf1 = rf_peers rf"
  shows "grows rf (savedWith sn rf1)"
  using assms by (auto simp: grows_def raft_ok_def term_of_def commit_of_def)

lemma Snapshot_grows:
  assumes ok: "raft_ok rf" and ret: "Raft_Snapshot i sn rf = Ok rf'"
  shows "grows rf rf'"
proof -
  have pk: "peer_ok rf" "leader_ok rf" "log_wf (lg rf)" using ok by (auto simp: raft_ok_def)
  let ?c = "goMax (commit_of rf) i"
  let ?rf2 = "rf\<lparr>hardState := Some ((hs rf)\<lparr>Commit := ?c\<rparr>), lastApplied := goMax (lastApplied rf) i\<rparr>"
  have pk2: "peer_ok ?rf2" "leader_ok ?rf2" using pk by simp_all
  have "rf' = savedWith sn ?rf2 \<or> (\<exists>l. log_wf l \<and> rf' = savedWith sn (with_log l ?rf2))"
    using ret pk pk2(1) CompactForSnapshot_wf[OF pk(3)]
    by (fastforce simp: Raft_Snapshot_def Let_def split: if_splits)
  moreover have "commit_of rf \<le> ?c" by (auto simp: goMax_def)
  ultimately show ?thesis using pk2 by (auto intro!: savedWith_grows)
qed

lemma CondInstallSnapshot_grows:
  assumes ok: "raft_ok rf" and ret: "CondInstallSnapshot t i sn rf = Ok (b, rf')"
  shows "grows rf rf'"
proof -
  have pk: "peer_ok rf" "leader_ok rf" "log_wf (lg rf)" using ok by (auto simp: raft_ok_def)
  have "rf' = rf \<or> (\<exists>l. log_wf l \<and> rf' = savedWith sn (with_log l (rf\<lparr>lastApplied := i\<rparr>)))"
    using ret pk CompactForSnapshot_wf[OF pk(3)]
    by (fastforce simp: CondInstallSnapshot_def split: if_splits)
  then show ?thesis using pk grows_refl[OF ok] by (auto intro!: savedWith_grows)
qed

lemma receiveVote_grows:
  assumes ok: "raft_ok rf" and ret: "receiveVote p rf = Ok (b, rf')"
  shows "grows rf rf'"
proof -
  obtain reply where p: "p = Some reply" using ret by (auto simp: receiveVote_def)
  define rf1 where "rf1 = (if VoteGranted reply then rf\<lparr>votes := votes rf + 1\<rparr> else rf)"
  have 1: "peer_ok rf1" "leader_ok rf1" "grows rf rf1" "hs rf1 = hs rf"
    using ok by (auto simp: rf1_def raft_ok_def grows_def term_of_def commit_of_def)
  from 1(2) have "unat (rf_me rf1) < rf_peers rf1" by (simp add: leader_ok_def)
  from convertToLeader_spec[OF 1(1) this] obtain rf2 where 2: "convertToLeader rf1 = Ok rf2" "grows rf1 rf2"
    by (auto simp: grows_def term_of_def commit_of_def)
  have "rf' = rf1 \<or> rf' = rf2"
    using ret p 2(1) by (auto simp: receiveVote_def Let_def rf1_def[symmetric] split: if_splits)
  then show ?thesis using 1(3) 2(2) grows_trans by blast
qed

lemma becomeFollower_grows:
  "raft_ok rf \<Longrightarrow> convertToFollower t rf = Ok rf' \<Longrightarrow> term_of rf < t \<Longrightarrow> grows rf rf'"
  using convertToFollower_grows[of rf t] by auto

lemma callRequestVote_receive_grows:
  assumes ok: "raft_ok rf" and ret: "callRequestVote_receive ctxDone r rf = Ok (out, rf')"
  shows "grows rf rf'"
proof -
  have "peer_ok rf" using ok by (simp add: raft_ok_def)
  then have "rf' = rf \<or> (\<exists>t. convertToFollower t rf = Ok rf' \<and> term_of rf < t)"
    using ret by (auto simp: callRequestVote_receive_def split: prod.splits if_splits)
  then show ?thesis using grows_refl[OF ok] becomeFollower_grows[OF ok] by auto
qed

lemma checkIfEntryShouldBeCommitted_grows:
  "raft_ok rf \<Longrightarrow> checkIfEntryShouldBeCommitted n rf = Ok rf' \<Longrightarrow> grows rf rf'"
  by (auto simp: checkIfEntryShouldBeCommitted_def split: if_splits dest: commit_grows grows_refl)

lemma backUpNextIndex_grows:
  assumes "raft_ok rf" "backUpNextIndex server reply rf = Ok (e, rf')"
  shows "grows rf rf'"
proof -
  obtain ni where "length ni = length (nextIndex rf)" "rf' = rf\<lparr>nextIndex := ni\<rparr>"
    using assms(2) by (auto simp: backUpNextIndex_def split: if_splits dest!: store_length)
  then show ?thesis using index_upd_grows[OF assms(1), of ni "matchIndex rf"] by simp
qed

lemma callAppendEntries_receive_grows:
  assumes ok: "raft_ok rf" and ret: "callAppendEntries_receive server args out rf = Ok (e, rf')"
  shows "grows rf rf'"
proof (cases out)
  case (Reply reply)
  have pk: "peer_ok rf" using ok by (simp add: raft_ok_def)
  have g: "grows rf rf1" if "store (nextIndex rf) i x = Ok ni" "store (matchIndex rf) i y = Ok mi"
    "checkIfEntryShouldBeCommitted n (rf\<lparr>nextIndex := ni, matchIndex := mi\<rparr>) = Ok rf1" for i x ni y mi n rf1
  proof -
    have g: "grows rf (rf\<lparr>nextIndex := ni, matchIndex := mi\<rparr>)"
      using that(1,2) by (intro index_upd_grows[OF ok]) (auto dest: store_length)
    show ?thesis by (rule grows_trans[OF g checkIfEntryShouldBeCommitted_grows[OF grows_ok[OF g] that(3)]])
  qed
  have "rf' = rf \<or> (\<exists>t. convertToFollower t rf = Ok rf' \<and> term_of rf < t) \<or> (\<exists>e. backUpNextIndex server reply rf = Ok (e, rf')) \<or>
     (\<exists>x ni y mi n. store (nextIndex rf) (int server) x = Ok ni \<and> store (matchIndex rf) (int server) y = Ok mi \<and>
       checkIfEntryShouldBeCommitted n (rf\<lparr>nextIndex := ni, matchIndex := mi\<rparr>) = Ok rf')"
    using ret Reply pk by (auto simp: callAppendEntries_receive_def split: if_splits)
  then show ?thesis
    using grows_refl[OF ok] becomeFollower_grows[OF ok] g backUpNextIndex_grows[OF ok] by blast
qed (use ret grows_refl[OF ok] in \<open>simp_all add: callAppendEntries_receive_def\<close>)

lemma callInstallSnapshot_receive_grows:
  assumes ok: "raft_ok rf" and ret: "callInstallSnapshot_receive server args out rf = Ok rf'"
  shows "grows rf rf'"
proof (cases out)
  case (Reply reply)
  have pk: "peer_ok rf" using ok by (simp add: raft_ok_def)
  have "grows rf (rf\<lparr>nextIndex := ni, matchIndex := mi\<rparr>)"
    if "store (nextIndex rf) i x = Ok ni" "store (matchIndex rf) i y = Ok mi" for i x ni y mi
    using that by (intro index_upd_grows[OF ok]) (auto dest: store_length)
  then show ?thesis using ret Reply pk becomeFollower_grows[OF ok]
    by (auto simp: callInstallSnapshot_receive_def split: if_splits)
qed (use ret grows_refl[OF ok] in \<open>simp_all add: callInstallSnapshot_receive_def\<close>)

lemma spawn_grows: "raft_ok rf \<Longrightarrow> grows rf (spawn g rf)"
  by (intro grows_same) (auto simp: raft_ok_def)

lemma spawnToOthers_grows: "raft_ok rf \<Longrightarrow> grows rf (spawnToOthers g rf)"
proof -
  have "raft_ok rf \<Longrightarrow> grows rf (foldl (\<lambda>rf i. if of_nat i = rf_me rf then rf else spawn (g i) rf) rf is)" for "is"
  proof (induction "is" rule: rev_induct)
    case (snoc i "is")
    then show ?case by (auto intro: grows_trans spawn_grows grows_ok)
  qed (simp add: grows_refl)
  then show "raft_ok rf \<Longrightarrow> grows rf (spawnToOthers g rf)" by (simp add: spawnToOthers_def)
qed

lemma callAppendEntries_send_grows:
  "raft_ok rf \<Longrightarrow> callAppendEntries_send c server hb rf = Ok (r, rf') \<Longrightarrow> grows rf rf'"
  by (auto simp: callAppendEntries_send_def split: if_splits intro: grows_refl spawn_grows)

lemma apply_upd_grows: "raft_ok rf \<Longrightarrow> grows rf (rf\<lparr>lastApplied := i, applied := ap\<rparr>)"
  by (rule grows_same) (simp_all add: raft_ok_def)

lemma applyCommittedLogs_grows:
  assumes "raft_ok rf" "applyCommittedLogs_turn rf = Ok rf'"
  shows "grows rf rf'"
proof -
  have "peer_ok rf" using assms(1) by (simp add: raft_ok_def)
  then have "rf' = rf \<or> (\<exists>i ap. rf' = rf\<lparr>lastApplied := i, applied := ap\<rparr>)"
    using assms(2) by (auto simp: applyCommittedLogs_turn_def Let_def split: if_splits)
  then show ?thesis using grows_refl[OF assms(1)] apply_upd_grows[OF assms(1)] by auto
qed

lemma ticker_start_grows: "raft_ok rf \<Longrightarrow> grows rf (snd (ticker_start rf))"
  by (intro grows_same) (auto simp: raft_ok_def ticker_start_def Let_def)

lemma ticker_turn_grows: "raft_ok rf \<Longrightarrow> grows rf (snd (ticker_turn t ev rf))"
  by (auto simp: ticker_turn_def killed_def grows_refl spawn_grows split: ticker_event.splits)

lemma Kill_grows:
  assumes "raft_ok rf" "Kill rf = Ok rf'"
  shows "grows rf rf'"
proof -
  have "rf' = rf\<lparr>rf_dead := True, doneClosed := True\<rparr>" using assms(2) by (simp add: Kill_def split: if_splits)
  then show ?thesis using assms(1) by (intro grows_same) (simp_all add: raft_ok_def)
qed

text \<open>An election sets the term to the one it is for, whatever the current one is.\<close>

definition sound :: "Raft \<Rightarrow> Raft \<Rightarrow> bool" where
  "sound rf rf' \<longleftrightarrow> raft_ok rf' \<and> rf_me rf' = rf_me rf \<and> rf_peers rf' = rf_peers rf \<and> commit_of rf \<le> commit_of rf'"

lemma sound_refl: "raft_ok rf \<Longrightarrow> sound rf rf"
  by (simp add: sound_def)

lemma sound_trans: "sound a b \<Longrightarrow> sound b c \<Longrightarrow> sound a c"
  by (auto simp: sound_def)

lemma sound_ok: "sound rf rf' \<Longrightarrow> raft_ok rf'"
  by (simp add: sound_def)

lemma grows_sound: "grows rf rf' \<Longrightarrow> sound rf rf'"
  by (simp add: grows_def sound_def)

lemma launchElection_sound:
  "raft_ok rf \<Longrightarrow> launchElection t rf = Ok rf' \<Longrightarrow> sound rf rf' \<and> term_of rf' = t"
  using launchElection_spec[of rf t] by (auto simp: sound_def term_of_def commit_of_def)

section \<open>All events\<close>

lemmas event_grows = AppendEntries_grows RequestVote_grows InstallSnapshot_grows Start_grows Snapshot_grows
  CondInstallSnapshot_grows receiveVote_grows callRequestVote_receive_grows callAppendEntries_receive_grows
  callInstallSnapshot_receive_grows callAppendEntries_send_grows applyCommittedLogs_grows Kill_grows

lemma handle_grows:
  assumes "raft_ok rf" "event_ok ev rf" "handle ev rf = Ok rf'" "\<forall>t. ev \<noteq> EvLaunchElection t"
  shows "grows rf rf'"
proof (cases ev)
  case (EvAppendEntries args)
  from assms(2) have "\<forall>e. Some e \<in> set (AEArgs_Entries args) \<longrightarrow> Entry_Index e \<noteq> 0"
    unfolding EvAppendEntries by auto
  with assms(1,3) show ?thesis unfolding EvAppendEntries by (auto intro: AppendEntries_grows)
next
  case (EvReplicate c)
  then show ?thesis using assms spawnToOthers_grows by (auto simp: replicateToAllServers_def)
next
  case (EvHeartBeat ctxDone c)
  then show ?thesis using assms spawnToOthers_grows grows_refl by (auto simp: sendHeartBeatPeriodicallyToAll_turn_def)
next
  case (EvRequestVotes c)
  then show ?thesis using assms spawnToOthers_grows by (auto simp: sendRequestVoteToAll_start_def)
next
  case EvTickerStart
  then show ?thesis using assms ticker_start_grows by auto
next
  case (EvTickerTurn t e)
  then show ?thesis using assms ticker_turn_grows by auto
qed (use assms in \<open>auto intro: event_grows\<close>)

lemma handle_sound:
  assumes "raft_ok rf" "event_ok ev rf" "handle ev rf = Ok rf'"
  shows "sound rf rf'"
proof (cases "\<exists>t. ev = EvLaunchElection t")
  case True
  then show ?thesis using assms(1,3) launchElection_sound by auto
next
  case False
  then show ?thesis using handle_grows[OF assms] grows_sound by blast
qed

text \<open>The one event that lowers the term.\<close>

lemma handle_term:
  assumes "raft_ok rf" "event_ok ev rf" "handle ev rf = Ok rf'" "term_of rf' < term_of rf"
  shows "ev = EvLaunchElection (term_of rf')"
proof (cases "\<exists>t. ev = EvLaunchElection t")
  case True
  then show ?thesis using assms(1,3) launchElection_sound by auto
next
  case False
  then show ?thesis using handle_grows[OF assms(1-3)] assms(4) by (auto simp: grows_def)
qed

lemma run_sound: "run rf rf' \<Longrightarrow> raft_ok rf \<Longrightarrow> sound rf rf'"
proof (induction rule: run.induct)
  case (run_refl rf)
  then show ?case by (rule sound_refl)
next
  case (run_step rf rf1 ev rf2)
  from run_step.IH[OF run_step.prems] have g: "sound rf rf1" .
  show ?case by (rule sound_trans[OF g handle_sound[OF sound_ok[OF g] run_step.hyps(2,3)]])
qed

end
