(* ===== verification/Raft_Properties.thy ===== *)
theory Raft_Properties
  imports Raft_Machine
begin

text \<open>
  The properties of a Raft peer, over the laws of theory Raft_Laws and the state machine of theory
  Raft_Machine, each with a concrete instance. \<open>sample_peer\<close> is the peer the instances use.
\<close>

section \<open>A concrete peer\<close>

definition sample_entries :: "Entry option list" where
  "sample_entries =
     [Some \<lparr>Entry_Term = 1, Entry_Index = 1, Entry_Data = Some [7]\<rparr>,
      Some \<lparr>Entry_Term = 3, Entry_Index = 2, Entry_Data = Some [8]\<rparr>]"

definition sample_peer :: Raft where
  "sample_peer = saved (Raft_zero\<lparr>rf_peers := 3, rf_me := 1,
     hardState := Some \<lparr>HardState_Term = 3, VotedFor = 0, Commit = 1\<rparr>,
     heap := [\<lparr>Log_Entries = sample_entries, IncludedIndex = 0, IncludedTerm = 0\<rparr>],
     stateLog := Some 0, rf_log := Some 0, nextIndex := [1, 3, 2], matchIndex := [0, 2, 1],
     cancelLeader := Some 0\<rparr>)"

definition sample_leader :: Raft where
  "sample_leader = sample_peer\<lparr>rf_state := ServerStateLeader\<rparr>"

lemma sample_fields [simp]:
  "hs sample_peer = \<lparr>HardState_Term = 3, VotedFor = 0, Commit = 1\<rparr>"
  "rf_state sample_peer = ServerStateFollower" "rf_peers sample_peer = 3" "rf_me sample_peer = 1"
  "nextIndex sample_peer = [1, 3, 2]" "matchIndex sample_peer = [0, 2, 1]" "lastApplied sample_peer = 0"
  "applied sample_peer = []"
  by (simp_all add: sample_peer_def, simp_all add: hs_def Raft_zero_def)

lemma sample_lg: "lg sample_peer = \<lparr>Log_Entries = sample_entries, IncludedIndex = 0, IncludedTerm = 0\<rparr>"
  by (simp add: sample_peer_def) (simp add: lg_def Raft_zero_def)

lemma sample_views [simp]:
  "term_of sample_peer = 3" "voted_of sample_peer = 0" "commit_of sample_peer = 1"
  "log_base (lg sample_peer) = 0" "log_last (lg sample_peer) = 2"
  "IncludedIndex (lg sample_peer) = 0" "IncludedTerm (lg sample_peer) = 0"
  by (simp_all add: sample_lg term_of_def voted_of_def commit_of_def log_base_def log_last_def sample_entries_def)

lemma sample_log_view:
  "log_view (lg sample_peer) n =
     (if n = 1 then Some \<lparr>Entry_Term = 1, Entry_Index = 1, Entry_Data = Some [7]\<rparr>
      else if n = 2 then Some \<lparr>Entry_Term = 3, Entry_Index = 2, Entry_Data = Some [8]\<rparr> else None)"
  by (auto simp: sample_lg log_view_def log_base_def log_last_def sample_entries_def numeral_2_eq_2 le_Suc_eq)

lemma sample_ok: "raft_ok sample_peer"
proof -
  have "log_wf (lg sample_peer)"
    by (auto simp: sample_lg log_wf_iff log_base_def log_last_def sample_entries_def less_Suc_eq)
  then have "peer_ok sample_peer"
    unfolding peer_ok_def by (simp add: sample_peer_def del: peer_okD) (simp add: saved_def Raft_zero_def del: peer_okD)
  then show ?thesis
    by (simp add: raft_ok_def leader_ok_def) (simp add: sample_peer_def)
qed

lemma sample_leader_fields [simp]:
  "hs sample_leader = hs sample_peer" "lg sample_leader = lg sample_peer" "term_of sample_leader = 3"
  "commit_of sample_leader = 1" "voted_of sample_leader = 0"
  "rf_state sample_leader = ServerStateLeader" "rf_peers sample_leader = 3" "rf_me sample_leader = 1"
  "nextIndex sample_leader = [1, 3, 2]" "matchIndex sample_leader = [0, 2, 1]"
  by (simp_all add: sample_leader_def term_of_def commit_of_def voted_of_def)

lemma sample_leader_ok: "raft_ok sample_leader"
  using sample_ok
  by (simp add: raft_ok_def leader_ok_def sample_leader_def) (simp add: sample_peer_def saved_def)

section \<open>Log replication\<close>

text \<open>
  C1. AppendEntries, accepted: a request whose previous entry the follower has (same index, same
  term) is answered with Success; the follower adopts term and leader, keeps its log up to the
  previous entry, agrees afterwards with the request on the term of every entry sent, loses
  entries only if they contradicted the request, and raises its commit index as the leader says.
\<close>

theorem AppendEntries_merges_log:
  assumes "raft_ok rf" "AEArgs_Args args = Some a" "term_of rf \<le> Args_Term a"
    "AEArgs_Entries args = map Some es" "batch_at (unat (PrevLogIndex args)) es"
    "log_base (lg rf) \<le> unat (PrevLogIndex args)" "unat (PrevLogIndex args) \<le> log_last (lg rf)"
    "term_at (lg rf) (PrevLogIndex args) = PrevLogTerm args"
    "log_base (lg rf) \<le> unat (commit_of rf)"
  shows "\<exists>rf'. AppendEntries_with (Some AppendEntriesReply_zero) args rf =
      Ok (AppendEntriesReply_zero\<lparr>AEReply_Term := term_of rf, AEReply_Status := Success\<rparr>, rf') \<and>
    raft_ok rf' \<and> term_of rf' = Args_Term a \<and> leaderId rf' = Args_Leader a \<and>
    merged (lg rf) (unat (PrevLogIndex args)) es (lg rf') \<and>
    commit_of rf' = followed_commit args (lg rf') (commit_of rf)"
  using AppendEntries_accept[OF assms] by (auto simp: grows_def)

lemma AppendEntries_merges_log_witness:
  "\<exists>rf'. AppendEntries_with (Some AppendEntriesReply_zero)
      \<lparr>AEArgs_Args = Some \<lparr>Args_Term = 4, Args_Leader = 2\<rparr>,
       AEArgs_Entries = map Some [\<lparr>Entry_Term = 4, Entry_Index = 2, Entry_Data = None\<rparr>],
       CommitTerm = 4, LeaderCommit = 2, PrevLogIndex = 1, PrevLogTerm = 1\<rparr> sample_peer =
      Ok (AppendEntriesReply_zero\<lparr>AEReply_Term := 3, AEReply_Status := Success\<rparr>, rf') \<and>
    log_last (lg rf') = 2 \<and> (\<exists>e. log_view (lg rf') 2 = Some e \<and> Entry_Term e = 4)"
proof -
  let ?args = "\<lparr>AEArgs_Args = Some \<lparr>Args_Term = 4, Args_Leader = 2\<rparr>,
       AEArgs_Entries = map Some [\<lparr>Entry_Term = 4, Entry_Index = 2, Entry_Data = None\<rparr>],
       CommitTerm = 4, LeaderCommit = 2, PrevLogIndex = 1, PrevLogTerm = 1\<rparr>"
  have "term_at (lg sample_peer) 1 = 1" by (simp add: term_at_def sample_log_view)
  then obtain rf' where 1: "AppendEntries_with (Some AppendEntriesReply_zero) ?args sample_peer =
      Ok (AppendEntriesReply_zero\<lparr>AEReply_Term := term_of sample_peer, AEReply_Status := Success\<rparr>, rf')"
      "merged (lg sample_peer) 1 [\<lparr>Entry_Term = 4, Entry_Index = 2, Entry_Data = None\<rparr>] (lg rf')"
    using AppendEntries_merges_log[of sample_peer ?args "\<lparr>Args_Term = 4, Args_Leader = 2\<rparr>"
        "[\<lparr>Entry_Term = 4, Entry_Index = 2, Entry_Data = None\<rparr>]"] sample_ok
    by (auto simp: batch_at_def)
  have "\<not> agrees_until (lg sample_peer) 1 [\<lparr>Entry_Term = 4, Entry_Index = 2, Entry_Data = None\<rparr>] 1"
    by (auto simp: agrees_until_def sample_log_view)
  with 1 show ?thesis
    by (intro exI[of _ rf']) (auto simp: merged_def numeral_2_eq_2)
qed

text \<open>An index of the log above the boundary has a first entry of its term.\<close>

lemma first_entry_found:
  assumes wf: "log_wf l" and sorted: "terms_sorted l" and p: "log_base l < unat p" "unat p \<le> log_last l"
  shows "\<exists>e. FirstEntryAtTerm l (term_at l p) = Ok (Some e) \<and> Entry_Term e = term_at l p \<and>
      log_view l (unat (Entry_Index e)) = Some e \<and>
      (\<forall>n e'. log_view l n = Some e' \<longrightarrow> n < unat (Entry_Index e) \<longrightarrow> Entry_Term e' < term_at l p)"
proof -
  obtain x where x: "log_view l (unat p) = Some x" using log_view_Some[OF wf p] .
  then have "term_at l p = Entry_Term x" using p by (auto simp: term_at_def log_base_def)
  then show ?thesis using FirstEntryAtTerm_spec[OF wf sorted, of "Entry_Term x"] x
    by (auto split: option.splits)
qed

text \<open>
  Step 3 of \<^verbatim>\<open>AppendEntries\<close> returns early when it meets an entry below the snapshot boundary before
  it meets a conflict.
\<close>

definition trims :: "Log \<Rightarrow> Entry option list \<Rightarrow> bool" where
  "trims l ps \<longleftrightarrow> (\<exists>xs y qs. ps = map Some xs @ Some y # qs \<and> unat (Entry_Index y) < log_base l \<and>
     (\<forall>x \<in> set xs. log_base l \<le> unat (Entry_Index x) \<and>
        (unat (Entry_Index x) \<le> log_last l \<longrightarrow> Entry_Term x = term_at l (Entry_Index x))))"

lemma trims_Nil [simp]: "\<not> trims l []"
  by (simp add: trims_def)

lemma trims_None [simp]: "\<not> trims l (None # ps)"
  by (auto simp: trims_def Cons_eq_append_conv Cons_eq_map_conv)

lemma trims_Some [simp]:
  "trims l (Some e # ps) \<longleftrightarrow> unat (Entry_Index e) < log_base l \<or>
     (unat (Entry_Index e) \<le> log_last l \<longrightarrow> Entry_Term e = term_at l (Entry_Index e)) \<and> trims l ps" (is "?L \<longleftrightarrow> ?R")
proof
  assume ?L
  then obtain xs y qs where t: "Some e # ps = map Some xs @ Some y # qs" "unat (Entry_Index y) < log_base l"
    "\<forall>x \<in> set xs. log_base l \<le> unat (Entry_Index x) \<and>
        (unat (Entry_Index x) \<le> log_last l \<longrightarrow> Entry_Term x = term_at l (Entry_Index x))" unfolding trims_def by blast
  then show ?R by (cases xs) (auto simp: trims_def)
next
  assume ?R
  then show ?L
  proof (cases "unat (Entry_Index e) < log_base l")
    case True
    then show ?thesis unfolding trims_def by (intro exI[of _ "[]"] exI[of _ e] exI[of _ ps]) simp
  next
    case False
    with \<open>?R\<close> obtain xs y qs where t: "ps = map Some xs @ Some y # qs" "unat (Entry_Index y) < log_base l"
      "\<forall>x \<in> set xs. log_base l \<le> unat (Entry_Index x) \<and>
        (unat (Entry_Index x) \<le> log_last l \<longrightarrow> Entry_Term x = term_at l (Entry_Index x))" unfolding trims_def by blast
    then show ?thesis unfolding trims_def
      using False \<open>?R\<close> by (intro exI[of _ "e # xs"] exI[of _ y] exI[of _ qs]) auto
  qed
qed

lemma conflictLoop_trims:
  assumes "raft_ok rf"
  shows "if trims (lg rf) ps then conflictLoop rf ps = Ok (True, rf) else \<forall>rf'. conflictLoop rf ps \<noteq> Ok (True, rf')"
proof (induction ps)
  case (Cons p ps)
  have pk: "peer_ok rf" "log_wf (lg rf)" using assms by (auto simp: raft_ok_def)
  show ?case
  proof (cases p)
    case (Some e)
    let ?i = "Entry_Index e"
    consider "unat ?i < log_base (lg rf)" | "log_last (lg rf) < unat ?i" "\<not> unat ?i < log_base (lg rf)"
      | "log_base (lg rf) \<le> unat ?i" "unat ?i \<le> log_last (lg rf)" by linarith
    then show ?thesis
    proof cases
      case 1
      then show ?thesis using Some pk by (simp add: LastIncludedIndex_def less_base_iff)
    next
      case 2
      then have "\<not> ?i \<le> of_nat (log_last (lg rf))" using last_less_iff[OF pk(2), of ?i] by (simp add: not_le)
      then show ?thesis using Some pk 2 Cons.IH by (simp add: LastIncludedIndex_def less_base_iff Len_wf)
    next
      case 3
      then have le: "?i \<le> of_nat (log_last (lg rf))" "\<not> ?i < IncludedIndex (lg rf)"
        using last_less_iff[OF pk(2), of ?i] less_base_iff[of ?i "lg rf"] by (simp_all add: not_less)
      from EntryAt_term_at[OF pk(2) 3] obtain x where x: "EntryAt (lg rf) ?i = Ok x" "Entry_Term x = term_at (lg rf) ?i" by blast
      show ?thesis
      proof (cases "Entry_Term e = term_at (lg rf) ?i")
        case True
        then show ?thesis using Some pk le x 3 Cons.IH by (simp add: LastIncludedIndex_def Len_wf)
      next
        case False
        have "go_bind (updLog f rf) (\<lambda>rf1. go_bind (persist rf1) (\<lambda>rf2. Ok (False, rf2))) \<noteq> Ok (True, rf')" for f rf'
          by (cases "updLog f rf") (auto split: go.splits simp: go_bind_eq_Ok)
        then show ?thesis using Some pk le x 3 False by (simp add: LastIncludedIndex_def Len_wf)
      qed
    qed
  qed simp
qed simp

text \<open>When a request of \<^verbatim>\<open>AppendEntries\<close> is refused.\<close>

definition refuses :: "Raft \<Rightarrow> AppendEntriesArgs \<Rightarrow> Args \<Rightarrow> bool" where
  "refuses rf args a \<longleftrightarrow> Args_Term a < term_of rf \<or> unat (PrevLogIndex args) < log_base (lg rf) \<or>
     log_last (lg rf) < unat (PrevLogIndex args) \<or> term_at (lg rf) (PrevLogIndex args) \<noteq> PrevLogTerm args \<or>
     trims (lg rf) (AEArgs_Entries args)"

text \<open>Behind the check of the previous entry.\<close>

lemma AppendEntries_step3:
  assumes ok: "raft_ok rf" and a: "AEArgs_Args args = Some a" "term_of rf \<le> Args_Term a"
    and prev: "log_base (lg rf) \<le> unat (PrevLogIndex args)" "unat (PrevLogIndex args) \<le> log_last (lg rf)"
      "term_at (lg rf) (PrevLogIndex args) = PrevLogTerm args"
  shows "\<exists>rf2. grows rf rf2 \<and> lg rf2 = lg rf \<and> term_of rf2 = Args_Term a \<and> leaderId rf2 = Args_Leader a \<and> commit_of rf2 = commit_of rf \<and>
    AppendEntries_with (Some r0) args rf =
      go_bind (conflictLoop rf2 (AEArgs_Entries args)) (\<lambda>(trimmed, rf3).
        if trimmed then Ok (r0\<lparr>AEReply_Term := term_of rf, AEReply_Status := OldSnapshot\<rparr>, rf3)
        else go_bind (appendLoop rf3 (AEArgs_Entries args)) (\<lambda>rf4. followCommit args (r0\<lparr>AEReply_Term := term_of rf\<rparr>) rf4))"
proof -
  from adopt_term[OF ok a(2)] obtain rf1 where
    1: "(if term_of rf < Args_Term a then convertToFollower (Args_Term a) rf else Ok rf) = Ok rf1" "grows rf rf1"
      "lg rf1 = lg rf" "term_of rf1 = Args_Term a" "commit_of rf1 = commit_of rf" by blast
  let ?rf2 = "rf1\<lparr>leaderId := Args_Leader a\<rparr>"
  have ok2: "peer_ok ?rf2" "peer_ok rf" "log_wf (lg rf)" using 1(2) ok by (auto simp: grows_def raft_ok_def)
  from EntryAt_term_at[OF ok2(3) prev(1,2)] obtain e where
    e: "EntryAt (lg rf) (PrevLogIndex args) = Ok e" "Entry_Term e = PrevLogTerm args" using prev(3) by auto
  have guards: "\<not> Args_Term a < term_of rf" "\<not> PrevLogIndex args < IncludedIndex (lg rf)"
    "\<not> of_nat (log_last (lg rf)) < PrevLogIndex args"
    using a(2) prev(1,2) last_less_iff[OF ok2(3)] less_base_iff[of _ "lg rf"] by (simp_all add: not_less)
  have "grows rf ?rf2" using 1(2) by (simp add: grows_def)
  then show ?thesis using guards a(1) 1 ok2 e Len_wf[OF ok2(3)]
    by (intro exI[of _ ?rf2]) (simp add: AppendEntries_with_def Let_def)
qed

lemma followCommit_status: "followCommit args reply rf = Ok (r, rf') \<Longrightarrow> AEReply_Status reply = Success \<Longrightarrow> AEReply_Status r = Success"
  by (cases "getCommit rf") (auto simp: followCommit_def Let_def go_bind_eq_Ok split: if_splits)

lemma AppendEntries_not_refused:
  assumes ok: "raft_ok rf" and a: "AEArgs_Args args = Some a" and nr: "\<not> refuses rf args a"
    and ret: "AppendEntries_with (Some AppendEntriesReply_zero) args rf = Ok (r, rf')"
  shows "AEReply_Status r = Success"
proof -
  have prev: "term_of rf \<le> Args_Term a" "log_base (lg rf) \<le> unat (PrevLogIndex args)" "unat (PrevLogIndex args) \<le> log_last (lg rf)"
      "term_at (lg rf) (PrevLogIndex args) = PrevLogTerm args" "\<not> trims (lg rf) (AEArgs_Entries args)"
    using nr by (auto simp: refuses_def not_less)
  from AppendEntries_step3[OF ok a prev(1-4), of AppendEntriesReply_zero] obtain rf2 where
    2: "grows rf rf2" "lg rf2 = lg rf" and eval: "AppendEntries_with (Some AppendEntriesReply_zero) args rf =
      go_bind (conflictLoop rf2 (AEArgs_Entries args)) (\<lambda>(trimmed, rf3).
        if trimmed then Ok (AppendEntriesReply_zero\<lparr>AEReply_Term := term_of rf, AEReply_Status := OldSnapshot\<rparr>, rf3)
        else go_bind (appendLoop rf3 (AEArgs_Entries args)) (\<lambda>rf4.
          followCommit args (AppendEntriesReply_zero\<lparr>AEReply_Term := term_of rf\<rparr>) rf4))" by blast
  have "conflictLoop rf2 (AEArgs_Entries args) \<noteq> Ok (True, rf3)" for rf3
    using conflictLoop_trims[OF grows_ok[OF 2(1)], of "AEArgs_Entries args"] prev(5) 2(2) by simp
  then obtain rf4 where "followCommit args (AppendEntriesReply_zero\<lparr>AEReply_Term := term_of rf\<rparr>) rf4 = Ok (r, rf')"
    using ret eval by (auto simp: go_bind_eq_Ok split: if_splits)
  from followCommit_status[OF this] show ?thesis by (simp add: AppendEntriesReply_zero_def Success_def)
qed

text \<open>
  C25. AppendEntries, refused: exactly which requests are refused, and how. Terms are taken to be sorted. A request of
  an old term is answered OldTerm and changes nothing. All others make the peer adopt term and leader of
  the request and leave the log and the commit index as they are: a previous index below the snapshot boundary is
  answered OldSnapshot; one beyond the end of the log NotContain with the follower's length; a
  previous term that differs NotContain with the follower's term there and the first index of that
  term (the previous index may be the boundary itself, whose term no entry need have: then the lookup of the first
  index returns nil and the handler panics); and an entry below the boundary that step 3 meets
  before any conflict OldSnapshot. Every other request that is answered at all is answered Success. The
  handler has an allocated reply.
\<close>

theorem AppendEntries_refusals:
  assumes ok: "raft_ok rf" and sorted: "terms_sorted (lg rf)" and a: "AEArgs_Args args = Some a"
  defines "l \<equiv> lg rf" and "p \<equiv> unat (PrevLogIndex args)" and "t \<equiv> term_at (lg rf) (PrevLogIndex args)"
  shows "if \<not> refuses rf args a
    then \<forall>r rf'. AppendEntries_with (Some AppendEntriesReply_zero) args rf = Ok (r, rf') \<longrightarrow> AEReply_Status r = Success
    else if term_of rf \<le> Args_Term a \<and> p = log_base l \<and> t \<noteq> PrevLogTerm args \<and> (\<forall>n e. log_view l n = Some e \<longrightarrow> Entry_Term e \<noteq> t)
    then AppendEntries_with (Some AppendEntriesReply_zero) args rf = Panic NilDeref
    else \<exists>r rf'. AppendEntries_with (Some AppendEntriesReply_zero) args rf = Ok (r, rf') \<and>
      raft_ok rf' \<and> lg rf' = l \<and> commit_of rf' = commit_of rf \<and> AEReply_Term r = term_of rf \<and>
      (if Args_Term a < term_of rf then AEReply_Status r = OldTerm \<and> rf' = rf
       else term_of rf' = Args_Term a \<and> leaderId rf' = Args_Leader a \<and>
         (if p < log_base l then AEReply_Status r = OldSnapshot
          else if log_last l < p then AEReply_Status r = NotContain \<and> XLen r = of_nat (log_last l) + 1
          else if t \<noteq> PrevLogTerm args then AEReply_Status r = NotContain \<and> XTerm r = t \<and>
            (\<exists>e. log_view l (unat (XIndex r)) = Some e \<and> Entry_Term e = t \<and>
               (\<forall>n e'. log_view l n = Some e' \<longrightarrow> n < unat (XIndex r) \<longrightarrow> Entry_Term e' < t))
          else AEReply_Status r = OldSnapshot))"
proof (cases "refuses rf args a \<and> term_of rf \<le> Args_Term a")
  case False
  then show ?thesis using AppendEntries_oldTerm[OF ok a, of AppendEntriesReply_zero] ok AppendEntries_not_refused[OF ok a]
    by (auto simp: l_def not_le)
next
  case True
  note R = AppendEntries_refuse[OF ok a conjunct2[OF True], of AppendEntriesReply_zero]
  have wf: "log_wf l" using ok by (simp add: raft_ok_def l_def)
  let ?p = "PrevLogIndex args" and ?f = "FirstEntryAtTerm l t" and ?r0 = "AppendEntriesReply_zero\<lparr>AEReply_Term := term_of rf\<rparr>"
  from R obtain rf' where R': "grows rf rf'" "lg rf' = l" "term_of rf' = Args_Term a" "commit_of rf' = commit_of rf"
    "leaderId rf' = Args_Leader a" and
    R1: "p < log_base l \<Longrightarrow> AppendEntries_with (Some AppendEntriesReply_zero) args rf = Ok (?r0\<lparr>AEReply_Status := OldSnapshot\<rparr>, rf')" and
    R2: "log_last l < p \<Longrightarrow> AppendEntries_with (Some AppendEntriesReply_zero) args rf =
       Ok (?r0\<lparr>AEReply_Status := NotContain, XLen := of_nat (log_last l) + 1\<rparr>, rf')" and
    R3: "log_base l \<le> p \<Longrightarrow> p \<le> log_last l \<Longrightarrow> t \<noteq> PrevLogTerm args \<Longrightarrow>
      AppendEntries_with (Some AppendEntriesReply_zero) args rf =
       go_bind ?f (\<lambda>fe. go_bind (deref fe) (\<lambda>e. Ok (?r0\<lparr>AEReply_Status := NotContain, XTerm := t, XIndex := Entry_Index e\<rparr>, rf')))"
    unfolding Let_def l_def p_def t_def by blast
  have base: "log_base l \<le> log_last l" by (rule raftLog.base_le_last)
  consider (below) "p < log_base l" | (beyond) "\<not> p < log_base l" "log_last l < p"
    | (other) "log_base l \<le> p" "p \<le> log_last l" "t \<noteq> PrevLogTerm args"
    | (trim) "log_base l \<le> p" "p \<le> log_last l" "t = PrevLogTerm args" "trims l (AEArgs_Entries args)"
    using True unfolding refuses_def l_def p_def t_def by force
  then show ?thesis
  proof cases
    case other
    from FirstEntryAtTerm_spec[OF wf, of t] sorted obtain x where x: "?f = Ok x" "case x of
       None \<Rightarrow> \<forall>n e. log_view l n = Some e \<longrightarrow> Entry_Term e \<noteq> t
     | Some e \<Rightarrow> Entry_Term e = t \<and> log_view l (unat (Entry_Index e)) = Some e \<and>
         (\<forall>n e'. log_view l n = Some e' \<longrightarrow> n < unat (Entry_Index e) \<longrightarrow> Entry_Term e' < t)" unfolding l_def by blast
    have p: "p = log_base l" if "\<forall>n e. log_view l n = Some e \<longrightarrow> Entry_Term e \<noteq> t"
      using first_entry_found[OF wf, of ?p] sorted other(1,2) that unfolding l_def p_def t_def by (metis le_neq_implies_less)
    show ?thesis
    proof (cases x)
      case None
      then show ?thesis using True x p R3[OF other] other(3) by simp
    next
      case (Some e)
      let ?r = "?r0\<lparr>AEReply_Status := NotContain, XTerm := t, XIndex := Entry_Index e\<rparr>"
      have ex: "\<not> (\<forall>n e. log_view l n = Some e \<longrightarrow> Entry_Term e \<noteq> t)" using x Some by auto
      have "AppendEntries_with (Some AppendEntriesReply_zero) args rf = Ok (?r, rf')" using R3[OF other] x Some by simp
      then show ?thesis using R' True other x Some ex grows_ok[OF R'(1)]
        by (simp add: not_less[symmetric] del: not_less)
    qed
  next
    case trim
    from AppendEntries_step3[OF ok a conjunct2[OF True], of AppendEntriesReply_zero] trim obtain rf2 where
      2: "grows rf rf2" "lg rf2 = lg rf" "term_of rf2 = Args_Term a" "leaderId rf2 = Args_Leader a" "commit_of rf2 = commit_of rf"
      and eval: "AppendEntries_with (Some AppendEntriesReply_zero) args rf =
      go_bind (conflictLoop rf2 (AEArgs_Entries args)) (\<lambda>(trimmed, rf3).
        if trimmed then Ok (?r0\<lparr>AEReply_Status := OldSnapshot\<rparr>, rf3)
        else go_bind (appendLoop rf3 (AEArgs_Entries args)) (\<lambda>rf4. followCommit args ?r0 rf4))"
      unfolding l_def p_def t_def by blast
    have "conflictLoop rf2 (AEArgs_Entries args) = Ok (True, rf2)"
      using conflictLoop_trims[OF grows_ok[OF 2(1)], of "AEArgs_Entries args"] trim(4) 2(2) by (simp add: l_def)
    then have "AppendEntries_with (Some AppendEntriesReply_zero) args rf = Ok (?r0\<lparr>AEReply_Status := OldSnapshot\<rparr>, rf2)"
      using eval by simp
    then show ?thesis using True trim 2 grows_ok[OF 2(1)] by (simp add: l_def not_less[symmetric] del: not_less)
  qed (use True R' R1 R2 base grows_ok[OF R'(1)] in \<open>simp_all add: not_less[symmetric] del: not_less\<close>)
qed

lemma AppendEntries_refusals_witness:
  "\<exists>r rf'. AppendEntries_with (Some AppendEntriesReply_zero)
      (AppendEntriesArgs_zero\<lparr>AEArgs_Args := Some \<lparr>Args_Term = 3, Args_Leader = 2\<rparr>, PrevLogIndex := 9\<rparr>) sample_peer = Ok (r, rf') \<and>
    AEReply_Status r = NotContain \<and> XLen r = 3"
proof -
  have "terms_sorted (lg sample_peer)" by (simp add: terms_sorted_def sample_lg sample_entries_def slot_term_def)
  from AppendEntries_refusals[OF sample_ok this, of "AppendEntriesArgs_zero\<lparr>AEArgs_Args := Some \<lparr>Args_Term = 3, Args_Leader = 2\<rparr>, PrevLogIndex := 9\<rparr>"]
  show ?thesis by (auto simp: refuses_def)
qed

text \<open>
  C8. The reachability invariant of a peer: in every state reachable by any sequence of received requests,
  replies, commands, snapshots, elections (for any term, also one long past) and background steps, the log is well
  formed, both log pointers agree, a leader has its index arrays and its cancel function, stable storage
  holds the current term, vote and log, and the commit index has not fallen; and the next event does not lower
  the term either, unless it is the launch of an election for an older term, which sets the term to
  that one. Handlers have an allocated reply, received entries carry an index, commands arrive while an index
  is left, and the start is a well-formed peer (not what \<^verbatim>\<open>Make\<close> returns, which panics).
\<close>

theorem peer_invariant:
  assumes "run rf0 rf" "raft_ok rf0"
  shows "raft_ok rf \<and> rf_me rf = rf_me rf0 \<and> rf_peers rf = rf_peers rf0 \<and> commit_of rf0 \<le> commit_of rf \<and>
    (\<forall>ev rf'. event_ok ev rf \<longrightarrow> handle ev rf = Ok rf' \<longrightarrow>
       term_of rf \<le> term_of rf' \<or> ev = EvLaunchElection (term_of rf'))"
  using run_sound[OF assms] handle_term[of rf] by (auto simp: sound_def intro: leI)

lemma peer_invariant_witness:
  "\<exists>rf1 rf2 rf3. run sample_peer rf2 \<and> raft_ok rf2 \<and> commit_of sample_peer \<le> commit_of rf2 \<and> term_of rf1 = 4 \<and>
     term_of rf2 = 2 \<and> rf_state rf2 = ServerStateCandidate \<and> handle (EvTickerTurn 4 TimerFired) rf2 = Ok rf3 \<and> term_of rf2 \<le> term_of rf3"
proof -
  from launchElection_spec[OF sample_ok, of 4] obtain rf1 where
    1: "launchElection 4 sample_peer = Ok rf1" "term_of rf1 = 4" "raft_ok rf1"
    by (auto simp: term_of_def)
  from launchElection_spec[OF 1(3), of 2] obtain rf2 where
    2: "launchElection 2 rf1 = Ok rf2" "term_of rf2 = 2" "rf_state rf2 = ServerStateCandidate"
    by (auto simp: term_of_def)
  have "run sample_peer rf1"
    by (rule run_step[OF run_refl, of "EvLaunchElection 4"]) (simp_all add: 1)
  then have run: "run sample_peer rf2"
    by (rule run_step[of _ _ "EvLaunchElection 2"]) (simp_all add: 2)
  let ?ev = "EvTickerTurn 4 TimerFired"
  note inv = peer_invariant[OF run sample_ok]
  obtain rf3 where 3: "handle ?ev rf2 = Ok rf3" by simp
  from inv have "event_ok ?ev rf2 \<longrightarrow> handle ?ev rf2 = Ok rf3 \<longrightarrow> term_of rf2 \<le> term_of rf3 \<or> ?ev = EvLaunchElection (term_of rf3)"
    by blast
  then have "term_of rf2 \<le> term_of rf3" using 3 by simp
  with 1 2 3 run inv show ?thesis by blast
qed

section \<open>Durability\<close>

text \<open>
  C15. Recovery: after any run, reading the stored bytes back gives the peer's term, vote and log
  (with empty commands normalised to nil), and the last applied index is the snapshot's. The
  decoded log is a new object; \<^verbatim>\<open>rf.log\<close> still points to what it pointed to before.
\<close>

theorem recovery:
  assumes "run rf0 rf" "raft_ok rf0" "length (bcontent (ReadRaftState (rf_persister rf))) < 2 ^ 63"
  shows "\<exists>c rf2. readPersistRaftState (ReadRaftState (rf_persister rf)) rf1 = Ok rf2 \<and>
    hardState rf2 = Some ((hs rf)\<lparr>Commit := c\<rparr>) \<and>
    loadLog rf2 (stateLog rf2) = Ok (Log_norm (lg rf)) \<and> lastApplied rf2 = IncludedIndex (lg rf) \<and>
    rf_log rf2 = rf_log rf1"
  using run_sound[OF assms(1,2)] assms(3) by (intro readPersist_synced) (auto simp: sound_def)

lemma sample_storage:
  "ReadRaftState (rf_persister sample_peer) = Some (RaftState_enc
     \<lparr>RaftState_HardState = Some \<lparr>HardState_Term = 3, VotedFor = 0, Commit = 1\<rparr>,
      RaftState_Log = Some \<lparr>Log_Entries = sample_entries, IncludedIndex = 0, IncludedTerm = 0\<rparr>\<rparr>)"
  by (simp add: sample_peer_def saved_def rstate_def ps.readState_save) (simp add: hs_def lg_def)

lemma sample_storage_length: "length (bcontent (ReadRaftState (rf_persister sample_peer))) = 26"
  unfolding sample_storage by code_simp

lemma recovery_witness:
  "\<exists>c rf2. readPersistRaftState (ReadRaftState (rf_persister sample_peer)) Raft_zero = Ok rf2 \<and>
    hardState rf2 = Some \<lparr>HardState_Term = 3, VotedFor = 0, Commit = c\<rparr> \<and>
    loadLog rf2 (stateLog rf2) = Ok (Log_norm (lg sample_peer))"
proof -
  have "length (bcontent (ReadRaftState (rf_persister sample_peer))) < 2 ^ 63"
    unfolding sample_storage_length by simp
  from recovery[OF run_refl sample_ok this, of Raft_zero] show ?thesis by auto
qed

section \<open>Commitment\<close>

text \<open>
  C17. The commit rule: for an index of its log, the leader moves its commit index to it exactly if
  it is beyond the current one, its entry is of the current term or later, and more than half of
  the peers have matched it; nothing else changes.
\<close>

theorem commit_by_majority:
  assumes "raft_ok rf" "log_base (lg rf) \<le> unat n" "unat n \<le> log_last (lg rf)"
  shows "checkIfEntryShouldBeCommitted n rf = Ok
    (if commit_of rf < n \<and> term_of rf \<le> term_at (lg rf) n \<and>
        rf_peers rf div 2 < length (filter (\<lambda>m. n \<le> m) (matchIndex rf))
     then rf\<lparr>hardState := Some ((hs rf)\<lparr>Commit := n\<rparr>)\<rparr> else rf)"
proof -
  have ok: "peer_ok rf" "log_wf (lg rf)" using assms(1) by (auto simp: raft_ok_def)
  from EntryAt_term_at[OF ok(2) assms(2,3)] obtain e where
    "EntryAt (lg rf) n = Ok e" "Entry_Term e = term_at (lg rf) n" by blast
  then show ?thesis using ok(1)
    by (auto simp: checkIfEntryShouldBeCommitted_def commitEntryBeforeIndex_def not_le not_less)
qed

lemma commit_by_majority_witness:
  "\<exists>rf'. checkIfEntryShouldBeCommitted 2 (sample_leader\<lparr>matchIndex := [2, 2, 1]\<rparr>) = Ok rf' \<and> commit_of rf' = 2"
proof -
  have "raft_ok (sample_leader\<lparr>matchIndex := [2, 2, 1]\<rparr>)"
    using sample_leader_ok by (simp add: raft_ok_def leader_ok_def)
  from commit_by_majority[OF this, of 2] show ?thesis
    by (simp add: term_of_def commit_of_def term_at_def sample_log_view)
qed

text \<open>
  Application: as long as the peer is ahead with its commit index, \<open>k\<close> turns of the apply loop
  deliver the next \<open>k\<close> entries of the log, in order, without gap or repetition.
\<close>

theorem applies_in_order:
  assumes "raft_ok rf" "log_base (lg rf) \<le> unat (lastApplied rf)"
    "unat (lastApplied rf) + k \<le> unat (commit_of rf)" "unat (commit_of rf) \<le> log_last (lg rf)"
  shows "foldM_go (\<lambda>rf _. applyCommittedLogs_turn rf) rf (replicate k ()) = Ok (rf\<lparr>
      lastApplied := lastApplied rf + of_nat k,
      applied := applied rf @ map (\<lambda>n. command_msg (the (log_view (lg rf) n)))
        [unat (lastApplied rf) + 1..<unat (lastApplied rf) + k + 1]\<rparr>)"
  using assms by (rule apply_turns)

lemma applies_in_order_witness:
  "\<exists>rf'. applyCommittedLogs_turn sample_peer = Ok rf' \<and> map CommandIndex (applied rf') = [1]"
  using applies_in_order[OF sample_ok, of 1] by (auto simp: sample_log_view command_msg_def)

section \<open>Elections\<close>

text \<open>
  C26. Votes: a request of an older term is refused without effect. Any other one makes the peer a
  follower of the request's term with no vote recorded, and the vote is granted exactly if the
  candidate is number 0 (the value that stands for no vote) and its log is at least as up to date.
\<close>

theorem vote_rule:
  assumes ok: "raft_ok rf" and a: "RVArgs_Args args = Some a"
  shows "if Args_Term a < term_of rf
    then RequestVote_with (Some RequestVoteReply_zero) args rf =
      Ok (\<lparr>RVReply_Term = term_of rf, VoteGranted = False\<rparr>, rf)
    else \<exists>rf'. RequestVote_with (Some RequestVoteReply_zero) args rf =
        Ok (\<lparr>RVReply_Term = Args_Term a,
             VoteGranted = (CandidateID args = 0 \<and> (fst (last_id (lg rf)) < LastLogTerm args \<or>
               fst (last_id (lg rf)) = LastLogTerm args \<and> snd (last_id (lg rf)) \<le> LastLogIndex args))\<rparr>, rf') \<and>
      raft_ok rf' \<and> term_of rf' = Args_Term a \<and> voted_of rf' = 0 \<and> lg rf' = lg rf \<and>
      rf_state rf' = ServerStateFollower"
proof (cases "Args_Term a < term_of rf")
  case True
  then show ?thesis using ok a
    by (simp add: RequestVote_with_def setRejectRequestVoteReply_def raft_ok_def RequestVoteReply_zero_def)
next
  case False
  then have le: "term_of rf \<le> Args_Term a" by simp
  from convertToFollower_grows[OF ok le] obtain rf1 where
    1: "convertToFollower (Args_Term a) rf = Ok rf1" "grows rf rf1" "lg rf1 = lg rf" "term_of rf1 = Args_Term a"
      "voted_of rf1 = 0" "rf_state rf1 = ServerStateFollower" by blast
  let ?granted = "CandidateID args = 0 \<and> (fst (last_id (lg rf)) < LastLogTerm args \<or>
               fst (last_id (lg rf)) = LastLogTerm args \<and> snd (last_id (lg rf)) \<le> LastLogIndex args)"
  have pk: "peer_ok rf1" "peer_ok rf" "log_wf (lg rf)" "raft_ok rf1" "rf_state rf1 = ServerStateFollower" "leader_ok rf1"
    using 1 ok by (auto simp: grows_def raft_ok_def)
  let ?rf2 = "saved (rf1\<lparr>hardState := Some ((hs rf1)\<lparr>VotedFor := CandidateID args\<rparr>)\<rparr>)"
  have "RequestVote_with (Some RequestVoteReply_zero) args rf =
      Ok (\<lparr>RVReply_Term = Args_Term a, VoteGranted = ?granted\<rparr>, if ?granted then ?rf2 else rf1)"
    using False le a 1 pk(1-3)
    by (auto simp: RequestVote_with_def setRejectRequestVoteReply_def notUpToDate_spec RequestVoteReply_zero_def)
  moreover have "raft_ok ?rf2" using pk by (simp add: raft_ok_def)
  ultimately show ?thesis using False 1 pk
    by (auto simp: term_of_def voted_of_def)
qed

lemma vote_rule_witness:
  "\<exists>rf'. RequestVote_with (Some RequestVoteReply_zero)
     \<lparr>RVArgs_Args = Some \<lparr>Args_Term = 4, Args_Leader = 0\<rparr>, CandidateID = 2, LastLogIndex = 9, LastLogTerm = 9\<rparr> sample_peer =
     Ok (\<lparr>RVReply_Term = 4, VoteGranted = False\<rparr>, rf') \<and> term_of rf' = 4"
  using vote_rule[OF sample_ok, of "\<lparr>RVArgs_Args = Some \<lparr>Args_Term = 4, Args_Leader = 0\<rparr>, CandidateID = 2,
    LastLogIndex = 9, LastLogTerm = 9\<rparr>"] by auto

text \<open>
  No vote is ever counted: the client stub returns either a reply and no error or an error and
  a nil reply; the caller looks at the reply only in the error case, so a granted vote is dropped,
  and a failed call of a live election dereferences nil.
\<close>

theorem votes_are_dropped:
  "callRequestVote_receive ctxDone (raftRPCClient invoke args) rf =
     (if \<not> ctxDone \<and> invoke args = None then Panic NilDeref else Ok (None, rf))"
  by (simp add: callRequestVote_receive_def raftRPCClient_def split: option.splits)



text \<open>
  The quorum check can never succeed: even when every other peer answers, the count is the
  number of peers, and the check asks for more.
\<close>

theorem quorum_check_fails:
  assumes "length errs < rf_peers rf"
  shows "\<not> checkQuorum errs rf"
proof -
  have "length (filter (\<lambda>err. err \<noteq> Some ErrNoReply \<and> err \<noteq> Some ErrTimeout) errs) \<le> length errs"
    by (rule length_filter_le)
  with assms have "broadcastBeat errs \<le> rf_peers rf" unfolding broadcastBeat_def by linarith
  then show ?thesis by (simp add: checkQuorum_def)
qed

lemma quorum_check_fails_witness: "\<not> checkQuorum [None, None] sample_leader"
  by (rule quorum_check_fails) simp

text \<open>
  C38. Votes of an abandoned election still count: a peer that has meanwhile become the follower of
  a newer term is turned into the leader of that term by enough late replies to its old
  requests, since the conversion does not cancel the election and the count ignores terms.
\<close>

theorem late_votes_elect:
  assumes ok: "raft_ok rf" and small: "rf_peers rf < 2 ^ 63" and follower: "convertToFollower t rf = Ok rf1"
    and replies: "length replies = rf_peers rf div 2 + 1" "\<And>r. r \<in> set replies \<Longrightarrow> VoteGranted r"
  shows "\<exists>rf2. foldM_go (\<lambda>rf r. go_bind (receiveVote (Some r) rf) (\<lambda>(_, rf'). Ok rf')) rf1 replies = Ok rf2 \<and>
    rf_state rf1 = ServerStateFollower \<and> rf_state rf2 = ServerStateLeader \<and> term_of rf2 = t"
proof -
  let ?f = "\<lambda>rf r. go_bind (receiveVote (Some r) rf) (\<lambda>(_, rf'). Ok rf')"
  have pk: "peer_ok rf" "unat (rf_me rf) < rf_peers rf" using ok by (auto simp: raft_ok_def leader_ok_def)
  from convertToFollower_spec[OF pk(1), of t] follower have
    1: "peer_ok rf1" "hs rf1 = (hs rf)\<lparr>HardState_Term := t, VotedFor := 0\<rparr>" "rf_state rf1 = ServerStateFollower"
      "votes rf1 = 0" "rf_me rf1 = rf_me rf" "rf_peers rf1 = rf_peers rf" by auto
  have count: "foldM_go ?f rf1 rs = Ok (rf1\<lparr>votes := of_nat (length rs)\<rparr>)"
    if "length rs \<le> rf_peers rf div 2" "\<And>r. r \<in> set rs \<Longrightarrow> VoteGranted r" for rs
    using that
  proof (induction rs rule: rev_induct)
    case Nil
    show ?case using 1(4) by simp
  next
    case (snoc r rs)
    have "\<not> of_nat (rf_peers rf div 2) < (of_nat (length rs) + 1 :: uint64)"
      using snoc.prems(1) small by (intro not_more_votes) auto
    then show ?case using snoc 1(6) by (simp add: foldM_go_append receiveVote_def Let_def add.commute)
  qed
  from replies(1) obtain rs r where rs: "replies = rs @ [r]" "length rs = rf_peers rf div 2"
    by (cases replies rule: rev_cases) auto
  let ?rf = "rf1\<lparr>votes := of_nat (length rs)\<rparr>" and ?rf' = "rf1\<lparr>votes := of_nat (length rs) + 1\<rparr>"
  have "peer_ok ?rf'" "unat (rf_me ?rf') < rf_peers ?rf'" using 1 pk by simp_all
  from convertToLeader_spec[OF this] obtain rf2 where 2: "convertToLeader ?rf' = Ok rf2"
    "rf_state rf2 = ServerStateLeader" "hs rf2 = (hs rf1)\<lparr>VotedFor := 0\<rparr>" by auto
  have "of_nat (rf_peers rf div 2) < (of_nat (length rs) + 1 :: uint64)"
    unfolding rs(2) using small by (intro one_more_vote) auto
  then have "?f ?rf r = Ok rf2" using 2(1) 1(6) replies(2) rs by (simp add: receiveVote_def Let_def)
  then have "foldM_go ?f rf1 replies = Ok rf2"
    using count[of rs] replies(2) rs by (simp add: foldM_go_append)
  then show ?thesis using 1 2 by (simp add: term_of_def)
qed

lemma late_votes_elect_witness:
  "\<exists>rf1 rf2. convertToFollower 7 sample_peer = Ok rf1 \<and> rf_state rf1 = ServerStateFollower \<and>
    foldM_go (\<lambda>rf r. go_bind (receiveVote (Some r) rf) (\<lambda>(_, rf'). Ok rf')) rf1
      [\<lparr>RVReply_Term = 3, VoteGranted = True\<rparr>, \<lparr>RVReply_Term = 3, VoteGranted = True\<rparr>] = Ok rf2 \<and>
    rf_state rf2 = ServerStateLeader \<and> term_of rf2 = 7"
proof -
  obtain rf1 where 1: "convertToFollower 7 sample_peer = Ok rf1"
    using convertToFollower_spec[of sample_peer 7] sample_ok by (auto simp: raft_ok_def)
  from late_votes_elect[OF sample_ok _ 1, of "[\<lparr>RVReply_Term = 3, VoteGranted = True\<rparr>, \<lparr>RVReply_Term = 3, VoteGranted = True\<rparr>]"]
  show ?thesis using 1 by auto
qed

section \<open>Snapshots\<close>

text \<open>
  A snapshot the service took at an index of the log moves the log's boundary there with the
  term of the entry it replaces, keeps exactly the entries above, advances commit and applied
  index at least to it, and stores log and snapshot together.
\<close>

theorem snapshot_compacts:
  assumes ok: "raft_ok rf" and range: "log_base (lg rf) \<le> unat i" "unat i \<le> log_last (lg rf)"
  shows "\<exists>rf'. Raft_Snapshot i sn rf = Ok rf' \<and> raft_ok rf' \<and> term_of rf' = term_of rf \<and>
    commit_of rf' = max (commit_of rf) i \<and> lastApplied rf' = max (lastApplied rf) i \<and>
    IncludedIndex (lg rf') = i \<and> IncludedTerm (lg rf') = term_at (lg rf) i \<and>
    log_last (lg rf') = log_last (lg rf) \<and> log_view (lg rf') = log_view (lg rf) |` {unat i<..} \<and>
    ReadSnapshot (rf_persister rf') = Some (bcontent sn)"
  using assms by (rule snapshot_compacts_law)

lemma snapshot_compacts_witness:
  "\<exists>rf'. Raft_Snapshot 1 (Some [9]) sample_peer = Ok rf' \<and> IncludedIndex (lg rf') = 1 \<and> IncludedTerm (lg rf') = 1 \<and>
    ReadSnapshot (rf_persister rf') = Some [9]"
  using snapshot_compacts[OF sample_ok, of 1 "Some [9]"] by (auto simp: term_at_def sample_log_view)

text \<open>
  C28. A snapshot offered by the leader is refused exactly when the peer's own boundary is of a later term,
  or of the same term and not behind. Otherwise, if the snapshot ends below the boundary, the
  handler panics; if not, the boundary moves to it, the entries above are
  kept, the last applied index becomes the snapshot's, and log and snapshot are stored together. The commit
  index is not moved. The comment on the function asks for more, to switch only if Raft has no more recent info: neither
  the last applied nor the commit index is looked at, so a peer that has applied beyond the snapshot installs
  it too and moves its last applied index back.
\<close>

theorem cond_install_rule:
  assumes "raft_ok rf"
  shows "if t < IncludedTerm (lg rf) \<or> t = IncludedTerm (lg rf) \<and> i \<le> IncludedIndex (lg rf)
    then CondInstallSnapshot t i sn rf = Ok (False, rf)
    else if unat i < log_base (lg rf) then CondInstallSnapshot t i sn rf = Panic SliceOutOfRange
    else \<exists>rf'. CondInstallSnapshot t i sn rf = Ok (True, rf') \<and> raft_ok rf' \<and> hs rf' = hs rf \<and>
      lastApplied rf' = i \<and> IncludedIndex (lg rf') = i \<and> IncludedTerm (lg rf') = t \<and>
      log_view (lg rf') = log_view (lg rf) |` {unat i<..} \<and>
      ReadSnapshot (rf_persister rf') = Some (bcontent sn)"
proof (cases "unat i < log_base (lg rf)")
  case True
  have pk: "peer_ok rf" "log_wf (lg rf)" using assms by (auto simp: raft_ok_def)
  then show ?thesis using True CompactForSnapshot_spec[OF pk(2), of i t]
    by (auto simp: CondInstallSnapshot_def LastIncludedIndex_def LastIncludedTerm_def)
next
  case False
  then show ?thesis using cond_install_law[OF assms, of i t sn] by simp
qed

lemma cond_install_rule_witness:
  "\<exists>rf rf'. raft_ok rf \<and> lastApplied rf = 9 \<and> CondInstallSnapshot 5 8 (Some [9]) rf = Ok (True, rf') \<and>
     IncludedIndex (lg rf') = 8 \<and> lastApplied rf' = 8"
proof -
  let ?rf = "sample_peer\<lparr>lastApplied := 9\<rparr>"
  have ok: "raft_ok ?rf" using sample_ok by (simp add: raft_ok_def)
  from cond_install_rule[OF this, of 5 8 "Some [9]"] obtain rf' where
    "CondInstallSnapshot 5 8 (Some [9]) ?rf = Ok (True, rf')" "IncludedIndex (lg rf') = 8" "lastApplied rf' = 8" by auto
  moreover have "lastApplied ?rf = 9" by simp
  ultimately show ?thesis using ok by blast
qed

text \<open>
  C29. Snapshot transfer: the snapshot a leader offers, delivered to a follower that is behind and
  passed on by its service, is installed: same bytes, same boundary index. But the boundary term
  the follower records is the leader's boundary index, since the request carries the index in the
  place of the term.
\<close>

theorem snapshot_transfer:
  assumes L: "raft_ok L" and F: "raft_ok F" and terms: "term_of F \<le> term_of L"
    and behind: "IncludedIndex (lg F) < IncludedIndex (lg L)" "IncludedTerm (lg F) \<le> IncludedIndex (lg L)"
  shows "\<exists>args r F1 m F2. newInstallSnapshotArgs L = Ok args \<and>
    InstallSnapshot_with (Some InstallSnapshotReply_zero) args F = Ok (r, F1) \<and> applied F1 = applied F @ [m] \<and>
    CondInstallSnapshot (SnapshotTerm m) (SnapshotIndex m) (SnapshotBytes m) F1 = Ok (True, F2) \<and> raft_ok F2 \<and>
    ReadSnapshot (rf_persister F2) = ReadSnapshot (rf_persister L) \<and>
    IncludedIndex (lg F2) = IncludedIndex (lg L) \<and> IncludedTerm (lg F2) = IncludedIndex (lg L)"
proof -
  let ?i = "IncludedIndex (lg L)"
  let ?args = "\<lparr>ISArgs_Args = Some \<lparr>Args_Term = term_of L, Args_Leader = rf_me L\<rparr>,
           ISArgs_Snapshot = Some \<lparr>Snapshot_Metadata = Some \<lparr>Meta_Index = ?i, Meta_Term = ?i\<rparr>,
             Snapshot_Data = ReadSnapshot (rf_persister L)\<rparr>\<rparr>"
  let ?m = "\<lparr>CommandValid = False, Command = None, CommandIndex = 0, SnapshotValid = True,
     SnapshotBytes = ReadSnapshot (rf_persister L), SnapshotTerm = ?i, SnapshotIndex = ?i\<rparr>"
  have pk: "peer_ok L" "peer_ok F" using L F by (simp_all add: raft_ok_def)
  have args: "newInstallSnapshotArgs L = Ok ?args"
    using pk(1) by (simp add: newInstallSnapshotArgs_def LastIncludedIndex_def)
  obtain F0 where F0: "(if term_of F < term_of L then convertToFollower (term_of L) F else Ok F) = Ok F0"
    "raft_ok F0" "lg F0 = lg F" "applied F0 = applied F"
    using convertToFollower_spec[OF pk(2), of "term_of L"] convertToFollower_grows[OF F terms] F
    by (cases "term_of F < term_of L") (auto simp: grows_def)
  let ?F1 = "F0\<lparr>leaderId := rf_me L, applied := applied F @ [?m]\<rparr>"
  have F1: "InstallSnapshot_with (Some InstallSnapshotReply_zero) ?args F = Ok (InstallSnapshotReply_zero\<lparr>ISReply_Term := term_of F\<rparr>, ?F1)"
    using pk(2) terms F0 by (cases "term_of F < term_of L") (auto simp: InstallSnapshot_with_def Let_def)
  have ok1: "raft_ok ?F1" "lg ?F1 = lg F" using F0 by (auto simp: raft_ok_def)
  have nc: "\<not> (?i < IncludedTerm (lg ?F1) \<or> ?i = IncludedTerm (lg ?F1) \<and> ?i \<le> IncludedIndex (lg ?F1))"
    using behind ok1(2) by (simp add: not_less not_le)
  have fwd: "log_base (lg ?F1) \<le> unat ?i" using behind(1) ok1(2) by (simp add: log_base_def word_less_nat_alt)
  obtain F2 where F2: "CondInstallSnapshot ?i ?i (SnapshotBytes ?m) ?F1 = Ok (True, F2)" "raft_ok F2"
    "IncludedIndex (lg F2) = ?i" "IncludedTerm (lg F2) = ?i" "ReadSnapshot (rf_persister F2) = Some (bcontent (SnapshotBytes ?m))"
    using cond_install_law[OF ok1(1) fwd, of ?i "SnapshotBytes ?m"] unfolding if_not_P[OF nc] by blast
  have "ReadSnapshot (rf_persister F2) = ReadSnapshot (rf_persister L)"
    using F2(5) by (simp add: ReadSnapshot_def clone_def)
  with F2(1-4) have "CondInstallSnapshot (SnapshotTerm ?m) (SnapshotIndex ?m) (SnapshotBytes ?m) ?F1 = Ok (True, F2) \<and> raft_ok F2 \<and>
    ReadSnapshot (rf_persister F2) = ReadSnapshot (rf_persister L) \<and> IncludedIndex (lg F2) = ?i \<and> IncludedTerm (lg F2) = ?i" by simp
  moreover have "applied ?F1 = applied F @ [?m]" by simp
  ultimately show ?thesis using args F1 by blast
qed

definition sample_compacted :: Raft where
  "sample_compacted = (case Raft_Snapshot 2 (Some [9]) sample_leader of Ok rf \<Rightarrow> rf | Panic _ \<Rightarrow> sample_leader)"

lemma sample_compacted:
  "raft_ok sample_compacted" "IncludedIndex (lg sample_compacted) = 2" "IncludedTerm (lg sample_compacted) = 3"
  "term_of sample_compacted = 3" "commit_of sample_compacted = 2" "log_last (lg sample_compacted) = 2"
  "log_view (lg sample_compacted) n = None"
  using snapshot_compacts_law[OF sample_leader_ok, of 2 "Some [9]"]
  by (auto simp: sample_compacted_def term_at_def sample_log_view restrict_map_def)

lemma snapshot_transfer_witness:
  "\<exists>args r F1 m F2. newInstallSnapshotArgs sample_compacted = Ok args \<and>
    InstallSnapshot_with (Some InstallSnapshotReply_zero) args sample_peer = Ok (r, F1) \<and> applied F1 = [m] \<and>
    CondInstallSnapshot (SnapshotTerm m) (SnapshotIndex m) (SnapshotBytes m) F1 = Ok (True, F2) \<and>
    IncludedTerm (lg F2) = 2 \<and> IncludedTerm (lg sample_compacted) = 3"
  using snapshot_transfer[OF sample_compacted(1) sample_ok] by (simp add: sample_compacted) blast

text \<open>Looking up the commit index to adopt.\<close>

lemma followCommit_panics:
  assumes ok: "raft_ok rf"
  shows "if commit_of rf < LeaderCommit args \<and> LeaderCommit args < IncludedIndex (lg rf)
    then followCommit args reply rf = Panic IndexOutOfRange else \<exists>r rf'. followCommit args reply rf = Ok (r, rf')"
proof -
  have pk: "peer_ok rf" "log_wf (lg rf)" using ok by (auto simp: raft_ok_def)
  let ?c = "LeaderCommit args"
  from LastEntry_index[OF pk(2)] obtain le where le: "LastEntry (lg rf) = Ok le" "Entry_Index le = of_nat (log_last (lg rf))" by blast
  have b: "log_base (lg rf) \<le> log_last (lg rf)" by (rule raftLog.base_le_last)
  consider "\<not> commit_of rf < ?c" | "commit_of rf < ?c" "?c < IncludedIndex (lg rf)" | "commit_of rf < ?c" "\<not> ?c < IncludedIndex (lg rf)" by blast
  then show ?thesis
  proof cases
    case 1
    then show ?thesis using pk by (simp add: followCommit_def commit_of_def)
  next
    case 2
    have "?c < of_nat (log_last (lg rf))"
      using 2(2) b by (simp only: word_less_nat_alt unat_of_log_last[OF pk(2)] log_base_def)
    then have ci: "goMin ?c (Entry_Index le) = ?c" using le(2) by (simp add: goMin_def)
    have "?c \<noteq> 0" "log_view (lg rf) (unat ?c) = None"
      using 2 by (auto simp: log_view_def log_base_def word_less_nat_alt)
    then have "EntryAt (lg rf) ?c = Panic IndexOutOfRange"
      using 2(2) by (simp add: EntryAt_view[OF pk(2)])
    then show ?thesis using pk 2 le ci by (simp add: followCommit_def Let_def commit_of_def)
  next
    case 3
    let ?ci = "goMin ?c (of_nat (log_last (lg rf)))"
    have u: "unat ?ci = min (unat ?c) (log_last (lg rf))"
      by (simp only: unat_goMin unat_of_log_last[OF pk(2)])
    have "log_base (lg rf) \<le> unat ?ci" "unat ?ci \<le> log_last (lg rf)" using 3(2) b less_base_iff[of ?c "lg rf"] by (auto simp: u)
    from EntryAt_term_at[OF pk(2) this] obtain e where e: "EntryAt (lg rf) ?ci = Ok e" by blast
    from commitEntryBeforeIndex_spec[OF ok, of ?ci] obtain rf1 where "commitEntryBeforeIndex ?ci rf = Ok rf1" by blast
    then show ?thesis using pk 3 le e by (simp add: followCommit_def Let_def commit_of_def)
  qed
qed

text \<open>
  C40. An AppendEntries whose previous entry matches, of a term that is not older, with consecutive entries, panics
  exactly when the leader's commit index lies above the follower's own and below its snapshot boundary: the
  commit index to adopt is then an index the log no longer has. A commit index below the boundary is what
  installing a snapshot leaves, since it does not move the commit index.
\<close>

theorem commit_below_snapshot_panics:
  assumes ok: "raft_ok rf" and a: "AEArgs_Args args = Some a" "term_of rf \<le> Args_Term a"
    and es: "AEArgs_Entries args = map Some es" "batch_at (unat (PrevLogIndex args)) es"
    and prev: "log_base (lg rf) \<le> unat (PrevLogIndex args)" "unat (PrevLogIndex args) \<le> log_last (lg rf)"
      "term_at (lg rf) (PrevLogIndex args) = PrevLogTerm args"
  shows "if commit_of rf < LeaderCommit args \<and> LeaderCommit args < IncludedIndex (lg rf)
    then AppendEntries_with (Some r0) args rf = Panic IndexOutOfRange
    else \<exists>r rf'. AppendEntries_with (Some r0) args rf = Ok (r, rf')"
proof -
  from AppendEntries_until_commit[OF assms, of r0] obtain rf4 where
    4: "AppendEntries_with (Some r0) args rf = followCommit args (r0\<lparr>AEReply_Term := term_of rf\<rparr>) rf4" "raft_ok rf4"
      "commit_of rf4 = commit_of rf" "log_base (lg rf4) = log_base (lg rf)" by (auto simp: grows_def merged_def)
  have base: "IncludedIndex (lg rf4) = IncludedIndex (lg rf)" using 4(4) by (simp add: log_base_def word_unat_eq_iff)
  show ?thesis
    using followCommit_panics[OF 4(2), of args "r0\<lparr>AEReply_Term := term_of rf\<rparr>"] unfolding 4(1,3) base .
qed

lemma commit_below_snapshot_panics_witness:
  "\<exists>rf. CondInstallSnapshot 5 8 (Some [9]) sample_peer = Ok (True, rf) \<and>
    AppendEntries_with (Some AppendEntriesReply_zero) \<lparr>AEArgs_Args = Some \<lparr>Args_Term = 3, Args_Leader = 2\<rparr>,
      AEArgs_Entries = [], CommitTerm = 4, LeaderCommit = 5, PrevLogIndex = 8, PrevLogTerm = 5\<rparr> rf = Panic IndexOutOfRange"
proof -
  from cond_install_law[OF sample_ok, of 8 5 "Some [9]"] obtain rf where
    1: "CondInstallSnapshot 5 8 (Some [9]) sample_peer = Ok (True, rf)" "raft_ok rf" "hs rf = hs sample_peer"
      "IncludedIndex (lg rf) = 8" "IncludedTerm (lg rf) = 5" by auto
  have last: "8 \<le> log_last (lg rf)" "log_base (lg rf) = 8" using 1(4) by (simp_all add: log_last_def log_base_def)
  let ?args = "\<lparr>AEArgs_Args = Some \<lparr>Args_Term = 3, Args_Leader = 2\<rparr>,
      AEArgs_Entries = [], CommitTerm = 4, LeaderCommit = 5, PrevLogIndex = 8, PrevLogTerm = 5\<rparr>"
  have "if commit_of rf < LeaderCommit ?args \<and> LeaderCommit ?args < IncludedIndex (lg rf)
    then AppendEntries_with (Some AppendEntriesReply_zero) ?args rf = Panic IndexOutOfRange
    else \<exists>r rf'. AppendEntries_with (Some AppendEntriesReply_zero) ?args rf = Ok (r, rf')"
    by (rule commit_below_snapshot_panics[OF 1(2), where a = "\<lparr>Args_Term = 3, Args_Leader = 2\<rparr>" and es = "[]"])
      (simp_all add: 1 last term_at_def term_of_def batch_at_def)
  then show ?thesis using 1 by (auto simp: commit_of_def)
qed

section \<open>Start-up and crashes\<close>

text \<open>
  Construction never succeeds: once the connections are made, the first assignment through the
  nil \<^verbatim>\<open>HardState\<close> pointer panics.
\<close>

theorem make_panics:
  "Make dial peersAddr me ps =
     (if None \<in> set (map dial peersAddr) then Ok (Inl ErrMakeRaft) else Panic NilDeref)"
proof -
  have "makePeers dial peersAddr = None \<longleftrightarrow> None \<in> set (map dial peersAddr)"
    unfolding makePeers_def by (induction peersAddr) (auto split: option.splits)
  then show ?thesis by (auto simp: Make_def setCommit_def Raft_zero_def split: option.splits)
qed

text \<open>
  The three remote handlers as written: the reply they write to is a named result that was
  never allocated, so each of them panics, whatever the request.
\<close>

theorem handlers_panic:
  assumes "raft_ok rf"
  shows "AppendEntries aargs rf = Panic NilDeref \<and> RequestVote vargs rf = Panic NilDeref \<and>
    InstallSnapshot sargs rf = Panic NilDeref"
  by (simp add: nil_reply[OF assms])

lemma handlers_panic_witness:
  "AppendEntries AppendEntriesArgs_zero sample_peer = Panic NilDeref"
  using handlers_panic[OF sample_ok] by blast

text \<open>
  C39. A stale ticker takes the peer back in time: a ticker of term \<open>t\<close> that fires starts an election
  of term \<open>t + 1\<close>, and the election sets that term without comparing it with the current one.
\<close>

theorem stale_ticker_lowers_term:
  assumes "raft_ok rf" "\<not> rf_dead rf" "t + 1 < term_of rf"
  shows "\<exists>rf'. LaunchElection (t + 1) \<in> set (spawned (snd (ticker_turn t TimerFired rf))) \<and>
    launchElection (t + 1) (snd (ticker_turn t TimerFired rf)) = Ok rf' \<and>
    term_of rf' = t + 1 \<and> term_of rf' < term_of rf \<and> rf_state rf' = ServerStateCandidate"
proof -
  let ?rf = "snd (ticker_turn t TimerFired rf)"
  have "?rf = spawn (LaunchElection (t + 1)) rf" using assms(2) by (simp add: ticker_turn_def killed_def)
  moreover have "raft_ok ?rf" using ticker_turn_grows[OF assms(1)] by (simp add: grows_def)
  ultimately show ?thesis
    using launchElection_spec[of ?rf "t + 1"] assms(3) by (auto simp: spawn_def term_of_def)
qed

lemma stale_ticker_lowers_term_witness:
  "\<exists>rf'. launchElection 2 (snd (ticker_turn 1 TimerFired sample_peer)) = Ok rf' \<and> term_of rf' < term_of sample_peer"
proof -
  have "\<not> rf_dead sample_peer" by (simp add: sample_peer_def saved_def Raft_zero_def)
  from stale_ticker_lowers_term[OF sample_ok this, of 1] show ?thesis by auto
qed

section \<open>The log on its own\<close>

text \<open>
  Lookup: index 0 is the empty entry, the boundary index the boundary's term without data, an
  index of the log its entry, and any other index (trimmed or beyond the end) an index panic.
\<close>

theorem EntryAt_total:
  assumes "log_wf l"
  shows "EntryAt l i =
    (if i = 0 then Ok Entry_zero
     else if i = IncludedIndex l
       then Ok \<lparr>Entry_Term = IncludedTerm l, Entry_Index = IncludedIndex l, Entry_Data = None\<rparr>
     else case log_view l (unat i) of Some e \<Rightarrow> Ok e | None \<Rightarrow> Panic IndexOutOfRange)"
  using assms by (rule EntryAt_view)

lemma EntryAt_total_witness:
  "EntryAt (lg sample_peer) 2 = Ok \<lparr>Entry_Term = 3, Entry_Index = 2, Entry_Data = Some [8]\<rparr> \<and>
   EntryAt (lg sample_peer) 3 = Panic IndexOutOfRange"
proof -
  have "log_wf (lg sample_peer)" using sample_ok by (simp add: raft_ok_def)
  then show ?thesis by (simp add: EntryAt_total sample_log_view)
qed

text \<open>
  Searching the last entry of a term: on a log with sorted terms the function never returns an
  entry of the term it is asked for. It returns the first entry of a later term when the term
  occurs and is not the last one of the log, and nil otherwise.
\<close>

theorem last_entry_of_term:
  assumes "log_wf l" "terms_sorted l"
  shows "\<exists>r. LastEntryAtTerm l t = Ok r \<and>
    (case r of
       None \<Rightarrow> (\<forall>n e. log_view l n = Some e \<longrightarrow> Entry_Term e \<noteq> t) \<or>
               (\<forall>n e. log_view l n = Some e \<longrightarrow> Entry_Term e \<le> t)
     | Some e \<Rightarrow> t < Entry_Term e \<and> log_view l (unat (Entry_Index e)) = Some e \<and>
         (\<exists>e'. log_view l (unat (Entry_Index e) - 1) = Some e' \<and> Entry_Term e' = t))"
  using assms by (rule LastEntryAtTerm_spec)

lemma last_entry_of_term_witness:
  "\<exists>r. LastEntryAtTerm (lg sample_peer) 3 = Ok r \<and> (r = None \<or> 3 < Entry_Term (the r))"
proof -
  have "log_wf (lg sample_peer)" "terms_sorted (lg sample_peer)"
    using sample_ok by (simp add: raft_ok_def, simp add: terms_sorted_def sample_lg sample_entries_def slot_term_def)
  from last_entry_of_term[OF this, of 3] obtain r where
    "LastEntryAtTerm (lg sample_peer) 3 = Ok r" "\<forall>e. r = Some e \<longrightarrow> 3 < Entry_Term e"
    by (auto split: option.splits)
  then show ?thesis by (cases r) auto
qed

end
