(* ===== verification/Codec_Properties.thy ===== *)
theory Codec_Properties
  imports Raft_Codec
begin

text \<open>
  Properties of the generated marshalling code, over the laws of theories Wire_Laws and
  Message_Codec and the interpretations of theory Raft_Codec.
\<close>

section \<open>Varints\<close>

text \<open>
  Varint round trip: encoding a number into the space of its computed size before an offset
  writes nothing else, returns the start of the encoding, and reading from there gives the number
  back and stops exactly at the offset.
\<close>

theorem varint_round_trip:
  assumes "length junk = sov v"
  shows "\<exists>dAtA. encodeVarint (pre @ junk @ suf) (int (length pre + length junk)) v = Ok (dAtA, int (length pre)) \<and>
    length dAtA = length (pre @ junk @ suf) \<and> take (length pre) dAtA = pre \<and>
    drop (length pre + length junk) dAtA = suf \<and>
    readVarint dAtA (int (length pre)) 0 (0 :: uint64) = (v, Inr (int (length pre + length junk)))"
proof -
  have l: "length junk = length (varint (unat v))" using assms by (simp add: sov_length)
  show ?thesis
    using encodeVarint_eq[OF l, of pre suf] readVarint_word[of pre v suf, where 'a = 64] l
    by (intro exI[of _ "pre @ varint (unat v) @ suf"]) simp
qed

lemma varint_round_trip_witness:
  "\<exists>dAtA. encodeVarint [9, 0, 0, 8] 3 300 = Ok (dAtA, 1) \<and> readVarint dAtA 1 0 (0 :: uint64) = (300, Inr 3)"
proof -
  have "length [0, 0 :: byte] = sov 300" by (simp add: sov_length varint.simps)
  from varint_round_trip[OF this, of "[9]" "[8]"] show ?thesis by auto
qed

text \<open>The length of a varint: one byte for every seven bits, and no more.\<close>

lemma varint_length_bounds:
  "n < 128 ^ length (varint n) \<and> (length (varint n) = 1 \<or> 128 ^ (length (varint n) - 1) \<le> n)"
proof (induction n rule: varint.induct)
  case (1 n)
  show ?case
  proof (cases "n < 128")
    case True
    then show ?thesis by (subst (1 2 3) varint.simps) simp
  next
    case False
    let ?k = "length (varint (n div 128))"
    have IH: "n div 128 < 128 ^ ?k" "?k = 1 \<or> 128 ^ (?k - 1) \<le> n div 128" using 1 False by simp_all
    have len: "length (varint n) = Suc ?k" using False by (subst varint.simps) simp
    have "n < 128 * 128 ^ ?k" using IH(1) by (simp add: div_less_iff_less_mult mult.commute)
    moreover have "128 ^ ?k \<le> n"
    proof (cases "?k = 1")
      case True
      then show ?thesis using False by simp
    next
      case k: False
      then have "128 ^ ?k = 128 * 128 ^ (?k - 1)"
        by (metis One_nat_def Suc_pred length_greater_0_conv power_Suc varint_not_Nil)
      also have "\<dots> \<le> 128 * (n div 128)" using IH(2) k by simp
      also have "\<dots> \<le> n" by simp
      finally show ?thesis .
    qed
    ultimately show ?thesis using len by simp
  qed
qed

text \<open>
  C32. The size function of varints is exact: it gives the least number of bytes, at least one, that hold the value
  with seven bits each, and ten bytes at most for a 64-bit value.
\<close>

theorem sov_bounds:
  "1 \<le> sov v \<and> sov v \<le> 10 \<and> unat v < 128 ^ sov v \<and> (sov v = 1 \<or> 128 ^ (sov v - 1) \<le> unat v)"
proof -
  have "sov v \<le> 10" unfolding sov_length using unat_less_64[of v] by (rule length_varint_le)
  then show ?thesis using varint_length_bounds[of "unat v"] by (simp add: sov_length Suc_le_eq)
qed

lemma sov_bounds_witness: "sov 127 = 1 \<and> sov 128 = 2"
proof
  have "1 \<le> sov 127 \<and> (sov 127 = 1 \<or> 128 ^ (sov 127 - 1) \<le> (127 :: nat))" using sov_bounds[of 127] by simp
  moreover have "128 \<le> (128 :: nat) ^ (sov 127 - 1)" if "sov 127 \<noteq> 1" "1 \<le> sov 127"
    using power_increasing[of 1 "sov 127 - 1" "128 :: nat"] that by simp
  ultimately show "sov 127 = 1" by fastforce
  have "1 \<le> sov 128 \<and> 128 < (128 :: nat) ^ sov 128 \<and> (sov 128 = 1 \<or> 128 ^ (sov 128 - 1) \<le> (128 :: nat))" using sov_bounds[of 128] by simp
  moreover have "128 * 128 \<le> (128 :: nat) ^ (sov 128 - 1)" if "3 \<le> sov 128"
    using power_increasing[of 2 "sov 128 - 1" "128 :: nat"] that by simp
  moreover have "sov 128 = 1 \<or> sov 128 = 2 \<or> 3 \<le> sov 128" using calculation by linarith
  ultimately show "sov 128 = 2" by auto
qed

section \<open>Messages\<close>

text \<open>
  The persistent state survives its encoding: marshalling a state without nil entries gives
  bytes of the computed size, and unmarshalling these bytes gives the state back, with empty
  command data normalised to nil.
\<close>

theorem RaftState_round_trip:
  assumes "case RaftState_Log s of None \<Rightarrow> True | Some l \<Rightarrow> None \<notin> set (Log_Entries l)"
    "RaftState_Size (Some s) < 2 ^ 63"
  shows "\<exists>bs. RaftState_Marshal (Some s) = Ok bs \<and> length bs = RaftState_Size (Some s) \<and>
    RaftState_Unmarshal RaftState_zero bs = (RaftState_norm s, None)"
proof -
  have ok: "RaftState_ok s" using assms(1) by (simp add: RaftState_ok_def Log_ok_def split: option.splits)
  have "RaftState_Unmarshal RaftState_zero (RaftState_enc s) = (RaftState_norm s, None)"
    unfolding RaftState_Unmarshal_def using ok assms(2) by (intro RaftState_pb.unmarshal_enc) (simp_all add: RaftState_size)
  moreover have "RaftState_Marshal (Some s) = Ok (RaftState_enc s)"
    unfolding RaftState_Marshal_def using ok by (rule RaftState_pb.marshal)
  ultimately show ?thesis using RaftState_size[OF ok] by auto
qed

definition sample_state :: RaftState where
  "sample_state = \<lparr>RaftState_HardState = Some \<lparr>HardState_Term = 300, VotedFor = 0, Commit = 1\<rparr>,
     RaftState_Log = Some \<lparr>Log_Entries = [Some \<lparr>Entry_Term = 2, Entry_Index = 1, Entry_Data = Some [7, 8]\<rparr>],
       IncludedIndex = 0, IncludedTerm = 0\<rparr>\<rparr>"

lemma RaftState_round_trip_witness:
  "\<exists>bs. RaftState_Marshal (Some sample_state) = Ok bs \<and> length bs = 19 \<and>
     RaftState_Unmarshal RaftState_zero bs = (RaftState_norm sample_state, None)"
proof -
  have sz: "RaftState_Size (Some sample_state) = 19" by code_simp
  show ?thesis using RaftState_round_trip[of sample_state] unfolding sz by (simp add: sample_state_def)
qed

text \<open>
  The replication request survives the wire: what the leader marshals, also into the middle of
  a larger buffer, is what the follower unmarshals.
\<close>

theorem AppendEntriesArgs_round_trip:
  assumes "None \<notin> set (AEArgs_Entries m)" "AppendEntriesArgs_Size (Some m) < 2 ^ 63"
    "AppendEntriesArgs_Size (Some m) \<le> length dAtA"
  shows "\<exists>bs. AppendEntriesArgs_Marshal (Some m) = Ok bs \<and> length bs = AppendEntriesArgs_Size (Some m) \<and>
    AppendEntriesArgs_MarshalTo (Some m) dAtA = Ok (bs @ drop (length bs) dAtA, int (length bs)) \<and>
    AppendEntriesArgs_Unmarshal AppendEntriesArgs_zero bs = (AppendEntriesArgs_norm m, None)"
proof -
  have ok: "AppendEntriesArgs_ok m" using assms(1) by (simp add: AppendEntriesArgs_ok_def)
  note size = AppendEntriesArgs_size[OF ok]
  have "AppendEntriesArgs_Unmarshal AppendEntriesArgs_zero (AppendEntriesArgs_enc m) = (AppendEntriesArgs_norm m, None)"
    unfolding AppendEntriesArgs_Unmarshal_def using ok assms(2) by (intro AppendEntriesArgs_pb.unmarshal_enc) (simp_all add: size)
  moreover have "AppendEntriesArgs_Marshal (Some m) = Ok (AppendEntriesArgs_enc m)"
    unfolding AppendEntriesArgs_Marshal_def using ok by (rule AppendEntriesArgs_pb.marshal)
  moreover have "AppendEntriesArgs_MarshalTo (Some m) dAtA =
      Ok (AppendEntriesArgs_enc m @ drop (length (AppendEntriesArgs_enc m)) dAtA, int (length (AppendEntriesArgs_enc m)))"
    unfolding AppendEntriesArgs_MarshalTo_def using ok assms(3) by (intro AppendEntriesArgs_pb.marshalTo) (simp_all add: size)
  ultimately show ?thesis using size by auto
qed

lemma AppendEntriesArgs_round_trip_witness:
  "\<exists>bs. AppendEntriesArgs_Marshal (Some (AppendEntriesArgs_zero\<lparr>AEArgs_Entries := [Some Entry_zero], PrevLogIndex := 5\<rparr>)) = Ok bs \<and>
     fst (AppendEntriesArgs_Unmarshal AppendEntriesArgs_zero bs) =
       AppendEntriesArgs_zero\<lparr>AEArgs_Entries := [Some Entry_zero], PrevLogIndex := 5\<rparr>"
proof -
  let ?m = "AppendEntriesArgs_zero\<lparr>AEArgs_Entries := [Some Entry_zero], PrevLogIndex := 5\<rparr>"
  have sz: "AppendEntriesArgs_Size (Some ?m) = 4" by code_simp
  have norm: "AppendEntriesArgs_norm ?m = ?m"
    by (simp add: AppendEntriesArgs_norm_def AppendEntriesArgs_zero_def Entry_norm_def Entry_zero_def normBytes_def)
  show ?thesis
    using AppendEntriesArgs_round_trip[of ?m "replicate 4 0"] unfolding sz norm by (auto simp: AppendEntriesArgs_zero_def)
qed

text \<open>
  The decoders return on every input: on any bytes shorter than \<open>2 ^ 63\<close> the decoding loop of the
  persistent state, of the replication request and of the snapshot request makes progress in each
  iteration (with the wrapped length arithmetic of the code), so it ends, and any error is one of
  the errors of the source.
\<close>

theorem decoders_total:
  assumes "length bs < 2 ^ 63"
  shows "snd (RaftState_Unmarshal s bs) \<noteq> Some ErrNoProgress \<and>
    snd (AppendEntriesArgs_Unmarshal a bs) \<noteq> Some ErrNoProgress \<and>
    snd (InstallSnapshotArgs_Unmarshal i bs) \<noteq> Some ErrNoProgress"
  unfolding RaftState_Unmarshal_def AppendEntriesArgs_Unmarshal_def InstallSnapshotArgs_Unmarshal_def
  using RaftState_pb.total[OF assms] AppendEntriesArgs_pb.total[OF assms] InstallSnapshotArgs_pb.total[OF assms] by blast

lemma decoders_total_witness: "snd (RaftState_Unmarshal RaftState_zero [0xff, 0xff]) \<noteq> Some ErrNoProgress"
  using decoders_total[of "[0xff, 0xff]"] by simp

end
