(* ===== verification/Session.thy ===== *)
theory Session
  imports Go_Prelude "HOL-Library.Sublist"
begin

text \<open>
  Client sessions, src/session/session.go: the table of sessions a server keeps, with the number of
  the last request it has processed for each client and that request's response, and the client's
  side, which numbers its requests.

  \<^verbatim>\<open>types.Any\<close> and the conversions \<^verbatim>\<open>types.MarshalAny\<close> and \<^verbatim>\<open>types.UnmarshalAny\<close> are code of another
  module: the type of stored responses is the parameter \<open>'any\<close> and the conversions are arguments.
  \<^verbatim>\<open>proto.Clone\<close> is a copy, which is the identity on values. A Go map is iterated in some order: the
  entries in that order are a list argument.

  The contract that makes the services execute every request at most once is the locale
  \<open>session_table\<close>; its client part is proved once and interpreted here on the operations below.
\<close>

section \<open>Data\<close>

record SessionHeader =
  Header_ID :: int64
  Header_Seq :: uint64

text \<open>\<^verbatim>\<open>sessionpb.ServerSession\<close>, and \<^verbatim>\<open>session.ServerSession\<close>, which holds a pointer to one.\<close>

record 'any PbServerSession =
  Session_ID :: int64
  Session_ProcessedSeq :: uint64
  LastResponse :: "'any option"

datatype 'any ServerSession = ServerSession (pbSession: "'any PbServerSession option")

text \<open>\<open>sm_mu\<close> says whether the pointer to the lock is set.\<close>

record 'any SessionMap =
  sm_Map :: "int64 \<rightharpoonup> 'any ServerSession option"
  sm_mu :: bool

datatype 'e session_error = ErrDuplicateSession | ErrReturned | ErrAny 'e

section \<open>Sessions\<close>

definition NewServerSession :: "int64 \<Rightarrow> 'any ServerSession" where
  "NewServerSession sid =
     ServerSession (Some \<lparr>Session_ID = sid, Session_ProcessedSeq = 0, LastResponse = None\<rparr>)"

definition NewServerSessionFrom :: "'any PbServerSession option \<Rightarrow> 'any ServerSession" where
  "NewServerSessionFrom s = ServerSession s"

definition ProcessedSeq :: "'any ServerSession option \<Rightarrow> uint64 go" where
  "ProcessedSeq p =
     go_bind (deref p) (\<lambda>s. go_bind (deref (pbSession s)) (\<lambda>pb. Ok (Session_ProcessedSeq pb)))"

definition session_ProtoMessage :: "'any ServerSession option \<Rightarrow> 'any PbServerSession option go" where
  "session_ProtoMessage p = go_bind (deref p) (\<lambda>s. Ok (pbSession s))"

definition session_deepCopy :: "'any ServerSession option \<Rightarrow> 'any ServerSession go" where
  "session_deepCopy p = go_bind (deref p) (\<lambda>s. Ok (NewServerSessionFrom (pbSession s)))"

text \<open>
  \<^verbatim>\<open>UnmarshalAny\<close> receives the nil message by value and cannot change the caller's variable: the
  parameter gives its error for a stored response and a message to fill.
\<close>

definition getResponse ::
  "('any option \<Rightarrow> 'm option \<Rightarrow> 'e option) \<Rightarrow> uint64 \<Rightarrow> 'any ServerSession option
    \<Rightarrow> ('m option \<times> 'e session_error option) go" where
  "getResponse unmarshalAny num p =
     go_bind (deref p) (\<lambda>s. go_bind (deref (pbSession s)) (\<lambda>pb.
       if num \<noteq> Session_ProcessedSeq pb then Ok (None, Some ErrReturned)
       else (let resp = None in
             case unmarshalAny (LastResponse pb) resp of
               Some e \<Rightarrow> Ok (None, Some (ErrAny e))
             | None \<Rightarrow> Ok (resp, None))))"

definition setResponse ::
  "('m \<Rightarrow> 'any option \<times> 'e option) \<Rightarrow> uint64 \<Rightarrow> 'm \<Rightarrow> 'any ServerSession option
    \<Rightarrow> ('any ServerSession \<times> 'e session_error option) go" where
  "setResponse marshalAny num resp p =
     go_bind (deref p) (\<lambda>s. go_bind (deref (pbSession s)) (\<lambda>pb.
       if num < Session_ProcessedSeq pb then Panic (LogPanic ''should not set a processed request'')
       else case marshalAny resp of
         (lastAny, err) \<Rightarrow> Ok (ServerSession (Some (pb\<lparr>Session_ProcessedSeq := num, LastResponse := lastAny\<rparr>)),
                         map_option ErrAny err)))"

section \<open>The session table\<close>

definition NewSessionMap :: "'any SessionMap" where
  "NewSessionMap = \<lparr>sm_Map = Map.empty, sm_mu = True\<rparr>"

text \<open>Taking the lock dereferences its pointer.\<close>

definition withLock :: "'any SessionMap \<Rightarrow> 'a go \<Rightarrow> 'a go" where
  "withLock s body = (if sm_mu s then body else Panic NilDeref)"

definition getSession :: "'any SessionMap \<Rightarrow> int64 \<Rightarrow> 'any ServerSession option" where
  "getSession s sid = (case sm_Map s sid of None \<Rightarrow> None | Some session \<Rightarrow> session)"

definition CreateSession ::
  "int64 \<Rightarrow> 'any SessionMap \<Rightarrow> (('any ServerSession option \<times> 'e session_error option) \<times> 'any SessionMap) go" where
  "CreateSession sid s = withLock s
     (case sm_Map s sid of
        Some _ \<Rightarrow> Ok ((None, Some ErrDuplicateSession), s)
      | None \<Rightarrow> Ok ((Some (NewServerSession sid), None),
                 s\<lparr>sm_Map := (sm_Map s)(sid \<mapsto> Some (NewServerSession sid))\<rparr>))"

definition SetSession :: "int64 \<Rightarrow> 'any ServerSession option \<Rightarrow> 'any SessionMap \<Rightarrow> 'any SessionMap go" where
  "SetSession sid session s = withLock s (Ok (s\<lparr>sm_Map := (sm_Map s)(sid \<mapsto> session)\<rparr>))"

definition HasSession :: "int64 \<Rightarrow> 'any SessionMap \<Rightarrow> bool go" where
  "HasSession sid s = withLock s (Ok (sm_Map s sid \<noteq> None))"

definition IsDuplicate :: "SessionHeader option \<Rightarrow> 'any SessionMap \<Rightarrow> bool go" where
  "IsDuplicate request s = withLock s
     (go_bind (deref request) (\<lambda>h.
        case getSession s (Header_ID h) of
          None \<Rightarrow> Ok False
        | Some session \<Rightarrow> go_bind (ProcessedSeq (Some session)) (\<lambda>seq. Ok (Header_Seq h \<le> seq))))"

definition GetResponse ::
  "('any option \<Rightarrow> 'm option \<Rightarrow> 'e option) \<Rightarrow> SessionHeader option \<Rightarrow> 'any SessionMap
    \<Rightarrow> ('m option \<times> 'e session_error option) go" where
  "GetResponse unmarshalAny request s = withLock s
     (go_bind (deref request) (\<lambda>h. getResponse unmarshalAny (Header_Seq h) (getSession s (Header_ID h))))"

definition SetResponse ::
  "('m \<Rightarrow> 'any option \<times> 'e option) \<Rightarrow> SessionHeader option \<Rightarrow> 'm \<Rightarrow> 'any SessionMap
    \<Rightarrow> ('e session_error option \<times> 'any SessionMap) go" where
  "SetResponse marshalAny request resp s = withLock s
     (go_bind (deref request) (\<lambda>h.
      go_bind (setResponse marshalAny (Header_Seq h) resp (getSession s (Header_ID h))) (\<lambda>(session, err).
        Ok (err, s\<lparr>sm_Map := (sm_Map s)(Header_ID h \<mapsto> Some session)\<rparr>))))"

definition ResetLock :: "'any SessionMap \<Rightarrow> 'any SessionMap" where
  "ResetLock s = s\<lparr>sm_mu := True\<rparr>"

definition HaveProcessed :: "SessionHeader \<Rightarrow> 'any SessionMap \<Rightarrow> bool go" where
  "HaveProcessed request s = withLock s
     (go_bind (HasSession (Header_ID request) s) (\<lambda>has.
        if \<not> has then Ok False
        else go_bind (ProcessedSeq (getSession s (Header_ID request))) (\<lambda>seq.
               Ok (Header_Seq request \<le> seq))))"

text \<open>The body of the loop of \<^verbatim>\<open>Merge\<close> for one session of the other table, and the loop.\<close>

definition mergeOne :: "'any SessionMap \<Rightarrow> int64 \<times> 'any PbServerSession option \<Rightarrow> 'any SessionMap go" where
  "mergeOne s kv =
     (case kv of (clientID, session) \<Rightarrow>
        let install = s\<lparr>sm_Map := (sm_Map s)(clientID \<mapsto> Some (NewServerSessionFrom session))\<rparr> in
        case getSession s clientID of
          None \<Rightarrow> Ok install
        | Some local \<Rightarrow>
            go_bind (ProcessedSeq (Some local)) (\<lambda>seq.
            go_bind (deref session) (\<lambda>pb.
              Ok (if seq < Session_ProcessedSeq pb then install else s))))"

definition Merge :: "(int64 \<times> 'any PbServerSession option) list \<Rightarrow> 'any SessionMap \<Rightarrow> 'any SessionMap go" where
  "Merge from s = withLock s (foldM_go mergeOne s from)"

text \<open>Copies of the whole table; a nil session in it is dereferenced.\<close>

definition sm_ProtoMessage :: "'any SessionMap \<Rightarrow> (int64 \<rightharpoonup> 'any PbServerSession option) go" where
  "sm_ProtoMessage s = withLock s
     (if None \<in> ran (sm_Map s) then Panic NilDeref
      else Ok (\<lambda>sid. map_option (\<lambda>p. pbSession (the p)) (sm_Map s sid)))"

definition sm_DeepCopy :: "'any SessionMap \<Rightarrow> 'any SessionMap go" where
  "sm_DeepCopy s =
     (if None \<in> ran (sm_Map s) then Panic NilDeref
      else Ok \<lparr>sm_Map = (\<lambda>sid. map_option (\<lambda>p. Some (NewServerSessionFrom (pbSession (the p)))) (sm_Map s sid)),
               sm_mu = True\<rparr>)"

section \<open>The client's side\<close>

record ClientSession =
  cs_id :: int64
  cs_ProcessedSeq :: uint64
  cs_NextSeq :: uint64

definition NewClientSession :: "int64 \<Rightarrow> ClientSession" where
  "NewClientSession sid = \<lparr>cs_id = sid, cs_ProcessedSeq = 0, cs_NextSeq = 0\<rparr>"

definition NextHeader :: "ClientSession \<Rightarrow> SessionHeader \<times> ClientSession" where
  "NextHeader c =
     (let n = cs_NextSeq c + 1
      in (\<lparr>Header_ID = cs_id c, Header_Seq = n\<rparr>, c\<lparr>cs_NextSeq := n\<rparr>))"

section \<open>The contract of a session table\<close>

text \<open>
  \<open>processed t sid\<close> is the number of the last request recorded for a client; \<open>dup\<close> asks whether a
  request is covered by it; \<open>noteReq\<close> records a request and its response.
\<close>

locale session_table =
  fixes ok :: "'t \<Rightarrow> bool" and processed :: "'t \<Rightarrow> int64 \<rightharpoonup> uint64"
    and dup :: "'t \<Rightarrow> SessionHeader \<Rightarrow> bool go" and noteReq :: "'t \<Rightarrow> SessionHeader \<Rightarrow> 'r \<Rightarrow> 't go"
  assumes dup_law: "ok t \<Longrightarrow> dup t h =
      Ok (case processed t (Header_ID h) of None \<Rightarrow> False | Some s \<Rightarrow> Header_Seq h \<le> s)"
    and note_law: "ok t \<Longrightarrow> dup t h = Ok False \<Longrightarrow>
      \<exists>t'. noteReq t h r = Ok t' \<and> ok t' \<and> processed t' = (processed t)(Header_ID h \<mapsto> Header_Seq h)"
begin

text \<open>
  A service that guards its operation with the table: the state, the table, and the headers of the
  requests it has executed, in order.
\<close>

definition serve ::
  "('s \<Rightarrow> 'c \<Rightarrow> ('s \<times> 'r) go) \<Rightarrow> ('c \<Rightarrow> SessionHeader) \<Rightarrow> 's \<times> 't \<times> 'c list \<Rightarrow> 'c \<Rightarrow> ('s \<times> 't \<times> 'c list) go" where
  "serve exec hdr st c =
     (case st of (s, t, done) \<Rightarrow>
        go_bind (dup t (hdr c)) (\<lambda>d.
          if d then Ok (s, t, done)
          else go_bind (exec s c) (\<lambda>(s', r).
               go_bind (noteReq t (hdr c) r) (\<lambda>t'. Ok (s', t', done @ [c])))))"

text \<open>The requests executed for one client have strictly increasing numbers.\<close>

definition ordered :: "('c \<Rightarrow> SessionHeader) \<Rightarrow> 't \<Rightarrow> 'c list \<Rightarrow> bool" where
  "ordered hdr t done \<longleftrightarrow>
     (\<forall>sid. sorted_wrt (<) (map (\<lambda>c. Header_Seq (hdr c)) (filter (\<lambda>c. Header_ID (hdr c) = sid) done)) \<and>
       (\<forall>c \<in> set done. Header_ID (hdr c) = sid \<longrightarrow>
          (\<exists>s. processed t sid = Some s \<and> Header_Seq (hdr c) \<le> s)))"

lemma serve_ordered:
  assumes "ok t" "ordered hdr t done" "serve exec hdr (s, t, done) c = Ok (s', t', done')"
  shows "ok t' \<and> ordered hdr t' done' \<and>
    (done' = done \<and> s' = s \<and> t' = t \<or> done' = done @ [c] \<and> hdr c \<notin> hdr ` set done \<and> (\<exists>r. exec s c = Ok (s', r)))"
proof (cases "dup t (hdr c) = Ok True")
  case True
  then show ?thesis using assms by (simp add: serve_def)
next
  case False
  then have d: "dup t (hdr c) = Ok False" using dup_law[OF assms(1), of "hdr c"] by (auto split: option.splits)
  then obtain r where r: "exec s c = Ok (s', r)" "noteReq t (hdr c) r = Ok t'" "done' = done @ [c]"
    using assms(3) by (auto simp: serve_def)
  from note_law[OF assms(1) d, of r] r(2) have n: "ok t'" "processed t' = (processed t)(Header_ID (hdr c) \<mapsto> Header_Seq (hdr c))"
    by auto
  have new: "\<And>s0. processed t (Header_ID (hdr c)) = Some s0 \<Longrightarrow> s0 < Header_Seq (hdr c)"
    using dup_law[OF assms(1), of "hdr c"] d by auto
  have old: "Header_Seq (hdr x) < Header_Seq (hdr c)" if "x \<in> set done" "Header_ID (hdr x) = Header_ID (hdr c)" for x
    using assms(2) that new unfolding ordered_def by (metis le_less_trans)
  have "ordered hdr t' (done @ [c])"
    using assms(2) old unfolding ordered_def n(2)
    by (auto simp: sorted_wrt_append intro: less_imp_le)
  moreover have "hdr c \<notin> hdr ` set done" using old by fastforce
  ultimately show ?thesis using n r by auto
qed

text \<open>What has been covered once stays covered, and a request that was served is covered.\<close>

lemma serve_covers:
  assumes "ok t" "serve exec hdr (s, t, done) c = Ok (s', t', done')"
  shows "dup t' (hdr c) = Ok True \<and> (dup t h = Ok True \<longrightarrow> dup t' h = Ok True)"
proof (cases "dup t (hdr c) = Ok True")
  case True
  then show ?thesis using assms by (simp add: serve_def)
next
  case False
  then have d: "dup t (hdr c) = Ok False" using dup_law[OF assms(1), of "hdr c"] by (auto split: option.splits)
  then obtain r where r: "noteReq t (hdr c) r = Ok t'" using assms(2) by (auto simp: serve_def)
  from note_law[OF assms(1) d, of r] r have n: "ok t'" "processed t' = (processed t)(Header_ID (hdr c) \<mapsto> Header_Seq (hdr c))"
    by auto
  show ?thesis using dup_law[OF assms(1), of "hdr c"] dup_law[OF assms(1), of h] d
    by (auto simp: dup_law[OF n(1)] n(2) split: option.splits if_splits)
qed

text \<open>
  Whatever sequence of requests arrives, with repetitions and out of order, the executed ones are
  a subsequence of it without repetition, in increasing order for each client; the state is what
  executing them once each gives, and every request that arrived is covered in the end.
\<close>

lemma at_most_once_from:
  assumes "ok t" "ordered hdr t d" "distinct (map hdr d)"
    and "foldM_go (serve exec hdr) (s0, t, d) cs = Ok (s, t', done)"
  shows "\<exists>d'. done = d @ d' \<and> subseq d' cs \<and> ok t' \<and> ordered hdr t' done \<and> distinct (map hdr done) \<and>
    foldM_go (\<lambda>s c. go_bind (exec s c) (\<lambda>(s', _). Ok s')) s0 d' = Ok s \<and>
    (\<forall>h. dup t h = Ok True \<longrightarrow> dup t' h = Ok True) \<and> (\<forall>c \<in> set cs. dup t' (hdr c) = Ok True)"
  using assms
proof (induction cs arbitrary: s0 t d)
  case Nil
  then show ?case by auto
next
  case (Cons c cs)
  from Cons.prems(4) obtain s1 t1 d1 where
    1: "serve exec hdr (s0, t, d) c = Ok (s1, t1, d1)" "foldM_go (serve exec hdr) (s1, t1, d1) cs = Ok (s, t', done)"
    by (auto split: prod.splits)
  from serve_ordered[OF Cons.prems(1,2) 1(1)] have o: "ok t1" "ordered hdr t1 d1"
    and step: "d1 = d \<and> s1 = s0 \<and> t1 = t \<or> d1 = d @ [c] \<and> hdr c \<notin> hdr ` set d \<and> (\<exists>r. exec s0 c = Ok (s1, r))" by auto
  have "distinct (map hdr d1)" using step Cons.prems(3) by auto
  from Cons.IH[OF o this 1(2)] obtain d' where
    2: "done = d1 @ d'" "subseq d' cs" "ok t'" "ordered hdr t' done" "distinct (map hdr done)"
      "foldM_go (\<lambda>s c. go_bind (exec s c) (\<lambda>(s', _). Ok s')) s1 d' = Ok s"
      "\<And>h. dup t1 h = Ok True \<Longrightarrow> dup t' h = Ok True" "\<forall>c \<in> set cs. dup t' (hdr c) = Ok True" by blast
  have cov: "dup t' (hdr c) = Ok True" "\<forall>h. dup t h = Ok True \<longrightarrow> dup t' h = Ok True"
    using serve_covers[OF Cons.prems(1) 1(1)] 2(7) by blast+
  from step show ?case
  proof (elim disjE conjE exE)
    assume "d1 = d" "s1 = s0"
    then show ?thesis using 2 cov by (intro exI[of _ d']) auto
  next
    fix r assume "d1 = d @ [c]" "exec s0 c = Ok (s1, r)"
    then show ?thesis using 2 cov by (intro exI[of _ "c # d'"]) auto
  qed
qed

theorem at_most_once:
  assumes "ok t" "processed t = Map.empty" "foldM_go (serve exec hdr) (s0, t, []) cs = Ok (s, t', done)"
  shows "subseq done cs \<and> ordered hdr t' done \<and> distinct (map hdr done) \<and>
    foldM_go (\<lambda>s c. go_bind (exec s c) (\<lambda>(s', _). Ok s')) s0 done = Ok s \<and>
    (\<forall>c \<in> set cs. dup t' (hdr c) = Ok True)"
  using at_most_once_from[OF assms(1) _ _ assms(3)] assms(2) by (auto simp: ordered_def)

end

section \<open>The table keeps the contract\<close>

text \<open>A table whose lock is set and whose sessions are all there.\<close>

definition table_ok :: "'any SessionMap \<Rightarrow> bool" where
  "table_ok s \<longleftrightarrow> sm_mu s \<and> (\<forall>sid p. sm_Map s sid = Some p \<longrightarrow> (\<exists>pb. p = Some (ServerSession (Some pb))))"

definition table_processed :: "'any SessionMap \<Rightarrow> int64 \<rightharpoonup> uint64" where
  "table_processed s sid =
     (case sm_Map s sid of
        Some (Some (ServerSession (Some pb))) \<Rightarrow> Some (Session_ProcessedSeq pb) | _ \<Rightarrow> None)"

text \<open>What both servers do after executing a request: create the session if needed, set the response.\<close>

definition recordResponse ::
  "('m \<Rightarrow> 'any option \<times> 'e option) \<Rightarrow> 'any SessionMap \<Rightarrow> SessionHeader \<Rightarrow> 'm \<Rightarrow> 'any SessionMap go" where
  "recordResponse marshalAny s h resp =
     go_bind (HasSession (Header_ID h) s) (\<lambda>has.
     go_bind (if has then Ok s
              else go_bind (CreateSession (Header_ID h) s) (\<lambda>(_ :: 'any ServerSession option \<times> 'e session_error option, s1). Ok s1)) (\<lambda>s1.
     go_bind (SetResponse marshalAny (Some h) resp s1) (\<lambda>(_, s2). Ok s2)))"

lemma table_entry:
  assumes "table_ok s"
  obtains "sm_Map s sid = None" "table_processed s sid = None"
  | pb where "sm_Map s sid = Some (Some (ServerSession (Some pb)))" "table_processed s sid = Some (Session_ProcessedSeq pb)"
proof (cases "sm_Map s sid")
  case None
  then show ?thesis using that(1) by (simp add: table_processed_def)
next
  case (Some p)
  with assms obtain pb where "p = Some (ServerSession (Some pb))" by (auto simp: table_ok_def)
  with Some show ?thesis using that(2) by (simp add: table_processed_def)
qed

lemma table_ok_upd: "table_ok s \<Longrightarrow> table_ok (s\<lparr>sm_Map := (sm_Map s)(i \<mapsto> Some (ServerSession (Some pb)))\<rparr>)"
  by (simp add: table_ok_def)

lemma table_processed_upd:
  "table_processed (s\<lparr>sm_Map := (sm_Map s)(i \<mapsto> Some (ServerSession (Some pb)))\<rparr>) =
     (table_processed s)(i \<mapsto> Session_ProcessedSeq pb)"
  by (rule ext) (simp add: table_processed_def)

lemma IsDuplicate_spec:
  assumes "table_ok s"
  shows "IsDuplicate (Some h) s =
    Ok (case table_processed s (Header_ID h) of None \<Rightarrow> False | Some n \<Rightarrow> Header_Seq h \<le> n)"
proof -
  have mu: "sm_mu s" using assms by (simp add: table_ok_def)
  show ?thesis using mu
    by (rule_tac table_entry[OF assms, of "Header_ID h"])
      (simp_all add: IsDuplicate_def withLock_def getSession_def ProcessedSeq_def)
qed

lemma HaveProcessed_spec:
  assumes "table_ok s"
  shows "HaveProcessed h s = IsDuplicate (Some h) s"
proof -
  have mu: "sm_mu s" using assms by (simp add: table_ok_def)
  show ?thesis using mu
    by (rule_tac table_entry[OF assms, of "Header_ID h"])
      (simp_all add: IsDuplicate_def HaveProcessed_def HasSession_def withLock_def getSession_def ProcessedSeq_def)
qed

text \<open>A request that is no duplicate is recorded.\<close>

lemma recordResponse_spec:
  assumes "table_ok s" "IsDuplicate (Some h) s = Ok False"
  shows "\<exists>s'. recordResponse marshalAny s h r = Ok s' \<and> table_ok s' \<and>
    table_processed s' = (table_processed s)(Header_ID h \<mapsto> Header_Seq h) \<and>
    (\<exists>pb. sm_Map s' = (sm_Map s)(Header_ID h \<mapsto> Some (ServerSession (Some pb))) \<and>
      LastResponse pb = fst (marshalAny r))"
proof -
  have mu: "sm_mu s" using assms by (simp add: table_ok_def)
  obtain la er where ma: "marshalAny r = (la, er)" by fastforce
  let ?s' = "\<lambda>pb. s\<lparr>sm_Map := (sm_Map s)(Header_ID h \<mapsto>
    Some (ServerSession (Some (pb\<lparr>Session_ProcessedSeq := Header_Seq h, LastResponse := la\<rparr>))))\<rparr>"
  have "\<exists>pb. recordResponse marshalAny s h r = Ok (?s' pb)"
  proof (rule table_entry[OF assms(1), of "Header_ID h"])
    assume "sm_Map s (Header_ID h) = None"
    then show ?thesis using mu ma
      by (intro exI[of _ "\<lparr>Session_ID = Header_ID h, Session_ProcessedSeq = 0, LastResponse = None\<rparr>"])
        (simp add: recordResponse_def HasSession_def CreateSession_def SetResponse_def setResponse_def withLock_def
        getSession_def NewServerSession_def)
  next
    fix pb assume pb: "sm_Map s (Header_ID h) = Some (Some (ServerSession (Some pb)))"
      "table_processed s (Header_ID h) = Some (Session_ProcessedSeq pb)"
    then have "\<not> Header_Seq h < Session_ProcessedSeq pb" using assms(2) IsDuplicate_spec[OF assms(1), of h] by auto
    then show ?thesis using mu ma pb(1)
      by (intro exI[of _ pb]) (simp add: recordResponse_def HasSession_def SetResponse_def setResponse_def withLock_def getSession_def)
  qed
  then obtain pb where "recordResponse marshalAny s h r = Ok (?s' pb)" by blast
  then show ?thesis using ma
    by (intro exI[of _ "?s' pb"]) (auto simp: table_ok_upd[OF assms(1)] table_processed_upd)
qed

text \<open>Whenever recording returns, the number recorded is not below the last one.\<close>

lemma recordResponse_Ok:
  assumes "table_ok s" "recordResponse marshalAny s h r = Ok s'"
  shows "table_ok s' \<and> table_processed s' = (table_processed s)(Header_ID h \<mapsto> Header_Seq h) \<and>
    (\<forall>n. table_processed s (Header_ID h) = Some n \<longrightarrow> n \<le> Header_Seq h)"
proof (cases "IsDuplicate (Some h) s = Ok False")
  case True
  then show ?thesis using recordResponse_spec[OF assms(1) True, of marshalAny r] assms(2) IsDuplicate_spec[OF assms(1), of h]
    by (auto split: option.splits)
next
  case False
  then obtain n where n: "table_processed s (Header_ID h) = Some n" "Header_Seq h \<le> n"
    using IsDuplicate_spec[OF assms(1), of h] by (auto split: option.splits)
  have mu: "sm_mu s" using assms(1) by (simp add: table_ok_def)
  obtain la er where ma: "marshalAny r = (la, er)" by fastforce
  obtain pb where pb: "sm_Map s (Header_ID h) = Some (Some (ServerSession (Some pb)))" "Session_ProcessedSeq pb = n"
    using n(1) by (rule_tac table_entry[OF assms(1), of "Header_ID h"]) auto
  have "\<not> Header_Seq h < n" "s' = s\<lparr>sm_Map := (sm_Map s)(Header_ID h \<mapsto>
      Some (ServerSession (Some (pb\<lparr>Session_ProcessedSeq := Header_Seq h, LastResponse := la\<rparr>))))\<rparr>"
    using assms(2) mu ma pb
    by (auto simp: recordResponse_def HasSession_def SetResponse_def setResponse_def withLock_def getSession_def split: if_splits)
  then show ?thesis using n table_ok_upd[OF assms(1)] by (simp add: table_processed_upd)
qed

interpretation sm: session_table table_ok table_processed "\<lambda>s h. IsDuplicate (Some h) s" "recordResponse marshalAny"
  for marshalAny
proof
  show "IsDuplicate (Some h) t = Ok (case table_processed t (Header_ID h) of None \<Rightarrow> False | Some s \<Rightarrow> Header_Seq h \<le> s)"
    if "table_ok t" for t h using that by (rule IsDuplicate_spec)
  show "\<exists>t'. recordResponse marshalAny t h r = Ok t' \<and> table_ok t' \<and>
      table_processed t' = (table_processed t)(Header_ID h \<mapsto> Header_Seq h)"
    if "table_ok t" "IsDuplicate (Some h) t = Ok False" for t h r
    using recordResponse_spec[OF that, of marshalAny r] by blast
qed

text \<open>The service of the locale, guarded by this table.\<close>

abbreviation guarded ::
  "('m \<Rightarrow> 'any option \<times> 'e option) \<Rightarrow> ('s \<Rightarrow> 'c \<Rightarrow> ('s \<times> 'm) go) \<Rightarrow> ('c \<Rightarrow> SessionHeader)
    \<Rightarrow> 's \<times> 'any SessionMap \<times> 'c list \<Rightarrow> 'c \<Rightarrow> ('s \<times> 'any SessionMap \<times> 'c list) go" where
  "guarded marshalAny \<equiv> session_table.serve (\<lambda>s h. IsDuplicate (Some h) s) (recordResponse marshalAny)"

lemma table_ok_New: "table_ok NewSessionMap" "table_processed NewSessionMap = Map.empty"
  by (auto simp: table_ok_def table_processed_def NewSessionMap_def)

section \<open>Merging tables\<close>

lemma mergeOne_spec:
  assumes "table_ok s"
  shows "\<exists>s'. mergeOne s (i, Some pb) = Ok s' \<and> table_ok s' \<and>
    table_processed s' = (table_processed s)(i \<mapsto>
      (case table_processed s i of None \<Rightarrow> Session_ProcessedSeq pb | Some n \<Rightarrow> max n (Session_ProcessedSeq pb)))"
proof (rule table_entry[OF assms, of i])
  assume a: "sm_Map s i = None" "table_processed s i = None"
  then show ?thesis using table_ok_upd[OF assms, of i pb] table_processed_upd[of s i pb]
    by (simp add: mergeOne_def getSession_def NewServerSessionFrom_def Let_def)
next
  fix b assume a: "sm_Map s i = Some (Some (ServerSession (Some b)))" "table_processed s i = Some (Session_ProcessedSeq b)"
  show ?thesis
  proof (cases "Session_ProcessedSeq b < Session_ProcessedSeq pb")
    case True
    then show ?thesis using a table_ok_upd[OF assms, of i pb] table_processed_upd[of s i pb]
      by (simp add: mergeOne_def getSession_def NewServerSessionFrom_def ProcessedSeq_def Let_def max_absorb2)
  next
    case False
    then have "table_processed s = (table_processed s)(i \<mapsto> max (Session_ProcessedSeq b) (Session_ProcessedSeq pb))"
      using a(2) by (auto simp: max_def fun_eq_iff)
    then show ?thesis using False a assms
      by (simp add: mergeOne_def getSession_def ProcessedSeq_def Let_def)
  qed
qed

text \<open>
  Merging keeps, for every client, the larger of the two numbers, in whatever order the other
  table is iterated.
\<close>

lemma Merge_spec:
  assumes "table_ok s" "distinct (map fst kvs)" "None \<notin> snd ` set kvs"
  shows "\<exists>s'. Merge kvs s = Ok s' \<and> table_ok s' \<and>
    table_processed s' = (\<lambda>i. case (table_processed s i, map_of kvs i) of
        (None, Some (Some pb)) \<Rightarrow> Some (Session_ProcessedSeq pb)
      | (Some n, Some (Some pb)) \<Rightarrow> Some (max n (Session_ProcessedSeq pb))
      | (r, _) \<Rightarrow> r)"
proof -
  let ?R = "\<lambda>s kvs i. case (table_processed s i, map_of kvs i) of
        (None, Some (Some pb)) \<Rightarrow> Some (Session_ProcessedSeq pb)
      | (Some n, Some (Some pb)) \<Rightarrow> Some (max n (Session_ProcessedSeq pb))
      | (r, _) \<Rightarrow> r"
  have "\<exists>s'. foldM_go mergeOne s kvs = Ok s' \<and> table_ok s' \<and> table_processed s' = ?R s kvs"
    using assms
  proof (induction kvs arbitrary: s)
    case Nil
    then show ?case by (auto split: option.splits)
  next
    case (Cons kv kvs)
    obtain i pb where kv: "kv = (i, Some pb)" using Cons.prems(3) by (cases kv) force
    from mergeOne_spec[OF Cons.prems(1), of i pb] obtain s1 where
      1: "mergeOne s kv = Ok s1" "table_ok s1" "table_processed s1 = (table_processed s)(i \<mapsto>
      (case table_processed s i of None \<Rightarrow> Session_ProcessedSeq pb | Some n \<Rightarrow> max n (Session_ProcessedSeq pb)))"
      unfolding kv by blast
    have i: "map_of kvs i = None" using Cons.prems(2) kv by (auto simp: map_of_eq_None_iff)
    from Cons.IH[OF 1(2)] Cons.prems obtain s2 where
      2: "foldM_go mergeOne s1 kvs = Ok s2" "table_ok s2" "table_processed s2 = ?R s1 kvs" by auto
    have "?R s1 kvs = ?R s (kv # kvs)"
      using i by (auto simp: kv 1(3) fun_eq_iff split: option.splits)
    then show ?case using 1(1) 2 by simp
  qed
  moreover have "sm_mu s" using assms(1) by (simp add: table_ok_def)
  ultimately show ?thesis by (simp add: Merge_def withLock_def)
qed

end
