(* ===== verification/Session_Properties.thy ===== *)
theory Session_Properties
  imports Session
begin

text \<open>
  The properties of client sessions, over the laws of theory Session. \<open>sample_table\<close> is a table
  with one client whose third request has been processed.
\<close>

definition sample_table :: "nat SessionMap" where
  "sample_table = \<lparr>sm_Map = [7 \<mapsto> Some (ServerSession (Some
     \<lparr>Session_ID = 7, Session_ProcessedSeq = 3, LastResponse = Some 30\<rparr>))], sm_mu = True\<rparr>"

lemma sample_table_ok: "table_ok sample_table"
  by (auto simp: table_ok_def sample_table_def split: if_splits)

lemma sample_table_processed: "table_processed sample_table = [7 \<mapsto> 3]"
  by (rule ext) (simp add: table_processed_def sample_table_def)

text \<open>The requests a client numbers one after the other.\<close>

fun headers :: "nat \<Rightarrow> ClientSession \<Rightarrow> SessionHeader list" where
  "headers 0 c = []"
| "headers (Suc n) c = (case NextHeader c of (h, c') \<Rightarrow> h # headers n c')"

lemma headers_eq:
  "headers n c = map (\<lambda>i. \<lparr>Header_ID = cs_id c, Header_Seq = cs_NextSeq c + 1 + of_nat i\<rparr>) [0..<n]"
proof (induction n arbitrary: c)
  case (Suc n)
  have "[0..<Suc n] = 0 # map Suc [0..<n]" by (simp add: map_Suc_upt upt_conv_Cons)
  then show ?case using Suc by (simp add: NextHeader_def Let_def ac_simps)
qed simp

section \<open>Properties\<close>

text \<open>
  Duplicate detection: once a request that is no duplicate has been recorded, exactly the
  requests of its client with a number up to its own are duplicates, those of every other client
  are judged as before, and both checks the table offers agree.
\<close>

theorem recorded_requests_are_duplicates:
  assumes "table_ok s" "IsDuplicate (Some h) s = Ok False"
  shows "\<exists>s'. recordResponse marshalAny s h r = Ok s' \<and> table_ok s' \<and>
    (\<forall>h'. IsDuplicate (Some h') s' =
       (if Header_ID h' = Header_ID h then Ok (Header_Seq h' \<le> Header_Seq h) else IsDuplicate (Some h') s) \<and>
     HaveProcessed h' s' = IsDuplicate (Some h') s')"
proof -
  from recordResponse_spec[OF assms, of marshalAny r] obtain s' where
    s': "recordResponse marshalAny s h r = Ok s'" "table_ok s'"
      "table_processed s' = (table_processed s)(Header_ID h \<mapsto> Header_Seq h)" by blast
  then show ?thesis using assms(1) by (auto simp: IsDuplicate_spec HaveProcessed_spec)
qed

theorem recorded_requests_are_duplicates_witness:
  "\<exists>s'. recordResponse (\<lambda>m. (Some m, None :: unit option)) sample_table \<lparr>Header_ID = 7, Header_Seq = 4\<rparr> 40 = Ok s' \<and>
    IsDuplicate (Some \<lparr>Header_ID = 7, Header_Seq = 4\<rparr>) s' = Ok True \<and>
    IsDuplicate (Some \<lparr>Header_ID = 7, Header_Seq = 5\<rparr>) s' = Ok False \<and>
    IsDuplicate (Some \<lparr>Header_ID = 8, Header_Seq = 1\<rparr>) s' = Ok False"
proof -
  have d: "IsDuplicate (Some \<lparr>Header_ID = 7, Header_Seq = 4\<rparr>) sample_table = Ok False"
    "IsDuplicate (Some \<lparr>Header_ID = 8, Header_Seq = 1\<rparr>) sample_table = Ok False"
    by (simp_all add: IsDuplicate_spec sample_table_ok sample_table_processed)
  from recorded_requests_are_duplicates[OF sample_table_ok d(1), of "\<lambda>m. (Some m, None :: unit option)" 40]
  obtain s' where s': "recordResponse (\<lambda>m. (Some m, None :: unit option)) sample_table \<lparr>Header_ID = 7, Header_Seq = 4\<rparr> 40 = Ok s'"
    "\<And>h'. IsDuplicate (Some h') s' =
       (if Header_ID h' = 7 then Ok (Header_Seq h' \<le> 4) else IsDuplicate (Some h') sample_table)" by auto
  show ?thesis using s'(1) d(2) by (intro exI[of _ s']) (simp add: s'(2))
qed

text \<open>
  Merging a table received with migrated shards keeps for every client the larger of the two
  numbers of processed requests, in whatever order the received table is visited, so no request
  that was processed on either side is executed again.
\<close>

theorem merge_keeps_larger:
  assumes "table_ok s" "distinct (map fst kvs)" "None \<notin> snd ` set kvs"
  shows "\<exists>s'. Merge kvs s = Ok s' \<and> table_ok s' \<and>
    (\<forall>h. IsDuplicate (Some h) s' = Ok
      ((case table_processed s (Header_ID h) of None \<Rightarrow> False | Some n \<Rightarrow> Header_Seq h \<le> n) \<or>
       (case map_of kvs (Header_ID h) of Some (Some pb) \<Rightarrow> Header_Seq h \<le> Session_ProcessedSeq pb | _ \<Rightarrow> False)))"
proof -
  from Merge_spec[OF assms] obtain s' where s': "Merge kvs s = Ok s'" "table_ok s'"
    "table_processed s' = (\<lambda>i. case (table_processed s i, map_of kvs i) of
        (None, Some (Some pb)) \<Rightarrow> Some (Session_ProcessedSeq pb)
      | (Some n, Some (Some pb)) \<Rightarrow> Some (max n (Session_ProcessedSeq pb))
      | (r, _) \<Rightarrow> r)" by blast
  then show ?thesis
    by (intro exI[of _ s']) (auto simp: IsDuplicate_spec le_max_iff_disj split: option.splits)
qed

theorem merge_keeps_larger_witness:
  "\<exists>s'. Merge [(7, Some \<lparr>Session_ID = 7, Session_ProcessedSeq = 2, LastResponse = None\<rparr>),
               (9, Some \<lparr>Session_ID = 9, Session_ProcessedSeq = 6, LastResponse = None\<rparr>)] sample_table = Ok s' \<and>
    IsDuplicate (Some \<lparr>Header_ID = 7, Header_Seq = 3\<rparr>) s' = Ok True \<and>
    IsDuplicate (Some \<lparr>Header_ID = 9, Header_Seq = 6\<rparr>) s' = Ok True \<and>
    IsDuplicate (Some \<lparr>Header_ID = 9, Header_Seq = 7\<rparr>) s' = Ok False"
  using merge_keeps_larger[OF sample_table_ok,
      of "[(7, Some \<lparr>Session_ID = 7, Session_ProcessedSeq = 2, LastResponse = None\<rparr>),
           (9, Some \<lparr>Session_ID = 9, Session_ProcessedSeq = 6, LastResponse = None\<rparr>)]"]
  by (auto simp: sample_table_processed)

text \<open>
  The stored response is never returned: the message it is decoded into is a nil interface
  that the decoder cannot set, so whenever \<^verbatim>\<open>GetResponse\<close> returns without an error it returns nil,
  whatever was recorded.
\<close>

theorem response_is_lost:
  "GetResponse unmarshalAny request s = Ok (resp, err) \<Longrightarrow> resp = None"
  by (auto simp: GetResponse_def withLock_def getResponse_def Let_def split: if_splits option.splits)

theorem response_is_lost_witness:
  "GetResponse (\<lambda>_ (_ :: nat option). None :: unit option) (Some \<lparr>Header_ID = 7, Header_Seq = 3\<rparr>) sample_table = Ok (None, None)"
proof -
  have "\<exists>resp. GetResponse (\<lambda>_ (_ :: nat option). None :: unit option) (Some \<lparr>Header_ID = 7, Header_Seq = 3\<rparr>) sample_table
      = Ok (resp, None)"
    by (simp add: GetResponse_def withLock_def getSession_def getResponse_def sample_table_def)
  then show ?thesis using response_is_lost by blast
qed

text \<open>
  A client's requests carry its id and the numbers 1, 2, 3 and so on: as long as fewer than
  \<open>2 ^ 64\<close> are made, the numbers are strictly increasing, which is what the table relies on.
\<close>

theorem headers_numbered:
  assumes "n < 2 ^ 64" "i < n"
  shows "headers n (NewClientSession sid) ! i = \<lparr>Header_ID = sid, Header_Seq = of_nat (i + 1)\<rparr> \<and>
    (\<forall>j < i. Header_Seq (headers n (NewClientSession sid) ! j) < Header_Seq (headers n (NewClientSession sid) ! i))"
proof -
  have 1: "headers n (NewClientSession sid) ! j = \<lparr>Header_ID = sid, Header_Seq = of_nat (j + 1)\<rparr>" if "j < n" for j
    using that by (simp add: headers_eq NewClientSession_def)
  have "(of_nat (j + 1) :: uint64) < of_nat (i + 1)" if "j < i" for j
    using that assms unat_of_nat_64[of "j + 1"] unat_of_nat_64[of "i + 1"] by (simp only: word_less_nat_alt)
  then show ?thesis using 1 assms by simp
qed

theorem headers_numbered_witness:
  "headers 3 (NewClientSession 7) ! 2 = \<lparr>Header_ID = 7, Header_Seq = 3\<rparr>"
  using headers_numbered[of 3 2 7] by simp

end
