(* ===== verification/Shardctl_Config.thy ===== *)
theory Shardctl_Config
  imports Go_Prelude
begin

text \<open>
  Shard configurations, src/shardctl/config.go: which group serves which shard, and the operations
  that build the next configuration. The ring of package consistent is code of another module: its
  state and four operations are arguments. A Go map is iterated in some order: the keys in that
  order are a list argument.

  \<^verbatim>\<open>strconv.FormatInt\<close>, \<^verbatim>\<open>strconv.Itoa\<close> and \<^verbatim>\<open>strconv.ParseInt\<close> of the standard library are written
  out for base ten, since resharding passes group ids through strings.
\<close>

section \<open>Decimal numbers\<close>

definition digit :: "nat \<Rightarrow> char" where
  "digit d = char_of (48 + d)"

fun showNat :: "nat \<Rightarrow> string" where
  "showNat n = (if n < 10 then [digit n] else showNat (n div 10) @ [digit (n mod 10)])"

declare showNat.simps [simp del]

definition FormatInt :: "int64 \<Rightarrow> string" where
  "FormatInt w = (if sint w < 0 then CHR ''-'' # showNat (nat (- sint w)) else showNat (nat (sint w)))"

fun readNat :: "nat \<Rightarrow> string \<Rightarrow> nat option" where
  "readNat acc [] = Some acc"
| "readNat acc (c # cs) =
     (let v = of_char c :: nat in
      if 48 \<le> v \<and> v \<le> 57 then readNat (10 * acc + (v - 48)) cs else None)"

text \<open>
  The value and whether there was an error: a malformed number is 0, one out of range the nearest
  64-bit number.
\<close>

definition ParseInt :: "string \<Rightarrow> int64 \<times> bool" where
  "ParseInt s =
     (let neg = (s \<noteq> [] \<and> hd s = CHR ''-'');
          digits = (if s \<noteq> [] \<and> (hd s = CHR ''-'' \<or> hd s = CHR ''+'') then tl s else s)
      in if digits = [] then (0, True)
         else case readNat 0 digits of
           None \<Rightarrow> (0, True)
         | Some n \<Rightarrow>
             if \<not> neg \<and> 2 ^ 63 \<le> n then (word_of_int (2 ^ 63 - 1), True)
             else if neg \<and> 2 ^ 63 < n then (word_of_int (- (2 ^ 63)), True)
             else (word_of_int (if neg then - int n else int n), False))"

section \<open>Configurations\<close>

definition NShards :: nat where "NShards = 1024"

record Group =
  Group_ID :: int64
  Group_servers :: "string list"

record PbConfig =
  PbConfig_Num :: int64
  PbConfig_Shards :: "int64 list"
  PbConfig_Groups :: "Group option list"

text \<open>The field \<^verbatim>\<open>Shards\<close> is an array of \<open>NShards\<close> elements.\<close>

record Config =
  Config_Num :: int64
  Config_Shards :: "int64 list"
  Config_Groups :: "int64 \<rightharpoonup> Group option"

definition addGroup :: "Config \<Rightarrow> Group option \<Rightarrow> Config go" where
  "addGroup cfg g =
     go_bind (deref g) (\<lambda>group.
       Ok (cfg\<lparr>Config_Groups := (Config_Groups cfg)(Group_ID group \<mapsto> g)\<rparr>))"

definition NewConfig :: "PbConfig \<Rightarrow> Config go" where
  "NewConfig pb =
     foldM_go addGroup
       \<lparr>Config_Num = PbConfig_Num pb,
        Config_Shards = take NShards (PbConfig_Shards pb) @ replicate (NShards - length (PbConfig_Shards pb)) 0,
        Config_Groups = Map.empty\<rparr> (PbConfig_Groups pb)"

text \<open>The keys in the order \<^verbatim>\<open>range cfg.Groups\<close> visits them.\<close>

definition iterates :: "('k \<rightharpoonup> 'v) \<Rightarrow> 'k list \<Rightarrow> bool" where
  "iterates m ks \<longleftrightarrow> distinct ks \<and> set ks = dom m"

definition Gids :: "int64 list \<Rightarrow> int64 list" where
  "Gids order = order"

definition joinOne :: "Config \<Rightarrow> Group option \<Rightarrow> Config go" where
  "joinOne cfg g =
     go_bind (deref g) (\<lambda>group.
       if Config_Groups cfg (Group_ID group) = None then addGroup cfg g else Ok cfg)"

definition Join :: "Group option list \<Rightarrow> Config \<Rightarrow> Config go" where
  "Join newGroups cfg = foldM_go joinOne cfg newGroups"

definition Leave :: "int64 list \<Rightarrow> Config \<Rightarrow> Config" where
  "Leave gids cfg =
     foldl (\<lambda>cfg gid. cfg\<lparr>Config_Groups := ((Config_Groups cfg)(gid \<mapsto> None))(gid := None)\<rparr>) cfg gids"

text \<open>
  The ring: a new one, adding a member, the least loaded member for a key, and adding load.
\<close>

record ('h, 'e) ring =
  ring_new :: 'h
  ring_Add :: "'h \<Rightarrow> string \<Rightarrow> 'h"
  ring_GetLeast :: "'h \<Rightarrow> string \<Rightarrow> string \<times> 'e option"
  ring_Inc :: "'h \<Rightarrow> string \<Rightarrow> 'h"

definition reshardOne :: "('h, 'e) ring \<Rightarrow> 'h \<times> int64 list \<Rightarrow> nat \<Rightarrow> 'h \<times> int64 list" where
  "reshardOne R st shard =
     (case st of (c, shards) \<Rightarrow>
        let gidstring = fst (ring_GetLeast R c (showNat shard))
        in (ring_Inc R c gidstring, shards[shard := fst (ParseInt gidstring)]))"

definition Reshard :: "('h, 'e) ring \<Rightarrow> int64 list \<Rightarrow> Config \<Rightarrow> Config" where
  "Reshard R order cfg =
     (if length (Gids order) \<le> 0 then cfg\<lparr>Config_Shards := replicate NShards 0\<rparr>
      else
        let c = foldl (\<lambda>c gid. ring_Add R c (FormatInt gid)) (ring_new R) (Gids order)
        in cfg\<lparr>Config_Shards :=
             snd (foldl (reshardOne R) (c, Config_Shards cfg) [0..<length (Config_Shards cfg)])\<rparr>)"

section \<open>Invariant\<close>

text \<open>The array has its size, no group is nil, and each is filed under its own id.\<close>

definition config_ok :: "Config \<Rightarrow> bool" where
  "config_ok cfg \<longleftrightarrow> length (Config_Shards cfg) = NShards \<and>
     (\<forall>gid g. Config_Groups cfg gid = Some g \<longrightarrow> (\<exists>group. g = Some group \<and> Group_ID group = gid))"

text \<open>Every shard is served by a group of the configuration; without groups all shards are at 0.\<close>

definition assigned :: "Config \<Rightarrow> bool" where
  "assigned cfg \<longleftrightarrow>
     (if Config_Groups cfg = Map.empty then Config_Shards cfg = replicate NShards 0
      else set (Config_Shards cfg) \<subseteq> dom (Config_Groups cfg))"

text \<open>
  What is relied on of the ring: \<open>members\<close> tells which names were added; adding and loading change
  it as expected, and the least loaded one is a member when there is any.
\<close>

definition ring_ok :: "('h, 'e) ring \<Rightarrow> ('h \<Rightarrow> string set) \<Rightarrow> bool" where
  "ring_ok R members \<longleftrightarrow> members (ring_new R) = {} \<and>
     (\<forall>c k. members (ring_Add R c k) = insert k (members c)) \<and>
     (\<forall>c k. members (ring_Inc R c k) = members c) \<and>
     (\<forall>c k. members c \<noteq> {} \<longrightarrow> fst (ring_GetLeast R c k) \<in> members c)"

section \<open>Laws\<close>

lemma of_char_digit: "d < 10 \<Longrightarrow> (of_char (digit d) :: nat) = 48 + d"
  by (simp add: digit_def)

lemma readNat_append: "readNat acc (xs @ ys) = (case readNat acc xs of None \<Rightarrow> None | Some a \<Rightarrow> readNat a ys)"
  by (induction xs arbitrary: acc) (auto simp: Let_def)

lemma readNat_showNat: "readNat 0 (showNat n) = Some n"
proof (induction n rule: showNat.induct)
  case (1 n)
  show ?case
  proof (cases "n < 10")
    case True
    then show ?thesis by (subst showNat.simps) (simp add: of_char_digit)
  next
    case False
    then have "readNat 0 (showNat n) = readNat (n div 10) [digit (n mod 10)]"
      using 1 by (subst showNat.simps) (simp add: readNat_append)
    then show ?thesis by (simp add: of_char_digit)
  qed
qed

lemma showNat_not_Nil: "showNat n \<noteq> []"
  by (subst showNat.simps) simp

lemma hd_showNat: "hd (showNat n) \<noteq> CHR ''-'' \<and> hd (showNat n) \<noteq> CHR ''+''"
proof (induction n rule: showNat.induct)
  case (1 n)
  have d: "digit d \<noteq> CHR ''-'' \<and> digit d \<noteq> CHR ''+''" if "d < 10" for d
  proof -
    have "(of_char (digit d) :: nat) \<noteq> of_char CHR ''-''" "(of_char (digit d) :: nat) \<noteq> of_char CHR ''+''"
      using of_char_digit[OF that] by simp_all
    then show ?thesis by metis
  qed
  show ?case
  proof (cases "n < 10")
    case True
    then show ?thesis using d by (subst (1 2) showNat.simps) simp
  next
    case False
    then have "hd (showNat n) = hd (showNat (n div 10))" by (subst showNat.simps) (simp add: showNat_not_Nil)
    then show ?thesis using 1 False by simp
  qed
qed

text \<open>Numbers survive the trip through their decimal representation.\<close>

lemma ParseInt_FormatInt: "ParseInt (FormatInt w) = (w, False)"
proof (cases "sint w < 0")
  case True
  have "- (2 ^ 63) \<le> sint w" using sint_ge[of w] by simp
  then have "nat (- sint w) \<le> 2 ^ 63" by simp
  then show ?thesis using True
    by (simp add: ParseInt_def FormatInt_def readNat_showNat showNat_not_Nil)
next
  case False
  have "sint w < 2 ^ 63" using sint_lt[of w] by simp
  then have "nat (sint w) < 2 ^ 63" using False by simp
  then show ?thesis using False
    by (simp add: ParseInt_def FormatInt_def readNat_showNat showNat_not_Nil hd_showNat)
qed

lemma addGroup_ok: "config_ok cfg \<Longrightarrow> addGroup cfg g = Ok cfg' \<Longrightarrow> config_ok cfg'"
  by (auto simp: addGroup_def config_ok_def split: if_splits)

lemma Join_ok: "config_ok cfg \<Longrightarrow> Join gs cfg = Ok cfg' \<Longrightarrow> config_ok cfg'"
  unfolding Join_def by (erule foldM_go_inv) (auto simp: joinOne_def dest: addGroup_ok split: if_splits)

text \<open>Joining adds the groups whose ids are new; of several with the same id the first one.\<close>

lemma Join_groups:
  "Join (map Some gs) cfg = Ok (cfg\<lparr>Config_Groups := map_of (map (\<lambda>g. (Group_ID g, Some g)) gs) ++ Config_Groups cfg\<rparr>)"
proof (induction gs arbitrary: cfg)
  case (Cons g gs)
  have step: "joinOne cfg (Some g) = Ok (cfg\<lparr>Config_Groups := [Group_ID g \<mapsto> Some g] ++ Config_Groups cfg\<rparr>)"
    by (cases cfg) (auto simp: joinOne_def addGroup_def map_add_def fun_eq_iff split: option.splits)
  have "Join (map Some (g # gs)) cfg =
      Join (map Some gs) (cfg\<lparr>Config_Groups := [Group_ID g \<mapsto> Some g] ++ Config_Groups cfg\<rparr>)"
    using step by (simp add: Join_def)
  also have "\<dots> = Ok (cfg\<lparr>Config_Groups := map_of (map (\<lambda>g. (Group_ID g, Some g)) (g # gs)) ++ Config_Groups cfg\<rparr>)"
    unfolding Cons by (auto simp: map_add_def fun_eq_iff split: option.splits intro!: arg_cong[where f = "\<lambda>m. cfg\<lparr>Config_Groups := m\<rparr>"])
  finally show ?case .
qed (simp add: Join_def)

lemma Leave_groups: "Leave gids cfg = cfg\<lparr>Config_Groups := Config_Groups cfg |` (- set gids)\<rparr>"
proof (induction gids arbitrary: cfg)
  case (Cons g gids)
  have "Leave (g # gids) cfg = Leave gids (cfg\<lparr>Config_Groups := (Config_Groups cfg)(g := None)\<rparr>)"
    by (simp add: Leave_def)
  also have "\<dots> = cfg\<lparr>Config_Groups := Config_Groups cfg |` (- set (g # gids))\<rparr>"
    unfolding Cons by (auto simp: restrict_map_def fun_eq_iff intro!: arg_cong[where f = "\<lambda>m. cfg\<lparr>Config_Groups := m\<rparr>"])
  finally show ?case .
qed (simp add: Leave_def restrict_map_def)

lemma Leave_ok: "config_ok cfg \<Longrightarrow> config_ok (Leave gids cfg)"
  by (auto simp: Leave_groups config_ok_def restrict_map_def split: if_splits)

lemma length_reshard: "length (snd (foldl (reshardOne R) st is)) = length (snd st)"
  by (induction "is" rule: rev_induct) (auto simp: reshardOne_def Let_def split: prod.splits)

lemma Reshard_ok: "config_ok cfg \<Longrightarrow> config_ok (Reshard R order cfg)"
  by (auto simp: Reshard_def config_ok_def Let_def length_reshard)

text \<open>Resharding assigns every shard to a group of the configuration.\<close>

lemma Reshard_assigned:
  assumes ring: "ring_ok R members" and cfg: "length (Config_Shards cfg) = NShards"
    and order: "iterates (Config_Groups cfg) order"
  shows "assigned (Reshard R order cfg)"
proof (cases "order = []")
  case True
  then have "Config_Groups cfg = Map.empty" using order by (auto simp: iterates_def dom_def fun_eq_iff)
  then show ?thesis using True by (simp add: Reshard_def assigned_def Gids_def)
next
  case False
  let ?c = "foldl (\<lambda>c gid. ring_Add R c (FormatInt gid)) (ring_new R) order"
  have mem: "members ?c = FormatInt ` set order"
    using ring by (induction order rule: rev_induct) (auto simp: ring_ok_def)
  define st where "st n = foldl (reshardOne R) (?c, Config_Shards cfg) [0..<n]" for n
  have inv: "members (fst (st n)) = FormatInt ` set order \<and> (\<forall>i < n. snd (st n) ! i \<in> set order)"
    if "n \<le> length (Config_Shards cfg)" for n
    using that
  proof (induction n)
    case 0
    then show ?case using mem by (simp add: st_def)
  next
    case (Suc n)
    obtain c shards where s: "st n = (c, shards)" by fastforce
    have IH: "members c = FormatInt ` set order" "\<forall>i<n. shards ! i \<in> set order" using Suc s by auto
    have "members c \<noteq> {}" using IH(1) False by simp
    then have "fst (ring_GetLeast R c (showNat n)) \<in> members c" using ring unfolding ring_ok_def by blast
    then have "fst (ring_GetLeast R c (showNat n)) \<in> FormatInt ` set order" by (simp only: IH(1))
    then obtain g where g: "g \<in> set order" "fst (ring_GetLeast R c (showNat n)) = FormatInt g" by auto
    have len: "length shards = length (Config_Shards cfg)" using length_reshard[of R "(?c, Config_Shards cfg)" "[0..<n]"] s
      by (simp add: st_def)
    have "st (Suc n) = (ring_Inc R c (FormatInt g), shards[n := g])"
      using s g(2) by (simp add: st_def reshardOne_def Let_def ParseInt_FormatInt)
    then show ?case using IH g(1) len Suc.prems ring by (auto simp: ring_ok_def nth_list_update less_Suc_eq)
  qed
  have "snd (st (length (Config_Shards cfg))) ! i \<in> set order" if "i < length (Config_Shards cfg)" for i
    using inv[OF order_refl] that by blast
  then have "set (snd (st (length (Config_Shards cfg)))) \<subseteq> set order"
    by (auto simp: in_set_conv_nth st_def length_reshard)
  moreover have "Config_Groups cfg \<noteq> Map.empty" "dom (Config_Groups cfg) = set order"
    using order False by (auto simp: iterates_def)
  ultimately show ?thesis using False by (simp add: Reshard_def assigned_def Gids_def Let_def st_def)
qed

lemma NewConfig_ok:
  assumes "NewConfig pb = Ok cfg"
  shows "config_ok cfg \<and> Config_Num cfg = PbConfig_Num pb"
proof -
  let ?c = "\<lparr>Config_Num = PbConfig_Num pb,
        Config_Shards = take NShards (PbConfig_Shards pb) @ replicate (NShards - length (PbConfig_Shards pb)) 0,
        Config_Groups = Map.empty\<rparr>"
  have "config_ok cfg \<and> Config_Num cfg = PbConfig_Num pb"
  proof (rule foldM_go_inv[where I = "\<lambda>c. config_ok c \<and> Config_Num c = PbConfig_Num pb"])
    show "foldM_go addGroup ?c (PbConfig_Groups pb) = Ok cfg" using assms by (simp add: NewConfig_def)
    show "config_ok ?c \<and> Config_Num ?c = PbConfig_Num pb" by (simp add: config_ok_def)
  qed (auto simp: addGroup_def config_ok_def split: if_splits)
  then show ?thesis .
qed

end
