(* ===== verification/Shardctl_Server.thy ===== *)
theory Shardctl_Server
  imports Session Shardctl_Config Raft
begin

text \<open>
  The shard controller, src/shardctl/server.go: a replicated history of configurations. Committed
  commands arrive as messages of the Raft peer and are applied one by one to the history
  \<^verbatim>\<open>sc.configs\<close>, guarded by the session table; \<^verbatim>\<open>Execute\<close> proposes a command and waits until it has
  been applied.

  The decoder of a command, its encoder and the conversions of responses are arguments, as are
  the ring of package consistent and, for each \<^verbatim>\<open>range\<close> over a map, the function that gives the
  order in which the map's keys are visited. \<^verbatim>\<open>sc.waitApply.Trigger\<close> is recorded in \<open>triggered\<close>;
  \<^verbatim>\<open>Execute\<close> is split where it waits.
\<close>

section \<open>Messages\<close>

definition Ctl_EMPTY :: int32 where "Ctl_EMPTY = 0"
definition Ctl_LEAVE :: int32 where "Ctl_LEAVE = 1"
definition Ctl_MOVE :: int32 where "Ctl_MOVE = 2"
definition Ctl_QUERY :: int32 where "Ctl_QUERY = 3"
definition Ctl_JOIN :: int32 where "Ctl_JOIN = 4"

definition Ctl_OK :: int32 where "Ctl_OK = 0"
definition Ctl_ERR_WRONG_LEADER :: int32 where "Ctl_ERR_WRONG_LEADER = 1"
definition Ctl_ERR_BAD_SESSION :: int32 where "Ctl_ERR_BAD_SESSION = 2"

lemmas Ctl_types = Ctl_EMPTY_def Ctl_LEAVE_def Ctl_MOVE_def Ctl_QUERY_def Ctl_JOIN_def

record CtlArgs =
  CtlArgs_Type :: int32
  CtlArgs_SessionHeader :: "SessionHeader option"
  NewGroups :: "Group option list"
  LeaveGIDs :: "int64 list"
  MoveGID :: int64
  MoveShard :: int64
  QueryNum :: int64

record CtlReply =
  WrongLeader :: bool
  CtlReply_Status :: int32
  CtlReply_Message :: string
  CtlReply_Config :: "PbConfig option"

definition CtlArgs_zero :: CtlArgs where
  "CtlArgs_zero = \<lparr>CtlArgs_Type = 0, CtlArgs_SessionHeader = None, NewGroups = [], LeaveGIDs = [],
     MoveGID = 0, MoveShard = 0, QueryNum = 0\<rparr>"

definition CtlReply_zero :: CtlReply where
  "CtlReply_zero = \<lparr>WrongLeader = False, CtlReply_Status = 0, CtlReply_Message = [], CtlReply_Config = None\<rparr>"

section \<open>The history of configurations\<close>

text \<open>
  The value of interface type \<^verbatim>\<open>session.Response\<close> with its dynamic type, and the assertion
  \<^verbatim>\<open>resp.(*pb.Config)\<close>.
\<close>

datatype Response = RespConfig "Config option" | RespPbConfig "PbConfig option"

definition assertPbConfig :: "Response \<Rightarrow> PbConfig option go" where
  "assertPbConfig resp = (case resp of RespPbConfig p \<Rightarrow> Ok p | RespConfig _ \<Rightarrow> Panic TypeAssertion)"

type_synonym visit = "(int64 \<rightharpoonup> Group option) \<Rightarrow> int64 list"

definition newConfig :: "visit \<Rightarrow> Config option list \<Rightarrow> Config go" where
  "newConfig v configs =
     go_bind (indexInt configs (int (length configs) - 1)) (\<lambda>p.
     go_bind (deref p) (\<lambda>oldCfg.
       foldM_go addGroup
         \<lparr>Config_Num = Config_Num oldCfg + 1, Config_Shards = Config_Shards oldCfg, Config_Groups = Map.empty\<rparr>
         (List.map_filter (Config_Groups oldCfg) (v (Config_Groups oldCfg)))))"

text \<open>
  The four operations: the reply, whether the error is set (it never is), and the new history.
\<close>

definition applyJoin ::
  "('h, 'e) ring \<Rightarrow> visit \<Rightarrow> visit \<Rightarrow> Group option list \<Rightarrow> Config option list
    \<Rightarrow> ((CtlReply option \<times> bool) \<times> Config option list) go" where
  "applyJoin R v1 v2 groups configs =
     go_bind (newConfig v1 configs) (\<lambda>cfg.
     go_bind (Join groups cfg) (\<lambda>cfg.
       let cfg = Reshard R (v2 (Config_Groups cfg)) cfg
       in Ok ((Some (CtlReply_zero\<lparr>CtlReply_Status := Ctl_OK\<rparr>), False), configs @ [Some cfg])))"

definition applyLeave ::
  "('h, 'e) ring \<Rightarrow> visit \<Rightarrow> visit \<Rightarrow> int64 list \<Rightarrow> Config option list
    \<Rightarrow> ((CtlReply option \<times> bool) \<times> Config option list) go" where
  "applyLeave R v1 v2 gids configs =
     go_bind (newConfig v1 configs) (\<lambda>cfg.
       let cfg = Leave gids cfg;
           cfg = Reshard R (v2 (Config_Groups cfg)) cfg
       in Ok ((Some (CtlReply_zero\<lparr>WrongLeader := False, CtlReply_Status := Ctl_OK\<rparr>), False), configs @ [Some cfg]))"

definition applyMove ::
  "visit \<Rightarrow> int64 \<Rightarrow> int64 \<Rightarrow> Config option list \<Rightarrow> ((CtlReply option \<times> bool) \<times> Config option list) go" where
  "applyMove v1 gid shard configs =
     go_bind (newConfig v1 configs) (\<lambda>cfg.
     go_bind (store (Config_Shards cfg) (sint shard) gid) (\<lambda>shards.
       Ok ((Some (CtlReply_zero\<lparr>WrongLeader := False, CtlReply_Status := Ctl_OK\<rparr>), False),
           configs @ [Some (cfg\<lparr>Config_Shards := shards\<rparr>)])))"

definition applyQuery ::
  "int64 \<Rightarrow> Config option list \<Rightarrow> ((CtlReply option \<times> bool) \<times> Config option list) go" where
  "applyQuery queryNum configs =
     go_bind (if queryNum = -1 \<or> int (length configs) \<le> sint queryNum
              then indexInt configs (int (length configs) - 1)
              else indexInt configs (sint queryNum)) (\<lambda>p.
     go_bind (assertPbConfig (RespConfig p)) (\<lambda>cfg.
       Ok ((Some (CtlReply_zero\<lparr>CtlReply_Status := Ctl_OK, CtlReply_Config := cfg\<rparr>), False), configs)))"

text \<open>The \<^verbatim>\<open>switch args.Type\<close>; a type without a case leaves the reply nil.\<close>

definition applyCommand ::
  "('h, 'e) ring \<Rightarrow> visit \<Rightarrow> visit \<Rightarrow> CtlArgs \<Rightarrow> Config option list
    \<Rightarrow> ((CtlReply option \<times> bool) \<times> Config option list) go" where
  "applyCommand R v1 v2 args configs =
     (if CtlArgs_Type args = Ctl_JOIN then applyJoin R v1 v2 (NewGroups args) configs
      else if CtlArgs_Type args = Ctl_LEAVE then applyLeave R v1 v2 (LeaveGIDs args) configs
      else if CtlArgs_Type args = Ctl_MOVE then applyMove v1 (MoveGID args) (MoveShard args) configs
      else if CtlArgs_Type args = Ctl_QUERY then applyQuery (QueryNum args) configs
      else if CtlArgs_Type args = Ctl_EMPTY
        then Ok ((Some (CtlReply_zero\<lparr>CtlReply_Status := Ctl_OK, WrongLeader := False\<rparr>), False), configs)
      else Ok ((None, False), configs))"

section \<open>The server\<close>

record 'any ShardCtl =
  sc_me :: uint64
  sc_rf :: "Raft option"
  sc_SessionMap :: "'any SessionMap"
  sc_AppliedIndex :: uint64
  clientSession :: ClientSession
  configs :: "Config option list"
  sc_stopped :: bool              \<comment> \<open>whether the channel \<open>stop\<close> is closed\<close>
  triggered :: "uint64 list"

definition finishApply :: "uint64 \<Rightarrow> 'any ShardCtl \<Rightarrow> 'any ShardCtl" where
  "finishApply index sc = sc\<lparr>sc_AppliedIndex := index, triggered := triggered sc @ [index]\<rparr>"

text \<open>One message received by the loop of \<^verbatim>\<open>run\<close>.\<close>

definition ctl_run ::
  "(bytes \<Rightarrow> CtlArgs) \<Rightarrow> (CtlReply option \<Rightarrow> 'any option \<times> 'e option) \<Rightarrow> ('h, 'f) ring \<Rightarrow> visit \<Rightarrow> visit
    \<Rightarrow> ApplyMsg \<Rightarrow> 'any ShardCtl \<Rightarrow> 'any ShardCtl go" where
  "ctl_run decode marshalAny R v1 v2 msg sc =
     (if CommandValid msg \<and> Command msg \<noteq> None then
        let args = decode (Command msg) in
        go_bind (IsDuplicate (CtlArgs_SessionHeader args) (sc_SessionMap sc)) (\<lambda>dup.
          if dup then Ok (finishApply (CommandIndex msg) sc)
          else
            go_bind (applyCommand R v1 v2 args (configs sc)) (\<lambda>((reply, err), cs).
              let sc1 = sc\<lparr>configs := cs\<rparr> in
              if err then Ok sc1
              else
                go_bind (deref (CtlArgs_SessionHeader args)) (\<lambda>h.
                go_bind (recordResponse marshalAny (sc_SessionMap sc1) h reply) (\<lambda>sm.
                  Ok (finishApply (CommandIndex msg) (sc1\<lparr>sc_SessionMap := sm\<rparr>))))))
      else Ok sc)"

text \<open>
  \<^verbatim>\<open>Execute\<close> for a given value of its result pointer \<^verbatim>\<open>reply\<close>: up to the wait it either returns a
  reply or waits for an index of the log; \<open>ctl_Execute_end\<close> is the rest. \<^verbatim>\<open>resp.(*pb.Reply)\<close> panics
  on a nil interface. The server passes a nil pointer.
\<close>

definition assertReply :: "'r option \<Rightarrow> 'r go" where
  "assertReply resp = (case resp of None \<Rightarrow> Panic TypeAssertion | Some r \<Rightarrow> Ok r)"

definition ctl_Execute_begin ::
  "(CtlArgs \<Rightarrow> byte list go) \<Rightarrow> ('any option \<Rightarrow> CtlReply option \<Rightarrow> 'e option) \<Rightarrow> ('e session_error \<Rightarrow> string)
    \<Rightarrow> CtlReply option \<Rightarrow> CtlArgs \<Rightarrow> 'any ShardCtl \<Rightarrow> ((CtlReply + uint64) \<times> 'any ShardCtl) go" where
  "ctl_Execute_begin marshal unmarshalAny errText replyPtr args sc =
     go_bind (IsDuplicate (CtlArgs_SessionHeader args) (sc_SessionMap sc)) (\<lambda>dup.
       if dup then
         go_bind (GetResponse unmarshalAny (CtlArgs_SessionHeader args) (sc_SessionMap sc)) (\<lambda>(resp, err).
           case err of
             Some e \<Rightarrow> go_bind (deref replyPtr) (\<lambda>reply.
               Ok (Inl (reply\<lparr>CtlReply_Status := Ctl_ERR_BAD_SESSION, CtlReply_Message := errText e\<rparr>), sc))
           | None \<Rightarrow> go_bind (assertReply resp) (\<lambda>r. go_bind (deref replyPtr) (\<lambda>_. Ok (Inl r, sc))))
       else
         go_bind (marshal args) (\<lambda>data.
         go_bind (deref (sc_rf sc)) (\<lambda>rf.
         go_bind (Start (Some data) rf) (\<lambda>((index, _, isLead), rf1).
           let sc1 = sc\<lparr>sc_rf := Some rf1\<rparr> in
           if \<not> isLead then go_bind (deref replyPtr) (\<lambda>reply.
             Ok (Inl (reply\<lparr>WrongLeader := True, CtlReply_Status := Ctl_ERR_WRONG_LEADER\<rparr>), sc1))
           else Ok (Inr index, sc1)))))"

definition ctl_Execute_end ::
  "('any option \<Rightarrow> CtlReply option \<Rightarrow> 'e option) \<Rightarrow> ('e session_error \<Rightarrow> string)
    \<Rightarrow> CtlReply option \<Rightarrow> CtlArgs \<Rightarrow> 'any ShardCtl \<Rightarrow> CtlReply go" where
  "ctl_Execute_end unmarshalAny errText replyPtr args sc =
     go_bind (GetResponse unmarshalAny (CtlArgs_SessionHeader args) (sc_SessionMap sc)) (\<lambda>(resp, err).
       case err of
         Some e \<Rightarrow> go_bind (deref replyPtr) (\<lambda>reply.
           Ok (reply\<lparr>CtlReply_Status := Ctl_ERR_BAD_SESSION, CtlReply_Message := errText e\<rparr>))
       | None \<Rightarrow> assertReply resp)"

definition ctl_Kill :: "'any ShardCtl \<Rightarrow> 'any ShardCtl go" where
  "ctl_Kill sc =
     go_bind (deref (sc_rf sc)) (\<lambda>rf.
     go_bind (Kill rf) (\<lambda>rf1.
       if sc_stopped sc then Panic CloseOfClosedChannel
       else Ok (sc\<lparr>sc_rf := Some rf1, sc_stopped := True\<rparr>)))"

text \<open>
  The action of the monitor: a leader without an entry of its term proposes an empty command, as
  a client of its own. The result is the outcome of the \<^verbatim>\<open>Execute\<close> it starts, if it starts one.
\<close>

definition ctl_checkEntryInCurrentTermAction ::
  "(CtlArgs \<Rightarrow> byte list go) \<Rightarrow> ('any option \<Rightarrow> CtlReply option \<Rightarrow> 'e option) \<Rightarrow> ('e session_error \<Rightarrow> string)
    \<Rightarrow> 'any ShardCtl \<Rightarrow> ((CtlReply + uint64) option \<times> 'any ShardCtl) go" where
  "ctl_checkEntryInCurrentTermAction marshal unmarshalAny errText sc =
     go_bind (deref (sc_rf sc)) (\<lambda>rf.
     go_bind (HasCurrentTermLog rf) (\<lambda>has.
       if \<not> has then
         (case NextHeader (clientSession sc) of (h, c) \<Rightarrow>
            go_bind (ctl_Execute_begin marshal unmarshalAny errText None
               (CtlArgs_zero\<lparr>CtlArgs_Type := Ctl_EMPTY, CtlArgs_SessionHeader := Some h\<rparr>)
               (sc\<lparr>clientSession := c\<rparr>)) (\<lambda>(r, sc1). Ok (Some r, sc1)))
       else Ok (None, sc)))"

text \<open>One turn of \<^verbatim>\<open>Monitor\<close>: whether it goes on, and the state after the action.\<close>

definition ctl_Monitor_turn :: "('any ShardCtl \<Rightarrow> 'any ShardCtl go) \<Rightarrow> 'any ShardCtl \<Rightarrow> (bool \<times> 'any ShardCtl) go" where
  "ctl_Monitor_turn action sc =
     (if sc_stopped sc then Ok (False, sc)
      else go_bind (deref (sc_rf sc)) (\<lambda>rf.
           go_bind (GetState rf) (\<lambda>(_, isLeader).
             if isLeader then go_bind (action sc) (\<lambda>sc1. Ok (True, sc1)) else Ok (True, sc))))"

text \<open>
  \<^verbatim>\<open>StartServer\<close>: \<^verbatim>\<open>rand.Int63()\<close> is the argument \<open>sid\<close>. The element of the new slice whose field is
  assigned first is a nil pointer.
\<close>

definition ctl_StartServer ::
  "('addr \<Rightarrow> 'client option) \<Rightarrow> int64 \<Rightarrow> 'addr list \<Rightarrow> uint64 \<Rightarrow> Persister \<Rightarrow> 'any ShardCtl go" where
  "ctl_StartServer dial sid servers me persister =
     (let cfgs = replicate 1 None in
      go_bind (indexInt cfgs 0) (\<lambda>p.
      go_bind (deref p) (\<lambda>cfg.
      go_bind (store cfgs 0 (Some (cfg\<lparr>Config_Groups := Map.empty\<rparr>))) (\<lambda>cfgs.
      go_bind (Make dial servers me persister) (\<lambda>made.
        Ok \<lparr>sc_me = me, sc_rf = (case made of Inl _ \<Rightarrow> None | Inr rf \<Rightarrow> Some rf), sc_SessionMap = NewSessionMap,
            sc_AppliedIndex = 0, clientSession = NewClientSession sid, configs = cfgs,
            sc_stopped = False, triggered = []\<rparr>)))))"

end
