(* ===== verification/Shardctl_Laws.thy ===== *)
theory Shardctl_Laws
  imports Shardctl_Server "HOL-Library.Multiset"
begin

text \<open>
  The laws of the shard controller: the invariant of the history of configurations, the effect of
  each operation on it, the independence of all of them of the order in which maps are visited,
  and the message loop as an instance of the service that a session table guards.
\<close>

section \<open>Invariant\<close>

text \<open>The configuration with number \<open>n\<close> is at position \<open>n\<close>, and all are well formed.\<close>

definition history_ok :: "Config option list \<Rightarrow> bool" where
  "history_ok cs \<longleftrightarrow> cs \<noteq> [] \<and>
     (\<forall>i < length cs. \<exists>c. cs ! i = Some c \<and> config_ok c \<and> Config_Num c = of_nat i)"

definition latest :: "Config option list \<Rightarrow> Config" where
  "latest cs = the (last cs)"

text \<open>A function that lists every map's keys, each once.\<close>

definition visits :: "visit \<Rightarrow> bool" where
  "visits v \<longleftrightarrow> (\<forall>m. iterates m (v m))"

text \<open>Adding members to the ring in another order makes no difference.\<close>

definition ring_commutes :: "('h, 'e) ring \<Rightarrow> bool" where
  "ring_commutes R \<longleftrightarrow> (\<forall>c a b. ring_Add R (ring_Add R c a) b = ring_Add R (ring_Add R c b) a)"

lemma latest_ok:
  assumes "history_ok cs"
  shows "last cs = Some (latest cs)" "config_ok (latest cs)" "Config_Num (latest cs) + 1 = of_nat (length cs)"
proof -
  from assms have ne: "cs \<noteq> []" by (simp add: history_ok_def)
  then have len: "length cs - 1 < length cs" by simp
  from assms ne obtain c where c: "cs ! (length cs - 1) = Some c" "config_ok c" "Config_Num c = of_nat (length cs - 1)"
    unfolding history_ok_def using len by blast
  then show "last cs = Some (latest cs)" "config_ok (latest cs)" using ne by (simp_all add: latest_def last_conv_nth)
  have "(of_nat (length cs - 1) :: int64) + 1 = of_nat (Suc (length cs - 1))" by simp
  then show "Config_Num (latest cs) + 1 = of_nat (length cs)" using c ne by (simp add: latest_def last_conv_nth)
qed

lemma history_ok_snoc:
  "history_ok cs \<Longrightarrow> config_ok c \<Longrightarrow> Config_Num c = of_nat (length cs) \<Longrightarrow> history_ok (cs @ [Some c])"
  by (auto simp: history_ok_def nth_append less_Suc_eq)

lemma visits_iterates: "visits v \<Longrightarrow> config_ok c \<Longrightarrow> iterates (Config_Groups c) (v (Config_Groups c))"
  by (simp add: visits_def)

section \<open>Operations\<close>

lemma addGroups_copy:
  assumes "\<And>k g. m k = Some g \<Longrightarrow> \<exists>group. g = Some group \<and> Group_ID group = k"
  shows "foldM_go addGroup c (List.map_filter m ks) = Ok (c\<lparr>Config_Groups := Config_Groups c ++ m |` set ks\<rparr>)"
proof (induction ks arbitrary: c)
  case (Cons k ks)
  show ?case
  proof (cases "m k")
    case None
    then have "m |` set (k # ks) = m |` set ks" by (auto simp: restrict_map_def)
    then show ?thesis using None Cons by (simp add: map_filter_simps)
  next
    case (Some g)
    with assms obtain group where g: "g = Some group" "Group_ID group = k" by blast
    have "(Config_Groups c)(k \<mapsto> g) ++ m |` set ks = Config_Groups c ++ m |` set (k # ks)"
      using Some by (auto simp: map_add_def restrict_map_def fun_eq_iff split: option.splits)
    then show ?thesis using Some g Cons by (simp add: map_filter_simps addGroup_def)
  qed
qed (simp add: map_filter_simps restrict_map_def)

text \<open>The next configuration starts as a copy of the latest, whatever order its groups are visited in.\<close>

lemma newConfig_spec [go_specs]:
  assumes "history_ok cs" "visits v"
  shows "newConfig v cs = Ok ((latest cs)\<lparr>Config_Num := of_nat (length cs)\<rparr>)"
proof -
  note l = latest_ok[OF assms(1)]
  from assms(1) have ne: "cs \<noteq> []" by (simp add: history_ok_def)
  have "\<And>k g. Config_Groups (latest cs) k = Some g \<Longrightarrow> \<exists>group. g = Some group \<and> Group_ID group = k"
    using l(2) by (simp add: config_ok_def)
  note copy = addGroups_copy[OF this]
  have "set (v (Config_Groups (latest cs))) = dom (Config_Groups (latest cs))"
    using visits_iterates[OF assms(2) l(2)] by (simp add: iterates_def)
  then have "Config_Groups (latest cs) |` set (v (Config_Groups (latest cs))) = Config_Groups (latest cs)"
    by (auto simp: restrict_map_def fun_eq_iff)
  moreover have "indexInt cs (int (length cs) - 1) = Ok (Some (latest cs))"
    using ne l(1) by (auto simp: indexInt_def last_conv_nth nat_diff_distrib Suc_leI simp flip: of_nat_Suc)
  ultimately show ?thesis using l(3) by (simp add: newConfig_def copy)
qed

lemma Reshard_num [simp]: "Config_Num (Reshard R order cfg) = Config_Num cfg"
  by (simp add: Reshard_def Let_def)

lemma Reshard_groups [simp]: "Config_Groups (Reshard R order cfg) = Config_Groups cfg"
  by (simp add: Reshard_def Let_def)

lemma config_ok_num [simp]: "config_ok (c\<lparr>Config_Num := n\<rparr>) = config_ok c"
  by (simp add: config_ok_def)

lemma config_ok_shards: "config_ok c \<Longrightarrow> length s = NShards \<Longrightarrow> config_ok (c\<lparr>Config_Shards := s\<rparr>)"
  by (simp add: config_ok_def)

lemma Join_num: "Join gs cfg = Ok cfg' \<Longrightarrow> Config_Num cfg' = Config_Num cfg"
  unfolding Join_def
  by (rule foldM_go_inv[where I = "\<lambda>c. Config_Num c = Config_Num cfg"])
    (auto simp: joinOne_def addGroup_def split: if_splits)

text \<open>Every command extends the history by at most one well-formed configuration and never fails.\<close>

definition appends :: "Config option list \<Rightarrow> Config option list \<Rightarrow> bool" where
  "appends cs cs' \<longleftrightarrow> (\<exists>c. cs' = cs @ [Some c] \<and> config_ok c \<and> Config_Num c = of_nat (length cs))"

lemma applyJoin_appends:
  assumes "history_ok cs" "visits v1" "applyJoin R v1 v2 gs cs = Ok (r, cs')"
  shows "\<not> snd r \<and> appends cs cs'"
proof -
  from assms(3) newConfig_spec[OF assms(1,2)] obtain c where
    c: "Join gs ((latest cs)\<lparr>Config_Num := of_nat (length cs)\<rparr>) = Ok c" "\<not> snd r"
      "cs' = cs @ [Some (Reshard R (v2 (Config_Groups c)) c)]"
    by (auto simp: applyJoin_def Let_def)
  have "config_ok c" using Join_ok[OF _ c(1)] latest_ok(2)[OF assms(1)] by simp
  then show ?thesis using c Join_num[OF c(1)] by (simp add: appends_def Reshard_ok)
qed

lemma applyLeave_appends:
  assumes "history_ok cs" "visits v1" "applyLeave R v1 v2 gids cs = Ok (r, cs')"
  shows "\<not> snd r \<and> appends cs cs'"
proof -
  let ?c = "Leave gids ((latest cs)\<lparr>Config_Num := of_nat (length cs)\<rparr>)"
  from assms(3) newConfig_spec[OF assms(1,2)] have
    c: "\<not> snd r" "cs' = cs @ [Some (Reshard R (v2 (Config_Groups ?c)) ?c)]"
    by (auto simp: applyLeave_def Let_def)
  have "config_ok ?c" using Leave_ok latest_ok(2)[OF assms(1)] by simp
  moreover have "Config_Num ?c = of_nat (length cs)" by (simp add: Leave_groups)
  ultimately show ?thesis using c by (simp add: appends_def Reshard_ok)
qed

lemma applyMove_appends:
  assumes "history_ok cs" "visits v1" "applyMove v1 gid shard cs = Ok (r, cs')"
  shows "\<not> snd r \<and> appends cs cs'"
  using assms newConfig_spec[OF assms(1,2)] latest_ok(2)[OF assms(1)]
  by (auto simp: applyMove_def appends_def config_ok_def dest: store_length)

lemma applyQuery_panics:
  "applyQuery q cs = Panic (if cs \<noteq> [] \<and> (q = -1 \<or> 0 \<le> sint q) then TypeAssertion else IndexOutOfRange)"
  by (cases "cs = []") (auto simp: applyQuery_def assertPbConfig_def indexInt_def Suc_leI)

lemma applyCommand_history:
  assumes "history_ok cs" "visits v1" "applyCommand R v1 v2 args cs = Ok (r, cs')"
  shows "\<not> snd r \<and> (cs' = cs \<or> appends cs cs')"
  using assms(3) unfolding applyCommand_def
  by (auto simp: applyQuery_panics split: if_splits
      dest: applyJoin_appends[OF assms(1,2)] applyLeave_appends[OF assms(1,2)] applyMove_appends[OF assms(1,2)])

lemma appends_ok: "history_ok cs \<Longrightarrow> appends cs cs' \<Longrightarrow> history_ok cs'"
  by (auto simp: appends_def intro: history_ok_snoc)

section \<open>Independence of the visiting order\<close>

lemma ring_order:
  assumes R: "ring_commutes R" and o: "iterates m o1" "iterates m o2"
  shows "foldl (\<lambda>c gid. ring_Add R c (FormatInt gid)) c o1 = foldl (\<lambda>c gid. ring_Add R c (FormatInt gid)) c o2"
proof -
  have "mset o1 = mset o2" using o by (simp add: iterates_def set_eq_iff_mset_eq_distinct[symmetric])
  then have "fold (\<lambda>gid c. ring_Add R c (FormatInt gid)) o1 = fold (\<lambda>gid c. ring_Add R c (FormatInt gid)) o2"
    using R by (intro fold_multiset_equiv) (auto simp: ring_commutes_def fun_eq_iff)
  then show ?thesis by (simp add: foldl_conv_fold)
qed

lemma Reshard_order:
  assumes "ring_commutes R" "iterates (Config_Groups cfg) o1" "iterates (Config_Groups cfg) o2"
  shows "Reshard R o1 cfg = Reshard R o2 cfg"
proof -
  have "length o1 = length o2" using assms(2,3) by (metis iterates_def distinct_card)
  then show ?thesis using ring_order[OF assms] by (simp add: Reshard_def Gids_def Let_def)
qed

lemma applyCommand_order:
  assumes R: "ring_commutes R" and ok: "history_ok cs" and v: "visits v1" "visits v2" "visits w1" "visits w2"
  shows "applyCommand R v1 v2 args cs = applyCommand R w1 w2 args cs"
proof -
  have new: "newConfig v1 cs = newConfig w1 cs" using newConfig_spec[OF ok] v by simp
  let ?c = "(latest cs)\<lparr>Config_Num := of_nat (length cs)\<rparr>"
  have c: "newConfig w1 cs = Ok ?c" "config_ok ?c" using newConfig_spec[OF ok v(3)] latest_ok(2)[OF ok] by simp_all
  have re: "Reshard R (v2 (Config_Groups c)) c = Reshard R (w2 (Config_Groups c)) c" if "config_ok c" for c
    using that v R by (intro Reshard_order) (auto intro: visits_iterates)
  have "applyJoin R v1 v2 gs cs = applyJoin R w1 w2 gs cs" for gs
  proof (cases "Join gs ?c")
    case (Ok c')
    then have "config_ok c'" using Join_ok c(2) by blast
    then show ?thesis using Ok by (simp add: applyJoin_def new c Let_def re)
  qed (simp add: applyJoin_def new c)
  moreover have "applyLeave R v1 v2 gids cs = applyLeave R w1 w2 gids cs" for gids
    using re[OF Leave_ok[OF c(2), of gids]] by (simp add: applyLeave_def new c Let_def)
  moreover have "applyMove v1 g s cs = applyMove w1 g s cs" for g s by (simp add: applyMove_def new)
  ultimately show ?thesis by (simp add: applyCommand_def)
qed

section \<open>The message loop\<close>

text \<open>A command as the table-guarded service sees it: its two visiting orders and its arguments.\<close>

type_synonym command = "visit \<times> visit \<times> CtlArgs"

definition exec :: "('h, 'e) ring \<Rightarrow> Config option list \<Rightarrow> command \<Rightarrow> (Config option list \<times> CtlReply option) go" where
  "exec R cs c = (case c of (v1, v2, args) \<Rightarrow>
     go_bind (applyCommand R v1 v2 args cs) (\<lambda>((reply, _), cs'). Ok (cs', reply)))"

definition header :: "command \<Rightarrow> SessionHeader" where
  "header c = the (CtlArgs_SessionHeader (snd (snd c)))"

text \<open>A message with its visiting orders, and the commands among a sequence of messages.\<close>

definition isCommand :: "ApplyMsg \<Rightarrow> bool" where
  "isCommand msg \<longleftrightarrow> CommandValid msg \<and> Command msg \<noteq> None"

definition commands :: "(bytes \<Rightarrow> CtlArgs) \<Rightarrow> (visit \<times> visit \<times> ApplyMsg) list \<Rightarrow> command list" where
  "commands decode ms =
     map (\<lambda>(v1, v2, msg). (v1, v2, decode (Command msg))) (filter (\<lambda>(_, _, msg). isCommand msg) ms)"

definition ctl_runs ::
  "(bytes \<Rightarrow> CtlArgs) \<Rightarrow> (CtlReply option \<Rightarrow> 'any option \<times> 'e option) \<Rightarrow> ('h, 'f) ring
    \<Rightarrow> (visit \<times> visit \<times> ApplyMsg) list \<Rightarrow> 'any ShardCtl \<Rightarrow> 'any ShardCtl go" where
  "ctl_runs decode marshalAny R ms sc = foldM_go (\<lambda>sc (v1, v2, msg). ctl_run decode marshalAny R v1 v2 msg sc) sc ms"

lemma applyCommand_no_error: "applyCommand R v1 v2 args cs = Ok ((r, err), cs') \<Longrightarrow> \<not> err"
  by (auto simp: applyCommand_def applyJoin_def applyLeave_def applyMove_def applyQuery_def assertPbConfig_def Let_def
      split: if_splits)

text \<open>The loop is the service guarded by the session table.\<close>

lemma ctl_run_serves:
  assumes "ctl_run decode marshalAny R v1 v2 msg sc = Ok sc'" "isCommand msg"
  shows "\<exists>d'. guarded marshalAny (exec R) header (configs sc, sc_SessionMap sc, d) (v1, v2, decode (Command msg)) =
      Ok (configs sc', sc_SessionMap sc', d') \<and>
    sc_AppliedIndex sc' = CommandIndex msg \<and> triggered sc' = triggered sc @ [CommandIndex msg]"
proof -
  let ?args = "decode (Command msg)"
  from assms obtain h where h: "CtlArgs_SessionHeader ?args = Some h"
    by (cases "CtlArgs_SessionHeader ?args") (auto simp: ctl_run_def isCommand_def IsDuplicate_def withLock_def Let_def split: if_splits)
  then have hd: "header (v1, v2, ?args) = h" by (simp add: header_def)
  from assms h obtain dup where dup: "IsDuplicate (Some h) (sc_SessionMap sc) = Ok dup"
    by (auto simp: ctl_run_def isCommand_def Let_def)
  show ?thesis
  proof (cases dup)
    case True
    then show ?thesis using assms h hd dup
      by (auto simp: ctl_run_def isCommand_def sm.serve_def finishApply_def Let_def)
  next
    case False
    then obtain reply err cs sm where
      "applyCommand R v1 v2 ?args (configs sc) = Ok ((reply, err), cs)" "\<not> err"
      "recordResponse marshalAny (sc_SessionMap sc) h reply = Ok sm"
      "sc' = finishApply (CommandIndex msg) (sc\<lparr>configs := cs, sc_SessionMap := sm\<rparr>)"
      using assms h dup
      by (auto simp: ctl_run_def isCommand_def Let_def dest: applyCommand_no_error split: if_splits)
    then show ?thesis using False hd dup by (auto simp: sm.serve_def exec_def finishApply_def)
  qed
qed

lemma ctl_runs_serves:
  assumes "ctl_runs decode marshalAny R ms sc = Ok sc'"
  shows "\<exists>d'. foldM_go (guarded marshalAny (exec R) header) (configs sc, sc_SessionMap sc, d) (commands decode ms) =
    Ok (configs sc', sc_SessionMap sc', d')"
  using assms
proof (induction ms arbitrary: sc d)
  case Nil
  then show ?case by (simp add: ctl_runs_def commands_def)
next
  case (Cons m ms)
  obtain v1 v2 msg where m: "m = (v1, v2, msg)" by (metis prod_cases3)
  from Cons.prems obtain sc1 where 1: "ctl_run decode marshalAny R v1 v2 msg sc = Ok sc1" "ctl_runs decode marshalAny R ms sc1 = Ok sc'"
    by (auto simp: ctl_runs_def m)
  show ?case
  proof (cases "isCommand msg")
    case True
    from ctl_run_serves[OF 1(1) True, of d] obtain d1 where
      s: "guarded marshalAny (exec R) header (configs sc, sc_SessionMap sc, d) (v1, v2, decode (Command msg)) =
        Ok (configs sc1, sc_SessionMap sc1, d1)" by blast
    from Cons.IH[OF 1(2), of d1] s True show ?thesis by (simp add: commands_def m)
  next
    case False
    then have "sc1 = sc" using 1(1) by (auto simp: ctl_run_def isCommand_def)
    then show ?thesis using Cons.IH[OF 1(2), of d] False by (simp add: commands_def m)
  qed
qed

lemma ctl_run_history:
  assumes "ctl_run decode marshalAny R v1 v2 msg sc = Ok sc'" "history_ok (configs sc)" "visits v1"
  shows "configs sc' = configs sc \<or> appends (configs sc) (configs sc')"
proof -
  have "configs sc' = configs sc \<or>
      (\<exists>r. applyCommand R v1 v2 (decode (Command msg)) (configs sc) = Ok (r, configs sc'))"
    using assms(1) by (auto simp: ctl_run_def Let_def finishApply_def split: if_splits)
  then show ?thesis using applyCommand_history[OF assms(2,3)] by blast
qed

text \<open>Two runs over the same messages do the same, in whatever orders maps are visited.\<close>

lemma ctl_runs_order:
  assumes "ring_commutes R" "history_ok (configs sc)" "map (\<lambda>(_, _, msg). msg) ms = map (\<lambda>(_, _, msg). msg) ms'"
    "\<And>v1 v2 msg. (v1, v2, msg) \<in> set ms \<union> set ms' \<Longrightarrow> visits v1 \<and> visits v2"
  shows "ctl_runs decode marshalAny R ms sc = ctl_runs decode marshalAny R ms' sc"
  using assms(2-)
proof (induction ms arbitrary: sc ms')
  case Nil
  then show ?case by simp
next
  case (Cons m ms)
  from Cons.prems(2) obtain v1 v2 w1 w2 msg ms1 where
    m: "m = (v1, v2, msg)" "ms' = (w1, w2, msg) # ms1" "map (\<lambda>(_, _, msg). msg) ms = map (\<lambda>(_, _, msg). msg) ms1"
    by (cases ms') (auto split: prod.splits)
  have v: "visits v1" "visits v2" "visits w1" "visits w2" using Cons.prems(3) unfolding m(1,2) by auto
  have same: "ctl_run decode marshalAny R v1 v2 msg sc = ctl_run decode marshalAny R w1 w2 msg sc"
    by (simp only: ctl_run_def applyCommand_order[OF assms(1) Cons.prems(1) v])
  show ?case
  proof (cases "ctl_run decode marshalAny R v1 v2 msg sc")
    case (Ok sc1)
    then have "history_ok (configs sc1)" using ctl_run_history[OF Ok Cons.prems(1) v(1)] Cons.prems(1) appends_ok by auto
    from Cons.IH[OF this m(3)] Cons.prems(3) have "ctl_runs decode marshalAny R ms sc1 = ctl_runs decode marshalAny R ms1 sc1"
      unfolding m(1,2) by auto
    then show ?thesis using Ok same by (simp add: ctl_runs_def m(1,2))
  qed (use same in \<open>simp add: ctl_runs_def m(1,2)\<close>)
qed

end
