(* ===== verification/Shardctl_Properties.thy ===== *)
theory Shardctl_Properties
  imports Shardctl_Laws "HOL-Library.Char_ord" "HOL-Library.List_Lexorder"
begin

text \<open>
  The properties of the shard controller, over the laws of theory Shardctl_Laws. The instances use
  a ring that keeps its members sorted and gives each shard the member at the shard's number, and
  two visiting orders, ascending and descending.
\<close>

section \<open>Instances\<close>

definition sample_ring :: "(string list, unit) ring" where
  "sample_ring = \<lparr>ring_new = [], ring_Add = (\<lambda>c k. insort k c),
     ring_GetLeast = (\<lambda>c k. (c ! (nat (sint (fst (ParseInt k))) mod length c), None)), ring_Inc = (\<lambda>c k. c)\<rparr>"

lemma sample_ring_ok: "ring_ok sample_ring set" "ring_commutes sample_ring"
  by (auto simp: ring_ok_def ring_commutes_def sample_ring_def set_insort_key insort_left_comm)

definition ascending :: visit where "ascending m = sorted_list_of_set (dom m)"
definition descending :: visit where "descending m = rev (sorted_list_of_set (dom m))"

lemma sample_visits: "visits ascending" "visits descending"
  by (auto simp: visits_def iterates_def ascending_def descending_def)

definition first_config :: Config where
  "first_config = \<lparr>Config_Num = 0, Config_Shards = replicate NShards 0, Config_Groups = Map.empty\<rparr>"

lemma first_history: "history_ok [Some first_config]" "latest [Some first_config] = first_config"
  by (simp_all add: history_ok_def config_ok_def first_config_def latest_def)

lemma first_groups: "Config_Groups first_config = Map.empty"
  by (simp add: first_config_def)

definition sample_ctl :: "nat ShardCtl" where
  "sample_ctl = \<lparr>sc_me = 0, sc_rf = None, sc_SessionMap = NewSessionMap, sc_AppliedIndex = 0,
     clientSession = NewClientSession 1, configs = [Some first_config], sc_stopped = False, triggered = []\<rparr>"

text \<open>A command that moves shard 3 to group 5, as the first request of client 9, and its message.\<close>

definition move_args :: "bytes \<Rightarrow> CtlArgs" where
  "move_args _ = CtlArgs_zero\<lparr>CtlArgs_Type := Ctl_MOVE,
     CtlArgs_SessionHeader := Some \<lparr>Header_ID = 9, Header_Seq = 1\<rparr>, MoveGID := 5, MoveShard := 3\<rparr>"

definition move_msg :: "uint64 \<Rightarrow> ApplyMsg" where
  "move_msg i = \<lparr>CommandValid = True, Command = Some [1], CommandIndex = i, SnapshotValid = False,
     SnapshotBytes = None, SnapshotTerm = 0, SnapshotIndex = 0\<rparr>"

definition moved :: Config where
  "moved = first_config\<lparr>Config_Num := 1, Config_Shards := (replicate NShards 0)[3 := 5]\<rparr>"

lemma applyMove_sample:
  "applyMove ascending 5 3 [Some first_config] = Ok ((Some CtlReply_zero, False), [Some first_config, Some moved])"
proof -
  have "newConfig ascending [Some first_config] = Ok (first_config\<lparr>Config_Num := 1\<rparr>)"
    using newConfig_spec[OF first_history(1) sample_visits(1)] by (simp add: first_history)
  then show ?thesis
    by (simp add: applyMove_def store_def first_config_def moved_def NShards_def CtlReply_zero_def Ctl_OK_def)
qed

text \<open>The command delivered twice: it is executed the first time only.\<close>

lemma sample_run:
  "\<exists>sm. ctl_runs move_args (\<lambda>_. (Some (0 :: nat), None :: unit option)) sample_ring
     [(ascending, ascending, move_msg 1), (ascending, ascending, move_msg 2)] sample_ctl =
   Ok (sample_ctl\<lparr>configs := [Some first_config, Some moved], sc_SessionMap := sm, sc_AppliedIndex := 2,
     triggered := [1, 2]\<rparr>)"
proof -
  let ?h = "\<lparr>Header_ID = 9, Header_Seq = 1\<rparr>"
  have 1: "IsDuplicate (Some ?h) (NewSessionMap :: nat SessionMap) = Ok False"
    by (simp add: IsDuplicate_spec table_ok_New)
  from recordResponse_spec[OF table_ok_New(1) 1, of "\<lambda>_. (Some (0 :: nat), None :: unit option)" "Some CtlReply_zero"]
  obtain sm where sm: "recordResponse (\<lambda>_. (Some (0 :: nat), None :: unit option)) NewSessionMap ?h (Some CtlReply_zero) = Ok sm"
    "table_ok sm" "table_processed sm = [9 \<mapsto> 1]" by (auto simp: table_ok_New)
  have 2: "IsDuplicate (Some ?h) sm = Ok True" using sm by (simp add: IsDuplicate_spec)
  have "applyCommand sample_ring ascending ascending (move_args b) [Some first_config] =
      Ok ((Some CtlReply_zero, False), [Some first_config, Some moved])" for b
    by (simp add: applyCommand_def move_args_def Ctl_types CtlArgs_zero_def applyMove_sample)
  then show ?thesis using 1 2 sm(1)
    by (intro exI[of _ sm]) (simp add: ctl_runs_def ctl_run_def sample_ctl_def move_msg_def finishApply_def Let_def move_args_def)
qed

section \<open>Properties\<close>

text \<open>
  C24. Resharding: with a ring that only names members, every shard is assigned to a group of the
  configuration, although the ids travel through decimal strings; without groups every shard is
  assigned to 0. Number and groups stay, and the configuration stays well formed.
\<close>

theorem reshard_assigns:
  assumes "ring_ok R members" "config_ok cfg" "iterates (Config_Groups cfg) order"
  shows "assigned (Reshard R order cfg) \<and> config_ok (Reshard R order cfg) \<and>
    Config_Groups (Reshard R order cfg) = Config_Groups cfg \<and> Config_Num (Reshard R order cfg) = Config_Num cfg"
  using assms Reshard_assigned[OF assms(1) _ assms(3)] Reshard_ok[OF assms(2)] by (simp add: config_ok_def)

theorem reshard_assigns_witness:
  "assigned (Reshard sample_ring [7] (first_config\<lparr>Config_Groups := [7 \<mapsto> Some \<lparr>Group_ID = 7, Group_servers = []\<rparr>]\<rparr>))"
  using reshard_assigns[OF sample_ring_ok(1), of
      "first_config\<lparr>Config_Groups := [7 \<mapsto> Some \<lparr>Group_ID = 7, Group_servers = []\<rparr>]\<rparr>" "[7]"]
  by (simp add: config_ok_def iterates_def first_config_def)

text \<open>
  C19. The operations of the controller, on a well-formed history and in whatever order maps are
  visited. Join and Leave append the configuration with the next number whose groups are the
  latest ones with the new ones added (an existing group wins) or the given ones removed, and in
  which every shard is assigned to one of them; Move appends a copy of the latest one with one
  shard reassigned and panics on a shard out of range. Query panics on every argument: it
  asserts a type its configuration never has.
\<close>

theorem ctl_operations:
  assumes "history_ok cs" "visits v1" "visits v2" "ring_ok R members"
  shows "(\<exists>cfg. applyJoin R v1 v2 (map Some gs) cs = Ok ((Some CtlReply_zero, False), cs @ [Some cfg]) \<and>
      Config_Num cfg = of_nat (length cs) \<and> assigned cfg \<and>
      Config_Groups cfg = map_of (map (\<lambda>g. (Group_ID g, Some g)) gs) ++ Config_Groups (latest cs)) \<and>
    (\<exists>cfg. applyLeave R v1 v2 gids cs = Ok ((Some CtlReply_zero, False), cs @ [Some cfg]) \<and>
      Config_Num cfg = of_nat (length cs) \<and> assigned cfg \<and>
      Config_Groups cfg = Config_Groups (latest cs) |` (- set gids)) \<and>
    applyMove v1 gid shard cs =
      (if 0 \<le> sint shard \<and> sint shard < 1024
       then Ok ((Some CtlReply_zero, False), cs @ [Some ((latest cs)\<lparr>Config_Num := of_nat (length cs),
              Config_Shards := (Config_Shards (latest cs))[nat (sint shard) := gid]\<rparr>)])
       else Panic IndexOutOfRange) \<and>
    (\<exists>p. applyQuery q cs = Panic p)"
proof (intro conjI)
  let ?c = "(latest cs)\<lparr>Config_Num := of_nat (length cs)\<rparr>"
  note new = newConfig_spec[OF assms(1,2)]
  have ok: "config_ok ?c" using latest_ok(2)[OF assms(1)] by simp
  have re: "assigned (Reshard R (v2 (Config_Groups c)) c)" if "config_ok c" for c
    using that Reshard_assigned[OF assms(4) _ visits_iterates[OF assms(3) that]] by (simp add: config_ok_def)
  have zero: "CtlReply_zero\<lparr>CtlReply_Status := Ctl_OK\<rparr> = CtlReply_zero"
    "CtlReply_zero\<lparr>WrongLeader := False, CtlReply_Status := Ctl_OK\<rparr> = CtlReply_zero"
    by (simp_all add: CtlReply_zero_def Ctl_OK_def)
  from Join_groups[of gs ?c] obtain c where c: "Join (map Some gs) ?c = Ok c" "Config_Num c = of_nat (length cs)"
    "Config_Groups c = map_of (map (\<lambda>g. (Group_ID g, Some g)) gs) ++ Config_Groups (latest cs)" by simp
  show "\<exists>cfg. applyJoin R v1 v2 (map Some gs) cs = Ok ((Some CtlReply_zero, False), cs @ [Some cfg]) \<and>
      Config_Num cfg = of_nat (length cs) \<and> assigned cfg \<and>
      Config_Groups cfg = map_of (map (\<lambda>g. (Group_ID g, Some g)) gs) ++ Config_Groups (latest cs)"
    using c re[OF Join_ok[OF ok c(1)]]
    by (intro exI[of _ "Reshard R (v2 (Config_Groups c)) c"]) (simp add: applyJoin_def new Let_def zero)
  show "\<exists>cfg. applyLeave R v1 v2 gids cs = Ok ((Some CtlReply_zero, False), cs @ [Some cfg]) \<and>
      Config_Num cfg = of_nat (length cs) \<and> assigned cfg \<and> Config_Groups cfg = Config_Groups (latest cs) |` (- set gids)"
    using re[OF Leave_ok[OF ok, of gids]]
    by (intro exI[of _ "Reshard R (v2 (Config_Groups (Leave gids ?c))) (Leave gids ?c)"])
      (simp add: applyLeave_def new Let_def zero Leave_groups)
  show "applyMove v1 gid shard cs = (if 0 \<le> sint shard \<and> sint shard < 1024
       then Ok ((Some CtlReply_zero, False), cs @ [Some ((latest cs)\<lparr>Config_Num := of_nat (length cs),
              Config_Shards := (Config_Shards (latest cs))[nat (sint shard) := gid]\<rparr>)])
       else Panic IndexOutOfRange)"
    using ok by (simp add: applyMove_def new store_def config_ok_def NShards_def zero)
  show "\<exists>p. applyQuery q cs = Panic p" by (simp add: applyQuery_panics)
qed

theorem ctl_operations_witness:
  "\<exists>cfg. applyJoin sample_ring ascending descending [Some \<lparr>Group_ID = 7, Group_servers = []\<rparr>] [Some first_config] =
      Ok ((Some CtlReply_zero, False), [Some first_config, Some cfg]) \<and>
    Config_Groups cfg = [7 \<mapsto> Some \<lparr>Group_ID = 7, Group_servers = []\<rparr>] \<and> assigned cfg"
  using ctl_operations[OF first_history(1) sample_visits sample_ring_ok(1), of "[\<lparr>Group_ID = 7, Group_servers = []\<rparr>]"]
  by (simp add: first_history first_groups) blast

text \<open>
  C18. The invariant of the controller: whatever messages arrive, the history is never rewritten, it
  only grows, and configuration number \<open>n\<close> is well formed and stands at position \<open>n\<close>.
\<close>

theorem ctl_history_grows:
  assumes "history_ok (configs sc)" "\<And>v1 v2 msg. (v1, v2, msg) \<in> set ms \<Longrightarrow> visits v1"
    "ctl_runs decode marshalAny R ms sc = Ok sc'"
  shows "history_ok (configs sc') \<and> prefix (configs sc) (configs sc')"
proof (rule foldM_go_inv[where I = "\<lambda>sc'. history_ok (configs sc') \<and> prefix (configs sc) (configs sc')"])
  show "foldM_go (\<lambda>sc (v1, v2, msg). ctl_run decode marshalAny R v1 v2 msg sc) sc ms = Ok sc'"
    using assms(3) by (simp add: ctl_runs_def)
next
  fix s x s' assume s: "history_ok (configs s) \<and> prefix (configs sc) (configs s)" "x \<in> set ms"
    "(case x of (v1, v2, msg) \<Rightarrow> ctl_run decode marshalAny R v1 v2 msg s) = Ok s'"
  obtain v1 v2 msg where x: "x = (v1, v2, msg)" by (metis prod_cases3)
  have "configs s' = configs s \<or> appends (configs s) (configs s')"
    using ctl_run_history[of decode marshalAny R v1 v2 msg s s'] s assms(2)[of v1 v2 msg] by (simp add: x)
  then show "history_ok (configs s') \<and> prefix (configs sc) (configs s')"
    using s(1) appends_ok by (auto simp: appends_def)
qed (use assms(1) in simp)

theorem ctl_history_grows_witness:
  "\<exists>sc'. ctl_runs move_args (\<lambda>_. (Some (0 :: nat), None :: unit option)) sample_ring
     [(ascending, ascending, move_msg 1), (ascending, ascending, move_msg 2)] sample_ctl = Ok sc' \<and>
    history_ok (configs sc') \<and> configs sc' = [Some first_config, Some moved]"
proof -
  from sample_run obtain sm where "ctl_runs move_args (\<lambda>_. (Some (0 :: nat), None :: unit option)) sample_ring
     [(ascending, ascending, move_msg 1), (ascending, ascending, move_msg 2)] sample_ctl =
   Ok (sample_ctl\<lparr>configs := [Some first_config, Some moved], sc_SessionMap := sm, sc_AppliedIndex := 2, triggered := [1, 2]\<rparr>)"
    by blast
  from ctl_history_grows[OF _ _ this] this show ?thesis
    using sample_visits(1) by (auto simp: sample_ctl_def first_history)
qed

text \<open>
  C14. At most once: from an empty session table, whatever sequence of messages arrives, with
  retries and duplicates in any order, the history is what executing once each a subsequence of
  the commands gives; that subsequence holds no request twice and is in increasing order for
  every client, and every command that arrived is covered by the table in the end.
\<close>

theorem ctl_at_most_once:
  assumes "table_ok (sc_SessionMap sc)" "table_processed (sc_SessionMap sc) = Map.empty"
    "ctl_runs decode marshalAny R ms sc = Ok sc'"
  shows "\<exists>done. subseq done (commands decode ms) \<and> distinct (map header done) \<and>
    (\<forall>sid. sorted_wrt (<) (map (\<lambda>c. Header_Seq (header c)) (filter (\<lambda>c. Header_ID (header c) = sid) done))) \<and>
    foldM_go (\<lambda>cs c. go_bind (exec R cs c) (\<lambda>(cs', _). Ok cs')) (configs sc) done = Ok (configs sc') \<and>
    (\<forall>c \<in> set (commands decode ms). IsDuplicate (Some (header c)) (sc_SessionMap sc') = Ok True)"
proof -
  from ctl_runs_serves[OF assms(3), of "[]"] obtain d where
    "foldM_go (guarded marshalAny (exec R) header) (configs sc, sc_SessionMap sc, []) (commands decode ms) =
      Ok (configs sc', sc_SessionMap sc', d)" by blast
  from sm.at_most_once[OF assms(1,2) this] show ?thesis by (auto simp: sm.ordered_def)
qed

theorem ctl_at_most_once_witness:
  "\<exists>done. subseq done [(ascending, ascending, move_args None), (ascending, ascending, move_args None)] \<and>
    distinct (map header done) \<and>
    foldM_go (\<lambda>cs c. go_bind (exec sample_ring cs c) (\<lambda>(cs', _). Ok cs')) [Some first_config] done =
      Ok [Some first_config, Some moved]"
proof -
  from sample_run obtain sm where r: "ctl_runs move_args (\<lambda>_. (Some (0 :: nat), None :: unit option)) sample_ring
     [(ascending, ascending, move_msg 1), (ascending, ascending, move_msg 2)] sample_ctl =
   Ok (sample_ctl\<lparr>configs := [Some first_config, Some moved], sc_SessionMap := sm, sc_AppliedIndex := 2, triggered := [1, 2]\<rparr>)"
    by blast
  have c: "commands move_args [(ascending, ascending, move_msg 1), (ascending, ascending, move_msg 2)] =
      [(ascending, ascending, move_args None), (ascending, ascending, move_args None)]"
    by (simp add: commands_def isCommand_def move_msg_def move_args_def)
  from ctl_at_most_once[OF _ _ r] show ?thesis
    unfolding c by (auto simp: sample_ctl_def table_ok_New)
qed

text \<open>
  C20. Replicas agree: two controllers in the same state that receive the same messages end in the
  same state, or panic alike, although every \<^verbatim>\<open>range\<close> over a map may visit its keys in another order
  on each of them, as long as the ring does not depend on the order in which members are added.
\<close>

theorem ctl_replicas_agree:
  assumes "ring_commutes R" "history_ok (configs sc)" "map (\<lambda>(_, _, msg). msg) ms = map (\<lambda>(_, _, msg). msg) ms'"
    "\<And>v1 v2 msg. (v1, v2, msg) \<in> set ms \<union> set ms' \<Longrightarrow> visits v1 \<and> visits v2"
  shows "ctl_runs decode marshalAny R ms sc = ctl_runs decode marshalAny R ms' sc"
  using assms by (rule ctl_runs_order)

theorem ctl_replicas_agree_witness:
  "\<exists>sc'. ctl_runs move_args (\<lambda>_. (Some (0 :: nat), None :: unit option)) sample_ring
      [(descending, ascending, move_msg 1), (ascending, descending, move_msg 2)] sample_ctl = Ok sc' \<and>
    configs sc' = [Some first_config, Some moved]"
proof -
  have "ctl_runs move_args (\<lambda>_. (Some (0 :: nat), None :: unit option)) sample_ring
      [(ascending, ascending, move_msg 1), (ascending, ascending, move_msg 2)] sample_ctl =
    ctl_runs move_args (\<lambda>_. (Some (0 :: nat), None :: unit option)) sample_ring
      [(descending, ascending, move_msg 1), (ascending, descending, move_msg 2)] sample_ctl"
    by (rule ctl_replicas_agree[OF sample_ring_ok(2)]) (auto simp: sample_ctl_def first_history sample_visits)
  then show ?thesis using sample_run by auto
qed

text \<open>
  \<^verbatim>\<open>Execute\<close> never returns a reply: its named result is nil when it writes an error into it, and
  the response it reads back from the session table is nil when it asserts its type. It panics on
  every path, or waits first and panics then.
\<close>

theorem ctl_execute_never_replies:
  "ctl_Execute_begin marshal unmarshalAny errText None args sc \<noteq> Ok (Inl reply, sc1) \<and>
   (\<exists>p. ctl_Execute_end unmarshalAny errText None args sc = Panic p)"
proof (intro conjI notI)
  assume "ctl_Execute_begin marshal unmarshalAny errText None args sc = Ok (Inl reply, sc1)"
  then show False by (auto simp: ctl_Execute_begin_def assertReply_def Let_def split: if_splits option.splits)
next
  have lost: "resp = None" if "GetResponse unmarshalAny request s = Ok (resp, err)" for request s resp err
    using that by (auto simp: GetResponse_def withLock_def getResponse_def Let_def split: if_splits option.splits)
  show "\<exists>p. ctl_Execute_end unmarshalAny errText None args sc = Panic p"
    by (cases "GetResponse unmarshalAny (CtlArgs_SessionHeader args) (sc_SessionMap sc)")
      (auto simp: ctl_Execute_end_def assertReply_def dest: lost split: option.splits)
qed

end
