(* ===== verification/Shardctl_Client.thy ===== *)
theory Shardctl_Client
  imports Shardctl_Server
begin

text \<open>
  The client of the shard controller, src/shardctl/client.go. A call sends the same request to
  servers picked at random until one answers with status OK. What becomes of each attempt is a
  list argument: its length is the number of attempts that have ended so far, so the model says
  after any number of them whether the call has returned. Durations are numbers of nanoseconds;
  sleeping and logging have no counterpart.
\<close>

record ClientConfig =
  RequestTimeout :: int
  RetryIntervals :: "int list"
  Retries :: int

definition Millisecond :: int where "Millisecond = 1000000"

definition defaultConfig :: ClientConfig where
  "defaultConfig = \<lparr>RequestTimeout = 5 * 200 * Millisecond, RetryIntervals = [50 * Millisecond], Retries = -1\<rparr>"

record Clerk =
  ck_servers :: nat             \<comment> \<open>\<open>len(ck.servers)\<close>\<close>
  ck_session :: ClientSession
  cachedLeader :: int32
  clientConfig :: ClientConfig

text \<open>\<^verbatim>\<open>rand.Int63()\<close> is the argument \<open>sid\<close>.\<close>

definition MakeClerk :: "int64 \<Rightarrow> 'server list \<Rightarrow> Clerk" where
  "MakeClerk sid servers =
     \<lparr>ck_servers = length servers, ck_session = NewClientSession sid, cachedLeader = -1,
      clientConfig = defaultConfig\<rparr>"

text \<open>How the \<^verbatim>\<open>select\<close> of one attempt ends: a reply, an error of the call, or the timeout.\<close>

datatype attempt = Answered CtlReply | CallError | AttemptTimeout

datatype call_result = Returned CtlReply | GaveUp | Running

definition retrying :: "Clerk \<Rightarrow> int \<Rightarrow> bool" where
  "retrying ck retried \<longleftrightarrow> Retries (clientConfig ck) < 0 \<or> retried < Retries (clientConfig ck)"

text \<open>The loop of \<^verbatim>\<open>call\<close>; \<^verbatim>\<open>rand.Intn(0)\<close> panics. Its body does not change \<^verbatim>\<open>retried\<close>.\<close>

fun callLoop :: "Clerk \<Rightarrow> int \<Rightarrow> attempt list \<Rightarrow> call_result go" where
  "callLoop ck retried [] =
     (if \<not> retrying ck retried then Ok GaveUp
      else if ck_servers ck = 0 then Panic (LogPanic ''invalid argument to Intn'') else Ok Running)"
| "callLoop ck retried (a # rest) =
     (if \<not> retrying ck retried then Ok GaveUp
      else if ck_servers ck = 0 then Panic (LogPanic ''invalid argument to Intn'')
      else case a of
        Answered r \<Rightarrow> if CtlReply_Status r = Ctl_OK then Ok (Returned r) else callLoop ck retried rest
      | CallError \<Rightarrow> callLoop ck retried rest
      | AttemptTimeout \<Rightarrow> callLoop ck retried rest)"

text \<open>
  \<^verbatim>\<open>call\<close>: the request as every attempt sends it, the outcome, and the clerk. After the loop the
  interval of the next retry is looked up.
\<close>

definition clerk_call :: "CtlArgs \<Rightarrow> attempt list \<Rightarrow> Clerk \<Rightarrow> ((CtlArgs \<times> call_result) \<times> Clerk) go" where
  "clerk_call args attempts ck =
     (case NextHeader (ck_session ck) of (h, c) \<Rightarrow>
        let retried = 0;
            args1 = args\<lparr>CtlArgs_SessionHeader := Some h\<rparr>;
            ck1 = ck\<lparr>ck_session := c\<rparr>
        in go_bind (callLoop ck1 retried attempts) (\<lambda>res.
             if res = GaveUp then
               go_bind (if Retries (clientConfig ck1) < 0 then indexInt (RetryIntervals (clientConfig ck1)) 0
                        else indexInt (RetryIntervals (clientConfig ck1)) retried) (\<lambda>_.
                 Ok ((args1, res), ck1))
             else Ok ((args1, res), ck1)))"

text \<open>What the caller's \<^verbatim>\<open>reply\<close> holds when the call has returned.\<close>

definition replyOf :: "call_result \<Rightarrow> CtlReply option" where
  "replyOf res = (case res of Returned r \<Rightarrow> Some r | GaveUp \<Rightarrow> Some CtlReply_zero | Running \<Rightarrow> None)"

definition clerk_Query :: "int64 \<Rightarrow> attempt list \<Rightarrow> Clerk \<Rightarrow> (PbConfig option option \<times> Clerk) go" where
  "clerk_Query num attempts ck =
     go_bind (clerk_call (CtlArgs_zero\<lparr>CtlArgs_Type := Ctl_QUERY, QueryNum := num\<rparr>) attempts ck)
       (\<lambda>((_, res), ck1). Ok (map_option CtlReply_Config (replyOf res), ck1))"

definition clerk_Join :: "Group option list \<Rightarrow> attempt list \<Rightarrow> Clerk \<Rightarrow> (unit option \<times> Clerk) go" where
  "clerk_Join servers attempts ck =
     go_bind (clerk_call (CtlArgs_zero\<lparr>CtlArgs_Type := Ctl_JOIN, NewGroups := servers\<rparr>) attempts ck)
       (\<lambda>((_, res), ck1). Ok (map_option (\<lambda>_. ()) (replyOf res), ck1))"

definition clerk_Leave :: "int64 list \<Rightarrow> attempt list \<Rightarrow> Clerk \<Rightarrow> (unit option \<times> Clerk) go" where
  "clerk_Leave gids attempts ck =
     go_bind (clerk_call (CtlArgs_zero\<lparr>CtlArgs_Type := Ctl_LEAVE, LeaveGIDs := gids\<rparr>) attempts ck)
       (\<lambda>((_, res), ck1). Ok (map_option (\<lambda>_. ()) (replyOf res), ck1))"

definition clerk_Move :: "int64 \<Rightarrow> int64 \<Rightarrow> attempt list \<Rightarrow> Clerk \<Rightarrow> (unit option \<times> Clerk) go" where
  "clerk_Move shard gid attempts ck =
     go_bind (clerk_call (CtlArgs_zero\<lparr>CtlArgs_Type := Ctl_MOVE, MoveShard := shard, MoveGID := gid\<rparr>) attempts ck)
       (\<lambda>((_, res), ck1). Ok (map_option (\<lambda>_. ()) (replyOf res), ck1))"

section \<open>Laws\<close>

text \<open>The first attempt that was answered with status OK.\<close>

fun firstOK :: "attempt list \<Rightarrow> CtlReply option" where
  "firstOK [] = None"
| "firstOK (Answered r # rest) = (if CtlReply_Status r = Ctl_OK then Some r else firstOK rest)"
| "firstOK (_ # rest) = firstOK rest"

lemma callLoop_firstOK:
  assumes "retrying ck retried" "ck_servers ck \<noteq> 0"
  shows "callLoop ck retried attempts = Ok (case firstOK attempts of None \<Rightarrow> Running | Some r \<Rightarrow> Returned r)"
  using assms by (induction attempts rule: firstOK.induct) auto

lemma retrying_session [simp]: "retrying (ck\<lparr>ck_session := c\<rparr>) r = retrying ck r"
  by (simp add: retrying_def)

section \<open>Properties\<close>

text \<open>
  C30. A call of the controller's client returns exactly when an attempt is answered with status OK,
  with that attempt's reply; every attempt carries the same header, the next one of the client's
  session, so the server can recognise repetitions. It keeps trying through errors, timeouts,
  wrong leaders and refused sessions, with any number of allowed retries but zero: attempts are
  not counted.
\<close>

theorem clerk_call_returns:
  assumes "Retries (clientConfig ck) \<noteq> 0" "ck_servers ck \<noteq> 0"
  shows "\<exists>ck'. clerk_call args attempts ck =
      Ok ((args\<lparr>CtlArgs_SessionHeader := Some (fst (NextHeader (ck_session ck)))\<rparr>,
           case firstOK attempts of None \<Rightarrow> Running | Some r \<Rightarrow> Returned r), ck') \<and>
    ck' = ck\<lparr>ck_session := snd (NextHeader (ck_session ck))\<rparr>"
proof -
  have "retrying ck 0" using assms(1) by (auto simp: retrying_def)
  then have "callLoop (ck\<lparr>ck_session := c\<rparr>) 0 attempts =
      Ok (case firstOK attempts of None \<Rightarrow> Running | Some r \<Rightarrow> Returned r)" for c
    using assms(2) by (intro callLoop_firstOK) simp_all
  then show ?thesis by (simp add: clerk_call_def Let_def split: prod.splits option.splits)
qed

theorem clerk_call_returns_witness:
  "\<exists>ck'. clerk_call CtlArgs_zero
      [AttemptTimeout, Answered (CtlReply_zero\<lparr>CtlReply_Status := Ctl_ERR_WRONG_LEADER\<rparr>), Answered CtlReply_zero]
      (MakeClerk 7 [1 :: nat, 2]) =
    Ok ((CtlArgs_zero\<lparr>CtlArgs_SessionHeader := Some \<lparr>Header_ID = 7, Header_Seq = 1\<rparr>\<rparr>, Returned CtlReply_zero), ck')"
  using clerk_call_returns[of "MakeClerk 7 [1 :: nat, 2]" CtlArgs_zero
    "[AttemptTimeout, Answered (CtlReply_zero\<lparr>CtlReply_Status := Ctl_ERR_WRONG_LEADER\<rparr>), Answered CtlReply_zero]"]
  by (simp add: MakeClerk_def defaultConfig_def NextHeader_def NewClientSession_def CtlReply_zero_def
      Ctl_OK_def Ctl_ERR_WRONG_LEADER_def)

end
