(* ===== verification/Shard_Store.thy ===== *)
theory Shard_Store
  imports Session Shardctl_Config
begin

text \<open>
  One shard of the store, src/server/shard.go: a key/value map with a migration status, behind the
  interface \<^verbatim>\<open>KV\<close>. The interface is the locale \<open>kv_store\<close>, interpreted on the shard's methods.

  A Go map variable may be nil: reading it finds nothing, assigning to one of its entries panics.
  \<^verbatim>\<open>proto.Clone\<close> is code of another module and an argument here: it may turn an empty map into a
  nil one, which \<open>clone_ok\<close> leaves open.
\<close>

section \<open>Messages\<close>

definition SERVING :: int32 where "SERVING = 0"
definition PULLING :: int32 where "PULLING = 1"
definition BE_PULLING :: int32 where "BE_PULLING = 2"
definition GC :: int32 where "GC = 3"

lemmas shard_status = SERVING_def PULLING_def BE_PULLING_def GC_def

record PbShard =
  Shard_ID :: int64
  Shard_KV :: "(string \<rightharpoonup> string) option"
  Shard_Status :: int32

datatype Shard = Shard (pbShard: "PbShard option")

datatype shard_error = ErrNoKey

type_synonym cloner = "PbShard option \<Rightarrow> PbShard option"

section \<open>Operations\<close>

definition NewShard :: "cloner \<Rightarrow> PbShard option \<Rightarrow> Shard" where
  "NewShard clone shard = Shard (clone shard)"

text \<open>The message behind a receiver \<^verbatim>\<open>s\<close>, read by \<^verbatim>\<open>s.shard.F\<close>.\<close>

definition shardOf :: "Shard option \<Rightarrow> PbShard go" where
  "shardOf s = go_bind (deref s) (\<lambda>s. deref (pbShard s))"

definition readKV :: "(string \<rightharpoonup> string) option \<Rightarrow> string \<Rightarrow> string option" where
  "readKV kv key = (case kv of None \<Rightarrow> None | Some m \<Rightarrow> m key)"

definition Shard_Get :: "string \<Rightarrow> Shard option \<Rightarrow> (string \<times> shard_error option) go" where
  "Shard_Get key s =
     go_bind (shardOf s) (\<lambda>pb.
       Ok (case readKV (Shard_KV pb) key of Some value \<Rightarrow> (value, None) | None \<Rightarrow> ([], Some ErrNoKey)))"

definition Shard_Put :: "string \<Rightarrow> string \<Rightarrow> Shard option \<Rightarrow> (Shard \<times> shard_error option) go" where
  "Shard_Put key value s =
     go_bind (shardOf s) (\<lambda>pb.
       case Shard_KV pb of
         None \<Rightarrow> Panic NilMapWrite
       | Some kv \<Rightarrow> Ok (Shard (Some (pb\<lparr>Shard_KV := Some (kv(key \<mapsto> value))\<rparr>)), None))"

text \<open>\<^verbatim>\<open>KV[key] += value\<close> reads the empty string for a missing key.\<close>

definition Shard_Append :: "string \<Rightarrow> string \<Rightarrow> Shard option \<Rightarrow> (Shard \<times> shard_error option) go" where
  "Shard_Append key value s =
     go_bind (shardOf s) (\<lambda>pb.
       let old = (case readKV (Shard_KV pb) key of None \<Rightarrow> [] | Some x \<Rightarrow> x) in
       case Shard_KV pb of
         None \<Rightarrow> Panic NilMapWrite
       | Some kv \<Rightarrow> Ok (Shard (Some (pb\<lparr>Shard_KV := Some (kv(key \<mapsto> old @ value))\<rparr>)), None))"

definition Shard_Empty :: "Shard option \<Rightarrow> bool go" where
  "Shard_Empty s = go_bind (shardOf s) (\<lambda>pb. Ok (case Shard_KV pb of None \<Rightarrow> True | Some kv \<Rightarrow> kv = Map.empty))"

definition Shard_Copy :: "cloner \<Rightarrow> Shard option \<Rightarrow> Shard go" where
  "Shard_Copy clone s = go_bind (deref s) (\<lambda>s. Ok (Shard (clone (pbShard s))))"

definition Shard_ProtoMessage :: "cloner \<Rightarrow> Shard option \<Rightarrow> PbShard option go" where
  "Shard_ProtoMessage clone s = go_bind (deref s) (\<lambda>s. Ok (clone (pbShard s)))"

definition Status :: "Shard option \<Rightarrow> int32 go" where
  "Status s = go_bind (shardOf s) (\<lambda>pb. Ok (Shard_Status pb))"

definition ID :: "Shard option \<Rightarrow> int64 go" where
  "ID s = go_bind (shardOf s) (\<lambda>pb. Ok (Shard_ID pb))"

definition SetStatus :: "int32 \<Rightarrow> Shard option \<Rightarrow> Shard go" where
  "SetStatus status s = go_bind (shardOf s) (\<lambda>pb. Ok (Shard (Some (pb\<lparr>Shard_Status := status\<rparr>))))"

section \<open>The interface\<close>

locale kv_store =
  fixes ok :: "'s \<Rightarrow> bool" and content :: "'s \<Rightarrow> string \<rightharpoonup> string"
    and get :: "string \<Rightarrow> 's \<Rightarrow> (string \<times> shard_error option) go"
    and put :: "string \<Rightarrow> string \<Rightarrow> 's \<Rightarrow> ('s \<times> shard_error option) go"
    and append :: "string \<Rightarrow> string \<Rightarrow> 's \<Rightarrow> ('s \<times> shard_error option) go"
    and empty :: "'s \<Rightarrow> bool go"
  assumes get_law: "ok s \<Longrightarrow> get k s = Ok (case content s k of Some v \<Rightarrow> (v, None) | None \<Rightarrow> ([], Some ErrNoKey))"
    and put_law: "ok s \<Longrightarrow> \<exists>s'. put k v s = Ok (s', None) \<and> ok s' \<and> content s' = (content s)(k \<mapsto> v)"
    and append_law: "ok s \<Longrightarrow> \<exists>s'. append k v s = Ok (s', None) \<and> ok s' \<and>
      content s' = (content s)(k \<mapsto> (case content s k of None \<Rightarrow> v | Some x \<Rightarrow> x @ v))"
    and empty_law: "ok s \<Longrightarrow> empty s = Ok (content s = Map.empty)"
begin

text \<open>A value that was put is got back, and a key that was not touched is as before.\<close>

lemma get_put:
  assumes "ok s" "put k v s = Ok (s', e)"
  shows "ok s' \<and> e = None \<and> get k s' = Ok (v, None) \<and> (\<forall>k'. k' \<noteq> k \<longrightarrow> get k' s' = get k' s) \<and> empty s' = Ok False"
  using put_law[OF assms(1), of k v] assms(2) by (auto simp: get_law assms(1) empty_law split: option.splits)

lemma get_append:
  assumes "ok s" "append k v s = Ok (s', e)"
  shows "ok s' \<and> e = None \<and>
    get k s' = go_bind (get k s) (\<lambda>(old, err). Ok ((if err = None then old else []) @ v, None)) \<and>
    (\<forall>k'. k' \<noteq> k \<longrightarrow> get k' s' = get k' s)"
  using append_law[OF assms(1), of k v] assms(2) by (auto simp: get_law assms(1) split: option.splits)

text \<open>A sequence of writes is the same sequence on a map.\<close>

lemma put_sequence:
  assumes "ok s"
  shows "\<exists>s'. foldM_go (\<lambda>s (k, v). go_bind (put k v s) (\<lambda>(s', _). Ok s')) s kvs = Ok s' \<and> ok s' \<and>
    content s' = content s ++ map_of (rev kvs)"
  using assms
proof (induction kvs arbitrary: s)
  case (Cons kv kvs)
  obtain k v where kv: "kv = (k, v)" by force
  from put_law[OF Cons.prems, of k v] obtain s1 where
    1: "put k v s = Ok (s1, None)" "ok s1" "content s1 = (content s)(k \<mapsto> v)" by blast
  have "(content s)(k \<mapsto> v) ++ map_of (rev kvs) = content s ++ map_of (rev (kv # kvs))"
    by (auto simp: kv map_add_def fun_eq_iff split: option.splits)
  with Cons.IH[OF 1(2)] 1 show ?case by (auto simp: kv fun_upd_def)
qed simp

end

text \<open>A shard whose message and map are there, and its content.\<close>

definition shard_ok :: "Shard \<Rightarrow> bool" where
  "shard_ok s \<longleftrightarrow> (\<exists>pb. pbShard s = Some pb \<and> Shard_KV pb \<noteq> None)"

definition shard_content :: "Shard \<Rightarrow> string \<rightharpoonup> string" where
  "shard_content s = (\<lambda>k. case pbShard s of None \<Rightarrow> None | Some pb \<Rightarrow> readKV (Shard_KV pb) k)"

lemma shard_okE:
  assumes "shard_ok s"
  obtains pb kv where "s = Shard (Some pb)" "Shard_KV pb = Some kv"
  using assms by (cases s) (auto simp: shard_ok_def)

lemma shard_content_Shard [simp]: "shard_content (Shard (Some pb)) = readKV (Shard_KV pb)"
  by (simp add: shard_content_def fun_eq_iff)

lemma readKV_Some [simp]: "readKV (Some kv) = kv"
  by (simp add: readKV_def fun_eq_iff)

lemma shard_ok_Shard [simp]: "shard_ok (Shard (Some pb)) \<longleftrightarrow> Shard_KV pb \<noteq> None"
  by (simp add: shard_ok_def)

interpretation shard: kv_store shard_ok shard_content "\<lambda>k s. Shard_Get k (Some s)" "\<lambda>k v s. Shard_Put k v (Some s)"
  "\<lambda>k v s. Shard_Append k v (Some s)" "\<lambda>s. Shard_Empty (Some s)"
proof
  fix s k v assume ok: "shard_ok s"
  then obtain pb kv where s: "s = Shard (Some pb)" "Shard_KV pb = Some kv" by (rule shard_okE)
  show "Shard_Get k (Some s) = Ok (case shard_content s k of Some v \<Rightarrow> (v, None) | None \<Rightarrow> ([], Some ErrNoKey))"
    by (simp add: s Shard_Get_def shardOf_def)
  show "\<exists>s'. Shard_Put k v (Some s) = Ok (s', None) \<and> shard_ok s' \<and> shard_content s' = (shard_content s)(k \<mapsto> v)"
    by (simp add: s Shard_Put_def shardOf_def)
  show "\<exists>s'. Shard_Append k v (Some s) = Ok (s', None) \<and> shard_ok s' \<and>
      shard_content s' = (shard_content s)(k \<mapsto> (case shard_content s k of None \<Rightarrow> v | Some x \<Rightarrow> x @ v))"
    by (cases "kv k") (simp_all add: s Shard_Append_def shardOf_def Let_def)
  show "Shard_Empty (Some s) = Ok (shard_content s = Map.empty)"
    by (simp add: s Shard_Empty_def shardOf_def)
qed

section \<open>Laws\<close>

text \<open>What is relied on of the clone: the same message up to an empty map that comes back nil.\<close>

definition clone_ok :: "cloner \<Rightarrow> bool" where
  "clone_ok clone \<longleftrightarrow> clone None = None \<and>
     (\<forall>pb. \<exists>pb'. clone (Some pb) = Some pb' \<and> Shard_ID pb' = Shard_ID pb \<and> Shard_Status pb' = Shard_Status pb \<and>
        readKV (Shard_KV pb') = readKV (Shard_KV pb) \<and> (Shard_KV pb = None \<longrightarrow> Shard_KV pb' = None))"

lemma NewShard_spec:
  assumes "clone_ok clone"
  shows "\<exists>pb'. NewShard clone (Some pb) = Shard (Some pb') \<and> Shard_ID pb' = Shard_ID pb \<and>
    Shard_Status pb' = Shard_Status pb \<and> shard_content (Shard (Some pb')) = readKV (Shard_KV pb) \<and>
    (Shard_KV pb = None \<longrightarrow> Shard_KV pb' = None)"
  using assms unfolding clone_ok_def NewShard_def by auto

lemma Status_Shard [simp]: "Status (Some (Shard (Some pb))) = Ok (Shard_Status pb)"
  by (simp add: Status_def shardOf_def)

lemma Status_None [simp]: "Status None = Panic NilDeref"
  by (simp add: Status_def shardOf_def)

lemma SetStatus_Shard [simp]: "SetStatus st (Some (Shard (Some pb))) = Ok (Shard (Some (pb\<lparr>Shard_Status := st\<rparr>)))"
  by (simp add: SetStatus_def shardOf_def)

lemma SetStatus_content: "SetStatus st (Some s) = Ok s' \<Longrightarrow> shard_content s' = shard_content s"
  by (cases s) (auto simp: SetStatus_def shardOf_def)

end
