(* ===== verification/KV_Server.thy ===== *)
theory KV_Server
  imports Shard_Store Shardctl_Client
begin

text \<open>
  A server of the sharded store, src/server/server.go. Its replicated state is the record
  \<open>StateMachine\<close>: the shards, the session table and the current and the last configuration. Committed
  commands are applied to it one by one; monitors of the leader fetch configurations and migrate
  shards by proposing further commands.

  Arguments of the model are code that is not in the repository or not modelled: the decoder and
  encoder of commands, the conversions of responses, \<^verbatim>\<open>proto.Clone\<close>, \<^verbatim>\<open>client.Key2shard\<close>, package
  gob, the replies of other groups, and the orders in which maps are visited. The pointer
  \<^verbatim>\<open>*StateMachine\<close> and the pointer to the session table are set by \<^verbatim>\<open>StartServer\<close> before any other
  method runs and never reset to nil.
\<close>

section \<open>Messages\<close>

definition Kv_EMPTY :: int32 where "Kv_EMPTY = 0"
definition Kv_GET :: int32 where "Kv_GET = 1"
definition Kv_PUT :: int32 where "Kv_PUT = 2"
definition Kv_APPEND :: int32 where "Kv_APPEND = 3"
definition Kv_PULL_SHARDS :: int32 where "Kv_PULL_SHARDS = 4"
definition Kv_INSERT_SHARDS :: int32 where "Kv_INSERT_SHARDS = 5"
definition Kv_RECONFIGURE :: int32 where "Kv_RECONFIGURE = 6"
definition Kv_DELETE_SHARDS :: int32 where "Kv_DELETE_SHARDS = 7"

lemmas Kv_types = Kv_EMPTY_def Kv_GET_def Kv_PUT_def Kv_APPEND_def Kv_PULL_SHARDS_def Kv_INSERT_SHARDS_def
  Kv_RECONFIGURE_def Kv_DELETE_SHARDS_def

definition Kv_OK :: int32 where "Kv_OK = 0"
definition ERR_WRONG_LEADER :: int32 where "ERR_WRONG_LEADER = 1"
definition ERR_NOT_READY :: int32 where "ERR_NOT_READY = 2"
definition ERR_WRONG_GROUP :: int32 where "ERR_WRONG_GROUP = 3"
definition ERR_OUT_DATED_CONFIG :: int32 where "ERR_OUT_DATED_CONFIG = 4"
definition ERR_NO_KEY :: int32 where "ERR_NO_KEY = 5"
definition ERR_BAD_SESSION :: int32 where "ERR_BAD_SESSION = 6"

lemmas Kv_status = Kv_OK_def ERR_WRONG_LEADER_def ERR_NOT_READY_def ERR_WRONG_GROUP_def
  ERR_OUT_DATED_CONFIG_def ERR_NO_KEY_def ERR_BAD_SESSION_def

record 'any PullShardsResponse =
  Pulled_Shards :: "PbShard option list"
  ServerSessions :: "int64 \<rightharpoonup> 'any PbServerSession option"
  Pulled_ConfigNum :: int64

record 'any KvArgs =
  KvArgs_Type :: int32
  KvArgs_SessionHeader :: "SessionHeader option"
  KvArgs_Key :: string
  KvArgs_Value :: string
  NextConfig :: "PbConfig option"
  ShardIDs :: "int64 list"
  ConfigNum :: int64
  PulledShards :: "'any PullShardsResponse option"

record KvReply =
  KvReply_Status :: int32
  KvReply_Value :: string
  KvReply_Message :: string
  KvReply_Data :: bytes

definition KvArgs_zero :: "'any KvArgs" where
  "KvArgs_zero = \<lparr>KvArgs_Type = 0, KvArgs_SessionHeader = None, KvArgs_Key = [], KvArgs_Value = [],
     NextConfig = None, ShardIDs = [], ConfigNum = 0, PulledShards = None\<rparr>"

definition KvReply_zero :: KvReply where
  "KvReply_zero = \<lparr>KvReply_Status = 0, KvReply_Value = [], KvReply_Message = [], KvReply_Data = None\<rparr>"

text \<open>\<^verbatim>\<open>&yqkvpb.Reply{Status: st}\<close>\<close>

definition statusReply :: "int32 \<Rightarrow> KvReply" where
  "statusReply st = KvReply_zero\<lparr>KvReply_Status := st\<rparr>"

section \<open>The replicated state\<close>

record 'any StateMachine =
  Shards :: "int64 \<rightharpoonup> Shard option"
  kv_SessionMap :: "'any SessionMap"
  AppliedIndex :: uint64
  CurrentConfig :: "Config option"
  LastConfig :: "Config option"

text \<open>The order in which \<^verbatim>\<open>range kv.Shards\<close> visits the shards.\<close>

type_synonym shard_visit = "(int64 \<rightharpoonup> Shard option) \<Rightarrow> int64 list"

definition StateMachine_DeepCopy :: "'any StateMachine \<Rightarrow> 'any StateMachine go" where
  "StateMachine_DeepCopy s =
     go_bind (sm_DeepCopy (kv_SessionMap s)) (\<lambda>sm.
       let copied = \<lparr>Shards = Map.empty, kv_SessionMap = sm, AppliedIndex = AppliedIndex s,
                     CurrentConfig = None, LastConfig = None\<rparr> in
       go_bind (deref (LastConfig s)) (\<lambda>last.
       go_bind (deref (LastConfig copied)) (\<lambda>_.
       go_bind (deref (CurrentConfig s)) (\<lambda>current.
       go_bind (deref (CurrentConfig copied)) (\<lambda>_.
         Ok (copied\<lparr>LastConfig := Some last, CurrentConfig := Some current, Shards := Shards s\<rparr>))))))"

text \<open>\<^verbatim>\<open>kv.Shards[shardID]\<close> as a pointer, and storing a changed shard.\<close>

definition shardAt :: "'any StateMachine \<Rightarrow> int64 \<Rightarrow> Shard option" where
  "shardAt s i = (case Shards s i of None \<Rightarrow> None | Some p \<Rightarrow> p)"

definition putShard :: "int64 \<Rightarrow> Shard \<Rightarrow> 'any StateMachine \<Rightarrow> 'any StateMachine" where
  "putShard i shard s = s\<lparr>Shards := (Shards s)(i \<mapsto> Some shard)\<rparr>"

definition configNum :: "Config option \<Rightarrow> int64 go" where
  "configNum p = go_bind (deref p) (\<lambda>c. Ok (Config_Num c))"

section \<open>Commands of clients\<close>

definition checkShard :: "(string \<Rightarrow> int64) \<Rightarrow> int64 \<Rightarrow> string \<Rightarrow> 'any StateMachine \<Rightarrow> bool go" where
  "checkShard key2shard gid key s =
     (let shardID = key2shard key in
      case Shards s shardID of
        None \<Rightarrow> Ok False
      | Some shard \<Rightarrow>
          go_bind (Status shard) (\<lambda>st.
            if st = SERVING \<or> st = GC then
              go_bind (deref (CurrentConfig s)) (\<lambda>cfg.
              go_bind (indexInt (Config_Shards cfg) (sint shardID)) (\<lambda>g. Ok (g = gid)))
            else Ok False))"

definition applyEmpty :: "'any StateMachine \<Rightarrow> (KvReply \<times> 'any StateMachine) go" where
  "applyEmpty s = Ok (statusReply Kv_OK, s)"

definition applyGet ::
  "(string \<Rightarrow> int64) \<Rightarrow> int64 \<Rightarrow> string \<Rightarrow> 'any StateMachine \<Rightarrow> (KvReply \<times> 'any StateMachine) go" where
  "applyGet key2shard gid key s =
     (let shard = key2shard key in
      go_bind (checkShard key2shard gid key s) (\<lambda>ok.
        if \<not> ok then Ok (statusReply ERR_WRONG_GROUP, s)
        else go_bind (Shard_Get key (shardAt s shard)) (\<lambda>(val, err).
          if err \<noteq> None then Ok (statusReply ERR_NO_KEY, s)
          else Ok ((statusReply Kv_OK)\<lparr>KvReply_Value := val\<rparr>, s))))"

definition applyPut ::
  "(string \<Rightarrow> int64) \<Rightarrow> int64 \<Rightarrow> string \<Rightarrow> string \<Rightarrow> 'any StateMachine \<Rightarrow> (KvReply \<times> 'any StateMachine) go" where
  "applyPut key2shard gid key val s =
     (let shard = key2shard key in
      go_bind (checkShard key2shard gid key s) (\<lambda>ok.
        if \<not> ok then Ok (statusReply ERR_WRONG_GROUP, s)
        else go_bind (Shard_Put key val (shardAt s shard)) (\<lambda>(s', _).
          Ok (statusReply Kv_OK, putShard shard s' s))))"

definition applyAppend ::
  "(string \<Rightarrow> int64) \<Rightarrow> int64 \<Rightarrow> string \<Rightarrow> string \<Rightarrow> 'any StateMachine \<Rightarrow> (KvReply \<times> 'any StateMachine) go" where
  "applyAppend key2shard gid key val s =
     (let shard = key2shard key in
      go_bind (checkShard key2shard gid key s) (\<lambda>ok.
        if \<not> ok then Ok (statusReply ERR_WRONG_GROUP, s)
        else go_bind (Shard_Append key val (shardAt s shard)) (\<lambda>(s', _).
          Ok (statusReply Kv_OK, putShard shard s' s))))"

section \<open>Commands of the migration\<close>

text \<open>The body of the loop of \<^verbatim>\<open>applyDeleteShards\<close>, which asks for the status up to twice.\<close>

definition deleteOne :: "cloner \<Rightarrow> 'any StateMachine \<Rightarrow> int64 \<Rightarrow> 'any StateMachine go" where
  "deleteOne cp s shardID =
     go_bind (Status (shardAt s shardID)) (\<lambda>st.
       if st = BE_PULLING then
         Ok (putShard shardID
               (NewShard cp (Some \<lparr>Shard_ID = shardID, Shard_KV = None, Shard_Status = SERVING\<rparr>)) s)
       else if st = GC then
         go_bind (SetStatus SERVING (shardAt s shardID)) (\<lambda>s'. Ok (putShard shardID s' s))
       else Ok s)"

definition applyDeleteShards ::
  "cloner \<Rightarrow> int64 \<Rightarrow> int64 list \<Rightarrow> 'any StateMachine \<Rightarrow> (KvReply \<times> 'any StateMachine) go" where
  "applyDeleteShards cp cfgNum shardIDs s =
     go_bind (configNum (CurrentConfig s)) (\<lambda>current.
       if cfgNum \<noteq> current then Ok (statusReply Kv_OK, s)
       else go_bind (foldM_go (deleteOne cp) s shardIDs) (\<lambda>s'. Ok (statusReply Kv_OK, s')))"

text \<open>The body of the loop of \<^verbatim>\<open>updateShardsStatus\<close>: a shard number and its next group.\<close>

definition statusOne :: "Config option \<Rightarrow> int64 \<Rightarrow> 'any StateMachine \<Rightarrow> nat \<times> int64 \<Rightarrow> 'any StateMachine go" where
  "statusOne old gid s x =
     (case x of (shardID, currentGid) \<Rightarrow>
        go_bind (deref old) (\<lambda>cfg.
        go_bind (indexInt (Config_Shards cfg) (int shardID)) (\<lambda>oldGid.
          if oldGid = gid \<and> currentGid \<noteq> gid then
            go_bind (SetStatus BE_PULLING (shardAt s (of_nat shardID))) (\<lambda>s'. Ok (putShard (of_nat shardID) s' s))
          else if oldGid \<noteq> gid \<and> currentGid = gid then
            go_bind (SetStatus PULLING (shardAt s (of_nat shardID))) (\<lambda>s'. Ok (putShard (of_nat shardID) s' s))
          else Ok s)))"

definition updateShardsStatus :: "int64 \<Rightarrow> PbConfig \<Rightarrow> 'any StateMachine \<Rightarrow> 'any StateMachine go" where
  "updateShardsStatus gid nextConfig s =
     (if sint (PbConfig_Num nextConfig) \<le> 1 then Ok s
      else foldM_go (statusOne (CurrentConfig s) gid) s (enumerate 0 (PbConfig_Shards nextConfig)))"

definition applyReconfigure :: "int64 \<Rightarrow> PbConfig option \<Rightarrow> 'any StateMachine \<Rightarrow> (KvReply \<times> 'any StateMachine) go" where
  "applyReconfigure gid nextConfig s =
     go_bind (deref nextConfig) (\<lambda>next.
     go_bind (configNum (CurrentConfig s)) (\<lambda>current.
       if PbConfig_Num next = current + 1 then
         go_bind (updateShardsStatus gid next s) (\<lambda>s1.
         let s2 = s1\<lparr>LastConfig := CurrentConfig s1\<rparr> in
         go_bind (NewConfig next) (\<lambda>cfg.
           Ok (statusReply Kv_OK, s2\<lparr>CurrentConfig := Some cfg\<rparr>)))
       else Ok (statusReply ERR_OUT_DATED_CONFIG, s)))"

definition insertOne :: "cloner \<Rightarrow> 'any StateMachine \<Rightarrow> PbShard option \<Rightarrow> 'any StateMachine go" where
  "insertOne cp s shard =
     go_bind (deref shard) (\<lambda>pb.
     go_bind (Status (shardAt s (Shard_ID pb))) (\<lambda>st.
       if st = PULLING then
         let s1 = putShard (Shard_ID pb) (NewShard cp shard) s in
         go_bind (SetStatus GC (shardAt s1 (Shard_ID pb))) (\<lambda>s'. Ok (putShard (Shard_ID pb) s' s1))
       else Ok s))"

text \<open>The received sessions in the order in which their map is visited.\<close>

definition visited :: "('k \<rightharpoonup> 'v) \<Rightarrow> 'k list \<Rightarrow> ('k \<times> 'v) list" where
  "visited m ks = List.map_filter (\<lambda>k. map_option (Pair k) (m k)) ks"

definition applyInsertShards ::
  "cloner \<Rightarrow> ((int64 \<rightharpoonup> 'any PbServerSession option) \<Rightarrow> int64 list) \<Rightarrow> 'any PullShardsResponse option
    \<Rightarrow> 'any StateMachine \<Rightarrow> (KvReply \<times> 'any StateMachine) go" where
  "applyInsertShards cp v response s =
     go_bind (deref response) (\<lambda>resp.
     go_bind (configNum (CurrentConfig s)) (\<lambda>current.
       if sint (Pulled_ConfigNum resp) < sint current then Ok (statusReply ERR_OUT_DATED_CONFIG, s)
       else
         go_bind (foldM_go (insertOne cp) s (Pulled_Shards resp)) (\<lambda>s1.
         go_bind (Merge (visited (ServerSessions resp) (v (ServerSessions resp))) (kv_SessionMap s1)) (\<lambda>sm.
           Ok (statusReply Kv_OK, s1\<lparr>kv_SessionMap := sm\<rparr>)))))"

section \<open>Applying a command\<close>

text \<open>The code outside the model that applying a command uses.\<close>

record ('any, 'e) kv_env =
  env_decode :: "bytes \<Rightarrow> 'any KvArgs"
  env_marshalAny :: "KvReply \<Rightarrow> 'any option \<times> 'e option"
  env_clone :: cloner
  env_key2shard :: "string \<Rightarrow> int64"
  env_visit :: "(int64 \<rightharpoonup> 'any PbServerSession option) \<Rightarrow> int64 list"

text \<open>The \<^verbatim>\<open>switch args.Type\<close>; a type without a case is answered OK.\<close>

definition kv_command ::
  "('any, 'e) kv_env \<Rightarrow> int64 \<Rightarrow> 'any KvArgs \<Rightarrow> 'any StateMachine \<Rightarrow> (KvReply \<times> 'any StateMachine) go" where
  "kv_command env gid args s =
     (if KvArgs_Type args = Kv_EMPTY then applyEmpty s
      else if KvArgs_Type args = Kv_GET then applyGet (env_key2shard env) gid (KvArgs_Key args) s
      else if KvArgs_Type args = Kv_PUT
        then applyPut (env_key2shard env) gid (KvArgs_Key args) (KvArgs_Value args) s
      else if KvArgs_Type args = Kv_APPEND
        then applyAppend (env_key2shard env) gid (KvArgs_Key args) (KvArgs_Value args) s
      else if KvArgs_Type args = Kv_PULL_SHARDS
        then applyInsertShards (env_clone env) (env_visit env) (PulledShards args) s
      else if KvArgs_Type args = Kv_DELETE_SHARDS
        then applyDeleteShards (env_clone env) (ConfigNum args) (ShardIDs args) s
      else if KvArgs_Type args = Kv_RECONFIGURE then applyReconfigure gid (NextConfig args) s
      else Ok (statusReply Kv_OK, s))"

text \<open>\<^verbatim>\<open>apply\<close>; the index it triggers the waiters of is the applied index it has stored.\<close>

definition kv_apply ::
  "('any, 'e) kv_env \<Rightarrow> int64 \<Rightarrow> ApplyMsg \<Rightarrow> 'any StateMachine \<Rightarrow> 'any StateMachine go" where
  "kv_apply env gid msg s =
     (let args = env_decode env (Command msg) in
      go_bind (IsDuplicate (KvArgs_SessionHeader args) (kv_SessionMap s)) (\<lambda>dup.
        if dup then Ok (s\<lparr>AppliedIndex := CommandIndex msg\<rparr>)
        else
          go_bind (kv_command env gid args s) (\<lambda>(reply, s1).
          go_bind (deref (KvArgs_SessionHeader args)) (\<lambda>h.
          go_bind (recordResponse (env_marshalAny env) (kv_SessionMap s1) h reply) (\<lambda>sm.
            Ok (s1\<lparr>kv_SessionMap := sm, AppliedIndex := CommandIndex msg\<rparr>))))))"

definition shouldApply :: "SessionHeader \<Rightarrow> 'any StateMachine \<Rightarrow> bool go" where
  "shouldApply request s = go_bind (HaveProcessed request (kv_SessionMap s)) (\<lambda>b. Ok (\<not> b))"

section \<open>The server\<close>

record 'any ShardKV =
  kv_me :: uint64
  kv_rf :: Raft
  kv_gid :: int64
  maxraftstate :: int64
  stateMachine :: "'any StateMachine"
  controller :: Clerk
  kv_stopped :: bool
  kv_triggered :: "uint64 list"

text \<open>Package gob: encoding may fail, decoding gives a state or fails.\<close>

record 'any gob =
  gob_Encode :: "'any StateMachine \<Rightarrow> byte list option"
  gob_Decode :: "bytes \<Rightarrow> 'any StateMachine option"

definition trigger :: "uint64 \<Rightarrow> 'any ShardKV \<Rightarrow> 'any ShardKV" where
  "trigger index kv = kv\<lparr>kv_triggered := kv_triggered kv @ [index]\<rparr>"

definition shouldSnapshot :: "'any ShardKV \<Rightarrow> bool" where
  "shouldSnapshot kv \<longleftrightarrow> 0 < sint (maxraftstate kv) \<and> sint (maxraftstate kv) < sint (LogSize (kv_rf kv))"

definition createSnapshot :: "'any gob \<Rightarrow> 'any ShardKV \<Rightarrow> 'any ShardKV go" where
  "createSnapshot gob kv =
     (case gob_Encode gob (stateMachine kv) of
        None \<Rightarrow> Panic (LogPanic ''gob'')
      | Some snapshot \<Rightarrow>
          go_bind (Raft_Snapshot (AppliedIndex (stateMachine kv)) (Some snapshot) (kv_rf kv)) (\<lambda>rf.
            Ok (kv\<lparr>kv_rf := rf\<rparr>)))"

definition installSnapshot :: "'any gob \<Rightarrow> bytes \<Rightarrow> 'any ShardKV \<Rightarrow> 'any ShardKV" where
  "installSnapshot gob snapshot kv =
     (case gob_Decode gob snapshot of
        None \<Rightarrow> kv
      | Some state \<Rightarrow>
          trigger (AppliedIndex state)
            (kv\<lparr>stateMachine := state\<lparr>kv_SessionMap := ResetLock (kv_SessionMap state)\<rparr>\<rparr>))"

text \<open>One message received by the loop of \<^verbatim>\<open>run\<close>.\<close>

definition kv_run :: "('any, 'e) kv_env \<Rightarrow> 'any gob \<Rightarrow> ApplyMsg \<Rightarrow> 'any ShardKV \<Rightarrow> 'any ShardKV go" where
  "kv_run env gob msg kv =
     (if CommandValid msg \<and> Command msg \<noteq> None then
        go_bind (kv_apply env (kv_gid kv) msg (stateMachine kv)) (\<lambda>s.
          let kv1 = trigger (AppliedIndex s) (kv\<lparr>stateMachine := s\<rparr>)
          in if shouldSnapshot kv1 then createSnapshot gob kv1 else Ok kv1)
      else if SnapshotValid msg then
        go_bind (CondInstallSnapshot (SnapshotTerm msg) (SnapshotIndex msg) (SnapshotBytes msg) (kv_rf kv)) (\<lambda>(ok, rf).
          let kv1 = kv\<lparr>kv_rf := rf\<rparr>
          in Ok (if ok then installSnapshot gob (SnapshotBytes msg) kv1 else kv1))
      else Ok kv)"

section \<open>Requests\<close>

text \<open>
  The handlers write into the caller's reply. \<^verbatim>\<open>Execute\<close> is split where it waits for the command to
  be applied: \<open>Inl\<close> is the reply it returns at once, \<open>Inr\<close> the index it waits for.
\<close>

definition kv_Execute_begin ::
  "('any KvArgs \<Rightarrow> byte list go) \<Rightarrow> ('any option \<Rightarrow> KvReply option \<Rightarrow> 'e option) \<Rightarrow> ('e session_error \<Rightarrow> string)
    \<Rightarrow> 'any KvArgs \<Rightarrow> KvReply \<Rightarrow> 'any ShardKV \<Rightarrow> ((KvReply + uint64) \<times> 'any ShardKV) go" where
  "kv_Execute_begin marshal unmarshalAny errText args reply kv =
     go_bind (IsDuplicate (KvArgs_SessionHeader args) (kv_SessionMap (stateMachine kv))) (\<lambda>dup.
       if dup then
         go_bind (GetResponse unmarshalAny (KvArgs_SessionHeader args) (kv_SessionMap (stateMachine kv))) (\<lambda>(resp, err).
           case err of
             Some e \<Rightarrow> Ok (Inl (reply\<lparr>KvReply_Status := ERR_BAD_SESSION, KvReply_Message := errText e\<rparr>), kv)
           | None \<Rightarrow> go_bind (assertReply resp) (\<lambda>r. Ok (Inl r, kv)))
       else
         go_bind (marshal args) (\<lambda>data.
         go_bind (Start (Some data) (kv_rf kv)) (\<lambda>((index, _, leader), rf).
           let kv1 = kv\<lparr>kv_rf := rf\<rparr> in
           if \<not> leader then Ok (Inl (reply\<lparr>KvReply_Status := ERR_WRONG_LEADER\<rparr>), kv1)
           else Ok (Inr index, kv1))))"

definition kv_Execute_end ::
  "('any option \<Rightarrow> KvReply option \<Rightarrow> 'e option) \<Rightarrow> ('e session_error \<Rightarrow> string)
    \<Rightarrow> 'any KvArgs \<Rightarrow> KvReply \<Rightarrow> 'any ShardKV \<Rightarrow> KvReply go" where
  "kv_Execute_end unmarshalAny errText args reply kv =
     go_bind (GetResponse unmarshalAny (KvArgs_SessionHeader args) (kv_SessionMap (stateMachine kv))) (\<lambda>(response, err).
       case err of
         Some e \<Rightarrow> Ok (reply\<lparr>KvReply_Status := ERR_BAD_SESSION, KvReply_Message := errText e\<rparr>)
       | None \<Rightarrow> assertReply response)"

text \<open>The response of \<^verbatim>\<open>PullShards\<close> before it is marshalled into the reply.\<close>

definition pulledShards :: "cloner \<Rightarrow> 'any KvArgs \<Rightarrow> 'any StateMachine \<Rightarrow> 'any PullShardsResponse go" where
  "pulledShards cp args s =
     go_bind (foldM_go (\<lambda>acc shardID. go_bind (Shard_ProtoMessage cp (shardAt s shardID)) (\<lambda>m. Ok (acc @ [m])))
                [] (ShardIDs args)) (\<lambda>shards.
     go_bind (sm_ProtoMessage (kv_SessionMap s)) (\<lambda>sessions.
       Ok \<lparr>Pulled_Shards = shards, ServerSessions = sessions, Pulled_ConfigNum = ConfigNum args\<rparr>))"

definition PullShards ::
  "('any PullShardsResponse \<Rightarrow> byte list go) \<Rightarrow> cloner \<Rightarrow> 'any KvArgs \<Rightarrow> KvReply \<Rightarrow> 'any ShardKV \<Rightarrow> KvReply go" where
  "PullShards marshalResponse cp args reply kv =
     go_bind (GetState (kv_rf kv)) (\<lambda>(_, lead).
       if \<not> lead then Ok (reply\<lparr>KvReply_Status := ERR_WRONG_LEADER\<rparr>)
       else go_bind (configNum (CurrentConfig (stateMachine kv))) (\<lambda>current.
         if sint current < sint (ConfigNum args) then Ok (reply\<lparr>KvReply_Status := ERR_NOT_READY\<rparr>)
         else go_bind (pulledShards cp args (stateMachine kv)) (\<lambda>resp.
              go_bind (marshalResponse resp) (\<lambda>data.
                Ok (reply\<lparr>KvReply_Data := Some data, KvReply_Status := Kv_OK\<rparr>)))))"

definition DeleteShards_begin ::
  "('any KvArgs \<Rightarrow> byte list go) \<Rightarrow> ('any option \<Rightarrow> KvReply option \<Rightarrow> 'e option) \<Rightarrow> ('e session_error \<Rightarrow> string)
    \<Rightarrow> 'any KvArgs \<Rightarrow> KvReply \<Rightarrow> 'any ShardKV \<Rightarrow> ((KvReply + uint64) \<times> 'any ShardKV) go" where
  "DeleteShards_begin marshal unmarshalAny errText args reply kv =
     go_bind (GetState (kv_rf kv)) (\<lambda>(_, lead).
       if \<not> lead then Ok (Inl (reply\<lparr>KvReply_Status := ERR_WRONG_LEADER\<rparr>), kv)
       else go_bind (configNum (CurrentConfig (stateMachine kv))) (\<lambda>current.
         if sint (ConfigNum args) < sint current then Ok (Inl (reply\<lparr>KvReply_Status := Kv_OK\<rparr>), kv)
         else go_bind (kv_Execute_begin marshal unmarshalAny errText args reply kv) (\<lambda>(r, kv1).
           case r of Inl rep \<Rightarrow> Ok (Inl (rep\<lparr>KvReply_Status := Kv_OK\<rparr>), kv1) | Inr index \<Rightarrow> Ok (Inr index, kv1))))"

definition DeleteShards_end ::
  "('any option \<Rightarrow> KvReply option \<Rightarrow> 'e option) \<Rightarrow> ('e session_error \<Rightarrow> string)
    \<Rightarrow> 'any KvArgs \<Rightarrow> KvReply \<Rightarrow> 'any ShardKV \<Rightarrow> KvReply go" where
  "DeleteShards_end unmarshalAny errText args reply kv =
     go_bind (kv_Execute_end unmarshalAny errText args reply kv) (\<lambda>rep. Ok (rep\<lparr>KvReply_Status := Kv_OK\<rparr>))"

definition kv_Kill :: "'any ShardKV \<Rightarrow> 'any ShardKV go" where
  "kv_Kill kv =
     go_bind (Kill (kv_rf kv)) (\<lambda>rf.
       if kv_stopped kv then Panic CloseOfClosedChannel
       else Ok (kv\<lparr>kv_rf := rf, kv_stopped := True\<rparr>))"

section \<open>Monitors\<close>

definition kv_Monitor_turn :: "('any ShardKV \<Rightarrow> 'any ShardKV go) \<Rightarrow> 'any ShardKV \<Rightarrow> (bool \<times> 'any ShardKV) go" where
  "kv_Monitor_turn action kv =
     (if kv_stopped kv then Ok (False, kv)
      else go_bind (GetState (kv_rf kv)) (\<lambda>(_, isLeader).
             if isLeader then go_bind (action kv) (\<lambda>kv1. Ok (True, kv1)) else Ok (True, kv)))"

text \<open>The loop of \<^verbatim>\<open>configureAction\<close>: whether a shard is not served, looked for in visiting order.\<close>

fun isMigrating :: "'any StateMachine \<Rightarrow> int64 list \<Rightarrow> bool go" where
  "isMigrating s [] = Ok False"
| "isMigrating s (i # is) =
     go_bind (Status (shardAt s i)) (\<lambda>st. if st \<noteq> SERVING then Ok True else isMigrating s is)"

text \<open>
  \<^verbatim>\<open>configureAction\<close> up to and including its query, whose attempts are an argument (\<open>None\<close>: the query
  has not returned); \<open>header\<close> is the next header of \<^verbatim>\<open>kv.clerk\<close>. The result is the command it
  executes, if any.
\<close>

definition configureAction ::
  "shard_visit \<Rightarrow> attempt list \<Rightarrow> SessionHeader \<Rightarrow> 'any ShardKV \<Rightarrow> ('any KvArgs option option \<times> 'any ShardKV) go" where
  "configureAction v attempts header kv =
     go_bind (isMigrating (stateMachine kv) (v (Shards (stateMachine kv)))) (\<lambda>migrating.
     go_bind (configNum (CurrentConfig (stateMachine kv))) (\<lambda>currentNum.
       if migrating then Ok (Some None, kv)
       else go_bind (clerk_Query (currentNum + 1) attempts (controller kv)) (\<lambda>(res, ck).
         let kv1 = kv\<lparr>controller := ck\<rparr> in
         case res of
           None \<Rightarrow> Ok (None, kv1)
         | Some nextConfig \<Rightarrow> go_bind (deref nextConfig) (\<lambda>next.
             if PbConfig_Num next = currentNum + 1
             then Ok (Some (Some (KvArgs_zero\<lparr>KvArgs_SessionHeader := Some header, KvArgs_Type := Kv_RECONFIGURE,
                        KvArgs_Key := [], NextConfig := nextConfig\<rparr>)), kv1)
             else Ok (Some None, kv1)))))"

text \<open>
  The loop of \<^verbatim>\<open>getGid2ShardsOnLastConfigByStatus\<close>: the shards of the given status, by the group that
  had them in the last configuration.
\<close>

definition addToGid :: "int32 \<Rightarrow> 'any StateMachine \<Rightarrow> (int64 \<rightharpoonup> int64 list) \<Rightarrow> int64 \<Rightarrow> (int64 \<rightharpoonup> int64 list) go" where
  "addToGid status s gid2ShardIDs i =
     go_bind (Status (shardAt s i)) (\<lambda>st.
       if st = status then
         go_bind (deref (LastConfig s)) (\<lambda>cfg.
         go_bind (indexInt (Config_Shards cfg) (sint i)) (\<lambda>gid.
           case gid2ShardIDs gid of
             Some ids \<Rightarrow> go_bind (ID (shardAt s i)) (\<lambda>sid. Ok (gid2ShardIDs(gid \<mapsto> ids @ [sid])))
           | None \<Rightarrow> Ok (gid2ShardIDs(gid \<mapsto> [i]))))
       else Ok gid2ShardIDs)"

definition getGid2ShardsOnLastConfigByStatus ::
  "shard_visit \<Rightarrow> int32 \<Rightarrow> 'any StateMachine \<Rightarrow> (int64 \<rightharpoonup> int64 list) go" where
  "getGid2ShardsOnLastConfigByStatus v status s = foldM_go (addToGid status s) Map.empty (v (Shards s))"

text \<open>
  \<^verbatim>\<open>migratingAction\<close> and \<^verbatim>\<open>gcAction\<close>: the calls to other groups they start, one goroutine per group,
  as group, shards and number of the configuration; and the command each of these goroutines
  executes when its call has returned.
\<close>

definition migrations ::
  "shard_visit \<Rightarrow> ((int64 \<rightharpoonup> int64 list) \<Rightarrow> int64 list) \<Rightarrow> int32 \<Rightarrow> 'any ShardKV \<Rightarrow> (int64 \<times> int64 list \<times> int64) list go" where
  "migrations v w status kv =
     go_bind (getGid2ShardsOnLastConfigByStatus v status (stateMachine kv)) (\<lambda>m.
       foldM_go (\<lambda>acc (gid, shardIDs).
           go_bind (configNum (CurrentConfig (stateMachine kv))) (\<lambda>n. Ok (acc @ [(gid, shardIDs, n)])))
         [] (visited m (w m)))"

definition migratingAction ::
  "shard_visit \<Rightarrow> ((int64 \<rightharpoonup> int64 list) \<Rightarrow> int64 list) \<Rightarrow> 'any ShardKV \<Rightarrow> (int64 \<times> int64 list \<times> int64) list go" where
  "migratingAction v w kv = migrations v w PULLING kv"

definition migratingAction_finish :: "'any PullShardsResponse option \<Rightarrow> SessionHeader \<Rightarrow> 'any KvArgs" where
  "migratingAction_finish resp header =
     KvArgs_zero\<lparr>KvArgs_Type := Kv_INSERT_SHARDS, PulledShards := resp, KvArgs_SessionHeader := Some header\<rparr>"

definition gcAction ::
  "shard_visit \<Rightarrow> ((int64 \<rightharpoonup> int64 list) \<Rightarrow> int64 list) \<Rightarrow> 'any ShardKV \<Rightarrow> (int64 \<times> int64 list \<times> int64) list go" where
  "gcAction v w kv = migrations v w GC kv"

definition gcAction_finish :: "int64 list \<times> int64 \<Rightarrow> SessionHeader \<Rightarrow> 'any KvArgs" where
  "gcAction_finish call header =
     (case call of (shardIDs, n) \<Rightarrow>
        KvArgs_zero\<lparr>KvArgs_Type := Kv_DELETE_SHARDS, ConfigNum := n, ShardIDs := shardIDs,
          KvArgs_SessionHeader := Some header\<rparr>)"

definition kv_checkEntryInCurrentTermAction :: "SessionHeader \<Rightarrow> 'any ShardKV \<Rightarrow> 'any KvArgs option go" where
  "kv_checkEntryInCurrentTermAction header kv =
     go_bind (HasCurrentTermLog (kv_rf kv)) (\<lambda>has.
       Ok (if \<not> has then Some (KvArgs_zero\<lparr>KvArgs_Type := Kv_EMPTY, KvArgs_SessionHeader := Some header\<rparr>) else None))"

section \<open>Construction\<close>

definition initialState :: "'any StateMachine" where
  "initialState = \<lparr>Shards = Map.empty, kv_SessionMap = NewSessionMap, AppliedIndex = 0,
     CurrentConfig = Some \<lparr>Config_Num = 0, Config_Shards = replicate NShards 0, Config_Groups = Map.empty\<rparr>,
     LastConfig = None\<rparr>"

definition kv_StartServer ::
  "('addr \<Rightarrow> 'client option) \<Rightarrow> 'any gob \<Rightarrow> int64 \<Rightarrow> 'addr list \<Rightarrow> uint64 \<Rightarrow> Persister \<Rightarrow> int64 \<Rightarrow> int64
    \<Rightarrow> 'ctl list \<Rightarrow> (raft_error + 'any ShardKV) go" where
  "kv_StartServer dial gob sid serverAddr me persister maxState gid ctrlers =
     go_bind (Make dial serverAddr me persister) (\<lambda>made.
       case made of
         Inl err \<Rightarrow> Ok (Inl err)
       | Inr rf \<Rightarrow>
           (let kv = \<lparr>kv_me = me, kv_rf = rf, kv_gid = gid, maxraftstate = maxState, stateMachine = initialState,
                      controller = MakeClerk sid ctrlers, kv_stopped = False, kv_triggered = []\<rparr>
            in Ok (Inr (if 0 < SnapshotSize persister
                        then installSnapshot gob (ReadSnapshot persister) kv else kv))))"

end
