(* ===== verification/KV_Laws.thy ===== *)
theory KV_Laws
  imports KV_Server Shardctl_Laws
begin

text \<open>
  The laws of a server of the store: the invariant of its state machine and its preservation by
  every command, the monotonicity of its session table, and the store as a map from keys to
  values.
\<close>

section \<open>Invariant\<close>

text \<open>
  The session table is in order, there is a current configuration with an array of full size, and
  every shard is there and filed under its own number.
\<close>

definition shards_ok :: "(int64 \<rightharpoonup> Shard option) \<Rightarrow> bool" where
  "shards_ok m \<longleftrightarrow> (\<forall>i p. m i = Some p \<longrightarrow> (\<exists>pb. p = Some (Shard (Some pb)) \<and> Shard_ID pb = i))"

definition kv_ok :: "'any StateMachine \<Rightarrow> bool" where
  "kv_ok s \<longleftrightarrow> table_ok (kv_SessionMap s) \<and> shards_ok (Shards s) \<and>
     (\<exists>c. CurrentConfig s = Some c \<and> config_ok c)"

text \<open>What is relied on of the code outside the model.\<close>

definition env_ok :: "('any, 'e) kv_env \<Rightarrow> bool" where
  "env_ok env \<longleftrightarrow> clone_ok (env_clone env) \<and>
     (\<forall>m. iterates m (env_visit env m))"

text \<open>A received session table has no nil session.\<close>

definition response_ok :: "'any PullShardsResponse \<Rightarrow> bool" where
  "response_ok r \<longleftrightarrow> None \<notin> ran (ServerSessions r)"

definition kvargs_ok :: "'any KvArgs \<Rightarrow> bool" where
  "kvargs_ok args \<longleftrightarrow> (\<forall>r. PulledShards args = Some r \<longrightarrow> response_ok r)"

definition currentNum :: "'any StateMachine \<Rightarrow> int64" where
  "currentNum s = Config_Num (the (CurrentConfig s))"

lemma kv_ok_shards: "kv_ok s \<Longrightarrow> shards_ok m \<Longrightarrow> kv_ok (s\<lparr>Shards := m\<rparr>)"
  by (simp add: kv_ok_def)

lemma shards_ok_put: "shards_ok m \<Longrightarrow> Shard_ID pb = i \<Longrightarrow> shards_ok (m(i \<mapsto> Some (Shard (Some pb))))"
  by (simp add: shards_ok_def)

lemma shardAt_ok:
  assumes "shards_ok (Shards s)"
  obtains "Shards s i = None" "shardAt s i = None"
  | pb where "Shards s i = Some (Some (Shard (Some pb)))" "shardAt s i = Some (Shard (Some pb))" "Shard_ID pb = i"
proof (cases "Shards s i")
  case (Some p)
  with assms obtain pb where "p = Some (Shard (Some pb))" "Shard_ID pb = i" by (auto simp: shards_ok_def)
  with Some show ?thesis using that(2) by (simp add: shardAt_def)
qed (use that(1) in \<open>simp add: shardAt_def\<close>)

lemma shardAt_put: "shardAt (putShard i sh s) j = (if j = i then Some sh else shardAt s j)"
  by (simp add: shardAt_def putShard_def)

lemma putShard_fields [simp]:
  "kv_SessionMap (putShard i sh s) = kv_SessionMap s" "CurrentConfig (putShard i sh s) = CurrentConfig s"
  "LastConfig (putShard i sh s) = LastConfig s" "Shards (putShard i sh s) = (Shards s)(i \<mapsto> Some sh)"
  by (simp_all add: putShard_def)

section \<open>Each command\<close>

text \<open>
  What a command may do to the shards: replace some of those that are there, nothing else.
\<close>

definition shards_step :: "'any StateMachine \<Rightarrow> 'any StateMachine \<Rightarrow> bool" where
  "shards_step s s' \<longleftrightarrow> shards_ok (Shards s') \<and> dom (Shards s') = dom (Shards s) \<and>
     s' = s\<lparr>Shards := Shards s'\<rparr>"

lemma shards_step_refl: "shards_ok (Shards s) \<Longrightarrow> shards_step s s"
  by (simp add: shards_step_def)

lemma shards_step_trans:
  assumes "shards_step s s1" "shards_step s1 s2"
  shows "shards_step s s2"
  using assms by (cases s; cases s1; cases s2) (simp add: shards_step_def)

lemma shards_step_fields:
  assumes "shards_step s s'"
  shows "kv_SessionMap s' = kv_SessionMap s" "CurrentConfig s' = CurrentConfig s"
  using assms by (cases s; cases s'; simp add: shards_step_def)+

lemma shards_step_put:
  assumes "shards_ok (Shards s)" "shardAt s i \<noteq> None" "Shard_ID pb = i"
  shows "shards_step s (putShard i (Shard (Some pb)) s)"
  using assms(2) unfolding shards_step_def
  by (auto simp: shards_ok_put[OF assms(1,3)] putShard_def shardAt_def split: option.splits)

lemma shards_step_put_num:
  "shards_ok (Shards s) \<Longrightarrow> shardAt s i = Some (Shard (Some pb)) \<Longrightarrow> Shard_ID pb' = Shard_ID pb \<Longrightarrow>
   shards_step s (putShard i (Shard (Some pb')) s)"
  by (rule shards_step_put) (auto simp: shards_ok_def shardAt_def split: option.splits)

lemma foldM_shards_step:
  assumes "shards_ok (Shards s)" "foldM_go f s xs = Ok s'"
    "\<And>s x s'. shards_ok (Shards s) \<Longrightarrow> x \<in> set xs \<Longrightarrow> f s x = Ok s' \<Longrightarrow> shards_step s s'"
  shows "shards_step s s'"
proof (rule foldM_go_inv[where I = "\<lambda>s'. shards_step s s'", OF shards_step_refl[OF assms(1)] _ assms(2)])
  fix s1 x s2 assume "shards_step s s1" "x \<in> set xs" "f s1 x = Ok s2"
  then show "shards_step s s2" using assms(3) shards_step_trans by (metis shards_step_def)
qed

lemma deleteOne_step:
  assumes "clone_ok cp" "shards_ok (Shards s)" "deleteOne cp s i = Ok s'"
  shows "shards_step s s'"
proof (rule shardAt_ok[OF assms(2), of i])
  fix pb assume pb: "shardAt s i = Some (Shard (Some pb))" "Shard_ID pb = i"
  obtain new where new: "NewShard cp (Some \<lparr>Shard_ID = i, Shard_KV = None, Shard_Status = SERVING\<rparr>) = Shard (Some new)"
    "Shard_ID new = i" using NewShard_spec[OF assms(1), of "\<lparr>Shard_ID = i, Shard_KV = None, Shard_Status = SERVING\<rparr>"] by auto
  show ?thesis
    using assms(2,3) pb new shards_step_put[of s i new] shards_step_put[of s i "pb\<lparr>Shard_Status := SERVING\<rparr>"]
    by (auto simp: deleteOne_def shards_step_refl split: if_splits)
qed (use assms(3) in \<open>simp add: deleteOne_def\<close>)

lemma statusOne_step:
  assumes "shards_ok (Shards s)" "statusOne old gid s x = Ok s'"
  shows "shards_step s s'"
proof -
  obtain n g where x: "x = (n, g)" by force
  show ?thesis
  proof (rule shardAt_ok[OF assms(1), of "of_nat n"])
    fix pb assume "shardAt s (of_nat n) = Some (Shard (Some pb))" "Shard_ID pb = of_nat n"
    then show ?thesis
      using assms shards_step_put[of s "of_nat n" "pb\<lparr>Shard_Status := BE_PULLING\<rparr>"]
        shards_step_put[of s "of_nat n" "pb\<lparr>Shard_Status := PULLING\<rparr>"]
      by (auto simp: statusOne_def x shards_step_refl split: if_splits)
  qed (use assms in \<open>auto simp: statusOne_def x SetStatus_def shardOf_def shards_step_refl split: if_splits\<close>)
qed

lemma insertOne_spec:
  assumes "clone_ok cp" "shards_ok (Shards s)"
  shows "insertOne cp s (Some pb) =
    (case shardAt s (Shard_ID pb) of
       None \<Rightarrow> Panic NilDeref
     | Some sh \<Rightarrow> if Status (Some sh) = Ok PULLING
         then Ok (putShard (Shard_ID pb) (Shard (Some ((the (cp (Some pb)))\<lparr>Shard_Status := GC\<rparr>))) s) else Ok s)"
proof (rule shardAt_ok[OF assms(2), of "Shard_ID pb"])
  fix pb0 assume pb0: "shardAt s (Shard_ID pb) = Some (Shard (Some pb0))"
  obtain new where new: "cp (Some pb) = Some new" using assms(1) unfolding clone_ok_def by blast
  then have "NewShard cp (Some pb) = Shard (Some new)" by (simp add: NewShard_def)
  then show ?thesis using pb0 new by (auto simp: insertOne_def Let_def shardAt_put) (simp_all add: putShard_def)
qed (simp add: insertOne_def)

lemma insertOne_step:
  assumes "clone_ok cp" "shards_ok (Shards s)" "insertOne cp s p = Ok s'"
  shows "shards_step s s'"
proof -
  obtain pb where pb: "p = Some pb" using assms(3) by (cases p) (auto simp: insertOne_def)
  obtain new where new: "cp (Some pb) = Some new" "Shard_ID new = Shard_ID pb"
    using assms(1) unfolding clone_ok_def by blast
  then show ?thesis
    using assms(3) insertOne_spec[OF assms(1,2), of pb] shards_step_put[OF assms(2), of "Shard_ID pb" "new\<lparr>Shard_Status := GC\<rparr>"]
      shards_step_refl[OF assms(2)]
    by (auto simp: pb split: option.splits if_splits)
qed

text \<open>
  What any command does to the state: the invariant is kept, no shard appears or disappears, what
  the session table covers stays covered, and the configuration moves by at most one number.
\<close>

definition covers :: "'any SessionMap \<Rightarrow> 'any SessionMap \<Rightarrow> bool" where
  "covers t t' \<longleftrightarrow> (\<forall>h. IsDuplicate (Some h) t = Ok True \<longrightarrow> IsDuplicate (Some h) t' = Ok True)"

definition kv_step :: "'any StateMachine \<Rightarrow> 'any StateMachine \<Rightarrow> bool" where
  "kv_step s s' \<longleftrightarrow> kv_ok s' \<and> dom (Shards s') = dom (Shards s) \<and> covers (kv_SessionMap s) (kv_SessionMap s') \<and>
     (currentNum s' = currentNum s \<or> currentNum s' = currentNum s + 1)"

lemma kv_step_refl: "kv_ok s \<Longrightarrow> kv_step s s"
  by (simp add: kv_step_def covers_def)

lemma shards_step_kv: "kv_ok s \<Longrightarrow> shards_step s s' \<Longrightarrow> kv_step s s'"
  by (cases s; cases s') (auto simp: kv_ok_def shards_step_def kv_step_def covers_def currentNum_def)

lemma Shard_write_step:
  assumes "kv_ok s" "Shard_Put k v (shardAt s i) = Ok (sh, e) \<or> Shard_Append k v (shardAt s i) = Ok (sh, e)"
  shows "shards_step s (putShard i sh s)"
proof -
  have ok: "shards_ok (Shards s)" using assms(1) by (simp add: kv_ok_def)
  show ?thesis
  proof (rule shardAt_ok[OF ok, of i])
    fix pb assume "shardAt s i = Some (Shard (Some pb))" "Shard_ID pb = i"
    then show ?thesis using assms(2) shards_step_put_num[OF ok, of i pb]
      by (auto simp: Shard_Put_def Shard_Append_def shardOf_def Let_def split: option.splits)
  qed (use assms(2) in \<open>simp add: Shard_Put_def Shard_Append_def shardOf_def\<close>)
qed

lemma visited_iterates:
  assumes "iterates m ks"
  shows "distinct (map fst (visited m ks))" "map_of (visited m ks) = m" "snd ` set (visited m ks) = ran m"
proof -
  have *: "visited m ks = map (\<lambda>k. (k, the (m k))) ks"
    if "set ks \<subseteq> dom m" for ks using that by (induction ks) (auto simp: visited_def map_filter_simps)
  have ks: "visited m ks = map (\<lambda>k. (k, the (m k))) ks" "distinct ks" "set ks = dom m"
    using assms * by (auto simp: iterates_def)
  show "distinct (map fst (visited m ks))" using ks by (simp add: comp_def)
  show "map_of (visited m ks) = m" using ks(3) by (auto simp: ks(1) map_of_map_keys fun_eq_iff domIff restrict_map_def split: option.splits)
  show "snd ` set (visited m ks) = ran m" using ks(3) by (force simp: ks(1) ran_def)
qed

lemma applyInsertShards_step:
  assumes env: "clone_ok cp" "\<And>m. iterates m (v m)" and ok: "kv_ok s" "response_ok r"
    and app: "applyInsertShards cp v (Some r) s = Ok (rep, s')"
  shows "kv_step s s'"
proof -
  obtain c where c: "CurrentConfig s = Some c" using ok(1) by (auto simp: kv_ok_def)
  show ?thesis
  proof (cases "sint (Pulled_ConfigNum r) < sint (Config_Num c)")
    case True
    then show ?thesis using app c kv_step_refl[OF ok(1)] by (simp add: applyInsertShards_def configNum_def)
  next
    case False
    let ?vs = "visited (ServerSessions r) (v (ServerSessions r))"
    from app False c obtain s1 sm where
      1: "foldM_go (insertOne cp) s (Pulled_Shards r) = Ok s1" "Merge ?vs (kv_SessionMap s1) = Ok sm"
        "s' = s1\<lparr>kv_SessionMap := sm\<rparr>" by (auto simp: applyInsertShards_def configNum_def)
    have "shards_ok (Shards s)" using ok(1) by (simp add: kv_ok_def)
    then have "shards_step s s1" using 1(1) insertOne_step[OF env(1)] by (rule foldM_shards_step)
    then have s1: "kv_step s s1" "kv_SessionMap s1 = kv_SessionMap s"
      using shards_step_kv[OF ok(1)] shards_step_fields by blast+
    have t: "table_ok (kv_SessionMap s1)" using s1(1) by (simp add: kv_step_def kv_ok_def)
    have it: "iterates (ServerSessions r) (v (ServerSessions r))" using env(2) .
    have "None \<notin> snd ` set ?vs" using ok(2) visited_iterates(3)[OF it] by (simp add: response_ok_def)
    from Merge_spec[OF t visited_iterates(1)[OF it] this] 1(2) have
      sm: "table_ok sm" "table_processed sm = (\<lambda>i. case (table_processed (kv_SessionMap s1) i, map_of ?vs i) of
        (None, Some (Some pb)) \<Rightarrow> Some (Session_ProcessedSeq pb)
      | (Some n, Some (Some pb)) \<Rightarrow> Some (max n (Session_ProcessedSeq pb))
      | (r, _) \<Rightarrow> r)" by auto
    have "covers (kv_SessionMap s1) sm"
      unfolding covers_def IsDuplicate_spec[OF t] IsDuplicate_spec[OF sm(1)] sm(2)
      by (auto simp: le_max_iff_disj split: option.splits)
    then show ?thesis using s1 sm(1) by (auto simp: kv_step_def kv_ok_def 1(3) currentNum_def)
  qed
qed

lemma applyReconfigure_step:
  assumes "kv_ok s" "applyReconfigure gid p s = Ok (rep, s')"
  shows "kv_step s s'"
proof -
  obtain c where c: "CurrentConfig s = Some c" using assms(1) by (auto simp: kv_ok_def)
  obtain nc where nc: "p = Some nc" using assms(2) by (auto simp: applyReconfigure_def)
  show ?thesis
  proof (cases "PbConfig_Num nc = Config_Num c + 1")
    case False
    then show ?thesis using assms c nc kv_step_refl[OF assms(1)] by (simp add: applyReconfigure_def configNum_def)
  next
    case True
    then obtain s1 cfg where 1: "updateShardsStatus gid nc s = Ok s1" "NewConfig nc = Ok cfg"
      "s' = s1\<lparr>LastConfig := CurrentConfig s1, CurrentConfig := Some cfg\<rparr>"
      using assms(2) c nc by (auto simp: applyReconfigure_def configNum_def Let_def)
    have ok: "shards_ok (Shards s)" using assms(1) by (simp add: kv_ok_def)
    have "shards_step s s1"
      using 1(1) foldM_shards_step[OF ok _ statusOne_step] shards_step_refl[OF ok]
      by (auto simp: updateShardsStatus_def split: if_splits)
    then have "kv_step s s1" by (rule shards_step_kv[OF assms(1)])
    then show ?thesis using 1(3) NewConfig_ok[OF 1(2)] True c
      by (auto simp: kv_step_def kv_ok_def currentNum_def)
  qed
qed

lemma kv_command_step:
  assumes env: "env_ok env" and ok: "kv_ok s" "kvargs_ok args" and cmd: "kv_command env gid args s = Ok (rep, s')"
  shows "kv_step s s'"
proof -
  note r = kv_step_refl[OF ok(1)] and sh = shards_step_kv[OF ok(1)]
  have sok: "shards_ok (Shards s)" using ok(1) by (simp add: kv_ok_def)
  have get: "applyGet k2s gid key s = Ok (rep, s') \<Longrightarrow> kv_step s s'" for k2s key
    using r by (auto simp: applyGet_def Let_def split: if_splits)
  have put: "applyPut k2s gid key v s = Ok (rep, s') \<Longrightarrow> kv_step s s'" for k2s key v
    using r sh Shard_write_step[OF ok(1)] by (fastforce simp: applyPut_def Let_def split: if_splits)
  have app: "applyAppend k2s gid key v s = Ok (rep, s') \<Longrightarrow> kv_step s s'" for k2s key v
    using r sh Shard_write_step[OF ok(1)] by (fastforce simp: applyAppend_def Let_def split: if_splits)
  have del: "applyDeleteShards (env_clone env) n is s = Ok (rep, s') \<Longrightarrow> kv_step s s'" for n "is"
  proof -
    assume a: "applyDeleteShards (env_clone env) n is s = Ok (rep, s')"
    have cl: "clone_ok (env_clone env)" using env by (simp add: env_ok_def)
    have "shards_step s s'" if "foldM_go (deleteOne (env_clone env)) s is = Ok s'"
      using foldM_shards_step[OF sok that] deleteOne_step[OF cl] by blast
    then show "kv_step s s'" using a r sh by (auto simp: applyDeleteShards_def split: if_splits)
  qed
  have ins: "applyInsertShards (env_clone env) (env_visit env) (PulledShards args) s = Ok (rep, s') \<Longrightarrow> kv_step s s'"
    using applyInsertShards_step[of "env_clone env" "env_visit env" s] env ok
    by (cases "PulledShards args") (auto simp: env_ok_def kvargs_ok_def applyInsertShards_def[of _ _ None])
  show ?thesis using cmd get put app del ins applyReconfigure_step[OF ok(1)] r
    unfolding kv_command_def by (auto simp: applyEmpty_def split: if_splits)
qed

section \<open>Applying commands\<close>

lemma kv_apply_step:
  assumes env: "env_ok env" and ok: "kv_ok s" "kvargs_ok (env_decode env (Command msg))"
    and app: "kv_apply env gid msg s = Ok s'"
  shows "kv_step s s' \<and> AppliedIndex s' = CommandIndex msg \<and>
    (\<exists>h. KvArgs_SessionHeader (env_decode env (Command msg)) = Some h \<and> IsDuplicate (Some h) (kv_SessionMap s') = Ok True)"
proof -
  let ?args = "env_decode env (Command msg)"
  obtain h where h: "KvArgs_SessionHeader ?args = Some h"
    using app by (cases "KvArgs_SessionHeader ?args") (auto simp: kv_apply_def IsDuplicate_def withLock_def Let_def split: if_splits)
  have t: "table_ok (kv_SessionMap s)" using ok(1) by (simp add: kv_ok_def)
  obtain dup where dup: "IsDuplicate (Some h) (kv_SessionMap s) = Ok dup" using IsDuplicate_spec[OF t, of h] by simp
  show ?thesis
  proof (cases dup)
    case True
    then have "s' = s\<lparr>AppliedIndex := CommandIndex msg\<rparr>" using app h dup by (simp add: kv_apply_def)
    then show ?thesis using h dup True ok(1) by (simp add: kv_step_def kv_ok_def covers_def currentNum_def)
  next
    case False
    then obtain rep s1 sm where 1: "kv_command env gid ?args s = Ok (rep, s1)"
      "recordResponse (env_marshalAny env) (kv_SessionMap s1) h rep = Ok sm"
      "s' = s1\<lparr>kv_SessionMap := sm, AppliedIndex := CommandIndex msg\<rparr>"
      using app h dup by (auto simp: kv_apply_def Let_def)
    have s1: "kv_step s s1" by (rule kv_command_step[OF env ok 1(1)])
    then have t1: "table_ok (kv_SessionMap s1)" by (simp add: kv_step_def kv_ok_def)
    note rec = recordResponse_Ok[OF t1 1(2)]
    have "covers (kv_SessionMap s1) sm" "IsDuplicate (Some h) sm = Ok True"
      using rec unfolding covers_def by (auto simp: IsDuplicate_spec t1 split: option.splits intro: order_trans)
    then show ?thesis using h s1 rec by (auto simp: kv_step_def kv_ok_def covers_def 1(3) currentNum_def)
  qed
qed

text \<open>A command with a header that is not covered is applied if its operation returns.\<close>

lemma kv_apply_runs:
  assumes "kv_ok s" "env_decode env (Command msg) = args" "KvArgs_SessionHeader args = Some h"
    "table_processed (kv_SessionMap s) (Header_ID h) = None" "kv_command env g args s = Ok (reply, s1)"
    "kv_SessionMap s1 = kv_SessionMap s"
  shows "\<exists>sm. kv_apply env g msg s = Ok (s1\<lparr>kv_SessionMap := sm, AppliedIndex := CommandIndex msg\<rparr>) \<and> table_ok sm \<and>
    table_processed sm = (table_processed (kv_SessionMap s))(Header_ID h \<mapsto> Header_Seq h)"
proof -
  have t: "table_ok (kv_SessionMap s)" using assms(1) by (simp add: kv_ok_def)
  have new: "IsDuplicate (Some h) (kv_SessionMap s) = Ok False" using IsDuplicate_spec[OF t] assms(4) by simp
  from recordResponse_spec[OF t new, of "env_marshalAny env" reply] obtain sm where
    "recordResponse (env_marshalAny env) (kv_SessionMap s) h reply = Ok sm" "table_ok sm"
    "table_processed sm = (table_processed (kv_SessionMap s))(Header_ID h \<mapsto> Header_Seq h)" by blast
  then show ?thesis using assms(2,3,5,6) new by (auto simp: kv_apply_def Let_def)
qed

text \<open>A sequence of commands.\<close>

definition kv_applies ::
  "('any, 'e) kv_env \<Rightarrow> int64 \<Rightarrow> ApplyMsg list \<Rightarrow> 'any StateMachine \<Rightarrow> 'any StateMachine go" where
  "kv_applies env gid msgs s = foldM_go (\<lambda>s msg. kv_apply env gid msg s) s msgs"

definition msgs_ok :: "('any, 'e) kv_env \<Rightarrow> ApplyMsg list \<Rightarrow> bool" where
  "msgs_ok env msgs \<longleftrightarrow> (\<forall>msg \<in> set msgs. kvargs_ok (env_decode env (Command msg)))"

lemma kv_applies_run:
  assumes "env_ok env" "kv_ok s" "msgs_ok env msgs" "kv_applies env gid msgs s = Ok s'"
  shows "kv_ok s' \<and> dom (Shards s') = dom (Shards s) \<and> covers (kv_SessionMap s) (kv_SessionMap s') \<and>
    (\<exists>k \<le> length msgs. currentNum s' = currentNum s + of_nat k) \<and>
    (\<forall>msg \<in> set msgs. \<exists>h. KvArgs_SessionHeader (env_decode env (Command msg)) = Some h \<and>
       IsDuplicate (Some h) (kv_SessionMap s') = Ok True)"
  using assms(2-)
proof (induction msgs arbitrary: s)
  case Nil
  then show ?case by (simp add: kv_applies_def covers_def)
next
  case (Cons msg msgs)
  from Cons.prems obtain s1 where 1: "kv_apply env gid msg s = Ok s1" "kv_applies env gid msgs s1 = Ok s'"
    by (auto simp: kv_applies_def)
  have a: "kvargs_ok (env_decode env (Command msg))" "msgs_ok env msgs" using Cons.prems(2) by (auto simp: msgs_ok_def)
  from kv_apply_step[OF assms(1) Cons.prems(1) a(1) 1(1)] obtain h where
    s1: "kv_step s s1" "KvArgs_SessionHeader (env_decode env (Command msg)) = Some h"
      "IsDuplicate (Some h) (kv_SessionMap s1) = Ok True" by blast
  then have ok1: "kv_ok s1" by (simp add: kv_step_def)
  from Cons.IH[OF ok1 a(2) 1(2)] obtain k where
    2: "kv_ok s'" "dom (Shards s') = dom (Shards s1)" "covers (kv_SessionMap s1) (kv_SessionMap s')"
      "k \<le> length msgs" "currentNum s' = currentNum s1 + of_nat k"
      "\<forall>msg \<in> set msgs. \<exists>h. KvArgs_SessionHeader (env_decode env (Command msg)) = Some h \<and>
       IsDuplicate (Some h) (kv_SessionMap s') = Ok True" by blast
  have "\<exists>k \<le> length (msg # msgs). currentNum s' = currentNum s + of_nat k"
  proof (cases "currentNum s1 = currentNum s")
    case True
    then show ?thesis using 2(4,5) by (intro exI[of _ k]) simp
  next
    case False
    then have "currentNum s' = currentNum s + of_nat (Suc k)" using s1(1) 2(5) by (simp add: kv_step_def)
    then show ?thesis using 2(4) by (intro exI[of _ "Suc k"]) simp
  qed
  then show ?case using 2 s1 by (auto simp: kv_step_def covers_def)
qed

end
