(* ===== verification/Wire_Containers.thy ===== *)
theory Wire_Containers
  imports Message_Codec
begin

text \<open>
  The steps the generated codecs of the services use beyond those of raftpb: strings, repeated
  strings, packed integers and maps. A Go string is a sequence of bytes, as is a \<open>string\<close>. A map is written in the
  order its keys are visited, and read entry by entry by an inner loop, which checks neither the wire types nor,
  inside an entry, the end of the entry.
\<close>

section \<open>Strings\<close>

definition strBytes :: "string \<Rightarrow> byte list" where
  "strBytes s = map (\<lambda>c. of_nat (of_char c)) s"

definition bytesStr :: "byte list \<Rightarrow> string" where
  "bytesStr bs = map (\<lambda>b. char_of (unat b)) bs"

definition strCase ::
  "int \<Rightarrow> string \<Rightarrow> byte list \<Rightarrow> int \<Rightarrow> (string \<Rightarrow> 'm \<Rightarrow> 'm) \<Rightarrow> 'm \<Rightarrow> 'm \<times> (pb_error + int)" where
  "strCase wireType name dAtA iNdEx upd m = bytesCase wireType name dAtA iNdEx (\<lambda>bs. upd (bytesStr bs)) m"

definition fStr :: "byte \<Rightarrow> string \<Rightarrow> byte list" where
  "fStr tag s = fBytes tag (strBytes s)"

definition fStrings :: "byte \<Rightarrow> string list \<Rightarrow> byte list" where
  "fStrings tag ss = concat (map (\<lambda>s. fMsg tag (strBytes s)) ss)"

lemma length_strBytes [simp]: "length (strBytes s) = length s"
  by (simp add: strBytes_def)

lemma strBytes_Nil [simp]: "strBytes s = [] \<longleftrightarrow> s = []"
  by (simp add: strBytes_def)

lemma bytesStr_strBytes [simp]: "bytesStr (strBytes s) = s"
proof -
  have "unat (of_nat (of_char c) :: byte) = of_char c" for c
    by (simp add: unat_of_nat)
  then show ?thesis by (simp add: bytesStr_def strBytes_def comp_def)
qed

lemma writes_fStr: "writes (whenw (0 < length s) [putBytes (strBytes s), putByte tag]) (fStr tag s)"
  using writes_fBytes[of "strBytes s" tag] by (simp add: fStr_def)

lemma length_fStr: "length (fStr tag s) = (let l = length s in if 0 < l then 1 + l + sov (of_nat l) else 0)"
  by (simp add: fStr_def length_fBytes Let_def)

lemma consumes_fStr:
  assumes "tagOk tag fieldNum 2"
    and "\<And>d i. field fieldNum 2 d i m = Some (strCase 2 fname d i upd m)"
    and "s \<noteq> [] \<Longrightarrow> upd s m = m'" "s = [] \<Longrightarrow> m' = m"
  shows "consumes name field (fStr tag s) m m'"
  unfolding fStr_def
  by (rule consumes_fBytes[OF assms(1), where upd = "\<lambda>bs. upd (bytesStr bs)"]) (use assms in \<open>auto simp: strCase_def\<close>)

lemma strCase_stepOk: "strCase wt fname dAtA i upd m = (m', r) \<Longrightarrow> 0 \<le> i \<Longrightarrow> length dAtA < 2 ^ 63 \<Longrightarrow> stepOk dAtA i r"
  unfolding strCase_def by (rule bytesCase_stepOk)

text \<open>A field that occurs once per element of a list.\<close>

lemma consumes_fold:
  assumes "\<And>x acc. x \<in> set xs \<Longrightarrow> consumes name field (enc x) (st acc) (st (f acc x))"
  shows "consumes name field (concat (map enc xs)) (st acc) (st (foldl f acc xs))"
  using assms
proof (induction xs arbitrary: acc)
  case Nil
  then show ?case by (simp add: consumes_Nil)
next
  case (Cons x xs)
  have "consumes name field (enc x) (st acc) (st (f acc x))" using Cons.prems by simp
  moreover have "consumes name field (concat (map enc xs)) (st (f acc x)) (st (foldl f (f acc x) xs))"
    using Cons.prems by (intro Cons.IH) auto
  ultimately show ?case by (auto intro: consumes_append)
qed

lemma foldl_snoc: "foldl (\<lambda>a x. a @ [x]) acc xs = acc @ xs"
  by (induction xs arbitrary: acc) auto

lemma writes_bytesMsg: "writes (runw [putBytes bs, putByte tag]) (fMsg tag bs)"
proof -
  have "writes (runw [putBytes bs, putByte tag]) (([] @ [tag]) @ lenPrefixed bs)"
    by (intro writes_runw_Cons writes_runw_Nil writes_intros)
  then show ?thesis by (simp add: fMsg_def)
qed

lemma writes_fStrings:
  "writes (whenw (0 < length ss) (map (\<lambda>s. runw [putBytes (strBytes s), putByte tag]) (rev ss))) (fStrings tag ss)"
proof -
  have "writes (runw (map (\<lambda>s. runw [putBytes (strBytes s), putByte tag]) (rev ss))) (fStrings tag ss)"
    unfolding fStrings_def by (rule writes_repeated) (rule writes_bytesMsg)
  then show ?thesis by (cases "ss = []") (auto simp: whenw_def writes_def fStrings_def simp del: runw.simps)
qed

lemma length_fStrings: "length (fStrings tag ss) = (\<Sum>s\<leftarrow>ss. let l = length s in 1 + l + sov (of_nat l))"
  by (induction ss) (simp_all add: fStrings_def length_fMsg Let_def)

lemma consumes_fBytesMsg:
  assumes "tagOk tag fieldNum 2"
    and "\<And>d i. field fieldNum 2 d i m = Some (bytesCase 2 fname d i upd m)" "upd bs m = m'"
  shows "consumes name field (fMsg tag bs) m m'"
  unfolding fMsg_def
  using assms(1)
proof (rule consumes_field)
  fix pre rest :: "byte list"
  assume "length (pre @ lenPrefixed bs @ rest) < 2 ^ 63"
  from readLength_lenPrefixed[OF this]
  show "field fieldNum 2 (pre @ lenPrefixed bs @ rest) (int (length pre)) m =
      Some (m', Inr (int (length pre + length (lenPrefixed bs))))"
    using assms(3) by (simp add: assms(2) bytesCase_def subslice_lenPrefixed)
qed

lemma consumes_fStrings:
  assumes "tagOk tag fieldNum 2"
    and "\<And>d i m. field fieldNum 2 d i m = Some (strCase 2 fname d i upd m)"
    and "\<And>s acc. upd s (st acc) = st (acc @ [s])"
  shows "consumes name field (fStrings tag ss) (st acc) (st (acc @ ss))"
proof -
  have "consumes name field (concat (map (\<lambda>s. fMsg tag (strBytes s)) ss)) (st acc) (st (foldl (\<lambda>a x. a @ [x]) acc ss))"
    by (rule consumes_fold, rule consumes_fBytesMsg[OF assms(1), where upd = "\<lambda>bs. upd (bytesStr bs)"])
      (simp_all add: assms(2,3) strCase_def)
  then show ?thesis by (simp add: fStrings_def foldl_snoc)
qed

section \<open>Packed integers\<close>

text \<open>
  The loop over the numbers of a packed field, writing into the buffer \<^verbatim>\<open>dAtA3\<close> at \<^verbatim>\<open>j2\<close>; the
  step of the writer that copies the buffer in front of the cursor.
\<close>

function packOne :: "byte list \<Rightarrow> int \<Rightarrow> uint64 \<Rightarrow> (byte list \<times> int) go" where
  "packOne buf j num =
     (if 128 \<le> num then
        (case store buf j (ucast ((num AND 0x7f) OR 0x80)) of
           Panic p \<Rightarrow> Panic p
         | Ok buf' \<Rightarrow> packOne buf' (j + 1) (drop_bit 7 num))
      else go_bind (store buf j (ucast num)) (\<lambda>buf'. Ok (buf', j + 1)))"
  by pat_completeness auto
termination
  by (relation "measure (\<lambda>(d, i, v). unat v)")
    (auto simp: unat_drop_bit_eq drop_bit_eq_div word_le_nat_alt unat_div)

declare packOne.simps [simp del]

definition packAll :: "int64 list \<Rightarrow> (byte list \<times> int) go" where
  "packAll ns = foldM_go (\<lambda>(buf, j) n. packOne buf j n) (replicate (length ns * 10) 0, 0) ns"

fun putPacked :: "int64 list \<Rightarrow> cursor \<Rightarrow> cursor go" where
  "putPacked ns c = go_bind (packAll ns) (\<lambda>(buf, j). go_bind (prefixTo buf j) (\<lambda>bs. putBytes bs c))"

text \<open>
  Reading: one number if the field is not packed, otherwise all numbers up to the end of the field. The last
  number is not kept inside the field.
\<close>

function packedLoop :: "byte list \<Rightarrow> int \<Rightarrow> int \<Rightarrow> int64 list \<Rightarrow> int64 list \<times> (pb_error + int)" where
  "packedLoop dAtA iNdEx postIndex ns =
     (if iNdEx < postIndex then
        (case readVarint dAtA iNdEx 0 (0 :: 64 word) of
           (_, Inl e) \<Rightarrow> (ns, Inl e)
         | (v, Inr iNdEx') \<Rightarrow>
             if iNdEx < iNdEx' then packedLoop dAtA iNdEx' postIndex (ns @ [v]) else (ns, Inl ErrNoProgress))
      else (ns, Inr iNdEx))"
  by pat_completeness auto
termination
  by (relation "measure (\<lambda>(_, i, p, _). nat (p - i))") auto

declare packedLoop.simps [simp del]

definition packedCase ::
  "int \<Rightarrow> string \<Rightarrow> byte list \<Rightarrow> int \<Rightarrow> ('m \<Rightarrow> int64 list) \<Rightarrow> (int64 list \<Rightarrow> 'm \<Rightarrow> 'm) \<Rightarrow> 'm \<Rightarrow> 'm \<times> (pb_error + int)" where
  "packedCase wireType name dAtA iNdEx get upd m =
     (if wireType = 0 then
        (case readVarint dAtA iNdEx 0 (0 :: 64 word) of
           (_, Inl e) \<Rightarrow> (m, Inl e)
         | (v, Inr iNdEx') \<Rightarrow> (upd (get m @ [v]) m, Inr iNdEx'))
      else if wireType = 2 then
        (case readLength dAtA iNdEx of
           Inl e \<Rightarrow> (m, Inl e)
         | Inr (iNdEx', postIndex) \<Rightarrow>
             (case packedLoop dAtA iNdEx' postIndex (get m) of (ns, r) \<Rightarrow> (upd ns m, r)))
      else (m, Inl (ErrWrongWireType wireType name)))"

definition packed :: "int64 list \<Rightarrow> byte list" where
  "packed ns = concat (map (\<lambda>n. varint (unat n)) ns)"

definition fPacked :: "byte \<Rightarrow> int64 list \<Rightarrow> byte list" where
  "fPacked tag ns = fBytes tag (packed ns)"

lemma packed_simps [simp]: "packed [] = []" "packed (n # ns) = varint (unat n) @ packed ns"
  by (simp_all add: packed_def)

lemma packed_Nil [simp]: "packed ns = [] \<longleftrightarrow> ns = []"
  by (cases ns) auto

lemma length_packed: "length (packed ns) = (\<Sum>n\<leftarrow>ns. sov n)"
  by (induction ns) (simp_all add: sov_length)

lemma varint_le_10: "length (varint (unat (n :: uint64))) \<le> 10"
  using unsigned_less[of n] by (intro length_varint_le) simp

lemma packOne_eq:
  "length junk = length (varint (unat v)) \<Longrightarrow>
   packOne (pre @ junk @ suf) (int (length pre)) v =
     Ok (pre @ varint (unat v) @ suf, int (length pre + length (varint (unat v))))"
proof (induction "unat v" arbitrary: v pre junk rule: less_induct)
  case less
  show ?case
  proof (cases "128 \<le> v")
    case False
    with less.prems obtain j where "junk = [j]" by (auto simp: varint_word[of v] length_Suc_conv)
    with False show ?thesis by (subst packOne.simps) (simp add: varint_word[of v] store_mid)
  next
    case True
    let ?c = "ucast ((v AND 0x7f) OR 0x80) :: byte"
    from True less.prems obtain j junk' where junk: "junk = j # junk'"
      and len: "length junk' = length (varint (unat (drop_bit 7 v)))"
      by (cases junk) (auto simp: varint_word[of v])
    have "unat (drop_bit 7 v) < unat v"
      using True unfolding unat_drop_bit_eq by (simp add: drop_bit_eq_div word_le_nat_alt)
    from less.hyps[OF this len, of "pre @ [?c]"]
    have "packOne (pre @ ?c # junk' @ suf) (int (length pre) + 1) (drop_bit 7 v) =
        Ok (pre @ varint (unat v) @ suf, int (length pre + length (varint (unat v))))"
      using True by (simp add: varint_word[of v] ac_simps)
    with True junk show ?thesis by (subst packOne.simps) (simp add: store_mid)
  qed
qed

lemma packLoop_eq:
  assumes "length ns * 10 \<le> length junk"
  shows "\<exists>suf. foldM_go (\<lambda>(buf, j) n. packOne buf j n) (pre @ junk, int (length pre)) ns =
    Ok (pre @ packed ns @ suf, int (length pre + length (packed ns)))"
  using assms
proof (induction ns arbitrary: pre junk)
  case Nil
  then show ?case by auto
next
  case (Cons n ns)
  let ?e = "varint (unat n)"
  define j1 j2 where "j1 = take (length ?e) junk" and "j2 = drop (length ?e) junk"
  have len: "length j1 = length ?e" "length ns * 10 \<le> length j2" and j: "junk = j1 @ j2"
    using Cons.prems varint_le_10[of n] by (auto simp: j1_def j2_def)
  have "packOne (pre @ junk) (int (length pre)) n = Ok ((pre @ ?e) @ j2, int (length (pre @ ?e)))"
    using packOne_eq[OF len(1), of pre j2] by (simp add: j)
  then show ?case using Cons.IH[OF len(2), of "pre @ ?e"] by (simp add: ac_simps)
qed

lemma writes_putPacked: "writes (putPacked ns) (lenPrefixed (packed ns))"
proof -
  obtain suf where "packAll ns = Ok (packed ns @ suf, int (length (packed ns)))"
    using packLoop_eq[of ns "replicate (length ns * 10) 0" "[]"] by (auto simp: packAll_def)
  then have "putPacked ns = putBytes (packed ns)" by (auto simp: prefixTo_def)
  then show ?thesis by (simp add: writes_putBytes)
qed

lemma writes_fPacked: "writes (whenw (0 < length ns) [putPacked ns, putByte tag]) (fPacked tag ns)"
proof -
  have "writes (runw [putPacked ns, putByte tag]) (([] @ [tag]) @ lenPrefixed (packed ns))"
    by (intro writes_runw_Cons writes_runw_Nil writes_intros writes_putPacked)
  from writes_whenw[of "0 < length ns", OF this] show ?thesis
    by (cases "ns = []") (auto simp: fPacked_def fBytes_def)
qed

lemma length_fPacked:
  "length (fPacked tag ns) = (if 0 < length ns then let l = \<Sum>e\<leftarrow>ns. sov e in 1 + sov (of_nat l) + l else 0)"
  by (cases "ns = []") (auto simp: fPacked_def fBytes_def length_lenPrefixed length_packed Let_def)

lemma packedLoop_packed:
  "packedLoop (pre @ packed ns @ rest) (int (length pre)) (int (length pre + length (packed ns))) acc =
     (acc @ ns, Inr (int (length pre + length (packed ns))))"
proof (induction ns arbitrary: pre acc)
  case Nil
  then show ?case by (simp add: packedLoop.simps)
next
  case (Cons n ns)
  let ?e = "varint (unat n)"
  have "readVarint (pre @ packed (n # ns) @ rest) (int (length pre)) 0 (0 :: 64 word) = (n, Inr (int (length pre + length ?e)))"
    using readVarint_word[of pre n "packed ns @ rest", where 'a = 64] by simp
  moreover have "0 < int (length (packed ns)) + int (length ?e)" by (rule add_nonneg_pos) simp_all
  ultimately show ?case using Cons.IH[of "pre @ ?e" "acc @ [n]"]
    by (subst packedLoop.simps) (simp add: ac_simps)
qed

lemma consumes_fPacked:
  assumes "tagOk tag fieldNum 2"
    and "\<And>d i. field fieldNum 2 d i m = Some (packedCase 2 fname d i get upd m)"
    and "get m = []" "ns \<noteq> [] \<Longrightarrow> upd ns m = m'" "ns = [] \<Longrightarrow> m' = m"
  shows "consumes name field (fPacked tag ns) m m'"
proof (cases "ns = []")
  case True
  then show ?thesis using assms(5) by (simp add: fPacked_def fBytes_def consumes_Nil)
next
  case False
  have "consumes name field (tag # lenPrefixed (packed ns)) m m'"
    using assms(1)
  proof (rule consumes_field)
    fix pre rest :: "byte list"
    assume len: "length (pre @ lenPrefixed (packed ns) @ rest) < 2 ^ 63"
    define v where "v = varint (unat (of_nat (length (packed ns)) :: uint64))"
    have e: "lenPrefixed (packed ns) = v @ packed ns" by (simp add: lenPrefixed_def v_def)
    have "packedLoop ((pre @ v) @ packed ns @ rest) (int (length (pre @ v)))
        (int (length (pre @ v) + length (packed ns))) [] = ([] @ ns, Inr (int (length (pre @ v) + length (packed ns))))"
      by (rule packedLoop_packed)
    with readLength_lenPrefixed[OF len]
    show "field fieldNum 2 (pre @ lenPrefixed (packed ns) @ rest) (int (length pre)) m =
        Some (m', Inr (int (length pre + length (lenPrefixed (packed ns)))))"
      using assms(3) assms(4)[OF False] by (simp add: assms(2) packedCase_def e ac_simps)
  qed
  with False show ?thesis by (simp add: fPacked_def fBytes_def)
qed

lemma packedLoop_stepOk:
  "packedLoop dAtA i p ns = (ns', r) \<Longrightarrow> k < i \<Longrightarrow> i \<le> int (length dAtA) \<Longrightarrow> stepOk dAtA k r"
proof (induction dAtA i p ns rule: packedLoop.induct)
  case (1 dAtA i p ns)
  show ?case
  proof (cases "i < p")
    case False
    with 1 show ?thesis by (auto simp: packedLoop.simps[of dAtA i] stepOk_def)
  next
    case True
    obtain v q where q: "readVarint dAtA i 0 (0 :: 64 word) = (v, q)" by fastforce
    show ?thesis
    proof (cases q)
      case (Inl e)
      with 1 True q show ?thesis
        by (auto simp: packedLoop.simps[of dAtA i] stepOk_def dest: readVarint_errors)
    next
      case (Inr j)
      have j: "i < j" "j \<le> int (length dAtA)" using readVarint_progress q Inr by fastforce+
      with "1.prems" True q Inr have "packedLoop dAtA j p (ns @ [v]) = (ns', r)"
        by (simp add: packedLoop.simps[of dAtA i])
      with "1.IH"[OF True q[symmetric] Inr j(1)] j "1.prems" show ?thesis by simp
    qed
  qed
qed

lemma packedCase_stepOk:
  assumes "packedCase wt fname dAtA i get upd m = (m', r)" "0 \<le> i" "length dAtA < 2 ^ 63"
  shows "stepOk dAtA i r"
proof -
  have loop: "stepOk dAtA i q" if "readLength dAtA i = Inr (j, p)" "packedLoop dAtA j p (get m) = (ns, q)" for j p ns q
    using packedLoop_stepOk[OF that(2)] readLength_bounds[OF that(1) assms(2,3)] by simp
  show ?thesis using assms(1) loop
    by (auto simp: packedCase_def stepOk_def split: if_splits prod.splits sum.splits
        dest: readVarint_errors readVarint_progress readLength_errors) (force simp: stepOk_def)+
qed

section \<open>Maps\<close>

text \<open>
  One entry of a map: \<^verbatim>\<open>baseI := i\<close>, the steps that write value and key, and the length and tag
  in front of them.
\<close>

fun putEntry :: "(cursor \<Rightarrow> cursor go) list \<Rightarrow> byte \<Rightarrow> cursor \<Rightarrow> cursor go" where
  "putEntry ops tag (dAtA, i) =
     go_bind (runw ops (dAtA, i)) (\<lambda>(dAtA', i'). runw [putVarint (word_of_int (i - i')), putByte tag] (dAtA', i'))"

text \<open>
  Reading an entry up to \<open>postIndex\<close>: a handler for the fields of the entry, \<open>None\<close> for an unknown
  field, which is skipped.
\<close>

type_synonym 'e entry_handler = "int32 \<Rightarrow> byte list \<Rightarrow> int \<Rightarrow> 'e \<Rightarrow> ('e \<times> (pb_error + int)) option"

definition entryStep :: "'e entry_handler \<Rightarrow> byte list \<Rightarrow> int \<Rightarrow> int \<Rightarrow> 'e \<Rightarrow> 'e \<times> (pb_error + int)" where
  "entryStep field dAtA entryPreIndex postIndex en =
     (case readVarint dAtA entryPreIndex 0 (0 :: 64 word) of
        (_, Inl e) \<Rightarrow> (en, Inl e)
      | (wire, Inr iNdEx) \<Rightarrow>
          (case field (ucast (drop_bit 3 wire)) dAtA iNdEx en of
             Some r \<Rightarrow> r
           | None \<Rightarrow>
               (case skip (drop (nat entryPreIndex) dAtA) of
                  Inl e \<Rightarrow> (en, Inl e)
                | Inr skippy \<Rightarrow>
                    if skippy < 0 \<or> wrap64 (entryPreIndex + skippy) < 0 then (en, Inl ErrInvalidLength)
                    else if postIndex < wrap64 (entryPreIndex + skippy) then (en, Inl ErrUnexpectedEOF)
                    else (en, Inr (wrap64 (entryPreIndex + skippy))))))"

function entryLoop :: "'e entry_handler \<Rightarrow> byte list \<Rightarrow> int \<Rightarrow> int \<Rightarrow> 'e \<Rightarrow> pb_error + 'e" where
  "entryLoop field dAtA iNdEx postIndex en =
     (if iNdEx < postIndex then
        (case entryStep field dAtA iNdEx postIndex en of
           (_, Inl e) \<Rightarrow> Inl e
         | (en', Inr iNdEx') \<Rightarrow>
             if iNdEx < iNdEx' then entryLoop field dAtA iNdEx' postIndex en' else Inl ErrNoProgress)
      else Inr en)"
  by pat_completeness auto
termination
  by (relation "measure (\<lambda>(_, _, i, p, _). nat (p - i))") auto

declare entryLoop.simps [simp del]

text \<open>\<open>alloc\<close> makes the map if it is nil, \<open>put\<close> stores the entry.\<close>

definition mapCase ::
  "int \<Rightarrow> string \<Rightarrow> byte list \<Rightarrow> int \<Rightarrow> 'e entry_handler \<Rightarrow> 'e \<Rightarrow> ('m \<Rightarrow> 'm) \<Rightarrow> ('e \<Rightarrow> 'm \<Rightarrow> 'm) \<Rightarrow> 'm
    \<Rightarrow> 'm \<times> (pb_error + int)" where
  "mapCase wireType name dAtA iNdEx field en0 alloc put m =
     (if wireType \<noteq> 2 then (m, Inl (ErrWrongWireType wireType name))
      else case readLength dAtA iNdEx of
        Inl e \<Rightarrow> (m, Inl e)
      | Inr (iNdEx', postIndex) \<Rightarrow>
          (case entryLoop field dAtA iNdEx' postIndex en0 of
             Inl e \<Rightarrow> (alloc m, Inl e)
           | Inr en \<Rightarrow> (put en (alloc m), Inr postIndex)))"

text \<open>The entry's fields: a string, a number (whose bits are added to those of earlier ones), a message.\<close>

definition strEntry :: "byte list \<Rightarrow> int \<Rightarrow> (string \<Rightarrow> 'e) \<Rightarrow> 'e \<Rightarrow> 'e \<times> (pb_error + int)" where
  "strEntry dAtA iNdEx upd en =
     (case readLength dAtA iNdEx of
        Inl e \<Rightarrow> (en, Inl e)
      | Inr (iNdEx', postIndex) \<Rightarrow> (upd (bytesStr (subslice dAtA iNdEx' postIndex)), Inr postIndex))"

definition numEntry :: "byte list \<Rightarrow> int \<Rightarrow> int64 \<Rightarrow> (int64 \<Rightarrow> 'e) \<Rightarrow> 'e \<times> (pb_error + int)" where
  "numEntry dAtA iNdEx key upd = (case readVarint dAtA iNdEx 0 key of (v, r) \<Rightarrow> (upd v, r))"

definition msgEntry ::
  "byte list \<Rightarrow> int \<Rightarrow> (byte list \<Rightarrow> 'x \<times> pb_error option) \<Rightarrow> ('x \<Rightarrow> 'e) \<Rightarrow> 'e \<Rightarrow> 'e \<times> (pb_error + int)" where
  "msgEntry dAtA iNdEx unmarshal upd en =
     (case readLength dAtA iNdEx of
        Inl e \<Rightarrow> (en, Inl e)
      | Inr (iNdEx', postIndex) \<Rightarrow>
          (case unmarshal (subslice dAtA iNdEx' postIndex) of
             (x, Some e) \<Rightarrow> (upd x, Inl e)
           | (x, None) \<Rightarrow> (upd x, Inr postIndex)))"

subsection \<open>Writing\<close>

lemma writes_putEntry:
  assumes "writes (runw ops) e"
  shows "writes (putEntry ops tag) (fMsg tag e)"
proof (rule writesI)
  fix pre junk suf :: "byte list"
  assume "length junk = length (fMsg tag e)"
  then obtain j0 j2 where junk: "junk = j0 @ j2" and j2: "length j2 = length e"
    and j0: "length j0 = length (tag # varint (unat (of_nat (length e) :: uint64)))"
    unfolding fMsg_def lenPrefixed_def append_Cons[symmetric] length_append by (rule length_split)
  have "writes (runw [putVarint (of_nat (length e)), putByte tag]) (([] @ [tag]) @ varint (unat (of_nat (length e) :: uint64)))"
    by (intro writes_runw_Cons writes_runw_Nil writes_intros)
  from writesD[OF this, of j0 pre "e @ suf"] j0
  have "runw [putVarint (of_nat (length e)), putByte tag] (pre @ j0 @ e @ suf, int (length pre + length j0)) =
      Ok (pre @ fMsg tag e @ suf, int (length pre))"
    by (simp add: fMsg_def lenPrefixed_def del: runw.simps)
  then show "putEntry ops tag (pre @ junk @ suf, int (length pre + length junk)) = Ok (pre @ fMsg tag e @ suf, int (length pre))"
    using writesD[OF assms j2, of "pre @ j0" suf] j2 by (simp add: junk ac_simps del: runw.simps)
qed

lemma writes_map:
  assumes "\<And>k. k \<in> set ks \<Longrightarrow> writes (op k) (fMsg tag (ent k))"
  shows "writes (whenw (0 < length ks) (map op ks)) (concat (map (\<lambda>k. fMsg tag (ent k)) (rev ks)))"
proof -
  have "writes (runw (map op (rev (rev ks)))) (concat (map (\<lambda>k. fMsg tag (ent k)) (rev ks)))"
    using assms by (intro writes_repeated) simp
  then show ?thesis by (cases "ks = []") (auto simp: whenw_def writes_def simp del: runw.simps)
qed

lemma length_map_entries:
  "length (concat (map (\<lambda>k. fMsg tag (ent k)) (rev ks))) = (\<Sum>k\<leftarrow>ks. let l = length (ent k) in l + 1 + sov (of_nat l))"
  by (induction ks) (simp_all add: length_fMsg Let_def)

subsection \<open>Reading\<close>

definition eats :: "'e entry_handler \<Rightarrow> byte list \<Rightarrow> 'e \<Rightarrow> 'e \<Rightarrow> bool" where
  "eats field e en en' \<longleftrightarrow>
     (\<forall>pre rest post. length (pre @ e @ rest) < 2 ^ 63 \<longrightarrow> int (length pre + length e) \<le> post \<longrightarrow>
        entryLoop field (pre @ e @ rest) (int (length pre)) post en =
        entryLoop field (pre @ e @ rest) (int (length pre + length e)) post en')"

definition entryTag :: "byte \<Rightarrow> int32 \<Rightarrow> bool" where
  "entryTag tag n \<longleftrightarrow> tag < 0x80 \<and> (ucast (drop_bit 3 (ucast tag :: uint64)) :: int32) = n"

lemma eats_Nil: "eats field [] en en"
  by (simp add: eats_def)

lemma eats_append:
  assumes "eats field e1 en en1" "eats field e2 en1 en2"
  shows "eats field (e1 @ e2) en en2"
  unfolding eats_def
proof (intro allI impI)
  fix pre rest :: "byte list" and post
  assume "length (pre @ (e1 @ e2) @ rest) < 2 ^ 63" "int (length pre + length (e1 @ e2)) \<le> post"
  then show "entryLoop field (pre @ (e1 @ e2) @ rest) (int (length pre)) post en =
      entryLoop field (pre @ (e1 @ e2) @ rest) (int (length pre + length (e1 @ e2))) post en2"
    using assms(1)[unfolded eats_def, rule_format, of pre "e2 @ rest" post]
      assms(2)[unfolded eats_def, rule_format, of "pre @ e1" rest post]
    by (simp add: ac_simps)
qed

lemma eats_field:
  assumes tag: "entryTag tag n"
    and field: "\<And>pre rest. length (pre @ e @ rest) < 2 ^ 63 \<Longrightarrow>
      field n (pre @ e @ rest) (int (length pre)) en = Some (en', Inr (int (length pre + length e)))"
  shows "eats field (tag # e) en en'"
  unfolding eats_def
proof (intro allI impI)
  fix pre rest :: "byte list" and post
  assume len: "length (pre @ (tag # e) @ rest) < 2 ^ 63" and post: "int (length pre + length (tag # e)) \<le> post"
  define d where "d = pre @ (tag # e) @ rest"
  have r: "readVarint d (int (length pre)) 0 (0 :: uint64) = (ucast tag, Inr (int (length pre) + 1))"
    using tag readVarint_single[of tag pre "e @ rest"] by (simp add: entryTag_def d_def)
  have f: "field n d (int (length pre) + 1) en = Some (en', Inr (int (length pre + length (tag # e))))"
    using field[of "pre @ [tag]" rest] len by (simp add: d_def ac_simps)
  have "entryStep field d (int (length pre)) post en = (en', Inr (int (length pre + length (tag # e))))"
    using tag f by (simp add: entryStep_def r entryTag_def)
  with post show "entryLoop field (pre @ (tag # e) @ rest) (int (length pre)) post en =
      entryLoop field (pre @ (tag # e) @ rest) (int (length pre + length (tag # e))) post en'"
    unfolding d_def [symmetric] by (subst entryLoop.simps) simp
qed

lemma eats_str:
  assumes "entryTag tag n" "\<And>d i. field n d i en = Some (strEntry d i upd en)" "upd s = en'"
  shows "eats field (fMsg tag (strBytes s)) en en'"
  unfolding fMsg_def
  using assms(1)
proof (rule eats_field)
  fix pre rest :: "byte list"
  assume "length (pre @ lenPrefixed (strBytes s) @ rest) < 2 ^ 63"
  from readLength_lenPrefixed[OF this]
  show "field n (pre @ lenPrefixed (strBytes s) @ rest) (int (length pre)) en =
      Some (en', Inr (int (length pre + length (lenPrefixed (strBytes s)))))"
    using assms(3) subslice_lenPrefixed[of pre "strBytes s" rest] by (simp add: assms(2) strEntry_def)
qed

lemma eats_num:
  assumes "entryTag tag n" "\<And>d i. field n d i en = Some (numEntry d i 0 upd)" "upd k = en'"
  shows "eats field (tag # varint (unat k)) en en'"
  using assms(1) by (rule eats_field) (simp add: assms(2,3) numEntry_def readVarint_word)

lemma eats_msg:
  assumes "entryTag tag n" "\<And>d i. field n d i en = Some (msgEntry d i unmarshal upd en)"
    and "length e < 2 ^ 63 \<Longrightarrow> unmarshal e = (x, None)" "upd x = en'"
  shows "eats field (fMsg tag e) en en'"
  unfolding fMsg_def
  using assms(1)
proof (rule eats_field)
  fix pre rest :: "byte list"
  assume len: "length (pre @ lenPrefixed e @ rest) < 2 ^ 63"
  then have "length e < 2 ^ 63" by (simp add: lenPrefixed_def)
  with readLength_lenPrefixed[OF len] assms(3,4) subslice_lenPrefixed[of pre e rest]
  show "field n (pre @ lenPrefixed e @ rest) (int (length pre)) en =
      Some (en', Inr (int (length pre + length (lenPrefixed e))))"
    by (simp add: assms(2) msgEntry_def)
qed

lemma consumes_entry:
  assumes "tagOk tag fieldNum 2"
    and "\<And>d i. field fieldNum 2 d i m = Some (mapCase 2 fname d i efield en0 alloc put m)"
    and "eats efield e en0 en" "put en (alloc m) = m'"
  shows "consumes name field (fMsg tag e) m m'"
  unfolding fMsg_def
  using assms(1)
proof (rule consumes_field)
  fix pre rest :: "byte list"
  assume len: "length (pre @ lenPrefixed e @ rest) < 2 ^ 63"
  define v where "v = varint (unat (of_nat (length e) :: uint64))"
  have e: "lenPrefixed e = v @ e" by (simp add: lenPrefixed_def v_def)
  let ?d = "(pre @ v) @ e @ rest" and ?j = "int (length (pre @ v) + length e)"
  have "entryLoop efield ?d (int (length (pre @ v))) ?j en0 = entryLoop efield ?d ?j ?j en"
    using assms(3)[unfolded eats_def, rule_format, of "pre @ v" rest ?j] len unfolding e by simp
  also have "\<dots> = Inr en" by (simp add: entryLoop.simps)
  finally show "field fieldNum 2 (pre @ lenPrefixed e @ rest) (int (length pre)) m =
      Some (m', Inr (int (length pre + length (lenPrefixed e))))"
    using assms(4) readLength_lenPrefixed[OF len] by (simp add: assms(2) mapCase_def e ac_simps)
qed

subsection \<open>Totality\<close>

definition entryOk :: "'e entry_handler \<Rightarrow> bool" where
  "entryOk field \<longleftrightarrow> (\<forall>n dAtA i en en' r. 0 \<le> i \<longrightarrow> length dAtA < 2 ^ 63 \<longrightarrow>
     field n dAtA i en = Some (en', r) \<longrightarrow> stepOk dAtA i r)"

lemma entryOkI:
  "(\<And>n dAtA i en en' r. 0 \<le> i \<Longrightarrow> length dAtA < 2 ^ 63 \<Longrightarrow> field n dAtA i en = Some (en', r) \<Longrightarrow> stepOk dAtA i r) \<Longrightarrow>
   entryOk field"
  by (auto simp: entryOk_def)

lemma strEntry_stepOk: "strEntry dAtA i upd en = (en', r) \<Longrightarrow> 0 \<le> i \<Longrightarrow> length dAtA < 2 ^ 63 \<Longrightarrow> stepOk dAtA i r"
  by (auto simp: strEntry_def stepOk_def split: prod.splits sum.splits dest: readLength_errors readLength_bounds)

lemma numEntry_stepOk: "numEntry dAtA i key upd = (en', r) \<Longrightarrow> stepOk dAtA i r"
  by (auto simp: numEntry_def split: prod.splits dest: readVarint_stepOk)

lemma msgEntry_stepOk:
  assumes "msgEntry dAtA i unmarshal upd en = (en', r)" "0 \<le> i" "length dAtA < 2 ^ 63"
    and "\<And>bs. length bs < 2 ^ 63 \<Longrightarrow> snd (unmarshal bs) \<noteq> Some ErrNoProgress"
  shows "stepOk dAtA i r"
proof (cases "readLength dAtA i")
  case (Inl e)
  with assms(1) show ?thesis by (auto simp: msgEntry_def stepOk_def dest: readLength_errors)
next
  case (Inr jp)
  then obtain j p where jp: "readLength dAtA i = Inr (j, p)" by (cases jp) auto
  have "length (subslice dAtA j p) < 2 ^ 63" using assms(3) by (auto simp: subslice_def)
  from assms(4)[OF this] readLength_bounds[OF jp assms(2,3)] assms(1) jp show ?thesis
    by (auto simp: msgEntry_def stepOk_def split: prod.splits option.splits)
qed

lemma entryStep_stepOk:
  assumes "entryOk field" "0 \<le> i" "length dAtA < 2 ^ 63" "post \<le> int (length dAtA)"
    and step: "entryStep field dAtA i post en = (en', r)"
  shows "stepOk dAtA i r"
proof (cases "readVarint dAtA i 0 (0 :: 64 word)")
  case (Pair wire q)
  show ?thesis
  proof (cases q)
    case (Inl e)
    with Pair step show ?thesis by (auto simp: entryStep_def stepOk_def dest: readVarint_errors)
  next
    case (Inr j)
    have j: "i < j" "j \<le> int (length dAtA)" using readVarint_progress Pair Inr by fastforce+
    let ?n = "ucast (drop_bit 3 wire) :: int32"
    show ?thesis
    proof (cases "field ?n dAtA j en")
      case (Some x)
      with step Pair Inr have "field ?n dAtA j en = Some (en', r)" by (simp add: entryStep_def)
      then have "stepOk dAtA j r" using assms(1-3) j unfolding entryOk_def by (metis less_le order_trans)
      then show ?thesis using j by (auto intro: stepOk_mono)
    next
      case None
      have "length (drop (nat i) dAtA) < 2 ^ 63" using assms(3) by simp
      note total = skip_total[OF this]
      show ?thesis
      proof (cases "skip (drop (nat i) dAtA)")
        case (Inl e)
        with total step Pair Inr None \<open>q = Inr j\<close> have "r = Inl e" "e \<noteq> ErrNoProgress" by (auto simp: entryStep_def)
        then show ?thesis by (simp add: stepOk_def)
      next
        case (Inr n)
        have "wrap64 (i + n) < 0 \<or> wrap64 (i + n) = i + n"
          using total Inr assms(2,3) j by (intro wrap64_cases) auto
        with total step Pair Inr None \<open>q = Inr j\<close> assms(4) show ?thesis
          by (auto simp: entryStep_def stepOk_def split: if_splits)
      qed
    qed
  qed
qed

lemma entryLoop_total:
  assumes "entryOk field" "0 \<le> i" "length dAtA < 2 ^ 63" "post \<le> int (length dAtA)"
  shows "entryLoop field dAtA i post en \<noteq> Inl ErrNoProgress"
  using assms
proof (induction field dAtA i post en rule: entryLoop.induct)
  case (1 field d i post en)
  obtain en' r where step: "entryStep field d i post en = (en', r)" by fastforce
  have ok: "stepOk d i r" using "1.prems" step by (rule entryStep_stepOk)
  show ?case
  proof (cases r)
    case (Inl e)
    with ok step show ?thesis by (subst entryLoop.simps) (simp add: stepOk_def)
  next
    case (Inr j)
    have "entryLoop field d j post en' \<noteq> Inl ErrNoProgress" if "i < post"
      using "1.IH"[OF that step [symmetric] Inr] ok Inr "1.prems" by (simp add: stepOk_def)
    with ok step Inr show ?thesis by (subst entryLoop.simps) (simp add: stepOk_def)
  qed
qed

lemma mapCase_stepOk:
  assumes "mapCase wt fname dAtA i field en0 alloc put m = (m', r)" "0 \<le> i" "length dAtA < 2 ^ 63" "entryOk field"
  shows "stepOk dAtA i r"
proof (cases "readLength dAtA i")
  case (Inl e)
  with assms(1) show ?thesis by (auto simp: mapCase_def stepOk_def split: if_splits dest: readLength_errors)
next
  case (Inr jp)
  then obtain j p where jp: "readLength dAtA i = Inr (j, p)" by (cases jp) auto
  from readLength_bounds[OF this assms(2,3)] have b: "i < j" "j \<le> p" "p \<le> int (length dAtA)" by auto
  then have "entryLoop field dAtA j p en0 \<noteq> Inl ErrNoProgress" using assms(2-4) by (intro entryLoop_total) auto
  with assms(1) jp b show ?thesis
    by (auto simp: mapCase_def stepOk_def split: if_splits sum.splits)
qed

end
