(* ===== verification/Service_Messages.thy ===== *)
theory Service_Messages
  imports KV_Server Wire_Containers
begin

text \<open>
  The codecs of the messages of the services: \<^verbatim>\<open>SessionHeader\<close> and \<^verbatim>\<open>ServerSession\<close> of
  src/session/sessionpb/session.pb.go, the messages of src/shardctl/shardctlpb/shardctl.pb.go, and
  \<^verbatim>\<open>Reply\<close>, \<^verbatim>\<open>Shard\<close>, \<^verbatim>\<open>PullShardsResponse\<close> and \<^verbatim>\<open>Args\<close> of src/yqkvpb/yqkvpb.pb.go (whose fifth
  message, a second \<^verbatim>\<open>ServerSession\<close>, is used nowhere). The records are those of the
  theories that use them; the functions have the form of those in Raft_Messages. \<open>v\<close> and \<open>w\<close> are
  the orders in which the maps of shards and of sessions are visited.
\<close>

section \<open>Messages of other modules\<close>

text \<open>The methods of \<^verbatim>\<open>types.Any\<close>, and its zero value.\<close>

record 'any any_codec =
  any_Size :: "'any option \<Rightarrow> nat"
  any_MarshalToSizedBuffer :: "'any option \<Rightarrow> byte list \<Rightarrow> (byte list \<times> int) go"
  any_Unmarshal :: "'any \<Rightarrow> byte list \<Rightarrow> 'any \<times> pb_error option"
  any_zero :: 'any

section \<open>Messages\<close>

subsection \<open>SessionHeader\<close>

definition SessionHeader_zero :: "SessionHeader" where
  "SessionHeader_zero = \<lparr>Header_ID = 0, Header_Seq = 0\<rparr>"

definition SessionHeader_Size :: "SessionHeader option \<Rightarrow> nat" where
  "SessionHeader_Size p =
     (case p of None \<Rightarrow> 0 | Some m \<Rightarrow>
        (if Header_ID m \<noteq> 0 then 1 + sov (Header_ID m) else 0)
        + (if Header_Seq m \<noteq> 0 then 1 + sov (Header_Seq m) else 0))"

definition SessionHeader_MarshalToSizedBuffer :: "SessionHeader option \<Rightarrow> byte list \<Rightarrow> (byte list \<times> int) go" where
  "SessionHeader_MarshalToSizedBuffer p dAtA =
     go_bind (deref p) (\<lambda>m. sizedBuffer
         [whenw (Header_Seq m \<noteq> 0) [putVarint (Header_Seq m), putByte 0x10],
          whenw (Header_ID m \<noteq> 0) [putVarint (Header_ID m), putByte 0x8]] dAtA)"

definition SessionHeader_Marshal :: "SessionHeader option \<Rightarrow> byte list go" where
  "SessionHeader_Marshal p = marshalVia (SessionHeader_Size p) (SessionHeader_MarshalToSizedBuffer p)"

definition SessionHeader_MarshalTo :: "SessionHeader option \<Rightarrow> byte list \<Rightarrow> (byte list \<times> int) go" where
  "SessionHeader_MarshalTo p dAtA = marshalToVia (SessionHeader_Size p) (SessionHeader_MarshalToSizedBuffer p) dAtA"

definition SessionHeader_field :: "SessionHeader handler" where
  "SessionHeader_field fieldNum wireType dAtA iNdEx m =
     (if fieldNum = 1 then Some (varintCase wireType ''ID'' dAtA iNdEx (\<lambda>v m. m\<lparr>Header_ID := v\<rparr>) m)
      else if fieldNum = 2 then Some (varintCase wireType ''Seq'' dAtA iNdEx (\<lambda>v m. m\<lparr>Header_Seq := v\<rparr>) m)
      else None)"

definition SessionHeader_Unmarshal :: "SessionHeader \<Rightarrow> byte list \<Rightarrow> SessionHeader \<times> pb_error option" where
  "SessionHeader_Unmarshal m dAtA = unmarshalVia ''SessionHeader'' SessionHeader_field m dAtA"

subsection \<open>PbServerSession\<close>

definition PbServerSession_zero :: "'any PbServerSession" where
  "PbServerSession_zero = \<lparr>Session_ID = 0, Session_ProcessedSeq = 0, LastResponse = None\<rparr>"

definition PbServerSession_Size :: "'any any_codec \<Rightarrow> 'any PbServerSession option \<Rightarrow> nat" where
  "PbServerSession_Size A p =
     (case p of None \<Rightarrow> 0 | Some m \<Rightarrow>
        (if Session_ID m \<noteq> 0 then 1 + sov (Session_ID m) else 0)
        + (if Session_ProcessedSeq m \<noteq> 0 then 1 + sov (Session_ProcessedSeq m) else 0)
        + (if LastResponse m \<noteq> None then let l = any_Size A (LastResponse m) in 1 + l + sov (of_nat l) else 0))"

definition PbServerSession_MarshalToSizedBuffer :: "'any any_codec \<Rightarrow> 'any PbServerSession option \<Rightarrow> byte list \<Rightarrow> (byte list \<times> int) go" where
  "PbServerSession_MarshalToSizedBuffer A p dAtA =
     go_bind (deref p) (\<lambda>m. sizedBuffer
         [whenw (LastResponse m \<noteq> None) [putMsg (any_MarshalToSizedBuffer A (LastResponse m)), putByte 0x1a],
          whenw (Session_ProcessedSeq m \<noteq> 0) [putVarint (Session_ProcessedSeq m), putByte 0x10],
          whenw (Session_ID m \<noteq> 0) [putVarint (Session_ID m), putByte 0x8]] dAtA)"

definition PbServerSession_Marshal :: "'any any_codec \<Rightarrow> 'any PbServerSession option \<Rightarrow> byte list go" where
  "PbServerSession_Marshal A p = marshalVia (PbServerSession_Size A p) (PbServerSession_MarshalToSizedBuffer A p)"

definition PbServerSession_MarshalTo :: "'any any_codec \<Rightarrow> 'any PbServerSession option \<Rightarrow> byte list \<Rightarrow> (byte list \<times> int) go" where
  "PbServerSession_MarshalTo A p dAtA = marshalToVia (PbServerSession_Size A p) (PbServerSession_MarshalToSizedBuffer A p) dAtA"

definition PbServerSession_field :: "'any any_codec \<Rightarrow> ('any PbServerSession) handler" where
  "PbServerSession_field A fieldNum wireType dAtA iNdEx m =
     (if fieldNum = 1 then Some (varintCase wireType ''ID'' dAtA iNdEx (\<lambda>v m. m\<lparr>Session_ID := v\<rparr>) m)
      else if fieldNum = 2 then Some (varintCase wireType ''ProcessedSeq'' dAtA iNdEx (\<lambda>v m. m\<lparr>Session_ProcessedSeq := v\<rparr>) m)
      else if fieldNum = 3 then Some (msgCase wireType ''LastResponse'' dAtA iNdEx (\<lambda>bs m.
              case any_Unmarshal A (case LastResponse m of None \<Rightarrow> any_zero A | Some x \<Rightarrow> x) bs of
                (x, err) \<Rightarrow> (m\<lparr>LastResponse := Some x\<rparr>, err)) m)
      else None)"

definition PbServerSession_Unmarshal :: "'any any_codec \<Rightarrow> 'any PbServerSession \<Rightarrow> byte list \<Rightarrow> 'any PbServerSession \<times> pb_error option" where
  "PbServerSession_Unmarshal A m dAtA = unmarshalVia ''ServerSession'' (PbServerSession_field A) m dAtA"

subsection \<open>Group\<close>

definition Group_zero :: "Group" where
  "Group_zero = \<lparr>Group_ID = 0, Group_servers = []\<rparr>"

definition Group_Size :: "Group option \<Rightarrow> nat" where
  "Group_Size p =
     (case p of None \<Rightarrow> 0 | Some m \<Rightarrow>
        (if Group_ID m \<noteq> 0 then 1 + sov (Group_ID m) else 0)
        + (\<Sum>s\<leftarrow>Group_servers m. let l = length s in 1 + l + sov (of_nat l)))"

definition Group_MarshalToSizedBuffer :: "Group option \<Rightarrow> byte list \<Rightarrow> (byte list \<times> int) go" where
  "Group_MarshalToSizedBuffer p dAtA =
     go_bind (deref p) (\<lambda>m. sizedBuffer
         [whenw (0 < length (Group_servers m))
            (map (\<lambda>s. runw [putBytes (strBytes s), putByte 0x12]) (rev (Group_servers m))),
          whenw (Group_ID m \<noteq> 0) [putVarint (Group_ID m), putByte 0x8]] dAtA)"

definition Group_Marshal :: "Group option \<Rightarrow> byte list go" where
  "Group_Marshal p = marshalVia (Group_Size p) (Group_MarshalToSizedBuffer p)"

definition Group_MarshalTo :: "Group option \<Rightarrow> byte list \<Rightarrow> (byte list \<times> int) go" where
  "Group_MarshalTo p dAtA = marshalToVia (Group_Size p) (Group_MarshalToSizedBuffer p) dAtA"

definition Group_field :: "Group handler" where
  "Group_field fieldNum wireType dAtA iNdEx m =
     (if fieldNum = 1 then Some (varintCase wireType ''ID'' dAtA iNdEx (\<lambda>v m. m\<lparr>Group_ID := v\<rparr>) m)
      else if fieldNum = 2 then Some (strCase wireType ''Servers'' dAtA iNdEx (\<lambda>s m. m\<lparr>Group_servers := Group_servers m @ [s]\<rparr>) m)
      else None)"

definition Group_Unmarshal :: "Group \<Rightarrow> byte list \<Rightarrow> Group \<times> pb_error option" where
  "Group_Unmarshal m dAtA = unmarshalVia ''Group'' Group_field m dAtA"

subsection \<open>PbConfig\<close>

definition PbConfig_zero :: "PbConfig" where
  "PbConfig_zero = \<lparr>PbConfig_Num = 0, PbConfig_Shards = [], PbConfig_Groups = []\<rparr>"

definition PbConfig_Size :: "PbConfig option \<Rightarrow> nat" where
  "PbConfig_Size p =
     (case p of None \<Rightarrow> 0 | Some m \<Rightarrow>
        (if PbConfig_Num m \<noteq> 0 then 1 + sov (PbConfig_Num m) else 0)
        + (if 0 < length (PbConfig_Shards m) then let l = \<Sum>e\<leftarrow>PbConfig_Shards m. sov e in 1 + sov (of_nat l) + l else 0)
        + (\<Sum>e\<leftarrow>PbConfig_Groups m. let l = Group_Size e in 1 + l + sov (of_nat l)))"

definition PbConfig_MarshalToSizedBuffer :: "PbConfig option \<Rightarrow> byte list \<Rightarrow> (byte list \<times> int) go" where
  "PbConfig_MarshalToSizedBuffer p dAtA =
     go_bind (deref p) (\<lambda>m. sizedBuffer
         [whenw (0 < length (PbConfig_Groups m))
            (map (\<lambda>e. runw [putMsg (Group_MarshalToSizedBuffer e), putByte 0x1a]) (rev (PbConfig_Groups m))),
          whenw (0 < length (PbConfig_Shards m)) [putPacked (PbConfig_Shards m), putByte 0x12],
          whenw (PbConfig_Num m \<noteq> 0) [putVarint (PbConfig_Num m), putByte 0x8]] dAtA)"

definition PbConfig_Marshal :: "PbConfig option \<Rightarrow> byte list go" where
  "PbConfig_Marshal p = marshalVia (PbConfig_Size p) (PbConfig_MarshalToSizedBuffer p)"

definition PbConfig_MarshalTo :: "PbConfig option \<Rightarrow> byte list \<Rightarrow> (byte list \<times> int) go" where
  "PbConfig_MarshalTo p dAtA = marshalToVia (PbConfig_Size p) (PbConfig_MarshalToSizedBuffer p) dAtA"

definition PbConfig_field :: "PbConfig handler" where
  "PbConfig_field fieldNum wireType dAtA iNdEx m =
     (if fieldNum = 1 then Some (varintCase wireType ''Num'' dAtA iNdEx (\<lambda>v m. m\<lparr>PbConfig_Num := v\<rparr>) m)
      else if fieldNum = 2 then Some (packedCase wireType ''Shards'' dAtA iNdEx PbConfig_Shards (\<lambda>ns m. m\<lparr>PbConfig_Shards := ns\<rparr>) m)
      else if fieldNum = 3 then Some (msgCase wireType ''Groups'' dAtA iNdEx (\<lambda>bs m.
              case Group_Unmarshal Group_zero bs of
                (x, err) \<Rightarrow> (m\<lparr>PbConfig_Groups := PbConfig_Groups m @ [Some x]\<rparr>, err)) m)
      else None)"

definition PbConfig_Unmarshal :: "PbConfig \<Rightarrow> byte list \<Rightarrow> PbConfig \<times> pb_error option" where
  "PbConfig_Unmarshal m dAtA = unmarshalVia ''Config'' PbConfig_field m dAtA"

subsection \<open>CtlArgs\<close>

definition CtlArgs_Size :: "CtlArgs option \<Rightarrow> nat" where
  "CtlArgs_Size p =
     (case p of None \<Rightarrow> 0 | Some m \<Rightarrow>
        (if CtlArgs_Type m \<noteq> 0 then 1 + sov (scast (CtlArgs_Type m)) else 0)
        + (\<Sum>e\<leftarrow>NewGroups m. let l = Group_Size e in 1 + l + sov (of_nat l))
        + (if 0 < length (LeaveGIDs m) then let l = \<Sum>e\<leftarrow>LeaveGIDs m. sov e in 1 + sov (of_nat l) + l else 0)
        + (if MoveGID m \<noteq> 0 then 1 + sov (MoveGID m) else 0)
        + (if QueryNum m \<noteq> 0 then 1 + sov (QueryNum m) else 0)
        + (if CtlArgs_SessionHeader m \<noteq> None then let l = SessionHeader_Size (CtlArgs_SessionHeader m) in 1 + l + sov (of_nat l) else 0)
        + (if MoveShard m \<noteq> 0 then 1 + sov (MoveShard m) else 0))"

definition CtlArgs_MarshalToSizedBuffer :: "CtlArgs option \<Rightarrow> byte list \<Rightarrow> (byte list \<times> int) go" where
  "CtlArgs_MarshalToSizedBuffer p dAtA =
     go_bind (deref p) (\<lambda>m. sizedBuffer
         [whenw (MoveShard m \<noteq> 0) [putVarint (MoveShard m), putByte 0x38],
          whenw (CtlArgs_SessionHeader m \<noteq> None) [putMsg (SessionHeader_MarshalToSizedBuffer (CtlArgs_SessionHeader m)), putByte 0x32],
          whenw (QueryNum m \<noteq> 0) [putVarint (QueryNum m), putByte 0x28],
          whenw (MoveGID m \<noteq> 0) [putVarint (MoveGID m), putByte 0x20],
          whenw (0 < length (LeaveGIDs m)) [putPacked (LeaveGIDs m), putByte 0x1a],
          whenw (0 < length (NewGroups m))
            (map (\<lambda>e. runw [putMsg (Group_MarshalToSizedBuffer e), putByte 0x12]) (rev (NewGroups m))),
          whenw (CtlArgs_Type m \<noteq> 0) [putVarint (scast (CtlArgs_Type m)), putByte 0x8]] dAtA)"

definition CtlArgs_Marshal :: "CtlArgs option \<Rightarrow> byte list go" where
  "CtlArgs_Marshal p = marshalVia (CtlArgs_Size p) (CtlArgs_MarshalToSizedBuffer p)"

definition CtlArgs_MarshalTo :: "CtlArgs option \<Rightarrow> byte list \<Rightarrow> (byte list \<times> int) go" where
  "CtlArgs_MarshalTo p dAtA = marshalToVia (CtlArgs_Size p) (CtlArgs_MarshalToSizedBuffer p) dAtA"

definition CtlArgs_field :: "CtlArgs handler" where
  "CtlArgs_field fieldNum wireType dAtA iNdEx m =
     (if fieldNum = 1 then Some (varintCase wireType ''Type'' dAtA iNdEx (\<lambda>v m. m\<lparr>CtlArgs_Type := v\<rparr>) m)
      else if fieldNum = 2 then Some (msgCase wireType ''NewGroups'' dAtA iNdEx (\<lambda>bs m.
              case Group_Unmarshal Group_zero bs of
                (x, err) \<Rightarrow> (m\<lparr>NewGroups := NewGroups m @ [Some x]\<rparr>, err)) m)
      else if fieldNum = 3 then Some (packedCase wireType ''LeaveGIDs'' dAtA iNdEx LeaveGIDs (\<lambda>ns m. m\<lparr>LeaveGIDs := ns\<rparr>) m)
      else if fieldNum = 4 then Some (varintCase wireType ''MoveGID'' dAtA iNdEx (\<lambda>v m. m\<lparr>MoveGID := v\<rparr>) m)
      else if fieldNum = 5 then Some (varintCase wireType ''QueryNum'' dAtA iNdEx (\<lambda>v m. m\<lparr>QueryNum := v\<rparr>) m)
      else if fieldNum = 6 then Some (msgCase wireType ''SessionHeader'' dAtA iNdEx (\<lambda>bs m.
              case SessionHeader_Unmarshal (case CtlArgs_SessionHeader m of None \<Rightarrow> SessionHeader_zero | Some x \<Rightarrow> x) bs of
                (x, err) \<Rightarrow> (m\<lparr>CtlArgs_SessionHeader := Some x\<rparr>, err)) m)
      else if fieldNum = 7 then Some (varintCase wireType ''MoveShard'' dAtA iNdEx (\<lambda>v m. m\<lparr>MoveShard := v\<rparr>) m)
      else None)"

definition CtlArgs_Unmarshal :: "CtlArgs \<Rightarrow> byte list \<Rightarrow> CtlArgs \<times> pb_error option" where
  "CtlArgs_Unmarshal m dAtA = unmarshalVia ''Args'' CtlArgs_field m dAtA"

subsection \<open>CtlReply\<close>

definition CtlReply_Size :: "CtlReply option \<Rightarrow> nat" where
  "CtlReply_Size p =
     (case p of None \<Rightarrow> 0 | Some m \<Rightarrow>
        (if WrongLeader m then 2 else 0)
        + (if CtlReply_Status m \<noteq> 0 then 1 + sov (scast (CtlReply_Status m)) else 0)
        + (let l = length (CtlReply_Message m) in if 0 < l then 1 + l + sov (of_nat l) else 0)
        + (if CtlReply_Config m \<noteq> None then let l = PbConfig_Size (CtlReply_Config m) in 1 + l + sov (of_nat l) else 0))"

definition CtlReply_MarshalToSizedBuffer :: "CtlReply option \<Rightarrow> byte list \<Rightarrow> (byte list \<times> int) go" where
  "CtlReply_MarshalToSizedBuffer p dAtA =
     go_bind (deref p) (\<lambda>m. sizedBuffer
         [whenw (CtlReply_Config m \<noteq> None) [putMsg (PbConfig_MarshalToSizedBuffer (CtlReply_Config m)), putByte 0x22],
          whenw (0 < length (CtlReply_Message m)) [putBytes (strBytes (CtlReply_Message m)), putByte 0x1a],
          whenw (CtlReply_Status m \<noteq> 0) [putVarint (scast (CtlReply_Status m)), putByte 0x10],
          whenw (WrongLeader m) [putByte (if WrongLeader m then 1 else 0), putByte 0x8]] dAtA)"

definition CtlReply_Marshal :: "CtlReply option \<Rightarrow> byte list go" where
  "CtlReply_Marshal p = marshalVia (CtlReply_Size p) (CtlReply_MarshalToSizedBuffer p)"

definition CtlReply_MarshalTo :: "CtlReply option \<Rightarrow> byte list \<Rightarrow> (byte list \<times> int) go" where
  "CtlReply_MarshalTo p dAtA = marshalToVia (CtlReply_Size p) (CtlReply_MarshalToSizedBuffer p) dAtA"

definition CtlReply_field :: "CtlReply handler" where
  "CtlReply_field fieldNum wireType dAtA iNdEx m =
     (if fieldNum = 1 then Some (boolCase wireType ''WrongLeader'' dAtA iNdEx (\<lambda>v m. m\<lparr>WrongLeader := v\<rparr>) m)
      else if fieldNum = 2 then Some (varintCase wireType ''Status'' dAtA iNdEx (\<lambda>v m. m\<lparr>CtlReply_Status := v\<rparr>) m)
      else if fieldNum = 3 then Some (strCase wireType ''Message'' dAtA iNdEx (\<lambda>s m. m\<lparr>CtlReply_Message := s\<rparr>) m)
      else if fieldNum = 4 then Some (msgCase wireType ''Config'' dAtA iNdEx (\<lambda>bs m.
              case PbConfig_Unmarshal (case CtlReply_Config m of None \<Rightarrow> PbConfig_zero | Some x \<Rightarrow> x) bs of
                (x, err) \<Rightarrow> (m\<lparr>CtlReply_Config := Some x\<rparr>, err)) m)
      else None)"

definition CtlReply_Unmarshal :: "CtlReply \<Rightarrow> byte list \<Rightarrow> CtlReply \<times> pb_error option" where
  "CtlReply_Unmarshal m dAtA = unmarshalVia ''Reply'' CtlReply_field m dAtA"

subsection \<open>KvReply\<close>

definition KvReply_Size :: "KvReply option \<Rightarrow> nat" where
  "KvReply_Size p =
     (case p of None \<Rightarrow> 0 | Some m \<Rightarrow>
        (if KvReply_Status m \<noteq> 0 then 1 + sov (scast (KvReply_Status m)) else 0)
        + (let l = length (KvReply_Value m) in if 0 < l then 1 + l + sov (of_nat l) else 0)
        + (let l = length (KvReply_Message m) in if 0 < l then 1 + l + sov (of_nat l) else 0)
        + (let l = blen (KvReply_Data m) in if 0 < l then 1 + l + sov (of_nat l) else 0))"

definition KvReply_MarshalToSizedBuffer :: "KvReply option \<Rightarrow> byte list \<Rightarrow> (byte list \<times> int) go" where
  "KvReply_MarshalToSizedBuffer p dAtA =
     go_bind (deref p) (\<lambda>m. sizedBuffer
         [whenw (0 < blen (KvReply_Data m)) [putBytes (bcontent (KvReply_Data m)), putByte 0x22],
          whenw (0 < length (KvReply_Message m)) [putBytes (strBytes (KvReply_Message m)), putByte 0x1a],
          whenw (0 < length (KvReply_Value m)) [putBytes (strBytes (KvReply_Value m)), putByte 0x12],
          whenw (KvReply_Status m \<noteq> 0) [putVarint (scast (KvReply_Status m)), putByte 0x8]] dAtA)"

definition KvReply_Marshal :: "KvReply option \<Rightarrow> byte list go" where
  "KvReply_Marshal p = marshalVia (KvReply_Size p) (KvReply_MarshalToSizedBuffer p)"

definition KvReply_MarshalTo :: "KvReply option \<Rightarrow> byte list \<Rightarrow> (byte list \<times> int) go" where
  "KvReply_MarshalTo p dAtA = marshalToVia (KvReply_Size p) (KvReply_MarshalToSizedBuffer p) dAtA"

definition KvReply_field :: "KvReply handler" where
  "KvReply_field fieldNum wireType dAtA iNdEx m =
     (if fieldNum = 1 then Some (varintCase wireType ''Status'' dAtA iNdEx (\<lambda>v m. m\<lparr>KvReply_Status := v\<rparr>) m)
      else if fieldNum = 2 then Some (strCase wireType ''Value'' dAtA iNdEx (\<lambda>s m. m\<lparr>KvReply_Value := s\<rparr>) m)
      else if fieldNum = 3 then Some (strCase wireType ''Message'' dAtA iNdEx (\<lambda>s m. m\<lparr>KvReply_Message := s\<rparr>) m)
      else if fieldNum = 4 then Some (bytesCase wireType ''Data'' dAtA iNdEx (\<lambda>bs m. m\<lparr>KvReply_Data := Some bs\<rparr>) m)
      else None)"

definition KvReply_Unmarshal :: "KvReply \<Rightarrow> byte list \<Rightarrow> KvReply \<times> pb_error option" where
  "KvReply_Unmarshal m dAtA = unmarshalVia ''Reply'' KvReply_field m dAtA"

subsection \<open>PbShard\<close>

definition PbShard_zero :: "PbShard" where
  "PbShard_zero = \<lparr>Shard_ID = 0, Shard_KV = None, Shard_Status = 0\<rparr>"

text \<open>The fields of an entry of \<^verbatim>\<open>KV\<close>: key and value.\<close>

definition kvEntry :: "(string \<times> string) entry_handler" where
  "kvEntry fieldNum dAtA iNdEx en =
     (if fieldNum = 1 then Some (strEntry dAtA iNdEx (\<lambda>k. (k, snd en)) en)
      else if fieldNum = 2 then Some (strEntry dAtA iNdEx (\<lambda>x. (fst en, x)) en)
      else None)"

definition PbShard_Size :: "((string \<rightharpoonup> string) \<Rightarrow> string list) \<Rightarrow> PbShard option \<Rightarrow> nat" where
  "PbShard_Size v p =
     (case p of None \<Rightarrow> 0 | Some m \<Rightarrow>
        (if Shard_ID m \<noteq> 0 then 1 + sov (Shard_ID m) else 0)
        + (\<Sum>k\<leftarrow>v (readKV (Shard_KV m)). let x = the (readKV (Shard_KV m) k);
             mapEntrySize = 1 + length k + sov (of_nat (length k)) + 1 + length x + sov (of_nat (length x))
           in mapEntrySize + 1 + sov (of_nat mapEntrySize))
        + (if Shard_Status m \<noteq> 0 then 1 + sov (scast (Shard_Status m)) else 0))"

definition PbShard_MarshalToSizedBuffer :: "((string \<rightharpoonup> string) \<Rightarrow> string list) \<Rightarrow> PbShard option \<Rightarrow> byte list \<Rightarrow> (byte list \<times> int) go" where
  "PbShard_MarshalToSizedBuffer v p dAtA =
     go_bind (deref p) (\<lambda>m. sizedBuffer
         [whenw (Shard_Status m \<noteq> 0) [putVarint (scast (Shard_Status m)), putByte 0x18],
          let keys = v (readKV (Shard_KV m)) in whenw (0 < length keys)
            (map (\<lambda>k. putEntry [putBytes (strBytes (the (readKV (Shard_KV m) k))), putByte 0x12,
                putBytes (strBytes k), putByte 0xa] 0x12) keys),
          whenw (Shard_ID m \<noteq> 0) [putVarint (Shard_ID m), putByte 0x8]] dAtA)"

definition PbShard_Marshal :: "((string \<rightharpoonup> string) \<Rightarrow> string list) \<Rightarrow> PbShard option \<Rightarrow> byte list go" where
  "PbShard_Marshal v p = marshalVia (PbShard_Size v p) (PbShard_MarshalToSizedBuffer v p)"

definition PbShard_MarshalTo :: "((string \<rightharpoonup> string) \<Rightarrow> string list) \<Rightarrow> PbShard option \<Rightarrow> byte list \<Rightarrow> (byte list \<times> int) go" where
  "PbShard_MarshalTo v p dAtA = marshalToVia (PbShard_Size v p) (PbShard_MarshalToSizedBuffer v p) dAtA"

definition PbShard_field :: "PbShard handler" where
  "PbShard_field fieldNum wireType dAtA iNdEx m =
     (if fieldNum = 1 then Some (varintCase wireType ''ID'' dAtA iNdEx (\<lambda>v m. m\<lparr>Shard_ID := v\<rparr>) m)
      else if fieldNum = 2 then Some (mapCase wireType ''KV'' dAtA iNdEx kvEntry ([], [])
              (\<lambda>m. m\<lparr>Shard_KV := Some (readKV (Shard_KV m))\<rparr>)
              (\<lambda>(k, x) m. m\<lparr>Shard_KV := Some ((readKV (Shard_KV m))(k \<mapsto> x))\<rparr>) m)
      else if fieldNum = 3 then Some (varintCase wireType ''Status'' dAtA iNdEx (\<lambda>v m. m\<lparr>Shard_Status := v\<rparr>) m)
      else None)"

definition PbShard_Unmarshal :: "PbShard \<Rightarrow> byte list \<Rightarrow> PbShard \<times> pb_error option" where
  "PbShard_Unmarshal m dAtA = unmarshalVia ''Shard'' PbShard_field m dAtA"

subsection \<open>PullShardsResponse\<close>

definition PullShardsResponse_zero :: "'any PullShardsResponse" where
  "PullShardsResponse_zero = \<lparr>Pulled_Shards = [], ServerSessions = Map.empty, Pulled_ConfigNum = 0\<rparr>"

text \<open>The fields of an entry of \<^verbatim>\<open>ServerSessions\<close>: key and message.\<close>

definition sessionEntry :: "'any any_codec \<Rightarrow> (int64 \<times> 'any PbServerSession option) entry_handler" where
  "sessionEntry A fieldNum dAtA iNdEx en =
     (if fieldNum = 1 then Some (numEntry dAtA iNdEx (fst en) (\<lambda>k. (k, snd en)))
      else if fieldNum = 2 then
        Some (msgEntry dAtA iNdEx (PbServerSession_Unmarshal A PbServerSession_zero) (\<lambda>x. (fst en, Some x)) en)
      else None)"

definition PullShardsResponse_Size :: "'any any_codec \<Rightarrow> ((string \<rightharpoonup> string) \<Rightarrow> string list) \<Rightarrow> ((int64 \<rightharpoonup> 'any PbServerSession option) \<Rightarrow> int64 list) \<Rightarrow> 'any PullShardsResponse option \<Rightarrow> nat" where
  "PullShardsResponse_Size A v w p =
     (case p of None \<Rightarrow> 0 | Some m \<Rightarrow>
        (\<Sum>e\<leftarrow>Pulled_Shards m. let l = PbShard_Size v e in 1 + l + sov (of_nat l))
        + (\<Sum>k\<leftarrow>w (ServerSessions m). let x = the (ServerSessions m k);
             l = (if x \<noteq> None then let l = PbServerSession_Size A x in l + (1 + sov (of_nat l)) else 0);
             mapEntrySize = 1 + sov k + l
           in mapEntrySize + 1 + sov (of_nat mapEntrySize))
        + (if Pulled_ConfigNum m \<noteq> 0 then 1 + sov (Pulled_ConfigNum m) else 0))"

definition PullShardsResponse_MarshalToSizedBuffer :: "'any any_codec \<Rightarrow> ((string \<rightharpoonup> string) \<Rightarrow> string list) \<Rightarrow> ((int64 \<rightharpoonup> 'any PbServerSession option) \<Rightarrow> int64 list) \<Rightarrow> 'any PullShardsResponse option \<Rightarrow> byte list \<Rightarrow> (byte list \<times> int) go" where
  "PullShardsResponse_MarshalToSizedBuffer A v w p dAtA =
     go_bind (deref p) (\<lambda>m. sizedBuffer
         [whenw (Pulled_ConfigNum m \<noteq> 0) [putVarint (Pulled_ConfigNum m), putByte 0x18],
          let keys = w (ServerSessions m) in whenw (0 < length keys)
            (map (\<lambda>k. let x = the (ServerSessions m k) in
                putEntry [whenw (x \<noteq> None) [putMsg (PbServerSession_MarshalToSizedBuffer A x), putByte 0x12], putVarint k, putByte 0x8] 0x12) keys),
          whenw (0 < length (Pulled_Shards m))
            (map (\<lambda>e. runw [putMsg (PbShard_MarshalToSizedBuffer v e), putByte 0xa]) (rev (Pulled_Shards m)))] dAtA)"

definition PullShardsResponse_Marshal :: "'any any_codec \<Rightarrow> ((string \<rightharpoonup> string) \<Rightarrow> string list) \<Rightarrow> ((int64 \<rightharpoonup> 'any PbServerSession option) \<Rightarrow> int64 list) \<Rightarrow> 'any PullShardsResponse option \<Rightarrow> byte list go" where
  "PullShardsResponse_Marshal A v w p = marshalVia (PullShardsResponse_Size A v w p) (PullShardsResponse_MarshalToSizedBuffer A v w p)"

definition PullShardsResponse_MarshalTo :: "'any any_codec \<Rightarrow> ((string \<rightharpoonup> string) \<Rightarrow> string list) \<Rightarrow> ((int64 \<rightharpoonup> 'any PbServerSession option) \<Rightarrow> int64 list) \<Rightarrow> 'any PullShardsResponse option \<Rightarrow> byte list \<Rightarrow> (byte list \<times> int) go" where
  "PullShardsResponse_MarshalTo A v w p dAtA = marshalToVia (PullShardsResponse_Size A v w p) (PullShardsResponse_MarshalToSizedBuffer A v w p) dAtA"

definition PullShardsResponse_field :: "'any any_codec \<Rightarrow> ('any PullShardsResponse) handler" where
  "PullShardsResponse_field A fieldNum wireType dAtA iNdEx m =
     (if fieldNum = 1 then Some (msgCase wireType ''Shards'' dAtA iNdEx (\<lambda>bs m.
              case PbShard_Unmarshal PbShard_zero bs of
                (x, err) \<Rightarrow> (m\<lparr>Pulled_Shards := Pulled_Shards m @ [Some x]\<rparr>, err)) m)
      else if fieldNum = 2 then Some (mapCase wireType ''ServerSessions'' dAtA iNdEx (sessionEntry A) (0, None) (\<lambda>m. m)
              (\<lambda>(k, x) m. m\<lparr>ServerSessions := (ServerSessions m)(k \<mapsto> x)\<rparr>) m)
      else if fieldNum = 3 then Some (varintCase wireType ''ConfigNum'' dAtA iNdEx (\<lambda>v m. m\<lparr>Pulled_ConfigNum := v\<rparr>) m)
      else None)"

definition PullShardsResponse_Unmarshal :: "'any any_codec \<Rightarrow> 'any PullShardsResponse \<Rightarrow> byte list \<Rightarrow> 'any PullShardsResponse \<times> pb_error option" where
  "PullShardsResponse_Unmarshal A m dAtA = unmarshalVia ''PullShardsResponse'' (PullShardsResponse_field A) m dAtA"

subsection \<open>KvArgs\<close>

definition KvArgs_Size :: "'any any_codec \<Rightarrow> ((string \<rightharpoonup> string) \<Rightarrow> string list) \<Rightarrow> ((int64 \<rightharpoonup> 'any PbServerSession option) \<Rightarrow> int64 list) \<Rightarrow> 'any KvArgs option \<Rightarrow> nat" where
  "KvArgs_Size A v w p =
     (case p of None \<Rightarrow> 0 | Some m \<Rightarrow>
        (if KvArgs_Type m \<noteq> 0 then 1 + sov (scast (KvArgs_Type m)) else 0)
        + (if KvArgs_SessionHeader m \<noteq> None then let l = SessionHeader_Size (KvArgs_SessionHeader m) in 1 + l + sov (of_nat l) else 0)
        + (let l = length (KvArgs_Key m) in if 0 < l then 1 + l + sov (of_nat l) else 0)
        + (let l = length (KvArgs_Value m) in if 0 < l then 1 + l + sov (of_nat l) else 0)
        + (if NextConfig m \<noteq> None then let l = PbConfig_Size (NextConfig m) in 1 + l + sov (of_nat l) else 0)
        + (if 0 < length (ShardIDs m) then let l = \<Sum>e\<leftarrow>ShardIDs m. sov e in 1 + sov (of_nat l) + l else 0)
        + (if ConfigNum m \<noteq> 0 then 1 + sov (ConfigNum m) else 0)
        + (if PulledShards m \<noteq> None then let l = PullShardsResponse_Size A v w (PulledShards m) in 1 + l + sov (of_nat l) else 0))"

definition KvArgs_MarshalToSizedBuffer :: "'any any_codec \<Rightarrow> ((string \<rightharpoonup> string) \<Rightarrow> string list) \<Rightarrow> ((int64 \<rightharpoonup> 'any PbServerSession option) \<Rightarrow> int64 list) \<Rightarrow> 'any KvArgs option \<Rightarrow> byte list \<Rightarrow> (byte list \<times> int) go" where
  "KvArgs_MarshalToSizedBuffer A v w p dAtA =
     go_bind (deref p) (\<lambda>m. sizedBuffer
         [whenw (PulledShards m \<noteq> None) [putMsg (PullShardsResponse_MarshalToSizedBuffer A v w (PulledShards m)), putByte 0x42],
          whenw (ConfigNum m \<noteq> 0) [putVarint (ConfigNum m), putByte 0x38],
          whenw (0 < length (ShardIDs m)) [putPacked (ShardIDs m), putByte 0x32],
          whenw (NextConfig m \<noteq> None) [putMsg (PbConfig_MarshalToSizedBuffer (NextConfig m)), putByte 0x2a],
          whenw (0 < length (KvArgs_Value m)) [putBytes (strBytes (KvArgs_Value m)), putByte 0x22],
          whenw (0 < length (KvArgs_Key m)) [putBytes (strBytes (KvArgs_Key m)), putByte 0x1a],
          whenw (KvArgs_SessionHeader m \<noteq> None) [putMsg (SessionHeader_MarshalToSizedBuffer (KvArgs_SessionHeader m)), putByte 0x12],
          whenw (KvArgs_Type m \<noteq> 0) [putVarint (scast (KvArgs_Type m)), putByte 0x8]] dAtA)"

definition KvArgs_Marshal :: "'any any_codec \<Rightarrow> ((string \<rightharpoonup> string) \<Rightarrow> string list) \<Rightarrow> ((int64 \<rightharpoonup> 'any PbServerSession option) \<Rightarrow> int64 list) \<Rightarrow> 'any KvArgs option \<Rightarrow> byte list go" where
  "KvArgs_Marshal A v w p = marshalVia (KvArgs_Size A v w p) (KvArgs_MarshalToSizedBuffer A v w p)"

definition KvArgs_MarshalTo :: "'any any_codec \<Rightarrow> ((string \<rightharpoonup> string) \<Rightarrow> string list) \<Rightarrow> ((int64 \<rightharpoonup> 'any PbServerSession option) \<Rightarrow> int64 list) \<Rightarrow> 'any KvArgs option \<Rightarrow> byte list \<Rightarrow> (byte list \<times> int) go" where
  "KvArgs_MarshalTo A v w p dAtA = marshalToVia (KvArgs_Size A v w p) (KvArgs_MarshalToSizedBuffer A v w p) dAtA"

definition KvArgs_field :: "'any any_codec \<Rightarrow> ('any KvArgs) handler" where
  "KvArgs_field A fieldNum wireType dAtA iNdEx m =
     (if fieldNum = 1 then Some (varintCase wireType ''Type'' dAtA iNdEx (\<lambda>v m. m\<lparr>KvArgs_Type := v\<rparr>) m)
      else if fieldNum = 2 then Some (msgCase wireType ''SessionHeader'' dAtA iNdEx (\<lambda>bs m.
              case SessionHeader_Unmarshal (case KvArgs_SessionHeader m of None \<Rightarrow> SessionHeader_zero | Some x \<Rightarrow> x) bs of
                (x, err) \<Rightarrow> (m\<lparr>KvArgs_SessionHeader := Some x\<rparr>, err)) m)
      else if fieldNum = 3 then Some (strCase wireType ''Key'' dAtA iNdEx (\<lambda>s m. m\<lparr>KvArgs_Key := s\<rparr>) m)
      else if fieldNum = 4 then Some (strCase wireType ''Value'' dAtA iNdEx (\<lambda>s m. m\<lparr>KvArgs_Value := s\<rparr>) m)
      else if fieldNum = 5 then Some (msgCase wireType ''NextConfig'' dAtA iNdEx (\<lambda>bs m.
              case PbConfig_Unmarshal (case NextConfig m of None \<Rightarrow> PbConfig_zero | Some x \<Rightarrow> x) bs of
                (x, err) \<Rightarrow> (m\<lparr>NextConfig := Some x\<rparr>, err)) m)
      else if fieldNum = 6 then Some (packedCase wireType ''ShardIDs'' dAtA iNdEx ShardIDs (\<lambda>ns m. m\<lparr>ShardIDs := ns\<rparr>) m)
      else if fieldNum = 7 then Some (varintCase wireType ''ConfigNum'' dAtA iNdEx (\<lambda>v m. m\<lparr>ConfigNum := v\<rparr>) m)
      else if fieldNum = 8 then Some (msgCase wireType ''PulledShards'' dAtA iNdEx (\<lambda>bs m.
              case PullShardsResponse_Unmarshal A (case PulledShards m of None \<Rightarrow> PullShardsResponse_zero | Some x \<Rightarrow> x) bs of
                (x, err) \<Rightarrow> (m\<lparr>PulledShards := Some x\<rparr>, err)) m)
      else None)"

definition KvArgs_Unmarshal :: "'any any_codec \<Rightarrow> 'any KvArgs \<Rightarrow> byte list \<Rightarrow> 'any KvArgs \<times> pb_error option" where
  "KvArgs_Unmarshal A m dAtA = unmarshalVia ''Args'' (KvArgs_field A) m dAtA"

end
