(* ===== verification/Service_Codec.thy ===== *)
theory Service_Codec
  imports Service_Messages
begin

text \<open>
  The messages of the services satisfy the message contract: their forward encodings, and one
  interpretation of the locale \<open>pb_message\<close> per message type. This theory holds those that contain
  neither maps nor messages of other modules; Service_Codec_Maps the others.
\<close>

section \<open>Forward encodings\<close>

definition SessionHeader_enc :: "SessionHeader \<Rightarrow> byte list" where
  "SessionHeader_enc m =
     fVarint 0x8 (Header_ID m) @
     fVarint 0x10 (Header_Seq m)"

definition Group_enc :: "Group \<Rightarrow> byte list" where
  "Group_enc m =
     fVarint 0x8 (Group_ID m) @
     fStrings 0x12 (Group_servers m)"

definition PbConfig_enc :: "PbConfig \<Rightarrow> byte list" where
  "PbConfig_enc m =
     fVarint 0x8 (PbConfig_Num m) @
     fPacked 0x12 (PbConfig_Shards m) @
     concat (map (fOpt 0x1a Group_enc) (PbConfig_Groups m))"

definition PbConfig_ok :: "PbConfig \<Rightarrow> bool" where
  "PbConfig_ok m \<longleftrightarrow> None \<notin> set (PbConfig_Groups m)"

definition CtlArgs_enc :: "CtlArgs \<Rightarrow> byte list" where
  "CtlArgs_enc m =
     fVarint 0x8 (scast (CtlArgs_Type m)) @
     concat (map (fOpt 0x12 Group_enc) (NewGroups m)) @
     fPacked 0x1a (LeaveGIDs m) @
     fVarint 0x20 (MoveGID m) @
     fVarint 0x28 (QueryNum m) @
     fOpt 0x32 SessionHeader_enc (CtlArgs_SessionHeader m) @
     fVarint 0x38 (MoveShard m)"

definition CtlArgs_ok :: "CtlArgs \<Rightarrow> bool" where
  "CtlArgs_ok m \<longleftrightarrow> None \<notin> set (NewGroups m)"

definition CtlReply_enc :: "CtlReply \<Rightarrow> byte list" where
  "CtlReply_enc m =
     fBool 0x8 (WrongLeader m) @
     fVarint 0x10 (scast (CtlReply_Status m)) @
     fStr 0x1a (CtlReply_Message m) @
     fOpt 0x22 PbConfig_enc (CtlReply_Config m)"

definition CtlReply_ok :: "CtlReply \<Rightarrow> bool" where
  "CtlReply_ok m \<longleftrightarrow> (case CtlReply_Config m of None \<Rightarrow> True | Some x \<Rightarrow> PbConfig_ok x)"

definition KvReply_enc :: "KvReply \<Rightarrow> byte list" where
  "KvReply_enc m =
     fVarint 0x8 (scast (KvReply_Status m)) @
     fStr 0x12 (KvReply_Value m) @
     fStr 0x1a (KvReply_Message m) @
     fBytes 0x22 (bcontent (KvReply_Data m))"

definition KvReply_norm :: "KvReply \<Rightarrow> KvReply" where
  "KvReply_norm m = m\<lparr>KvReply_Data := normBytes (KvReply_Data m)\<rparr>"

section \<open>Laws\<close>

subsection \<open>SessionHeader\<close>

lemma SessionHeader_field_simps:
  "SessionHeader_field 1 wt dAtA iNdEx m = Some (varintCase wt ''ID'' dAtA iNdEx (\<lambda>v m. m\<lparr>Header_ID := v\<rparr>) m)"
  "SessionHeader_field 2 wt dAtA iNdEx m = Some (varintCase wt ''Seq'' dAtA iNdEx (\<lambda>v m. m\<lparr>Header_Seq := v\<rparr>) m)"
  by (simp_all add: SessionHeader_field_def)

lemma SessionHeader_size: "SessionHeader_Size (Some m) = length (SessionHeader_enc m)"
  by (simp add: SessionHeader_Size_def SessionHeader_enc_def enc_lengths  Let_def)

lemma SessionHeader_fills: "fills (SessionHeader_MarshalToSizedBuffer (Some m)) (SessionHeader_enc m)"
  unfolding SessionHeader_MarshalToSizedBuffer_def SessionHeader_enc_def deref_simps go_bind.simps
  by (rule fills_sizedBuffer, rule writes_runw_eq[where e =
      "(([] @ fVarint 0x8 (Header_ID m)) @ fVarint 0x10 (Header_Seq m))"],
      intro writes_runw_Cons writes_runw_Nil writes_fVarint)
    (auto simp: append_assoc split: option.splits)

lemma SessionHeader_decodes: "consumes ''SessionHeader'' SessionHeader_field (SessionHeader_enc m) SessionHeader_zero m"
proof -
  have s1: "consumes ''SessionHeader'' SessionHeader_field (fVarint 0x8 (Header_ID m)) SessionHeader_zero
      (SessionHeader_zero\<lparr>Header_ID := Header_ID m\<rparr>)"
    by (rule consumes_fVarint[where fieldNum = 1], simp add: tagOk_def, rule SessionHeader_field_simps(1))
      (simp_all add: SessionHeader_zero_def normBytes_alt)
  have s2: "consumes ''SessionHeader'' SessionHeader_field (fVarint 0x10 (Header_Seq m)) (SessionHeader_zero\<lparr>Header_ID := Header_ID m\<rparr>)
      (SessionHeader_zero\<lparr>Header_ID := Header_ID m, Header_Seq := Header_Seq m\<rparr>)"
    by (rule consumes_fVarint[where fieldNum = 2], simp add: tagOk_def, rule SessionHeader_field_simps(2))
      (simp_all add: SessionHeader_zero_def normBytes_alt)
  have "(SessionHeader_zero\<lparr>Header_ID := Header_ID m, Header_Seq := Header_Seq m\<rparr>) = m"
    by (cases m) (simp add: SessionHeader_zero_def)
  with consumes_append[OF s1 s2] show ?thesis unfolding SessionHeader_enc_def by simp
qed

lemma SessionHeader_handler: "handlerOk SessionHeader_field"
  by (rule handlerOkI)
    (auto simp: SessionHeader_field_def split: if_splits dest: field_stepOk strCase_stepOk packedCase_stepOk)

interpretation SessionHeader_pb: pb_message SessionHeader_Size SessionHeader_MarshalToSizedBuffer "''SessionHeader''" SessionHeader_field SessionHeader_zero SessionHeader_enc
  "(\<lambda>_. True)" "(\<lambda>m. m)"
  by unfold_locales (auto intro: SessionHeader_size SessionHeader_fills SessionHeader_decodes SessionHeader_handler)

subsection \<open>Group\<close>

lemma Group_field_simps:
  "Group_field 1 wt dAtA iNdEx m = Some (varintCase wt ''ID'' dAtA iNdEx (\<lambda>v m. m\<lparr>Group_ID := v\<rparr>) m)"
  "Group_field 2 wt dAtA iNdEx m = Some (strCase wt ''Servers'' dAtA iNdEx (\<lambda>s m. m\<lparr>Group_servers := Group_servers m @ [s]\<rparr>) m)"
  by (simp_all add: Group_field_def)

lemma Group_size: "Group_Size (Some m) = length (Group_enc m)"
  by (simp add: Group_Size_def Group_enc_def enc_lengths length_fStrings Let_def)

lemma Group_fills: "fills (Group_MarshalToSizedBuffer (Some m)) (Group_enc m)"
  unfolding Group_MarshalToSizedBuffer_def Group_enc_def deref_simps go_bind.simps
  by (rule fills_sizedBuffer, rule writes_runw_eq[where e =
      "(([] @ fVarint 0x8 (Group_ID m)) @ fStrings 0x12 (Group_servers m))"],
      intro writes_runw_Cons writes_runw_Nil writes_fVarint writes_fStrings)
    (auto simp: append_assoc split: option.splits)

lemma Group_decodes: "consumes ''Group'' Group_field (Group_enc m) Group_zero m"
proof -
  have s1: "consumes ''Group'' Group_field (fVarint 0x8 (Group_ID m)) Group_zero
      (Group_zero\<lparr>Group_ID := Group_ID m\<rparr>)"
    by (rule consumes_fVarint[where fieldNum = 1], simp add: tagOk_def, rule Group_field_simps(1))
      (simp_all add: Group_zero_def normBytes_alt)
  have "consumes ''Group'' Group_field (fStrings 0x12 (Group_servers m))
      (Group_zero\<lparr>Group_ID := Group_ID m, Group_servers := []\<rparr>) (Group_zero\<lparr>Group_ID := Group_ID m, Group_servers := [] @ Group_servers m\<rparr>)"
    by (rule consumes_fStrings[where fieldNum = 2 and st = "\<lambda>acc. Group_zero\<lparr>Group_ID := Group_ID m, Group_servers := acc\<rparr>"],
        simp add: tagOk_def, rule Group_field_simps(2))
      (auto simp: append_assoc)
  then have s2: "consumes ''Group'' Group_field (fStrings 0x12 (Group_servers m)) (Group_zero\<lparr>Group_ID := Group_ID m\<rparr>)
      (Group_zero\<lparr>Group_ID := Group_ID m, Group_servers := Group_servers m\<rparr>)"
    by (simp add: Group_zero_def option.map_id0[unfolded id_def])
  have "(Group_zero\<lparr>Group_ID := Group_ID m, Group_servers := Group_servers m\<rparr>) = m"
    by (cases m) (simp add: Group_zero_def)
  with consumes_append[OF s1 s2] show ?thesis unfolding Group_enc_def by simp
qed

lemma Group_handler: "handlerOk Group_field"
  by (rule handlerOkI)
    (auto simp: Group_field_def split: if_splits dest: field_stepOk strCase_stepOk packedCase_stepOk)

interpretation Group_pb: pb_message Group_Size Group_MarshalToSizedBuffer "''Group''" Group_field Group_zero Group_enc
  "(\<lambda>_. True)" "(\<lambda>m. m)"
  by unfold_locales (auto intro: Group_size Group_fills Group_decodes Group_handler)

subsection \<open>PbConfig\<close>

lemma PbConfig_field_simps:
  "PbConfig_field 1 wt dAtA iNdEx m = Some (varintCase wt ''Num'' dAtA iNdEx (\<lambda>v m. m\<lparr>PbConfig_Num := v\<rparr>) m)"
  "PbConfig_field 2 wt dAtA iNdEx m = Some (packedCase wt ''Shards'' dAtA iNdEx PbConfig_Shards (\<lambda>ns m. m\<lparr>PbConfig_Shards := ns\<rparr>) m)"
  "PbConfig_field 3 wt dAtA iNdEx m = Some (msgCase wt ''Groups'' dAtA iNdEx (\<lambda>bs m.
              case Group_Unmarshal Group_zero bs of
                (x, err) \<Rightarrow> (m\<lparr>PbConfig_Groups := PbConfig_Groups m @ [Some x]\<rparr>, err)) m)"
  by (simp_all add: PbConfig_field_def)

lemma PbConfig_size: "PbConfig_ok m \<Longrightarrow> PbConfig_Size (Some m) = length (PbConfig_enc m)"
  by (simp add: PbConfig_Size_def PbConfig_enc_def enc_lengths length_fPacked Group_pb.length_repeated PbConfig_ok_def Let_def)

lemma PbConfig_fills: "PbConfig_ok m \<Longrightarrow> fills (PbConfig_MarshalToSizedBuffer (Some m)) (PbConfig_enc m)"
  unfolding PbConfig_MarshalToSizedBuffer_def PbConfig_enc_def deref_simps go_bind.simps
  by (rule fills_sizedBuffer, rule writes_runw_eq[where e =
      "((([] @ fVarint 0x8 (PbConfig_Num m)) @ fPacked 0x12 (PbConfig_Shards m)) @ concat (map (fOpt 0x1a Group_enc) (PbConfig_Groups m)))"],
      intro writes_runw_Cons writes_runw_Nil writes_fVarint writes_fPacked Group_pb.writes_fRepeated)
    (auto simp: PbConfig_ok_def split: option.splits)

lemma PbConfig_decodes: "PbConfig_ok m \<Longrightarrow> consumes ''Config'' PbConfig_field (PbConfig_enc m) PbConfig_zero m"
proof -
  assume ok: "PbConfig_ok m"
  have s1: "consumes ''Config'' PbConfig_field (fVarint 0x8 (PbConfig_Num m)) PbConfig_zero
      (PbConfig_zero\<lparr>PbConfig_Num := PbConfig_Num m\<rparr>)"
    by (rule consumes_fVarint[where fieldNum = 1], simp add: tagOk_def, rule PbConfig_field_simps(1))
      (simp_all add: PbConfig_zero_def normBytes_alt)
  have s2: "consumes ''Config'' PbConfig_field (fPacked 0x12 (PbConfig_Shards m)) (PbConfig_zero\<lparr>PbConfig_Num := PbConfig_Num m\<rparr>)
      (PbConfig_zero\<lparr>PbConfig_Num := PbConfig_Num m, PbConfig_Shards := PbConfig_Shards m\<rparr>)"
    by (rule consumes_fPacked[where fieldNum = 2], simp add: tagOk_def, rule PbConfig_field_simps(2))
      (simp_all add: PbConfig_zero_def normBytes_alt)
  have "consumes ''Config'' PbConfig_field (concat (map (fOpt 0x1a Group_enc) (PbConfig_Groups m)))
      (PbConfig_zero\<lparr>PbConfig_Num := PbConfig_Num m, PbConfig_Shards := PbConfig_Shards m, PbConfig_Groups := []\<rparr>) (PbConfig_zero\<lparr>PbConfig_Num := PbConfig_Num m, PbConfig_Shards := PbConfig_Shards m, PbConfig_Groups := [] @ map (map_option (\<lambda>m. m)) (PbConfig_Groups m)\<rparr>)"
    by (rule Group_pb.consumes_repeated[where n = 3 and st = "\<lambda>acc. PbConfig_zero\<lparr>PbConfig_Num := PbConfig_Num m, PbConfig_Shards := PbConfig_Shards m, PbConfig_Groups := acc\<rparr>"],
        simp add: tagOk_def, rule PbConfig_field_simps(3)[unfolded Group_Unmarshal_def])
      (use ok in \<open>auto simp: append_assoc PbConfig_ok_def\<close>)
  then have s3: "consumes ''Config'' PbConfig_field (concat (map (fOpt 0x1a Group_enc) (PbConfig_Groups m))) (PbConfig_zero\<lparr>PbConfig_Num := PbConfig_Num m, PbConfig_Shards := PbConfig_Shards m\<rparr>)
      (PbConfig_zero\<lparr>PbConfig_Num := PbConfig_Num m, PbConfig_Shards := PbConfig_Shards m, PbConfig_Groups := PbConfig_Groups m\<rparr>)"
    by (simp add: PbConfig_zero_def option.map_id0[unfolded id_def])
  have "(PbConfig_zero\<lparr>PbConfig_Num := PbConfig_Num m, PbConfig_Shards := PbConfig_Shards m, PbConfig_Groups := PbConfig_Groups m\<rparr>) = m"
    by (cases m) (simp add: PbConfig_zero_def)
  with consumes_append[OF s1 consumes_append[OF s2 s3]] show ?thesis unfolding PbConfig_enc_def by simp
qed

lemma PbConfig_handler: "handlerOk PbConfig_field"
  by (rule handlerOkI)
    (auto simp: PbConfig_field_def Group_Unmarshal_def split: if_splits dest: field_stepOk strCase_stepOk packedCase_stepOk Group_pb.msgCase_stepOk_field)

interpretation PbConfig_pb: pb_message PbConfig_Size PbConfig_MarshalToSizedBuffer "''Config''" PbConfig_field PbConfig_zero PbConfig_enc
  "PbConfig_ok" "(\<lambda>m. m)"
  by unfold_locales (auto intro: PbConfig_size PbConfig_fills PbConfig_decodes PbConfig_handler)

subsection \<open>CtlArgs\<close>

lemma CtlArgs_field_simps:
  "CtlArgs_field 1 wt dAtA iNdEx m = Some (varintCase wt ''Type'' dAtA iNdEx (\<lambda>v m. m\<lparr>CtlArgs_Type := v\<rparr>) m)"
  "CtlArgs_field 2 wt dAtA iNdEx m = Some (msgCase wt ''NewGroups'' dAtA iNdEx (\<lambda>bs m.
              case Group_Unmarshal Group_zero bs of
                (x, err) \<Rightarrow> (m\<lparr>NewGroups := NewGroups m @ [Some x]\<rparr>, err)) m)"
  "CtlArgs_field 3 wt dAtA iNdEx m = Some (packedCase wt ''LeaveGIDs'' dAtA iNdEx LeaveGIDs (\<lambda>ns m. m\<lparr>LeaveGIDs := ns\<rparr>) m)"
  "CtlArgs_field 4 wt dAtA iNdEx m = Some (varintCase wt ''MoveGID'' dAtA iNdEx (\<lambda>v m. m\<lparr>MoveGID := v\<rparr>) m)"
  "CtlArgs_field 5 wt dAtA iNdEx m = Some (varintCase wt ''QueryNum'' dAtA iNdEx (\<lambda>v m. m\<lparr>QueryNum := v\<rparr>) m)"
  "CtlArgs_field 6 wt dAtA iNdEx m = Some (msgCase wt ''SessionHeader'' dAtA iNdEx (\<lambda>bs m.
              case SessionHeader_Unmarshal (case CtlArgs_SessionHeader m of None \<Rightarrow> SessionHeader_zero | Some x \<Rightarrow> x) bs of
                (x, err) \<Rightarrow> (m\<lparr>CtlArgs_SessionHeader := Some x\<rparr>, err)) m)"
  "CtlArgs_field 7 wt dAtA iNdEx m = Some (varintCase wt ''MoveShard'' dAtA iNdEx (\<lambda>v m. m\<lparr>MoveShard := v\<rparr>) m)"
  by (simp_all add: CtlArgs_field_def)

lemma CtlArgs_size: "CtlArgs_ok m \<Longrightarrow> CtlArgs_Size (Some m) = length (CtlArgs_enc m)"
  by (simp add: CtlArgs_Size_def CtlArgs_enc_def enc_lengths Group_pb.length_repeated length_fPacked SessionHeader_pb.length_fOpt CtlArgs_ok_def Let_def)

lemma CtlArgs_fills: "CtlArgs_ok m \<Longrightarrow> fills (CtlArgs_MarshalToSizedBuffer (Some m)) (CtlArgs_enc m)"
  unfolding CtlArgs_MarshalToSizedBuffer_def CtlArgs_enc_def deref_simps go_bind.simps
  by (rule fills_sizedBuffer, rule writes_runw_eq[where e =
      "((((((([] @ fVarint 0x8 (scast (CtlArgs_Type m))) @ concat (map (fOpt 0x12 Group_enc) (NewGroups m))) @ fPacked 0x1a (LeaveGIDs m)) @ fVarint 0x20 (MoveGID m)) @ fVarint 0x28 (QueryNum m)) @ fOpt 0x32 SessionHeader_enc (CtlArgs_SessionHeader m)) @ fVarint 0x38 (MoveShard m))"],
      intro writes_runw_Cons writes_runw_Nil writes_fEnum Group_pb.writes_fRepeated writes_fPacked writes_fVarint SessionHeader_pb.writes_fOpt)
    (auto simp: CtlArgs_ok_def split: option.splits)

lemma CtlArgs_decodes: "CtlArgs_ok m \<Longrightarrow> consumes ''Args'' CtlArgs_field (CtlArgs_enc m) CtlArgs_zero m"
proof -
  assume ok: "CtlArgs_ok m"
  have s1: "consumes ''Args'' CtlArgs_field (fVarint 0x8 (scast (CtlArgs_Type m))) CtlArgs_zero
      (CtlArgs_zero\<lparr>CtlArgs_Type := CtlArgs_Type m\<rparr>)"
    by (rule consumes_fVarint[where fieldNum = 1], simp add: tagOk_def, rule CtlArgs_field_simps(1))
      (simp_all add: CtlArgs_zero_def normBytes_alt)
  have "consumes ''Args'' CtlArgs_field (concat (map (fOpt 0x12 Group_enc) (NewGroups m)))
      (CtlArgs_zero\<lparr>CtlArgs_Type := CtlArgs_Type m, NewGroups := []\<rparr>) (CtlArgs_zero\<lparr>CtlArgs_Type := CtlArgs_Type m, NewGroups := [] @ map (map_option (\<lambda>m. m)) (NewGroups m)\<rparr>)"
    by (rule Group_pb.consumes_repeated[where n = 2 and st = "\<lambda>acc. CtlArgs_zero\<lparr>CtlArgs_Type := CtlArgs_Type m, NewGroups := acc\<rparr>"],
        simp add: tagOk_def, rule CtlArgs_field_simps(2)[unfolded Group_Unmarshal_def])
      (use ok in \<open>auto simp: append_assoc CtlArgs_ok_def\<close>)
  then have s2: "consumes ''Args'' CtlArgs_field (concat (map (fOpt 0x12 Group_enc) (NewGroups m))) (CtlArgs_zero\<lparr>CtlArgs_Type := CtlArgs_Type m\<rparr>)
      (CtlArgs_zero\<lparr>CtlArgs_Type := CtlArgs_Type m, NewGroups := NewGroups m\<rparr>)"
    by (simp add: CtlArgs_zero_def option.map_id0[unfolded id_def])
  have s3: "consumes ''Args'' CtlArgs_field (fPacked 0x1a (LeaveGIDs m)) (CtlArgs_zero\<lparr>CtlArgs_Type := CtlArgs_Type m, NewGroups := NewGroups m\<rparr>)
      (CtlArgs_zero\<lparr>CtlArgs_Type := CtlArgs_Type m, NewGroups := NewGroups m, LeaveGIDs := LeaveGIDs m\<rparr>)"
    by (rule consumes_fPacked[where fieldNum = 3], simp add: tagOk_def, rule CtlArgs_field_simps(3))
      (simp_all add: CtlArgs_zero_def normBytes_alt)
  have s4: "consumes ''Args'' CtlArgs_field (fVarint 0x20 (MoveGID m)) (CtlArgs_zero\<lparr>CtlArgs_Type := CtlArgs_Type m, NewGroups := NewGroups m, LeaveGIDs := LeaveGIDs m\<rparr>)
      (CtlArgs_zero\<lparr>CtlArgs_Type := CtlArgs_Type m, NewGroups := NewGroups m, LeaveGIDs := LeaveGIDs m, MoveGID := MoveGID m\<rparr>)"
    by (rule consumes_fVarint[where fieldNum = 4], simp add: tagOk_def, rule CtlArgs_field_simps(4))
      (simp_all add: CtlArgs_zero_def normBytes_alt)
  have s5: "consumes ''Args'' CtlArgs_field (fVarint 0x28 (QueryNum m)) (CtlArgs_zero\<lparr>CtlArgs_Type := CtlArgs_Type m, NewGroups := NewGroups m, LeaveGIDs := LeaveGIDs m, MoveGID := MoveGID m\<rparr>)
      (CtlArgs_zero\<lparr>CtlArgs_Type := CtlArgs_Type m, NewGroups := NewGroups m, LeaveGIDs := LeaveGIDs m, MoveGID := MoveGID m, QueryNum := QueryNum m\<rparr>)"
    by (rule consumes_fVarint[where fieldNum = 5], simp add: tagOk_def, rule CtlArgs_field_simps(5))
      (simp_all add: CtlArgs_zero_def normBytes_alt)
  have s6: "consumes ''Args'' CtlArgs_field (fOpt 0x32 SessionHeader_enc (CtlArgs_SessionHeader m)) (CtlArgs_zero\<lparr>CtlArgs_Type := CtlArgs_Type m, NewGroups := NewGroups m, LeaveGIDs := LeaveGIDs m, MoveGID := MoveGID m, QueryNum := QueryNum m\<rparr>)
      (CtlArgs_zero\<lparr>CtlArgs_Type := CtlArgs_Type m, NewGroups := NewGroups m, LeaveGIDs := LeaveGIDs m, MoveGID := MoveGID m, QueryNum := QueryNum m, CtlArgs_SessionHeader := CtlArgs_SessionHeader m\<rparr>)"
    by (rule SessionHeader_pb.consumes_fOpt[where n = 6], simp add: tagOk_def,
        rule CtlArgs_field_simps(6)[unfolded SessionHeader_Unmarshal_def])
      (use ok in \<open>auto simp: CtlArgs_zero_def CtlArgs_ok_def\<close>)
  have s7: "consumes ''Args'' CtlArgs_field (fVarint 0x38 (MoveShard m)) (CtlArgs_zero\<lparr>CtlArgs_Type := CtlArgs_Type m, NewGroups := NewGroups m, LeaveGIDs := LeaveGIDs m, MoveGID := MoveGID m, QueryNum := QueryNum m, CtlArgs_SessionHeader := CtlArgs_SessionHeader m\<rparr>)
      (CtlArgs_zero\<lparr>CtlArgs_Type := CtlArgs_Type m, NewGroups := NewGroups m, LeaveGIDs := LeaveGIDs m, MoveGID := MoveGID m, QueryNum := QueryNum m, CtlArgs_SessionHeader := CtlArgs_SessionHeader m, MoveShard := MoveShard m\<rparr>)"
    by (rule consumes_fVarint[where fieldNum = 7], simp add: tagOk_def, rule CtlArgs_field_simps(7))
      (simp_all add: CtlArgs_zero_def normBytes_alt)
  have "(CtlArgs_zero\<lparr>CtlArgs_Type := CtlArgs_Type m, NewGroups := NewGroups m, LeaveGIDs := LeaveGIDs m, MoveGID := MoveGID m, QueryNum := QueryNum m, CtlArgs_SessionHeader := CtlArgs_SessionHeader m, MoveShard := MoveShard m\<rparr>) = m"
    by (cases m) (simp add: CtlArgs_zero_def)
  with consumes_append[OF s1 consumes_append[OF s2 consumes_append[OF s3 consumes_append[OF s4 consumes_append[OF s5 consumes_append[OF s6 s7]]]]]] show ?thesis unfolding CtlArgs_enc_def by simp
qed

lemma CtlArgs_handler: "handlerOk CtlArgs_field"
  by (rule handlerOkI)
    (auto simp: CtlArgs_field_def Group_Unmarshal_def SessionHeader_Unmarshal_def split: if_splits dest: field_stepOk strCase_stepOk packedCase_stepOk Group_pb.msgCase_stepOk_field SessionHeader_pb.msgCase_stepOk_field)

interpretation CtlArgs_pb: pb_message CtlArgs_Size CtlArgs_MarshalToSizedBuffer "''Args''" CtlArgs_field CtlArgs_zero CtlArgs_enc
  "CtlArgs_ok" "(\<lambda>m. m)"
  by unfold_locales (auto intro: CtlArgs_size CtlArgs_fills CtlArgs_decodes CtlArgs_handler)

subsection \<open>CtlReply\<close>

lemma CtlReply_field_simps:
  "CtlReply_field 1 wt dAtA iNdEx m = Some (boolCase wt ''WrongLeader'' dAtA iNdEx (\<lambda>v m. m\<lparr>WrongLeader := v\<rparr>) m)"
  "CtlReply_field 2 wt dAtA iNdEx m = Some (varintCase wt ''Status'' dAtA iNdEx (\<lambda>v m. m\<lparr>CtlReply_Status := v\<rparr>) m)"
  "CtlReply_field 3 wt dAtA iNdEx m = Some (strCase wt ''Message'' dAtA iNdEx (\<lambda>s m. m\<lparr>CtlReply_Message := s\<rparr>) m)"
  "CtlReply_field 4 wt dAtA iNdEx m = Some (msgCase wt ''Config'' dAtA iNdEx (\<lambda>bs m.
              case PbConfig_Unmarshal (case CtlReply_Config m of None \<Rightarrow> PbConfig_zero | Some x \<Rightarrow> x) bs of
                (x, err) \<Rightarrow> (m\<lparr>CtlReply_Config := Some x\<rparr>, err)) m)"
  by (simp_all add: CtlReply_field_def)

lemma CtlReply_size: "CtlReply_ok m \<Longrightarrow> CtlReply_Size (Some m) = length (CtlReply_enc m)"
  by (cases "CtlReply_Config m", simp_all add: CtlReply_Size_def CtlReply_enc_def enc_lengths length_fStr PbConfig_pb.length_fOpt PbConfig_size CtlReply_ok_def Let_def)

lemma CtlReply_fills: "CtlReply_ok m \<Longrightarrow> fills (CtlReply_MarshalToSizedBuffer (Some m)) (CtlReply_enc m)"
  unfolding CtlReply_MarshalToSizedBuffer_def CtlReply_enc_def deref_simps go_bind.simps
  by (rule fills_sizedBuffer, rule writes_runw_eq[where e =
      "(((([] @ fBool 0x8 (WrongLeader m)) @ fVarint 0x10 (scast (CtlReply_Status m))) @ fStr 0x1a (CtlReply_Message m)) @ fOpt 0x22 PbConfig_enc (CtlReply_Config m))"],
      intro writes_runw_Cons writes_runw_Nil writes_fBool writes_fEnum writes_fStr PbConfig_pb.writes_fOpt)
    (auto simp: CtlReply_ok_def split: option.splits)

lemma CtlReply_decodes: "CtlReply_ok m \<Longrightarrow> consumes ''Reply'' CtlReply_field (CtlReply_enc m) CtlReply_zero m"
proof -
  assume ok: "CtlReply_ok m"
  have s1: "consumes ''Reply'' CtlReply_field (fBool 0x8 (WrongLeader m)) CtlReply_zero
      (CtlReply_zero\<lparr>WrongLeader := WrongLeader m\<rparr>)"
    by (rule consumes_fBool[where fieldNum = 1], simp add: tagOk_def, rule CtlReply_field_simps(1))
      (simp_all add: CtlReply_zero_def normBytes_alt)
  have s2: "consumes ''Reply'' CtlReply_field (fVarint 0x10 (scast (CtlReply_Status m))) (CtlReply_zero\<lparr>WrongLeader := WrongLeader m\<rparr>)
      (CtlReply_zero\<lparr>WrongLeader := WrongLeader m, CtlReply_Status := CtlReply_Status m\<rparr>)"
    by (rule consumes_fVarint[where fieldNum = 2], simp add: tagOk_def, rule CtlReply_field_simps(2))
      (simp_all add: CtlReply_zero_def normBytes_alt)
  have s3: "consumes ''Reply'' CtlReply_field (fStr 0x1a (CtlReply_Message m)) (CtlReply_zero\<lparr>WrongLeader := WrongLeader m, CtlReply_Status := CtlReply_Status m\<rparr>)
      (CtlReply_zero\<lparr>WrongLeader := WrongLeader m, CtlReply_Status := CtlReply_Status m, CtlReply_Message := CtlReply_Message m\<rparr>)"
    by (rule consumes_fStr[where fieldNum = 3], simp add: tagOk_def, rule CtlReply_field_simps(3))
      (simp_all add: CtlReply_zero_def normBytes_alt)
  have s4: "consumes ''Reply'' CtlReply_field (fOpt 0x22 PbConfig_enc (CtlReply_Config m)) (CtlReply_zero\<lparr>WrongLeader := WrongLeader m, CtlReply_Status := CtlReply_Status m, CtlReply_Message := CtlReply_Message m\<rparr>)
      (CtlReply_zero\<lparr>WrongLeader := WrongLeader m, CtlReply_Status := CtlReply_Status m, CtlReply_Message := CtlReply_Message m, CtlReply_Config := CtlReply_Config m\<rparr>)"
    by (rule PbConfig_pb.consumes_fOpt[where n = 4], simp add: tagOk_def,
        rule CtlReply_field_simps(4)[unfolded PbConfig_Unmarshal_def])
      (use ok in \<open>auto simp: CtlReply_zero_def CtlReply_ok_def\<close>)
  have "(CtlReply_zero\<lparr>WrongLeader := WrongLeader m, CtlReply_Status := CtlReply_Status m, CtlReply_Message := CtlReply_Message m, CtlReply_Config := CtlReply_Config m\<rparr>) = m"
    by (cases m) (simp add: CtlReply_zero_def)
  with consumes_append[OF s1 consumes_append[OF s2 consumes_append[OF s3 s4]]] show ?thesis unfolding CtlReply_enc_def by simp
qed

lemma CtlReply_handler: "handlerOk CtlReply_field"
  by (rule handlerOkI)
    (auto simp: CtlReply_field_def PbConfig_Unmarshal_def split: if_splits dest: field_stepOk strCase_stepOk packedCase_stepOk PbConfig_pb.msgCase_stepOk_field)

interpretation CtlReply_pb: pb_message CtlReply_Size CtlReply_MarshalToSizedBuffer "''Reply''" CtlReply_field CtlReply_zero CtlReply_enc
  "CtlReply_ok" "(\<lambda>m. m)"
  by unfold_locales (auto intro: CtlReply_size CtlReply_fills CtlReply_decodes CtlReply_handler)

subsection \<open>KvReply\<close>

lemma KvReply_field_simps:
  "KvReply_field 1 wt dAtA iNdEx m = Some (varintCase wt ''Status'' dAtA iNdEx (\<lambda>v m. m\<lparr>KvReply_Status := v\<rparr>) m)"
  "KvReply_field 2 wt dAtA iNdEx m = Some (strCase wt ''Value'' dAtA iNdEx (\<lambda>s m. m\<lparr>KvReply_Value := s\<rparr>) m)"
  "KvReply_field 3 wt dAtA iNdEx m = Some (strCase wt ''Message'' dAtA iNdEx (\<lambda>s m. m\<lparr>KvReply_Message := s\<rparr>) m)"
  "KvReply_field 4 wt dAtA iNdEx m = Some (bytesCase wt ''Data'' dAtA iNdEx (\<lambda>bs m. m\<lparr>KvReply_Data := Some bs\<rparr>) m)"
  by (simp_all add: KvReply_field_def)

lemma KvReply_size: "KvReply_Size (Some m) = length (KvReply_enc m)"
  by (simp add: KvReply_Size_def KvReply_enc_def enc_lengths length_fStr Let_def)

lemma KvReply_fills: "fills (KvReply_MarshalToSizedBuffer (Some m)) (KvReply_enc m)"
  unfolding KvReply_MarshalToSizedBuffer_def KvReply_enc_def deref_simps go_bind.simps
  by (rule fills_sizedBuffer, rule writes_runw_eq[where e =
      "(((([] @ fVarint 0x8 (scast (KvReply_Status m))) @ fStr 0x12 (KvReply_Value m)) @ fStr 0x1a (KvReply_Message m)) @ fBytes 0x22 (bcontent (KvReply_Data m)))"],
      intro writes_runw_Cons writes_runw_Nil writes_fEnum writes_fStr writes_fBytesOpt)
    (auto simp: append_assoc split: option.splits)

lemma KvReply_decodes: "consumes ''Reply'' KvReply_field (KvReply_enc m) KvReply_zero (KvReply_norm m)"
proof -
  have s1: "consumes ''Reply'' KvReply_field (fVarint 0x8 (scast (KvReply_Status m))) KvReply_zero
      (KvReply_zero\<lparr>KvReply_Status := KvReply_Status m\<rparr>)"
    by (rule consumes_fVarint[where fieldNum = 1], simp add: tagOk_def, rule KvReply_field_simps(1))
      (simp_all add: KvReply_zero_def normBytes_alt)
  have s2: "consumes ''Reply'' KvReply_field (fStr 0x12 (KvReply_Value m)) (KvReply_zero\<lparr>KvReply_Status := KvReply_Status m\<rparr>)
      (KvReply_zero\<lparr>KvReply_Status := KvReply_Status m, KvReply_Value := KvReply_Value m\<rparr>)"
    by (rule consumes_fStr[where fieldNum = 2], simp add: tagOk_def, rule KvReply_field_simps(2))
      (simp_all add: KvReply_zero_def normBytes_alt)
  have s3: "consumes ''Reply'' KvReply_field (fStr 0x1a (KvReply_Message m)) (KvReply_zero\<lparr>KvReply_Status := KvReply_Status m, KvReply_Value := KvReply_Value m\<rparr>)
      (KvReply_zero\<lparr>KvReply_Status := KvReply_Status m, KvReply_Value := KvReply_Value m, KvReply_Message := KvReply_Message m\<rparr>)"
    by (rule consumes_fStr[where fieldNum = 3], simp add: tagOk_def, rule KvReply_field_simps(3))
      (simp_all add: KvReply_zero_def normBytes_alt)
  have s4: "consumes ''Reply'' KvReply_field (fBytes 0x22 (bcontent (KvReply_Data m))) (KvReply_zero\<lparr>KvReply_Status := KvReply_Status m, KvReply_Value := KvReply_Value m, KvReply_Message := KvReply_Message m\<rparr>)
      (KvReply_zero\<lparr>KvReply_Status := KvReply_Status m, KvReply_Value := KvReply_Value m, KvReply_Message := KvReply_Message m, KvReply_Data := normBytes (KvReply_Data m)\<rparr>)"
    by (rule consumes_fBytes[where fieldNum = 4], simp add: tagOk_def, rule KvReply_field_simps(4))
      (simp_all add: KvReply_zero_def normBytes_alt)
  have "(KvReply_zero\<lparr>KvReply_Status := KvReply_Status m, KvReply_Value := KvReply_Value m, KvReply_Message := KvReply_Message m, KvReply_Data := normBytes (KvReply_Data m)\<rparr>) = (KvReply_norm m)"
    by (cases m) (simp add: KvReply_zero_def KvReply_norm_def)
  with consumes_append[OF s1 consumes_append[OF s2 consumes_append[OF s3 s4]]] show ?thesis unfolding KvReply_enc_def by simp
qed

lemma KvReply_handler: "handlerOk KvReply_field"
  by (rule handlerOkI)
    (auto simp: KvReply_field_def split: if_splits dest: field_stepOk strCase_stepOk packedCase_stepOk)

interpretation KvReply_pb: pb_message KvReply_Size KvReply_MarshalToSizedBuffer "''Reply''" KvReply_field KvReply_zero KvReply_enc
  "(\<lambda>_. True)" "KvReply_norm"
  by unfold_locales (auto intro: KvReply_size KvReply_fills KvReply_decodes KvReply_handler)

end
