(* ===== verification/Service_Codec_Maps.thy ===== *)
theory Service_Codec_Maps
  imports Service_Codec
begin

text \<open>
  The messages that hold maps or a \<^verbatim>\<open>types.Any\<close>: \<open>PbServerSession\<close>, \<open>PbShard\<close>, \<open>PullShardsResponse\<close>
  and \<open>KvArgs\<close>. What is taken for granted of \<^verbatim>\<open>types.Any\<close> is the contract of a message type,
  \<open>any_ok\<close>. A shard can be marshalled when its map is visited in an order of its keys; an empty map
  comes back nil.
\<close>

definition any_ok :: "'any any_codec \<Rightarrow> ('any \<Rightarrow> byte list) \<Rightarrow> ('any \<Rightarrow> 'any) \<Rightarrow> bool" where
  "any_ok A aenc anorm \<longleftrightarrow>
     pb_codec (any_Size A) (any_MarshalToSizedBuffer A) (any_Unmarshal A) (any_zero A) aenc (\<lambda>_. True) anorm"

section \<open>Forward encodings\<close>

definition PbServerSession_enc :: "('any \<Rightarrow> byte list) \<Rightarrow> 'any PbServerSession \<Rightarrow> byte list" where
  "PbServerSession_enc aenc m =
     fVarint 0x8 (Session_ID m) @ fVarint 0x10 (Session_ProcessedSeq m) @ fOpt 0x1a aenc (LastResponse m)"

definition PbServerSession_norm :: "('any \<Rightarrow> 'any) \<Rightarrow> 'any PbServerSession \<Rightarrow> 'any PbServerSession" where
  "PbServerSession_norm anorm m = m\<lparr>LastResponse := map_option anorm (LastResponse m)\<rparr>"

definition kv_enc :: "(string \<rightharpoonup> string) \<Rightarrow> string \<Rightarrow> byte list" where
  "kv_enc kv k = fMsg 0xa (strBytes k) @ fMsg 0x12 (strBytes (the (kv k)))"

definition PbShard_enc :: "((string \<rightharpoonup> string) \<Rightarrow> string list) \<Rightarrow> PbShard \<Rightarrow> byte list" where
  "PbShard_enc v m =
     fVarint 0x8 (Shard_ID m) @
     concat (map (\<lambda>k. fMsg 0x12 (kv_enc (readKV (Shard_KV m)) k)) (rev (v (readKV (Shard_KV m))))) @
     fVarint 0x18 (scast (Shard_Status m))"

definition PbShard_ok :: "((string \<rightharpoonup> string) \<Rightarrow> string list) \<Rightarrow> PbShard \<Rightarrow> bool" where
  "PbShard_ok v m \<longleftrightarrow> iterates (readKV (Shard_KV m)) (v (readKV (Shard_KV m)))"

definition PbShard_norm :: "PbShard \<Rightarrow> PbShard" where
  "PbShard_norm m = m\<lparr>Shard_KV := (if readKV (Shard_KV m) = Map.empty then None else Some (readKV (Shard_KV m)))\<rparr>"

definition session_enc ::
  "('any \<Rightarrow> byte list) \<Rightarrow> (int64 \<rightharpoonup> 'any PbServerSession option) \<Rightarrow> int64 \<Rightarrow> byte list" where
  "session_enc aenc ss k = (0x8 # varint (unat k)) @ fOpt 0x12 (PbServerSession_enc aenc) (the (ss k))"

definition PullShardsResponse_enc ::
  "('any \<Rightarrow> byte list) \<Rightarrow> ((string \<rightharpoonup> string) \<Rightarrow> string list) \<Rightarrow> ((int64 \<rightharpoonup> 'any PbServerSession option) \<Rightarrow> int64 list)
    \<Rightarrow> 'any PullShardsResponse \<Rightarrow> byte list" where
  "PullShardsResponse_enc aenc v w m =
     concat (map (fOpt 0xa (PbShard_enc v)) (Pulled_Shards m)) @
     concat (map (\<lambda>k. fMsg 0x12 (session_enc aenc (ServerSessions m) k)) (rev (w (ServerSessions m)))) @
     fVarint 0x18 (Pulled_ConfigNum m)"

definition PullShardsResponse_ok ::
  "((string \<rightharpoonup> string) \<Rightarrow> string list) \<Rightarrow> ((int64 \<rightharpoonup> 'any PbServerSession option) \<Rightarrow> int64 list)
    \<Rightarrow> 'any PullShardsResponse \<Rightarrow> bool" where
  "PullShardsResponse_ok v w m \<longleftrightarrow>
     (\<forall>p \<in> set (Pulled_Shards m). case p of None \<Rightarrow> False | Some pb \<Rightarrow> PbShard_ok v pb) \<and>
     iterates (ServerSessions m) (w (ServerSessions m))"

definition PullShardsResponse_norm :: "('any \<Rightarrow> 'any) \<Rightarrow> 'any PullShardsResponse \<Rightarrow> 'any PullShardsResponse" where
  "PullShardsResponse_norm anorm m =
     m\<lparr>Pulled_Shards := map (map_option PbShard_norm) (Pulled_Shards m),
       ServerSessions := (\<lambda>k. map_option (map_option (PbServerSession_norm anorm)) (ServerSessions m k))\<rparr>"

definition KvArgs_enc ::
  "('any \<Rightarrow> byte list) \<Rightarrow> ((string \<rightharpoonup> string) \<Rightarrow> string list) \<Rightarrow> ((int64 \<rightharpoonup> 'any PbServerSession option) \<Rightarrow> int64 list)
    \<Rightarrow> 'any KvArgs \<Rightarrow> byte list" where
  "KvArgs_enc aenc v w m =
     fVarint 0x8 (scast (KvArgs_Type m)) @
     fOpt 0x12 SessionHeader_enc (KvArgs_SessionHeader m) @
     fStr 0x1a (KvArgs_Key m) @
     fStr 0x22 (KvArgs_Value m) @
     fOpt 0x2a PbConfig_enc (NextConfig m) @
     fPacked 0x32 (ShardIDs m) @
     fVarint 0x38 (ConfigNum m) @
     fOpt 0x42 (PullShardsResponse_enc aenc v w) (PulledShards m)"

definition KvArgs_ok ::
  "((string \<rightharpoonup> string) \<Rightarrow> string list) \<Rightarrow> ((int64 \<rightharpoonup> 'any PbServerSession option) \<Rightarrow> int64 list)
    \<Rightarrow> 'any KvArgs \<Rightarrow> bool" where
  "KvArgs_ok v w m \<longleftrightarrow>
     (case NextConfig m of None \<Rightarrow> True | Some c \<Rightarrow> PbConfig_ok c) \<and>
     (case PulledShards m of None \<Rightarrow> True | Some r \<Rightarrow> PullShardsResponse_ok v w r)"

definition KvArgs_norm :: "('any \<Rightarrow> 'any) \<Rightarrow> 'any KvArgs \<Rightarrow> 'any KvArgs" where
  "KvArgs_norm anorm m = m\<lparr>PulledShards := map_option (PullShardsResponse_norm anorm) (PulledShards m)\<rparr>"

section \<open>Sessions\<close>

lemma PbServerSession_field_simps:
  "PbServerSession_field A 1 wt dAtA iNdEx m = Some (varintCase wt ''ID'' dAtA iNdEx (\<lambda>v m. m\<lparr>Session_ID := v\<rparr>) m)"
  "PbServerSession_field A 2 wt dAtA iNdEx m = Some (varintCase wt ''ProcessedSeq'' dAtA iNdEx (\<lambda>v m. m\<lparr>Session_ProcessedSeq := v\<rparr>) m)"
  "PbServerSession_field A 3 wt dAtA iNdEx m = Some (msgCase wt ''LastResponse'' dAtA iNdEx (\<lambda>bs m.
      case any_Unmarshal A (case LastResponse m of None \<Rightarrow> any_zero A | Some x \<Rightarrow> x) bs of
        (x, err) \<Rightarrow> (m\<lparr>LastResponse := Some x\<rparr>, err)) m)"
  by (simp_all add: PbServerSession_field_def)

lemma PbServerSession_message:
  assumes any: "any_ok A aenc anorm"
  shows "pb_message (PbServerSession_Size A) (PbServerSession_MarshalToSizedBuffer A) ''ServerSession''
    (PbServerSession_field A) PbServerSession_zero (PbServerSession_enc aenc) (\<lambda>_. True) (PbServerSession_norm anorm)"
proof
  note A = any[unfolded any_ok_def]
  fix m :: "'a PbServerSession"
  show "PbServerSession_Size A (Some m) = length (PbServerSession_enc aenc m)"
    by (simp add: PbServerSession_Size_def PbServerSession_enc_def enc_lengths pb_codec.length_fOpt[OF A] Let_def)
  show "fills (PbServerSession_MarshalToSizedBuffer A (Some m)) (PbServerSession_enc aenc m)"
    unfolding PbServerSession_MarshalToSizedBuffer_def PbServerSession_enc_def deref_simps go_bind.simps
    by (rule fills_sizedBuffer, rule writes_runw_eq[where e =
        "((([] @ fVarint 0x8 (Session_ID m)) @ fVarint 0x10 (Session_ProcessedSeq m)) @ fOpt 0x1a aenc (LastResponse m))"],
        intro writes_runw_Cons writes_runw_Nil writes_fVarint pb_codec.writes_fOpt[OF A]) auto
  have s1: "consumes ''ServerSession'' (PbServerSession_field A) (fVarint 0x8 (Session_ID m)) PbServerSession_zero
      (PbServerSession_zero\<lparr>Session_ID := Session_ID m\<rparr>)"
    by (rule consumes_fVarint[where fieldNum = 1], simp add: tagOk_def, rule PbServerSession_field_simps(1))
      (simp_all add: PbServerSession_zero_def)
  have s2: "consumes ''ServerSession'' (PbServerSession_field A) (fVarint 0x10 (Session_ProcessedSeq m))
      (PbServerSession_zero\<lparr>Session_ID := Session_ID m\<rparr>)
      (PbServerSession_zero\<lparr>Session_ID := Session_ID m, Session_ProcessedSeq := Session_ProcessedSeq m\<rparr>)"
    by (rule consumes_fVarint[where fieldNum = 2], simp add: tagOk_def, rule PbServerSession_field_simps(2))
      (simp_all add: PbServerSession_zero_def)
  have s3: "consumes ''ServerSession'' (PbServerSession_field A) (fOpt 0x1a aenc (LastResponse m))
      (PbServerSession_zero\<lparr>Session_ID := Session_ID m, Session_ProcessedSeq := Session_ProcessedSeq m\<rparr>) (PbServerSession_norm anorm m)"
    by (rule pb_codec.consumes_fOpt[OF A, where n = 3], simp add: tagOk_def, rule PbServerSession_field_simps(3))
      (auto simp: PbServerSession_zero_def PbServerSession_norm_def)
  show "consumes ''ServerSession'' (PbServerSession_field A) (PbServerSession_enc aenc m) PbServerSession_zero (PbServerSession_norm anorm m)"
    using consumes_append[OF s1 consumes_append[OF s2 s3]] by (simp add: PbServerSession_enc_def)
next
  note A = any[unfolded any_ok_def]
  show "handlerOk (PbServerSession_field A)"
    by (rule handlerOkI) (auto simp: PbServerSession_field_def split: if_splits
        dest: field_stepOk pb_codec.msgCase_stepOk_field[OF A])
qed

lemmas PbServerSession_codec = pb_message.codec[OF PbServerSession_message]

section \<open>Maps that are read back\<close>

lemma foldl_entries: "foldl (\<lambda>m k. m(k \<mapsto> g k)) m ks i = (if i \<in> set ks then Some (g i) else m i)"
  by (induction ks arbitrary: m) auto

lemma all_entries:
  assumes "iterates m ks" "\<And>k. k \<in> dom m \<Longrightarrow> m' k = Some (g k)" "dom m' = dom m"
  shows "foldl (\<lambda>m k. m(k \<mapsto> g k)) Map.empty (rev ks) = m'"
proof
  fix i
  show "foldl (\<lambda>m k. m(k \<mapsto> g k)) Map.empty (rev ks) i = m' i"
    using assms by (cases "i \<in> dom m") (auto simp: foldl_entries iterates_def)
qed

section \<open>Shards\<close>

lemma PbShard_field_simps:
  "PbShard_field 1 wt dAtA iNdEx m = Some (varintCase wt ''ID'' dAtA iNdEx (\<lambda>v m. m\<lparr>Shard_ID := v\<rparr>) m)"
  "PbShard_field 2 wt dAtA iNdEx m = Some (mapCase wt ''KV'' dAtA iNdEx kvEntry ([], [])
      (\<lambda>m. m\<lparr>Shard_KV := Some (readKV (Shard_KV m))\<rparr>)
      (\<lambda>(k, x) m. m\<lparr>Shard_KV := Some ((readKV (Shard_KV m))(k \<mapsto> x))\<rparr>) m)"
  "PbShard_field 3 wt dAtA iNdEx m = Some (varintCase wt ''Status'' dAtA iNdEx (\<lambda>v m. m\<lparr>Shard_Status := v\<rparr>) m)"
  by (simp_all add: PbShard_field_def)

lemma readKV_None: "readKV None = Map.empty"
  by (simp add: readKV_def fun_eq_iff)

lemma kvEntry_ok: "entryOk kvEntry"
  by (rule entryOkI) (auto simp: kvEntry_def split: if_splits dest: strEntry_stepOk)

lemma eats_kv: "eats kvEntry (kv_enc kv k) ([], []) (k, the (kv k))"
proof -
  have "eats kvEntry (fMsg 0xa (strBytes k)) ([], []) (k, [])"
    by (rule eats_str[where n = 1]) (auto simp: entryTag_def kvEntry_def)
  moreover have "eats kvEntry (fMsg 0x12 (strBytes (the (kv k)))) (k, []) (k, the (kv k))"
    by (rule eats_str[where n = 2]) (auto simp: entryTag_def kvEntry_def)
  ultimately show ?thesis unfolding kv_enc_def by (rule eats_append)
qed

lemma length_kv_enc:
  "length (kv_enc kv k) = 1 + length k + sov (of_nat (length k)) + 1 + length (the (kv k)) + sov (of_nat (length (the (kv k))))"
  by (simp add: kv_enc_def length_fMsg)

lemma writes_kv:
  "writes (putEntry [putBytes (strBytes (the (kv k))), putByte 0x12, putBytes (strBytes k), putByte 0xa] tag) (fMsg tag (kv_enc kv k))"
proof (rule writes_putEntry)
  have "writes (runw [putBytes (strBytes (the (kv k))), putByte 0x12, putBytes (strBytes k), putByte 0xa])
      (((([] @ [0xa]) @ lenPrefixed (strBytes k)) @ [0x12]) @ lenPrefixed (strBytes (the (kv k))))"
    by (intro writes_runw_Cons writes_runw_Nil writes_intros)
  then show "writes (runw [putBytes (strBytes (the (kv k))), putByte 0x12, putBytes (strBytes k), putByte 0xa]) (kv_enc kv k)"
    by (simp add: kv_enc_def fMsg_def del: runw.simps)
qed

lemma PbShard_message:
  "pb_message (PbShard_Size v) (PbShard_MarshalToSizedBuffer v) ''Shard''
    PbShard_field PbShard_zero (PbShard_enc v) (PbShard_ok v) PbShard_norm"
proof
  fix m :: PbShard
  assume ok: "PbShard_ok v m"
  let ?kv = "readKV (Shard_KV m)"
  let ?ks = "v ?kv"
  let ?maps = "concat (map (\<lambda>k. fMsg 0x12 (kv_enc ?kv k)) (rev ?ks))"
  show "PbShard_Size v (Some m) = length (PbShard_enc v m)"
    by (simp only: PbShard_Size_def PbShard_enc_def length_append length_map_entries length_kv_enc)
      (simp add: enc_lengths Let_def)
  show "fills (PbShard_MarshalToSizedBuffer v (Some m)) (PbShard_enc v m)"
    unfolding PbShard_MarshalToSizedBuffer_def PbShard_enc_def deref_simps go_bind.simps Let_def
    by (rule fills_sizedBuffer, rule writes_runw_eq[where e =
        "((([] @ fVarint 0x8 (Shard_ID m)) @ ?maps) @ fVarint 0x18 (scast (Shard_Status m)))"],
        intro writes_runw_Cons writes_runw_Nil writes_fVarint writes_fEnum writes_map writes_kv) simp
  have s1: "consumes ''Shard'' PbShard_field (fVarint 0x8 (Shard_ID m)) PbShard_zero (PbShard_zero\<lparr>Shard_ID := Shard_ID m\<rparr>)"
    by (rule consumes_fVarint[where fieldNum = 1], simp add: tagOk_def, rule PbShard_field_simps(1))
      (simp_all add: PbShard_zero_def)
  let ?st = "\<lambda>acc. PbShard_zero\<lparr>Shard_ID := Shard_ID m, Shard_KV := (if acc = Map.empty then None else Some acc)\<rparr>"
  have "consumes ''Shard'' PbShard_field (fMsg 0x12 (kv_enc ?kv k)) (?st acc) (?st (acc(k \<mapsto> the (?kv k))))" for k acc
    by (rule consumes_entry[where fieldNum = 2, OF _ _ eats_kv], simp add: tagOk_def, rule PbShard_field_simps(2))
      (auto simp: readKV_None)
  then have "consumes ''Shard'' PbShard_field ?maps (?st Map.empty) (?st (foldl (\<lambda>m k. m(k \<mapsto> the (?kv k))) Map.empty (rev ?ks)))"
    using consumes_fold[where st = ?st and f = "\<lambda>m k. m(k \<mapsto> the (?kv k))" and acc = Map.empty and xs = "rev ?ks"
        and enc = "\<lambda>k. fMsg 0x12 (kv_enc ?kv k)"] by simp
  moreover have fold: "foldl (\<lambda>m k. m(k \<mapsto> the (?kv k))) Map.empty (rev ?ks) = ?kv"
    by (rule all_entries) (use ok in \<open>auto simp: PbShard_ok_def\<close>)
  moreover have "?st Map.empty = PbShard_zero\<lparr>Shard_ID := Shard_ID m\<rparr>" by (simp add: PbShard_zero_def)
  ultimately have s2: "consumes ''Shard'' PbShard_field ?maps (PbShard_zero\<lparr>Shard_ID := Shard_ID m\<rparr>) (?st ?kv)"
    by (simp only: fold)
  have s3: "consumes ''Shard'' PbShard_field (fVarint 0x18 (scast (Shard_Status m))) (?st ?kv) (PbShard_norm m)"
    by (rule consumes_fVarint[where fieldNum = 3], simp add: tagOk_def, rule PbShard_field_simps(3))
      (cases m; simp add: PbShard_zero_def PbShard_norm_def)+
  show "consumes ''Shard'' PbShard_field (PbShard_enc v m) PbShard_zero (PbShard_norm m)"
    using consumes_append[OF s1 consumes_append[OF s2 s3]] by (simp add: PbShard_enc_def)
next
  show "handlerOk PbShard_field"
    by (rule handlerOkI) (auto simp: PbShard_field_def split: if_splits dest: field_stepOk mapCase_stepOk[OF _ _ _ kvEntry_ok])
qed

interpretation PbShard_pb: pb_message "PbShard_Size v" "PbShard_MarshalToSizedBuffer v" "''Shard''"
  PbShard_field PbShard_zero "PbShard_enc v" "PbShard_ok v" PbShard_norm for v
  by (rule PbShard_message)

section \<open>Responses of PullShards\<close>

lemma PullShardsResponse_field_simps:
  "PullShardsResponse_field A 1 wt dAtA iNdEx m = Some (msgCase wt ''Shards'' dAtA iNdEx (\<lambda>bs m.
      case PbShard_Unmarshal PbShard_zero bs of
        (x, err) \<Rightarrow> (m\<lparr>Pulled_Shards := Pulled_Shards m @ [Some x]\<rparr>, err)) m)"
  "PullShardsResponse_field A 2 wt dAtA iNdEx m = Some (mapCase wt ''ServerSessions'' dAtA iNdEx (sessionEntry A) (0, None) (\<lambda>m. m)
      (\<lambda>(k, x) m. m\<lparr>ServerSessions := (ServerSessions m)(k \<mapsto> x)\<rparr>) m)"
  "PullShardsResponse_field A 3 wt dAtA iNdEx m = Some (varintCase wt ''ConfigNum'' dAtA iNdEx (\<lambda>v m. m\<lparr>Pulled_ConfigNum := v\<rparr>) m)"
  by (simp_all add: PullShardsResponse_field_def)

lemma sessionEntry_simps:
  "sessionEntry A 1 dAtA iNdEx en = Some (numEntry dAtA iNdEx (fst en) (\<lambda>k. (k, snd en)))"
  "sessionEntry A 2 dAtA iNdEx en = Some (msgEntry dAtA iNdEx (PbServerSession_Unmarshal A PbServerSession_zero) (\<lambda>x. (fst en, Some x)) en)"
  by (simp_all add: sessionEntry_def)

lemma sessionEntry_ok:
  assumes any: "any_ok A aenc anorm"
  shows "entryOk (sessionEntry A)"
  by (rule entryOkI)
    (auto simp: sessionEntry_def split: if_splits dest!: numEntry_stepOk
      elim!: msgEntry_stepOk simp: PbServerSession_Unmarshal_def pb_codec.total[OF PbServerSession_codec[OF any]])

lemma eats_session:
  assumes any: "any_ok A aenc anorm"
  shows "eats (sessionEntry A) (session_enc aenc ss k) (0, None) (k, map_option (PbServerSession_norm anorm) (the (ss k)))"
proof -
  have 1: "eats (sessionEntry A) (0x8 # varint (unat k)) (0, None) (k, None)"
    by (rule eats_num[where n = 1]) (auto simp: entryTag_def sessionEntry_def)
  have 2: "eats (sessionEntry A) (fOpt 0x12 (PbServerSession_enc aenc) (the (ss k))) (k, None)
      (k, map_option (PbServerSession_norm anorm) (the (ss k)))"
  proof (cases "the (ss k)")
    case None
    then show ?thesis by (simp add: eats_Nil)
  next
    case (Some x)
    have "eats (sessionEntry A) (fMsg 0x12 (PbServerSession_enc aenc x)) (k, None) (k, Some (PbServerSession_norm anorm x))"
      by (rule eats_msg[where n = 2 and x = "PbServerSession_norm anorm x"], simp add: entryTag_def, rule sessionEntry_simps(2))
        (auto simp: PbServerSession_Unmarshal_def pb_codec.unmarshal_enc[OF PbServerSession_codec[OF any]])
    then show ?thesis using Some by simp
  qed
  show ?thesis unfolding session_enc_def by (rule eats_append[OF 1 2])
qed

lemma length_session_enc:
  assumes any: "any_ok A aenc anorm"
  shows "length (session_enc aenc ss k) = 1 + sov k +
    (if the (ss k) \<noteq> None then let l = PbServerSession_Size A (the (ss k)) in l + (1 + sov (of_nat l)) else 0)"
  using pb_codec.length_fOpt[OF PbServerSession_codec[OF any], of "the (ss k)" "0x12"]
  by (simp add: session_enc_def sov_length Let_def)

lemma writes_session:
  assumes any: "any_ok A aenc anorm"
  shows "writes (let x = the (ss k) in putEntry [whenw (x \<noteq> None) [putMsg (PbServerSession_MarshalToSizedBuffer A x), putByte 0x12],
      putVarint k, putByte 0x8] tag) (fMsg tag (session_enc aenc ss k))"
  unfolding Let_def
proof (rule writes_putEntry)
  have "writes (runw [whenw (the (ss k) \<noteq> None) [putMsg (PbServerSession_MarshalToSizedBuffer A (the (ss k))), putByte 0x12],
      putVarint k, putByte 0x8]) ((([] @ [0x8]) @ varint (unat k)) @ fOpt 0x12 (PbServerSession_enc aenc) (the (ss k)))"
    by (intro writes_runw_Cons writes_runw_Nil writes_intros pb_codec.writes_fOpt[OF PbServerSession_codec[OF any]]) simp
  then show "writes (runw [whenw (the (ss k) \<noteq> None) [putMsg (PbServerSession_MarshalToSizedBuffer A (the (ss k))), putByte 0x12],
      putVarint k, putByte 0x8]) (session_enc aenc ss k)"
    by (simp add: session_enc_def del: runw.simps)
qed

lemma shards_marshalled:
  assumes "PullShardsResponse_ok v w m"
  shows "None \<notin> set (Pulled_Shards m)" "\<And>x. Some x \<in> set (Pulled_Shards m) \<Longrightarrow> PbShard_ok v x"
  using assms by (force simp: PullShardsResponse_ok_def)+

lemma PullShardsResponse_fills:
  assumes any: "any_ok A aenc anorm" and ok: "PullShardsResponse_ok v w m"
  shows "fills (PullShardsResponse_MarshalToSizedBuffer A v w (Some m)) (PullShardsResponse_enc aenc v w m)"
proof -
  have sessions: "writes (whenw (0 < length (w (ServerSessions m))) (map (\<lambda>k. let x = the (ServerSessions m k) in
      putEntry [whenw (x \<noteq> None) [putMsg (PbServerSession_MarshalToSizedBuffer A x), putByte 0x12], putVarint k, putByte 0x8] 0x12)
      (w (ServerSessions m)))) (concat (map (\<lambda>k. fMsg 0x12 (session_enc aenc (ServerSessions m) k)) (rev (w (ServerSessions m)))))"
    by (rule writes_map, rule writes_session[OF any])
  note shards = PbShard_pb.writes_fRepeated[OF shards_marshalled[OF ok], where tag = "0xa"]
  have "writes (runw [whenw (Pulled_ConfigNum m \<noteq> 0) [putVarint (Pulled_ConfigNum m), putByte 0x18],
      whenw (0 < length (w (ServerSessions m))) (map (\<lambda>k. let x = the (ServerSessions m k) in
        putEntry [whenw (x \<noteq> None) [putMsg (PbServerSession_MarshalToSizedBuffer A x), putByte 0x12], putVarint k, putByte 0x8] 0x12)
        (w (ServerSessions m))),
      whenw (0 < length (Pulled_Shards m))
        (map (\<lambda>e. runw [putMsg (PbShard_MarshalToSizedBuffer v e), putByte 0xa]) (rev (Pulled_Shards m)))])
      ((([] @ concat (map (fOpt 0xa (PbShard_enc v)) (Pulled_Shards m))) @
        concat (map (\<lambda>k. fMsg 0x12 (session_enc aenc (ServerSessions m) k)) (rev (w (ServerSessions m))))) @
        fVarint 0x18 (Pulled_ConfigNum m))"
    by (rule writes_runw_Cons[OF writes_fVarint writes_runw_Cons[OF sessions writes_runw_Cons[OF shards writes_runw_Nil]]])
  from fills_sizedBuffer[OF this] show ?thesis
    unfolding PullShardsResponse_MarshalToSizedBuffer_def PullShardsResponse_enc_def deref_simps go_bind.simps Let_def
    by (simp only: append_Nil append_assoc)
qed

lemma PullShardsResponse_decodes:
  fixes A :: "'any any_codec"
  assumes any: "any_ok A aenc anorm" and ok: "PullShardsResponse_ok v w m"
  shows "consumes ''PullShardsResponse'' (PullShardsResponse_field A) (PullShardsResponse_enc aenc v w m)
    PullShardsResponse_zero (PullShardsResponse_norm anorm m)"
proof -
  let ?c = "consumes ''PullShardsResponse'' (PullShardsResponse_field A)"
  let ?z = "PullShardsResponse_zero :: 'any PullShardsResponse" and ?ss = "ServerSessions m"
  let ?shards = "map (map_option PbShard_norm) (Pulled_Shards m)"
  let ?x = "\<lambda>k. map_option (PbServerSession_norm anorm) (the (?ss k))"
  let ?norm = "\<lambda>k. map_option (map_option (PbServerSession_norm anorm)) (?ss k)"
  let ?maps = "concat (map (\<lambda>k. fMsg 0x12 (session_enc aenc ?ss k)) (rev (w ?ss)))"
  have "?c (concat (map (fOpt 0xa (PbShard_enc v)) (Pulled_Shards m)))
      (?z\<lparr>Pulled_Shards := []\<rparr>) (?z\<lparr>Pulled_Shards := [] @ ?shards\<rparr>)"
    by (rule PbShard_pb.consumes_repeated[where n = 1 and st = "\<lambda>acc. ?z\<lparr>Pulled_Shards := acc\<rparr>"],
        simp add: tagOk_def, rule PullShardsResponse_field_simps(1)[unfolded PbShard_Unmarshal_def])
      (use shards_marshalled[OF ok] in auto)
  then have s1: "?c (concat (map (fOpt 0xa (PbShard_enc v)) (Pulled_Shards m))) ?z (?z\<lparr>Pulled_Shards := ?shards\<rparr>)"
    by (simp add: PullShardsResponse_zero_def)
  let ?st = "\<lambda>acc. ?z\<lparr>Pulled_Shards := ?shards, ServerSessions := acc\<rparr>"
  have "?c (fMsg 0x12 (session_enc aenc ?ss k)) (?st acc) (?st (acc(k \<mapsto> ?x k)))" for k acc
    by (rule consumes_entry[where fieldNum = 2, OF _ _ eats_session[OF any]], simp add: tagOk_def,
        rule PullShardsResponse_field_simps(2)) simp
  then have "?c ?maps (?st Map.empty) (?st (foldl (\<lambda>m k. m(k \<mapsto> ?x k)) Map.empty (rev (w ?ss))))"
    using consumes_fold[where st = ?st and f = "\<lambda>m k. m(k \<mapsto> ?x k)" and acc = Map.empty and xs = "rev (w ?ss)"
        and enc = "\<lambda>k. fMsg 0x12 (session_enc aenc ?ss k)"] by simp
  moreover have fold: "foldl (\<lambda>m k. m(k \<mapsto> ?x k)) Map.empty (rev (w ?ss)) = ?norm"
    by (rule all_entries) (use ok in \<open>auto simp: PullShardsResponse_ok_def dom_def\<close>)
  moreover have "?st Map.empty = ?z\<lparr>Pulled_Shards := ?shards\<rparr>" by (simp add: PullShardsResponse_zero_def)
  ultimately have s2: "?c ?maps (?z\<lparr>Pulled_Shards := ?shards\<rparr>) (?st ?norm)" by (simp only: fold)
  have s3: "?c (fVarint 0x18 (Pulled_ConfigNum m)) (?st ?norm) (PullShardsResponse_norm anorm m)"
    by (rule consumes_fVarint[where fieldNum = 3], simp add: tagOk_def, rule PullShardsResponse_field_simps(3))
      (cases m; simp add: PullShardsResponse_zero_def PullShardsResponse_norm_def)+
  show ?thesis
    using consumes_append[OF s1 consumes_append[OF s2 s3]] by (simp add: PullShardsResponse_enc_def)
qed

lemma PullShardsResponse_message:
  assumes any: "any_ok A aenc anorm"
  shows "pb_message (PullShardsResponse_Size A v w) (PullShardsResponse_MarshalToSizedBuffer A v w) ''PullShardsResponse''
    (PullShardsResponse_field A) PullShardsResponse_zero (PullShardsResponse_enc aenc v w) (PullShardsResponse_ok v w)
    (PullShardsResponse_norm anorm)"
proof
  fix m :: "'a PullShardsResponse"
  assume ok: "PullShardsResponse_ok v w m"
  note shards = PbShard_pb.length_repeated[OF shards_marshalled[OF ok]]
  show "PullShardsResponse_Size A v w (Some m) = length (PullShardsResponse_enc aenc v w m)"
    by (simp only: PullShardsResponse_Size_def PullShardsResponse_enc_def length_append length_map_entries
        shards length_session_enc[OF any] option.case Let_def) (simp add: enc_lengths Let_def)
  show "fills (PullShardsResponse_MarshalToSizedBuffer A v w (Some m)) (PullShardsResponse_enc aenc v w m)"
    using any ok by (rule PullShardsResponse_fills)
  show "consumes ''PullShardsResponse'' (PullShardsResponse_field A) (PullShardsResponse_enc aenc v w m)
      PullShardsResponse_zero (PullShardsResponse_norm anorm m)"
    using any ok by (rule PullShardsResponse_decodes)
next
  show "handlerOk (PullShardsResponse_field A)"
    by (rule handlerOkI) (auto simp: PullShardsResponse_field_def PbShard_Unmarshal_def split: if_splits
        dest: field_stepOk PbShard_pb.msgCase_stepOk_field mapCase_stepOk[OF _ _ _ sessionEntry_ok[OF any]])
qed

lemmas PullShardsResponse_codec = pb_message.codec[OF PullShardsResponse_message]

section \<open>Commands of a store server\<close>

lemma KvArgs_field_simps:
  "KvArgs_field A 1 wt dAtA iNdEx m = Some (varintCase wt ''Type'' dAtA iNdEx (\<lambda>v m. m\<lparr>KvArgs_Type := v\<rparr>) m)"
  "KvArgs_field A 2 wt dAtA iNdEx m = Some (msgCase wt ''SessionHeader'' dAtA iNdEx (\<lambda>bs m.
              case SessionHeader_Unmarshal (case KvArgs_SessionHeader m of None \<Rightarrow> SessionHeader_zero | Some x \<Rightarrow> x) bs of
                (x, err) \<Rightarrow> (m\<lparr>KvArgs_SessionHeader := Some x\<rparr>, err)) m)"
  "KvArgs_field A 3 wt dAtA iNdEx m = Some (strCase wt ''Key'' dAtA iNdEx (\<lambda>s m. m\<lparr>KvArgs_Key := s\<rparr>) m)"
  "KvArgs_field A 4 wt dAtA iNdEx m = Some (strCase wt ''Value'' dAtA iNdEx (\<lambda>s m. m\<lparr>KvArgs_Value := s\<rparr>) m)"
  "KvArgs_field A 5 wt dAtA iNdEx m = Some (msgCase wt ''NextConfig'' dAtA iNdEx (\<lambda>bs m.
              case PbConfig_Unmarshal (case NextConfig m of None \<Rightarrow> PbConfig_zero | Some x \<Rightarrow> x) bs of
                (x, err) \<Rightarrow> (m\<lparr>NextConfig := Some x\<rparr>, err)) m)"
  "KvArgs_field A 6 wt dAtA iNdEx m = Some (packedCase wt ''ShardIDs'' dAtA iNdEx ShardIDs (\<lambda>ns m. m\<lparr>ShardIDs := ns\<rparr>) m)"
  "KvArgs_field A 7 wt dAtA iNdEx m = Some (varintCase wt ''ConfigNum'' dAtA iNdEx (\<lambda>v m. m\<lparr>ConfigNum := v\<rparr>) m)"
  "KvArgs_field A 8 wt dAtA iNdEx m = Some (msgCase wt ''PulledShards'' dAtA iNdEx (\<lambda>bs m.
              case PullShardsResponse_Unmarshal A (case PulledShards m of None \<Rightarrow> PullShardsResponse_zero | Some x \<Rightarrow> x) bs of
                (x, err) \<Rightarrow> (m\<lparr>PulledShards := Some x\<rparr>, err)) m)"
  by (simp_all add: KvArgs_field_def)

lemma KvArgs_decodes:
  fixes A :: "'any any_codec"
  assumes any: "any_ok A aenc anorm" and ok: "KvArgs_ok v w m"
  shows "consumes ''Args'' (KvArgs_field A) (KvArgs_enc aenc v w m) KvArgs_zero (KvArgs_norm anorm m)"
proof -
  let ?c = "consumes ''Args'' (KvArgs_field A)" and ?z = "KvArgs_zero :: 'any KvArgs"
  have s1: "?c (fVarint 0x8 (scast (KvArgs_Type m))) ?z
      (?z\<lparr>KvArgs_Type := KvArgs_Type m\<rparr>)"
    by (rule consumes_fVarint[where fieldNum = 1], simp add: tagOk_def, rule KvArgs_field_simps(1)) (simp_all add: KvArgs_zero_def)
  have s2: "?c (fOpt 0x12 SessionHeader_enc (KvArgs_SessionHeader m)) (?z\<lparr>KvArgs_Type := KvArgs_Type m\<rparr>)
      (?z\<lparr>KvArgs_Type := KvArgs_Type m, KvArgs_SessionHeader := KvArgs_SessionHeader m\<rparr>)"
    by (rule SessionHeader_pb.consumes_fOpt[where n = 2], simp add: tagOk_def, rule KvArgs_field_simps(2)[unfolded SessionHeader_Unmarshal_def])
      (use ok in \<open>auto simp: KvArgs_zero_def KvArgs_ok_def\<close>)
  have s3: "?c (fStr 0x1a (KvArgs_Key m)) (?z\<lparr>KvArgs_Type := KvArgs_Type m, KvArgs_SessionHeader := KvArgs_SessionHeader m\<rparr>)
      (?z\<lparr>KvArgs_Type := KvArgs_Type m, KvArgs_SessionHeader := KvArgs_SessionHeader m, KvArgs_Key := KvArgs_Key m\<rparr>)"
    by (rule consumes_fStr[where fieldNum = 3], simp add: tagOk_def, rule KvArgs_field_simps(3)) (simp_all add: KvArgs_zero_def)
  have s4: "?c (fStr 0x22 (KvArgs_Value m)) (?z\<lparr>KvArgs_Type := KvArgs_Type m, KvArgs_SessionHeader := KvArgs_SessionHeader m, KvArgs_Key := KvArgs_Key m\<rparr>)
      (?z\<lparr>KvArgs_Type := KvArgs_Type m, KvArgs_SessionHeader := KvArgs_SessionHeader m, KvArgs_Key := KvArgs_Key m, KvArgs_Value := KvArgs_Value m\<rparr>)"
    by (rule consumes_fStr[where fieldNum = 4], simp add: tagOk_def, rule KvArgs_field_simps(4)) (simp_all add: KvArgs_zero_def)
  have s5: "?c (fOpt 0x2a PbConfig_enc (NextConfig m)) (?z\<lparr>KvArgs_Type := KvArgs_Type m, KvArgs_SessionHeader := KvArgs_SessionHeader m, KvArgs_Key := KvArgs_Key m, KvArgs_Value := KvArgs_Value m\<rparr>)
      (?z\<lparr>KvArgs_Type := KvArgs_Type m, KvArgs_SessionHeader := KvArgs_SessionHeader m, KvArgs_Key := KvArgs_Key m, KvArgs_Value := KvArgs_Value m, NextConfig := NextConfig m\<rparr>)"
    by (rule PbConfig_pb.consumes_fOpt[where n = 5], simp add: tagOk_def, rule KvArgs_field_simps(5)[unfolded PbConfig_Unmarshal_def])
      (use ok in \<open>auto simp: KvArgs_zero_def KvArgs_ok_def\<close>)
  have s6: "?c (fPacked 0x32 (ShardIDs m)) (?z\<lparr>KvArgs_Type := KvArgs_Type m, KvArgs_SessionHeader := KvArgs_SessionHeader m, KvArgs_Key := KvArgs_Key m, KvArgs_Value := KvArgs_Value m, NextConfig := NextConfig m\<rparr>)
      (?z\<lparr>KvArgs_Type := KvArgs_Type m, KvArgs_SessionHeader := KvArgs_SessionHeader m, KvArgs_Key := KvArgs_Key m, KvArgs_Value := KvArgs_Value m, NextConfig := NextConfig m, ShardIDs := ShardIDs m\<rparr>)"
    by (rule consumes_fPacked[where fieldNum = 6], simp add: tagOk_def, rule KvArgs_field_simps(6)) (simp_all add: KvArgs_zero_def)
  have s7: "?c (fVarint 0x38 (ConfigNum m)) (?z\<lparr>KvArgs_Type := KvArgs_Type m, KvArgs_SessionHeader := KvArgs_SessionHeader m, KvArgs_Key := KvArgs_Key m, KvArgs_Value := KvArgs_Value m, NextConfig := NextConfig m, ShardIDs := ShardIDs m\<rparr>)
      (?z\<lparr>KvArgs_Type := KvArgs_Type m, KvArgs_SessionHeader := KvArgs_SessionHeader m, KvArgs_Key := KvArgs_Key m, KvArgs_Value := KvArgs_Value m, NextConfig := NextConfig m, ShardIDs := ShardIDs m, ConfigNum := ConfigNum m\<rparr>)"
    by (rule consumes_fVarint[where fieldNum = 7], simp add: tagOk_def, rule KvArgs_field_simps(7)) (simp_all add: KvArgs_zero_def)
  have s8: "?c (fOpt 0x42 (PullShardsResponse_enc aenc v w) (PulledShards m)) (?z\<lparr>KvArgs_Type := KvArgs_Type m, KvArgs_SessionHeader := KvArgs_SessionHeader m, KvArgs_Key := KvArgs_Key m, KvArgs_Value := KvArgs_Value m, NextConfig := NextConfig m, ShardIDs := ShardIDs m, ConfigNum := ConfigNum m\<rparr>)
      (KvArgs_norm anorm m)"
    by (rule pb_codec.consumes_fOpt[OF PullShardsResponse_codec[OF any], where n = 8], simp add: tagOk_def, rule KvArgs_field_simps(8)[unfolded PullShardsResponse_Unmarshal_def])
      (use ok in \<open>auto simp: KvArgs_zero_def KvArgs_ok_def KvArgs_norm_def\<close>)
  show ?thesis
    using consumes_append[OF s1 consumes_append[OF s2 consumes_append[OF s3 consumes_append[OF s4 consumes_append[OF s5 consumes_append[OF s6 consumes_append[OF s7 s8]]]]]]]
    by (simp add: KvArgs_enc_def)
qed

lemma KvArgs_message:
  assumes any: "any_ok A aenc anorm"
  shows "pb_message (KvArgs_Size A v w) (KvArgs_MarshalToSizedBuffer A v w) ''Args'' (KvArgs_field A) KvArgs_zero
    (KvArgs_enc aenc v w) (KvArgs_ok v w) (KvArgs_norm anorm)"
proof
  note pulled = PullShardsResponse_codec[OF any]
  fix m :: "'a KvArgs"
  assume ok: "KvArgs_ok v w m"
  have "length (fOpt 0x42 (PullShardsResponse_enc aenc v w) (PulledShards m)) = (if PulledShards m \<noteq> None
      then let l = PullShardsResponse_Size A v w (PulledShards m) in 1 + l + sov (of_nat l) else 0)"
    by (rule pb_codec.length_fOpt[OF pulled]) (use ok in \<open>simp add: KvArgs_ok_def\<close>)
  moreover have "length (fOpt 0x2a PbConfig_enc (NextConfig m)) = (if NextConfig m \<noteq> None
      then let l = PbConfig_Size (NextConfig m) in 1 + l + sov (of_nat l) else 0)"
    by (rule PbConfig_pb.length_fOpt) (use ok in \<open>simp add: KvArgs_ok_def\<close>)
  moreover have "length (fOpt 0x12 SessionHeader_enc (KvArgs_SessionHeader m)) = (if KvArgs_SessionHeader m \<noteq> None
      then let l = SessionHeader_Size (KvArgs_SessionHeader m) in 1 + l + sov (of_nat l) else 0)"
    by (rule SessionHeader_pb.length_fOpt) simp
  ultimately show "KvArgs_Size A v w (Some m) = length (KvArgs_enc aenc v w m)"
    by (simp only: KvArgs_Size_def KvArgs_enc_def length_append option.case length_fVarint length_fStr length_fPacked
        scast_enum_eq_0 if_not_P) (simp split: if_splits)
  show "fills (KvArgs_MarshalToSizedBuffer A v w (Some m)) (KvArgs_enc aenc v w m)"
    unfolding KvArgs_MarshalToSizedBuffer_def KvArgs_enc_def deref_simps go_bind.simps
    by (rule fills_sizedBuffer, rule writes_runw_eq[where e =
        "(((((((([] @ fVarint 0x8 (scast (KvArgs_Type m))) @ fOpt 0x12 SessionHeader_enc (KvArgs_SessionHeader m)) @ fStr 0x1a (KvArgs_Key m)) @ fStr 0x22 (KvArgs_Value m)) @ fOpt 0x2a PbConfig_enc (NextConfig m)) @ fPacked 0x32 (ShardIDs m)) @ fVarint 0x38 (ConfigNum m)) @ fOpt 0x42 (PullShardsResponse_enc aenc v w) (PulledShards m))"],
        intro writes_runw_Cons writes_runw_Nil writes_fVarint writes_fEnum writes_fStr writes_fPacked
          SessionHeader_pb.writes_fOpt PbConfig_pb.writes_fOpt pb_codec.writes_fOpt[OF pulled])
      (use ok in \<open>auto simp: KvArgs_ok_def split: option.splits\<close>)
  show "consumes ''Args'' (KvArgs_field A) (KvArgs_enc aenc v w m) KvArgs_zero (KvArgs_norm anorm m)"
    using any ok by (rule KvArgs_decodes)
next
  show "handlerOk (KvArgs_field A)"
    by (rule handlerOkI) (auto simp: KvArgs_field_def SessionHeader_Unmarshal_def PbConfig_Unmarshal_def PullShardsResponse_Unmarshal_def
        split: if_splits dest: field_stepOk strCase_stepOk packedCase_stepOk SessionHeader_pb.msgCase_stepOk_field
        PbConfig_pb.msgCase_stepOk_field pb_codec.msgCase_stepOk_field[OF PullShardsResponse_codec[OF any]])
qed

lemmas KvArgs_codec = pb_message.codec[OF KvArgs_message]

end
