(* ===== verification/KV_Migration.thy ===== *)
theory KV_Migration
  imports KV_Laws Service_Codec_Maps
begin

text \<open>
  The laws of the store and of the migration of its shards: the shards of a server read as one map
  from keys to values, the statuses a new configuration gives to the shards, and the transfer of
  shards and sessions from one group to another.
\<close>

section \<open>The store as a map\<close>

definition keys_ok :: "(string \<Rightarrow> int64) \<Rightarrow> bool" where
  "keys_ok k2s \<longleftrightarrow> (\<forall>key. 0 \<le> sint (k2s key) \<and> sint (k2s key) < int NShards)"

text \<open>Whether the server serves a key: what \<^verbatim>\<open>checkShard\<close> decides.\<close>

definition served :: "(string \<Rightarrow> int64) \<Rightarrow> int64 \<Rightarrow> 'any StateMachine \<Rightarrow> string \<Rightarrow> bool" where
  "served k2s gid s key \<longleftrightarrow>
     (\<exists>sh st. shardAt s (k2s key) = Some sh \<and> Status (Some sh) = Ok st \<and> (st = SERVING \<or> st = GC)) \<and>
     Config_Shards (the (CurrentConfig s)) ! nat (sint (k2s key)) = gid"

definition lookup :: "(string \<Rightarrow> int64) \<Rightarrow> 'any StateMachine \<Rightarrow> string \<Rightarrow> string option" where
  "lookup k2s s key = (case shardAt s (k2s key) of None \<Rightarrow> None | Some sh \<Rightarrow> shard_content sh key)"

definition writable :: "(string \<Rightarrow> int64) \<Rightarrow> 'any StateMachine \<Rightarrow> string \<Rightarrow> bool" where
  "writable k2s s key \<longleftrightarrow> (\<exists>sh. shardAt s (k2s key) = Some sh \<and> shard_ok sh)"

lemma checkShard_spec:
  assumes "kv_ok s" "keys_ok k2s"
  shows "checkShard k2s gid key s = Ok (served k2s gid s key)"
proof -
  obtain c where c: "CurrentConfig s = Some c" "length (Config_Shards c) = NShards"
    using assms(1) by (auto simp: kv_ok_def config_ok_def)
  have ok: "shards_ok (Shards s)" using assms(1) by (simp add: kv_ok_def)
  have i: "0 \<le> sint (k2s key)" "sint (k2s key) < int (length (Config_Shards c))"
    using assms(2) c(2) by (auto simp: keys_ok_def)
  show ?thesis
    by (rule shardAt_ok[OF ok, of "k2s key"]) (simp_all add: checkShard_def served_def Let_def c(1) indexInt_def i)
qed

lemma Shard_readonly_Get:
  assumes "shards_ok (Shards s)" "shardAt s i = Some sh"
  shows "Shard_Get k (Some sh) = Ok (case shard_content sh k of Some v \<Rightarrow> (v, None) | None \<Rightarrow> ([], Some ErrNoKey))"
  by (rule shardAt_ok[OF assms(1), of i]) (use assms(2) in \<open>auto simp: Shard_Get_def shardOf_def\<close>)

lemma not_writable:
  assumes "kv_ok s" "shardAt s i = Some sh" "\<not> shard_ok sh"
  shows "Shard_Put k v (Some sh) = Panic NilMapWrite" "Shard_Append k v (Some sh) = Panic NilMapWrite"
proof -
  have ok: "shards_ok (Shards s)" using assms(1) by (simp add: kv_ok_def)
  obtain pb where "sh = Shard (Some pb)" by (rule shardAt_ok[OF ok, of i]) (use assms(2) in auto)
  then show "Shard_Put k v (Some sh) = Panic NilMapWrite" "Shard_Append k v (Some sh) = Panic NilMapWrite"
    using assms(3) by (simp_all add: Shard_Put_def Shard_Append_def shardOf_def Let_def)
qed

text \<open>Writing a shard that keeps its status changes the map at the written key only.\<close>

lemma write_lookup:
  assumes "shardAt s (k2s key) = Some sh" "shard_content sh' = (shard_content sh)(key \<mapsto> v)"
  shows "lookup k2s (putShard (k2s key) sh' s) = (lookup k2s s)(key \<mapsto> v)"
  using assms by (auto simp: lookup_def shardAt_put fun_eq_iff split: option.splits)

lemma write_served:
  assumes "shardAt s (k2s key) = Some sh" "Status (Some sh') = Status (Some sh)"
  shows "served k2s gid (putShard (k2s key) sh' s) = served k2s gid s"
  using assms by (auto simp: served_def shardAt_put fun_eq_iff)

lemma write_status:
  assumes "Shard_Put k v (Some sh) = Ok (sh', e) \<or> Shard_Append k v (Some sh) = Ok (sh', e)"
  shows "Status (Some sh') = Status (Some sh)"
proof -
  obtain pb kv where "sh = Shard (Some pb)" "Shard_KV pb = Some kv"
    using assms by (cases sh) (auto simp: Shard_Put_def Shard_Append_def shardOf_def Let_def split: option.split_asm)
  then show ?thesis using assms by (auto simp: Shard_Put_def Shard_Append_def shardOf_def Let_def)
qed

section \<open>Reconfiguration\<close>

text \<open>The status a shard gets when its group changes from \<open>old\<close> to \<open>new\<close>.\<close>

definition nextStatus :: "int64 \<Rightarrow> int64 \<Rightarrow> int64 \<Rightarrow> int32 \<Rightarrow> int32" where
  "nextStatus gid old new st =
     (if old = gid \<and> new \<noteq> gid then BE_PULLING else if old \<noteq> gid \<and> new = gid then PULLING else st)"

definition restatus :: "(int32 \<Rightarrow> int32) \<Rightarrow> Shard \<Rightarrow> Shard" where
  "restatus f sh = Shard (map_option (\<lambda>pb. pb\<lparr>Shard_Status := f (Shard_Status pb)\<rparr>) (pbShard sh))"

lemma restatus_id: "restatus (\<lambda>st. st) = (\<lambda>sh. sh)"
proof
  fix sh show "restatus (\<lambda>st. st) sh = sh" by (cases sh) (simp add: restatus_def option.map_ident)
qed

lemma statusOne_spec:
  assumes ok: "shards_ok (Shards s)" and n: "n < length (Config_Shards c)"
    and there: "(Config_Shards c ! n = gid) = (g = gid) \<or> shardAt s (of_nat n) \<noteq> None"
  shows "\<exists>s'. statusOne (Some c) gid s (n, g) = Ok s' \<and> shards_step s s' \<and>
    shardAt s' (of_nat n) = map_option (restatus (nextStatus gid (Config_Shards c ! n) g)) (shardAt s (of_nat n)) \<and>
    (\<forall>i. i \<noteq> of_nat n \<longrightarrow> shardAt s' i = shardAt s i)"
proof (cases "(Config_Shards c ! n = gid) = (g = gid)")
  case True
  then have "nextStatus gid (Config_Shards c ! n) g = (\<lambda>st. st)" by (auto simp: nextStatus_def fun_eq_iff)
  then show ?thesis using True n shards_step_refl[OF ok]
    by (auto simp: statusOne_def indexInt_def restatus_id option.map_ident)
next
  case False
  with there have "shardAt s (of_nat n) \<noteq> None" by auto
  then obtain pb where pb: "shardAt s (of_nat n) = Some (Shard (Some pb))" "Shard_ID pb = of_nat n"
    by (rule_tac shardAt_ok[OF ok, of "of_nat n"]) auto
  let ?f = "nextStatus gid (Config_Shards c ! n) g"
  have "statusOne (Some c) gid s (n, g) = Ok (putShard (of_nat n) (Shard (Some (pb\<lparr>Shard_Status := ?f (Shard_Status pb)\<rparr>))) s)"
    using False n pb(1) by (auto simp: statusOne_def indexInt_def nextStatus_def)
  moreover have "shards_step s (putShard (of_nat n) (Shard (Some (pb\<lparr>Shard_Status := ?f (Shard_Status pb)\<rparr>))) s)"
    using pb by (intro shards_step_put[OF ok]) simp_all
  ultimately show ?thesis using pb(1) by (simp add: shardAt_put restatus_def)
qed

lemma of_nat_small_eq: "i < 2 ^ 64 \<Longrightarrow> j < 2 ^ 64 \<Longrightarrow> (of_nat i :: int64) = of_nat j \<longleftrightarrow> i = j"
  by (metis unat_of_nat_64)

lemma updateLoop_spec:
  assumes "shards_ok (Shards s)" "n + length gs \<le> length (Config_Shards c)" "length (Config_Shards c) < 2 ^ 64"
    "\<forall>j < length gs. (Config_Shards c ! (n + j) = gid) = (gs ! j = gid) \<or> shardAt s (of_nat (n + j)) \<noteq> None"
  shows "\<exists>s'. foldM_go (statusOne (Some c) gid) s (enumerate n gs) = Ok s' \<and> shards_step s s' \<and>
    (\<forall>j < length gs. shardAt s' (of_nat (n + j)) =
       map_option (restatus (nextStatus gid (Config_Shards c ! (n + j)) (gs ! j))) (shardAt s (of_nat (n + j)))) \<and>
    (\<forall>i. (\<forall>j < length gs. i \<noteq> of_nat (n + j)) \<longrightarrow> shardAt s' i = shardAt s i)"
  using assms
proof (induction gs arbitrary: n s)
  case Nil
  then show ?case by (simp add: shards_step_refl)
next
  case (Cons g gs)
  have n: "n < length (Config_Shards c)" using Cons.prems(2) by simp
  have "(Config_Shards c ! n = gid) = (g = gid) \<or> shardAt s (of_nat n) \<noteq> None" using Cons.prems(4)[rule_format, of 0] by simp
  from statusOne_spec[OF Cons.prems(1) n this] obtain s1 where
    1: "statusOne (Some c) gid s (n, g) = Ok s1" "shards_step s s1"
      "shardAt s1 (of_nat n) = map_option (restatus (nextStatus gid (Config_Shards c ! n) g)) (shardAt s (of_nat n))"
      "\<And>i. i \<noteq> of_nat n \<Longrightarrow> shardAt s1 i = shardAt s i" by blast
  have diff: "(of_nat (Suc n + j) :: int64) \<noteq> of_nat n" if "j < length gs" for j
    using that Cons.prems(2,3) of_nat_small_eq[of "Suc n + j" n] by simp
  have "\<forall>j < length gs. (Config_Shards c ! (Suc n + j) = gid) = (gs ! j = gid) \<or> shardAt s1 (of_nat (Suc n + j)) \<noteq> None"
    using Cons.prems(4)[rule_format, of "Suc j" for j] 1(4) diff by (auto simp del: of_nat_add of_nat_Suc)
  with Cons.IH[of s1 "Suc n"] 1(2) Cons.prems(2,3) obtain s2 where
    2: "foldM_go (statusOne (Some c) gid) s1 (enumerate (Suc n) gs) = Ok s2" "shards_step s1 s2"
      "\<And>j. j < length gs \<Longrightarrow> shardAt s2 (of_nat (Suc n + j)) =
         map_option (restatus (nextStatus gid (Config_Shards c ! (Suc n + j)) (gs ! j))) (shardAt s1 (of_nat (Suc n + j)))"
      "\<And>i. (\<And>j. j < length gs \<Longrightarrow> i \<noteq> of_nat (Suc n + j)) \<Longrightarrow> shardAt s2 i = shardAt s1 i"
    by (auto simp: shards_step_def simp del: of_nat_add of_nat_Suc)
  have old: "shardAt s2 (of_nat n) = shardAt s1 (of_nat n)" using diff by (intro 2(4)) metis
  have new: "shardAt s2 (of_nat (n + j)) =
      map_option (restatus (nextStatus gid (Config_Shards c ! (n + j)) ((g # gs) ! j))) (shardAt s (of_nat (n + j)))"
    if "j < length (g # gs)" for j
  proof (cases j)
    case 0
    then show ?thesis using old 1(3) by simp
  next
    case (Suc k)
    then have k: "k < length gs" using that by simp
    then show ?thesis using 2(3)[OF k] 1(4)[OF diff[OF k]] Suc by (simp del: of_nat_add of_nat_Suc)
  qed
  have rest: "shardAt s2 i = shardAt s i" if "\<And>j. j < length (g # gs) \<Longrightarrow> i \<noteq> of_nat (n + j)" for i
  proof -
    have "i \<noteq> of_nat n" using that[of 0] by simp
    moreover have "i \<noteq> of_nat (Suc n + j)" if "j < length gs" for j
      using \<open>\<And>j. j < length (g # gs) \<Longrightarrow> i \<noteq> of_nat (n + j)\<close>[of "Suc j"] that by (simp del: of_nat_add of_nat_Suc)
    ultimately show ?thesis using 2(4)[of i] 1(4)[of i] by simp
  qed
  have "foldM_go (statusOne (Some c) gid) s (enumerate n (g # gs)) = Ok s2" using 1(1) 2(1) by simp
  moreover have "shards_step s s2" using 1(2) 2(2) by (rule shards_step_trans)
  ultimately show ?case using new rest by blast
qed

text \<open>The loop passes a shard that changes hands only where the group has an entry for it.\<close>

lemma statusLoop_missing:
  assumes "foldM_go (statusOne (Some c) gid) s xs = Ok s'" "shards_ok (Shards s)" "(n, g) \<in> set xs" "shardAt s (of_nat n) = None"
  shows "(Config_Shards c ! n = gid) = (g = gid)"
  using assms
proof (induction xs arbitrary: s)
  case (Cons x xs)
  obtain n0 g0 where x: "x = (n0, g0)" by force
  from Cons.prems(1) obtain s1 where 1: "statusOne (Some c) gid s x = Ok s1" "foldM_go (statusOne (Some c) gid) s1 xs = Ok s'"
    by auto
  have st: "shards_step s s1" using statusOne_step[OF Cons.prems(2) 1(1)] .
  have "of_nat n \<notin> dom (Shards s)"
    by (rule shardAt_ok[OF Cons.prems(2), of "of_nat n"]) (use Cons.prems(4) in auto)
  then have "of_nat n \<notin> dom (Shards s1)" using st by (simp add: shards_step_def)
  then have "shardAt s1 (of_nat n) = None" by (simp add: shardAt_def domIff)
  then have "(Config_Shards c ! n = gid) = (g = gid)" if "(n, g) \<in> set xs"
    using Cons.IH[OF 1(2)] st that by (simp add: shards_step_def)
  moreover have "(Config_Shards c ! n = gid) = (g = gid)" if "x = (n, g)"
    using 1(1) Cons.prems(4) that
    by (auto simp: statusOne_def indexInt_def SetStatus_def shardOf_def split: if_splits)
  ultimately show ?case using Cons.prems(3) by auto
qed simp

section \<open>Transfer of shards\<close>

text \<open>What a trip over the wire changes of shards and sessions.\<close>

lemma PbShard_norm_simps [simp]:
  "Shard_ID (PbShard_norm pb) = Shard_ID pb" "Shard_Status (PbShard_norm pb) = Shard_Status pb"
  "readKV (Shard_KV (PbShard_norm pb)) = readKV (Shard_KV pb)"
  by (simp_all add: PbShard_norm_def readKV_None)

lemma norm_response:
  fixes resp :: "'any PullShardsResponse"
  shows "Pulled_ConfigNum (PullShardsResponse_norm anorm resp) = Pulled_ConfigNum resp"
    "Pulled_Shards (PullShardsResponse_norm anorm resp) = map (map_option PbShard_norm) (Pulled_Shards resp)"
    "response_ok resp \<Longrightarrow> response_ok (PullShardsResponse_norm anorm resp)"
    "response_ok resp \<Longrightarrow> map_option (\<lambda>p. Session_ProcessedSeq (the p)) (ServerSessions (PullShardsResponse_norm anorm resp) i) =
       map_option (\<lambda>p. Session_ProcessedSeq (the p)) (ServerSessions resp i)"
proof -
  let ?m = "ServerSessions (PullShardsResponse_norm anorm resp)"
  have m: "?m i = map_option (map_option (PbServerSession_norm anorm)) (ServerSessions resp i)" for i
    by (simp add: PullShardsResponse_norm_def)
  show "response_ok (PullShardsResponse_norm anorm resp)" if "response_ok resp"
    using that by (auto simp: response_ok_def ran_def m)
  show "map_option (\<lambda>p. Session_ProcessedSeq (the p)) (?m i) = map_option (\<lambda>p. Session_ProcessedSeq (the p)) (ServerSessions resp i)"
    if ok: "response_ok resp"
  proof (cases "ServerSessions resp i")
    case (Some p)
    then obtain pb where "p = Some pb" using ok Some by (cases p) (auto simp: response_ok_def ran_def)
    then show ?thesis using Some by (simp add: m PbServerSession_norm_def)
  qed (simp add: m)
qed (simp_all add: PullShardsResponse_norm_def)

lemma pulledShards_spec:
  assumes ok: "kv_ok s" and there: "\<forall>i \<in> set (ShardIDs args). shardAt s i \<noteq> None"
  shows "\<exists>resp. pulledShards cp args s = Ok resp \<and> Pulled_ConfigNum resp = ConfigNum args \<and> response_ok resp \<and>
    Pulled_Shards resp = map (\<lambda>i. cp (pbShard (the (shardAt s i)))) (ShardIDs args) \<and>
    (\<forall>i. map_option (\<lambda>p. Session_ProcessedSeq (the p)) (ServerSessions resp i) = table_processed (kv_SessionMap s) i)"
proof -
  have loop: "foldM_go (\<lambda>acc shardID. go_bind (Shard_ProtoMessage cp (shardAt s shardID)) (\<lambda>m. Ok (acc @ [m]))) acc ids =
      Ok (acc @ map (\<lambda>i. cp (pbShard (the (shardAt s i)))) ids)" if "\<forall>i \<in> set ids. shardAt s i \<noteq> None" for acc ids
    using that by (induction ids arbitrary: acc) (auto simp: Shard_ProtoMessage_def)
  have t: "table_ok (kv_SessionMap s)" using ok by (simp add: kv_ok_def)
  then have mu: "sm_mu (kv_SessionMap s)" "None \<notin> ran (sm_Map (kv_SessionMap s))"
    by (auto simp: table_ok_def ran_def)
  let ?m = "\<lambda>sid. map_option (\<lambda>p. pbSession (the p)) (sm_Map (kv_SessionMap s) sid)"
  have "None \<notin> ran ?m \<and> (\<forall>i. map_option (\<lambda>p. Session_ProcessedSeq (the p)) (?m i) = table_processed (kv_SessionMap s) i)"
  proof (intro conjI allI)
    show "None \<notin> ran ?m" using t by (fastforce simp: table_ok_def ran_def)
    fix i
    show "map_option (\<lambda>p. Session_ProcessedSeq (the p)) (?m i) = table_processed (kv_SessionMap s) i"
      by (rule table_entry[OF t, of i]) simp_all
  qed
  then show ?thesis using loop[OF there, of "[]"] mu
    by (simp add: pulledShards_def sm_ProtoMessage_def withLock_def response_ok_def)
qed

text \<open>Inserting shards that are all awaited.\<close>

lemma insertLoop_spec:
  assumes cp: "clone_ok cp" and "shards_ok (Shards s)" "distinct (map Shard_ID pbs)"
    "\<forall>pb \<in> set pbs. Status (shardAt s (Shard_ID pb)) = Ok PULLING"
  shows "\<exists>s'. foldM_go (insertOne cp) s (map Some pbs) = Ok s' \<and> shards_step s s' \<and>
    (\<forall>pb \<in> set pbs. \<exists>sh. shardAt s' (Shard_ID pb) = Some sh \<and> Status (Some sh) = Ok GC \<and>
       shard_content sh = readKV (Shard_KV pb)) \<and>
    (\<forall>i. i \<notin> Shard_ID ` set pbs \<longrightarrow> shardAt s' i = shardAt s i)"
  using assms(2-)
proof (induction pbs arbitrary: s)
  case Nil
  then show ?case by (simp add: shards_step_refl)
next
  case (Cons pb pbs)
  obtain sh where sh: "shardAt s (Shard_ID pb) = Some sh" "Status (Some sh) = Ok PULLING"
    using Cons.prems(3) by (cases "shardAt s (Shard_ID pb)") auto
  obtain new where new: "cp (Some pb) = Some new" "Shard_ID new = Shard_ID pb" "readKV (Shard_KV new) = readKV (Shard_KV pb)"
    using cp unfolding clone_ok_def by blast
  let ?new = "new\<lparr>Shard_Status := GC\<rparr>"
  define s1 where "s1 = putShard (Shard_ID pb) (Shard (Some ?new)) s"
  have 1: "insertOne cp s (Some pb) = Ok s1" "shards_step s s1"
    using insertOne_spec[OF cp Cons.prems(1), of pb] sh new shards_step_put[OF Cons.prems(1), of "Shard_ID pb" ?new]
    by (simp_all add: s1_def)
  have other: "shardAt s1 (Shard_ID x) = shardAt s (Shard_ID x)" if "x \<in> set pbs" for x
  proof -
    have "Shard_ID x \<noteq> Shard_ID pb" using Cons.prems(2) imageI[OF that, of Shard_ID] by (metis distinct.simps(2) list.simps(9) list.set_map)
    then show ?thesis by (simp add: s1_def shardAt_put)
  qed
  from Cons.IH[of s1] 1(2) Cons.prems(2,3) other obtain s2 where
    2: "foldM_go (insertOne cp) s1 (map Some pbs) = Ok s2" "shards_step s1 s2"
      "\<forall>pb \<in> set pbs. \<exists>sh. shardAt s2 (Shard_ID pb) = Some sh \<and> Status (Some sh) = Ok GC \<and>
         shard_content sh = readKV (Shard_KV pb)"
      "\<forall>i. i \<notin> Shard_ID ` set pbs \<longrightarrow> shardAt s2 i = shardAt s1 i" by (auto simp: shards_step_def)
  have "shardAt s2 (Shard_ID pb) = Some (Shard (Some ?new))"
    using 2(4) Cons.prems(2) by (auto simp: s1_def shardAt_put)
  then show ?case using 1 2 new(3) shards_step_trans[OF 1(2) 2(2)]
    by (auto simp: s1_def shardAt_put)
qed

text \<open>The shards one state gives out, inserted into another that awaits them.\<close>

lemma transfer_spec:
  assumes A: "kv_ok A" "\<forall>i \<in> set ids. shardAt A i \<noteq> None" "distinct ids"
    and B: "kv_ok B" "\<forall>i \<in> set ids. Status (shardAt B i) = Ok PULLING"
    and cp: "clone_ok cpA" "clone_ok cpB"
  shows "\<exists>B'. foldM_go (insertOne cpB) B (map (\<lambda>i. cpA (pbShard (the (shardAt A i)))) ids) = Ok B' \<and> shards_step B B' \<and>
    (\<forall>i \<in> set ids. \<exists>sh. shardAt B' i = Some sh \<and> Status (Some sh) = Ok GC \<and>
       shard_content sh = shard_content (the (shardAt A i))) \<and>
    (\<forall>i. i \<notin> set ids \<longrightarrow> shardAt B' i = shardAt B i)"
proof -
  have Aok: "shards_ok (Shards A)" and Bok: "shards_ok (Shards B)" using A(1) B(1) by (auto simp: kv_ok_def)
  define g where "g i = the (cpA (pbShard (the (shardAt A i))))" for i
  have g: "cpA (pbShard (the (shardAt A i))) = Some (g i) \<and> Shard_ID (g i) = i \<and>
      readKV (Shard_KV (g i)) = shard_content (the (shardAt A i))" if i: "i \<in> set ids" for i
  proof -
    obtain pb where pb: "shardAt A i = Some (Shard (Some pb))" "Shard_ID pb = i"
      using A(2) i by (rule_tac shardAt_ok[OF Aok, of i]) auto
    obtain pb' where "cpA (Some pb) = Some pb'" "Shard_ID pb' = i" "readKV (Shard_KV pb') = readKV (Shard_KV pb)"
      using cp(1) pb(2) unfolding clone_ok_def by metis
    then show ?thesis using pb(1) by (simp add: g_def)
  qed
  have ps: "map (\<lambda>i. cpA (pbShard (the (shardAt A i)))) ids = map Some (map g ids)" using g by simp
  have ids: "map Shard_ID (map g ids) = ids" using g by (simp add: map_idI)
  have aw: "\<forall>pb \<in> set (map g ids). Status (shardAt B (Shard_ID pb)) = Ok PULLING" using g B(2) by auto
  have im: "Shard_ID ` set (map g ids) = set ids" using g by (force simp: image_image)
  from insertLoop_spec[OF cp(2) Bok _ aw] A(3) obtain B1 where
    1: "foldM_go (insertOne cpB) B (map Some (map g ids)) = Ok B1" "shards_step B B1"
      "\<And>i. i \<in> set ids \<Longrightarrow> \<exists>sh. shardAt B1 (Shard_ID (g i)) = Some sh \<and> Status (Some sh) = Ok GC \<and>
         shard_content sh = readKV (Shard_KV (g i))"
      "\<And>i. i \<notin> Shard_ID ` set (map g ids) \<Longrightarrow> shardAt B1 i = shardAt B i"
    unfolding ids by auto
  then show ?thesis using g unfolding ps im by (intro exI[of _ B1]) (metis (no_types, lifting))
qed

text \<open>A request a received table covers is covered after merging it.\<close>

lemma Merge_covers:
  assumes t: "table_ok t" "table_ok u" and m: "None \<notin> ran m"
    "\<And>i. map_option (\<lambda>p. Session_ProcessedSeq (the p)) (m i) = table_processed u i" and it: "iterates m ks"
  shows "\<exists>t'. Merge (visited m ks) t = Ok t' \<and> table_ok t' \<and> covers t t' \<and> covers u t'"
proof -
  note v = visited_iterates[OF it]
  have "None \<notin> snd ` set (visited m ks)" using v(3) m(1) by simp
  from Merge_spec[OF t(1) v(1) this] obtain t' where
    t': "Merge (visited m ks) t = Ok t'" "table_ok t'" "table_processed t' = (\<lambda>i. case (table_processed t i, map_of (visited m ks) i) of
        (None, Some (Some pb)) \<Rightarrow> Some (Session_ProcessedSeq pb)
      | (Some n, Some (Some pb)) \<Rightarrow> Some (max n (Session_ProcessedSeq pb))
      | (r, _) \<Rightarrow> r)" by blast
  have u: "\<exists>pb. m i = Some (Some pb) \<and> Session_ProcessedSeq pb = n" if "table_processed u i = Some n" for i n
  proof -
    from that m(2)[of i] obtain a where a: "m i = Some a" "n = Session_ProcessedSeq (the a)" by (cases "m i") auto
    then obtain pb where "a = Some pb" using m(1) by (cases a) (auto simp: ran_def)
    then show ?thesis using a by auto
  qed
  have "covers t t'"
    unfolding covers_def IsDuplicate_spec[OF t(1)] IsDuplicate_spec[OF t'(2)] t'(3)
    by (auto simp: le_max_iff_disj split: option.splits)
  moreover have "covers u t'"
    unfolding covers_def IsDuplicate_spec[OF t(2)] IsDuplicate_spec[OF t'(2)] t'(3) v(2)
    by (auto simp: le_max_iff_disj split: option.splits dest!: u)
  ultimately show ?thesis using t' by blast
qed

text \<open>
  What a response with the shards and sessions of one state does to a state that awaits the shards. \<open>cp\<close> stands for
  what the shards went through on their way.
\<close>

lemma insert_pulled:
  assumes A: "kv_ok A" "\<forall>i \<in> set ids. shardAt A i \<noteq> None" "distinct ids"
    and B: "kv_ok B" "\<forall>i \<in> set ids. Status (shardAt B i) = Ok PULLING"
    and r: "Pulled_Shards resp = map (\<lambda>i. cp (pbShard (the (shardAt A i)))) ids" "response_ok resp"
      "\<And>i. map_option (\<lambda>p. Session_ProcessedSeq (the p)) (ServerSessions resp i) = table_processed (kv_SessionMap A) i"
      "sint (currentNum B) \<le> sint (Pulled_ConfigNum resp)"
    and env: "clone_ok cp" "clone_ok cpB" "\<And>m. iterates m (v m)"
  shows "\<exists>B'. applyInsertShards cpB v (Some resp) B = Ok (statusReply Kv_OK, B') \<and> kv_ok B' \<and>
    (\<forall>i \<in> set ids. \<exists>sh. shardAt B' i = Some sh \<and> Status (Some sh) = Ok GC \<and>
       shard_content sh = shard_content (the (shardAt A i))) \<and>
    (\<forall>i. i \<notin> set ids \<longrightarrow> shardAt B' i = shardAt B i) \<and>
    covers (kv_SessionMap A) (kv_SessionMap B') \<and> covers (kv_SessionMap B) (kv_SessionMap B')"
proof -
  from transfer_spec[OF A B env(1,2)] obtain B1 where
    1: "foldM_go (insertOne cpB) B (Pulled_Shards resp) = Ok B1" "shards_step B B1"
      "\<forall>i \<in> set ids. \<exists>sh. shardAt B1 i = Some sh \<and> Status (Some sh) = Ok GC \<and>
         shard_content sh = shard_content (the (shardAt A i))"
      "\<forall>i. i \<notin> set ids \<longrightarrow> shardAt B1 i = shardAt B i"
    unfolding r(1) by blast
  note B1 = shards_step_fields(1)[OF 1(2)]
  have t: "table_ok (kv_SessionMap B)" "table_ok (kv_SessionMap A)" using A(1) B(1) by (auto simp: kv_ok_def)
  have nn: "None \<notin> ran (ServerSessions resp)" using r(2) by (simp add: response_ok_def)
  from Merge_covers[OF t nn r(3) env(3)] obtain u where
    u: "Merge (visited (ServerSessions resp) (v (ServerSessions resp))) (kv_SessionMap B) = Ok u"
      "covers (kv_SessionMap B) u" "covers (kv_SessionMap A) u" by blast
  obtain c where c: "CurrentConfig B = Some c" using B(1) by (auto simp: kv_ok_def)
  have "\<not> sint (Pulled_ConfigNum resp) < sint (Config_Num c)" using r(4) c by (simp add: currentNum_def)
  then have app: "applyInsertShards cpB v (Some resp) B = Ok (statusReply Kv_OK, B1\<lparr>kv_SessionMap := u\<rparr>)"
    using c 1(1) u(1) B1 by (simp add: applyInsertShards_def configNum_def)
  have "kv_ok (B1\<lparr>kv_SessionMap := u\<rparr>)"
    using applyInsertShards_step[OF env(2,3) B(1) r(2) app] by (simp add: kv_step_def)
  moreover have "shardAt (B1\<lparr>kv_SessionMap := u\<rparr>) i = shardAt B1 i" for i by (simp add: shardAt_def)
  ultimately show ?thesis using app u(2,3) 1(3,4) by (intro exI[of _ "B1\<lparr>kv_SessionMap := u\<rparr>"]) simp
qed

end
