(* ===== verification/KV_Properties.thy ===== *)
theory KV_Properties
  imports KV_Migration
begin

text \<open>
  The properties of a server of the store, over the laws of theories KV_Laws and KV_Migration. In
  the instances every key is in shard 3, which group 5 serves (\<open>sample_kv\<close>) or awaits (\<open>sample_puller\<close>).
\<close>

section \<open>Instances\<close>

definition sample_config :: Config where
  "sample_config = \<lparr>Config_Num = 4, Config_Shards = (replicate NShards 0)[3 := 5], Config_Groups = Map.empty\<rparr>"

definition sample_shard :: "(string \<rightharpoonup> string) \<Rightarrow> int32 \<Rightarrow> Shard" where
  "sample_shard kv st = Shard (Some \<lparr>Shard_ID = 3, Shard_KV = Some kv, Shard_Status = st\<rparr>)"

definition sample_kv :: "nat StateMachine" where
  "sample_kv = \<lparr>Shards = [3 \<mapsto> Some (sample_shard [''a'' \<mapsto> ''1''] SERVING)], kv_SessionMap = NewSessionMap,
     AppliedIndex = 0, CurrentConfig = Some sample_config, LastConfig = None\<rparr>"

definition sample_puller :: "nat StateMachine" where
  "sample_puller = sample_kv\<lparr>Shards := [3 \<mapsto> Some (sample_shard Map.empty PULLING)]\<rparr>"

definition sample_env :: "(nat, unit) kv_env" where
  "sample_env = \<lparr>env_decode = (\<lambda>_. KvArgs_zero\<lparr>KvArgs_Type := Kv_PUT, KvArgs_Key := ''b'', KvArgs_Value := ''2'',
       KvArgs_SessionHeader := Some \<lparr>Header_ID = 9, Header_Seq = 1\<rparr>\<rparr>),
     env_marshalAny = (\<lambda>_. (None, None)), env_clone = (\<lambda>p. p), env_key2shard = (\<lambda>_. 3),
     env_visit = (\<lambda>m. sorted_list_of_set (dom m))\<rparr>"

definition sample_msg :: ApplyMsg where
  "sample_msg = \<lparr>CommandValid = True, Command = Some [1], CommandIndex = 8, SnapshotValid = False,
     SnapshotBytes = None, SnapshotTerm = 0, SnapshotIndex = 0\<rparr>"

lemma sample_clone: "clone_ok (\<lambda>p. p)"
  by (simp add: clone_ok_def)

lemma sample_env_ok: "env_ok sample_env" "msgs_ok sample_env msgs"
  by (simp_all add: env_ok_def sample_env_def sample_clone iterates_def msgs_ok_def kvargs_ok_def KvArgs_zero_def)

lemma sample_kv_ok: "kv_ok sample_kv" "kv_ok sample_puller"
  by (simp_all add: kv_ok_def sample_kv_def sample_puller_def table_ok_New shards_ok_def config_ok_def sample_config_def
      sample_shard_def)

lemma sample_keys: "keys_ok (\<lambda>_. 3)"
  by (simp add: keys_ok_def NShards_def)

lemma sample_shardAt:
  "shardAt sample_kv 3 = Some (sample_shard [''a'' \<mapsto> ''1''] SERVING)"
  "shardAt sample_puller 3 = Some (sample_shard Map.empty PULLING)"
  by (simp_all add: shardAt_def sample_kv_def sample_puller_def)

lemma sample_served: "served (\<lambda>_. 3) 5 sample_kv key"
  by (simp add: served_def sample_shardAt sample_shard_def) (simp add: sample_kv_def sample_config_def NShards_def)

lemma sample_lookup: "lookup (\<lambda>_. 3) sample_kv = [''a'' \<mapsto> ''1'']"
  by (simp add: lookup_def sample_shardAt sample_shard_def fun_eq_iff)

section \<open>The store\<close>

text \<open>
  C7. The server refines one map from keys to values, \<open>lookup\<close>. For a key it does not serve every
  operation answers WRONG_GROUP and changes nothing. For one it serves, Get answers the map's
  value or NO_KEY; Put and Append answer OK and change the map at that key only, to the value or
  to the old value followed by it, and neither the keys served nor the invariant; on a shard
  whose own map is nil they panic.
\<close>

theorem kv_refines_map:
  assumes ok: "kv_ok s" "keys_ok k2s"
  shows "applyGet k2s gid key s = Ok (if \<not> served k2s gid s key then statusReply ERR_WRONG_GROUP
      else case lookup k2s s key of None \<Rightarrow> statusReply ERR_NO_KEY
           | Some v \<Rightarrow> (statusReply Kv_OK)\<lparr>KvReply_Value := v\<rparr>, s) \<and>
    (if \<not> served k2s gid s key then applyPut k2s gid key v s = Ok (statusReply ERR_WRONG_GROUP, s) \<and>
        applyAppend k2s gid key v s = Ok (statusReply ERR_WRONG_GROUP, s)
     else if \<not> writable k2s s key then applyPut k2s gid key v s = Panic NilMapWrite \<and>
        applyAppend k2s gid key v s = Panic NilMapWrite
     else (\<exists>s'. applyPut k2s gid key v s = Ok (statusReply Kv_OK, s') \<and> kv_ok s' \<and>
          lookup k2s s' = (lookup k2s s)(key \<mapsto> v) \<and> served k2s gid s' = served k2s gid s) \<and>
        (\<exists>s'. applyAppend k2s gid key v s = Ok (statusReply Kv_OK, s') \<and> kv_ok s' \<and>
          lookup k2s s' = (lookup k2s s)(key \<mapsto> (case lookup k2s s key of None \<Rightarrow> [] | Some x \<Rightarrow> x) @ v) \<and>
          served k2s gid s' = served k2s gid s))"
proof (cases "served k2s gid s key")
  case False
  then show ?thesis using checkShard_spec[OF ok, of gid key]
    by (simp add: applyGet_def applyPut_def applyAppend_def Let_def)
next
  case True
  note check = checkShard_spec[OF ok, of gid key]
  have sok: "shards_ok (Shards s)" using ok(1) by (simp add: kv_ok_def)
  from True obtain sh where sh: "shardAt s (k2s key) = Some sh" by (auto simp: served_def)
  have get: "applyGet k2s gid key s = Ok (case lookup k2s s key of None \<Rightarrow> statusReply ERR_NO_KEY
      | Some v \<Rightarrow> (statusReply Kv_OK)\<lparr>KvReply_Value := v\<rparr>, s)"
    using True check sh Shard_readonly_Get[OF sok sh, of key]
    by (simp add: applyGet_def Let_def lookup_def split: option.splits)
  show ?thesis
  proof (cases "shard_ok sh")
    case False
    then have "\<not> writable k2s s key" using sh by (simp add: writable_def)
    then show ?thesis using get True check sh not_writable[OF ok(1) sh False]
      by (simp add: applyPut_def applyAppend_def Let_def)
  next
    case w: True
    then have "writable k2s s key" using sh by (simp add: writable_def)
    moreover from shard.put_law[OF w, of key v] obtain s1 where
      1: "Shard_Put key v (Some sh) = Ok (s1, None)" "shard_content s1 = (shard_content sh)(key \<mapsto> v)" by blast
    moreover from shard.append_law[OF w, of key v] obtain s2 where
      2: "Shard_Append key v (Some sh) = Ok (s2, None)"
        "shard_content s2 = (shard_content sh)(key \<mapsto> (case shard_content sh key of None \<Rightarrow> v | Some x \<Rightarrow> x @ v))" by blast
    moreover have "kv_ok (putShard (k2s key) s1 s)" "kv_ok (putShard (k2s key) s2 s)"
      using Shard_write_step[OF ok(1), of key v "k2s key"] shards_step_kv[OF ok(1)] 1(1) 2(1)
      unfolding sh kv_step_def by blast+
    moreover have "lookup k2s s key = shard_content sh key" using sh by (simp add: lookup_def)
    moreover have "lookup k2s (putShard (k2s key) s1 s) = (lookup k2s s)(key \<mapsto> v)"
      "lookup k2s (putShard (k2s key) s2 s) =
        (lookup k2s s)(key \<mapsto> (case shard_content sh key of None \<Rightarrow> v | Some x \<Rightarrow> x @ v))"
      using write_lookup[of s k2s key sh] sh 1(2) 2(2) by blast+
    moreover have "served k2s gid (putShard (k2s key) s1 s) = served k2s gid s"
      "served k2s gid (putShard (k2s key) s2 s) = served k2s gid s"
      using write_served[of s k2s key sh] write_status[of key v sh] sh 1(1) 2(1) by blast+
    ultimately show ?thesis using get True check sh
      by (simp add: applyPut_def applyAppend_def Let_def split: option.splits)
  qed
qed

theorem kv_refines_map_witness:
  "applyGet (\<lambda>_. 3) 5 ''a'' sample_kv = Ok ((statusReply Kv_OK)\<lparr>KvReply_Value := ''1''\<rparr>, sample_kv) \<and>
   (\<exists>s'. applyAppend (\<lambda>_. 3) 5 ''a'' ''2'' sample_kv = Ok (statusReply Kv_OK, s') \<and>
      lookup (\<lambda>_. 3) s' = [''a'' \<mapsto> ''12''])"
proof -
  have "writable (\<lambda>_. 3) sample_kv ''a''" by (simp add: writable_def sample_shardAt sample_shard_def)
  then show ?thesis using kv_refines_map[OF sample_kv_ok(1) sample_keys, of 5 "''a''" "''2''"]
    by (auto simp: sample_served sample_lookup)
qed

text \<open>
  C16. The invariant of a server: whatever commands are applied, and in whatever order, the state
  stays well formed, no shard appears or disappears, the configuration advances one number at a
  time, and every command that was applied is covered by the session table in the end, as is
  everything that was covered before.
\<close>

theorem kv_invariant:
  assumes "env_ok env" "kv_ok s" "msgs_ok env msgs" "kv_applies env gid msgs s = Ok s'"
  shows "kv_ok s' \<and> dom (Shards s') = dom (Shards s) \<and>
    (\<exists>k \<le> length msgs. currentNum s' = currentNum s + of_nat k) \<and>
    (\<forall>h. IsDuplicate (Some h) (kv_SessionMap s) = Ok True \<longrightarrow> IsDuplicate (Some h) (kv_SessionMap s') = Ok True) \<and>
    (\<forall>msg \<in> set msgs. \<exists>h. KvArgs_SessionHeader (env_decode env (Command msg)) = Some h \<and>
       IsDuplicate (Some h) (kv_SessionMap s') = Ok True)"
  using kv_applies_run[OF assms] by (simp add: covers_def)

lemma sample_applies: "\<exists>s'. kv_applies sample_env 5 [sample_msg] sample_kv = Ok s'"
proof -
  let ?h = "\<lparr>Header_ID = 9, Header_Seq = 1\<rparr>" and ?args = "env_decode sample_env (Command sample_msg)"
  have new: "IsDuplicate (Some ?h) (NewSessionMap :: nat SessionMap) = Ok False"
    by (simp add: IsDuplicate_spec table_ok_New)
  obtain s1 where s1: "applyPut (\<lambda>_. 3) 5 ''b'' ''2'' sample_kv = Ok (statusReply Kv_OK, s1)" "kv_SessionMap s1 = NewSessionMap"
  proof
    show "applyPut (\<lambda>_. 3) 5 ''b'' ''2'' sample_kv =
        Ok (statusReply Kv_OK, putShard 3 (sample_shard [''a'' \<mapsto> ''1'', ''b'' \<mapsto> ''2''] SERVING) sample_kv)"
      by (simp add: applyPut_def checkShard_spec[OF sample_kv_ok(1) sample_keys] sample_served sample_shardAt
          Shard_Put_def shardOf_def) (simp add: sample_shard_def)
  qed (simp add: sample_kv_def)
  have "kv_command sample_env 5 ?args sample_kv = Ok (statusReply Kv_OK, s1)"
    by (simp add: kv_command_def sample_env_def Kv_types s1(1))
  moreover obtain t where "recordResponse (env_marshalAny sample_env) NewSessionMap ?h (statusReply Kv_OK) = Ok t"
    using recordResponse_spec[OF table_ok_New(1) new, of "env_marshalAny sample_env" "statusReply Kv_OK"] by (elim exE conjE) blast
  moreover have "KvArgs_SessionHeader ?args = Some ?h" "kv_SessionMap sample_kv = NewSessionMap"
    by (simp_all add: sample_env_def sample_kv_def)
  ultimately show ?thesis using new s1(2) by (simp add: kv_applies_def kv_apply_def Let_def)
qed

theorem kv_invariant_witness:
  "\<exists>s'. kv_applies sample_env 5 [sample_msg] sample_kv = Ok s' \<and> kv_ok s' \<and> dom (Shards s') = {3} \<and>
    IsDuplicate (Some \<lparr>Header_ID = 9, Header_Seq = 1\<rparr>) (kv_SessionMap s') = Ok True"
proof -
  from sample_applies obtain s' where r: "kv_applies sample_env 5 [sample_msg] sample_kv = Ok s'" by blast
  have "KvArgs_SessionHeader (env_decode sample_env (Command sample_msg)) = Some \<lparr>Header_ID = 9, Header_Seq = 1\<rparr>"
    "dom (Shards sample_kv) = {3}" by (simp_all add: sample_env_def sample_kv_def)
  moreover have "kv_ok s'" "dom (Shards s') = dom (Shards sample_kv)"
    "\<exists>h. KvArgs_SessionHeader (env_decode sample_env (Command sample_msg)) = Some h \<and>
       IsDuplicate (Some h) (kv_SessionMap s') = Ok True"
    using kv_invariant[OF sample_env_ok(1) sample_kv_ok(1) sample_env_ok(2) r] unfolding list.set by blast+
  ultimately show ?thesis using r by simp
qed

text \<open>
  C6. At most once: a command that repeats the session header of one that has been applied, at any
  later time and whatever was applied or migrated in between, changes nothing but the applied
  index.
\<close>

theorem kv_at_most_once:
  assumes "env_ok env" "kv_ok s" "msgs_ok env msgs" "kv_applies env gid msgs s = Ok s'" "msg \<in> set msgs"
    "KvArgs_SessionHeader (env_decode env (Command again)) = KvArgs_SessionHeader (env_decode env (Command msg))"
  shows "kv_apply env gid again s' = Ok (s'\<lparr>AppliedIndex := CommandIndex again\<rparr>)"
proof -
  from kv_applies_run[OF assms(1-4)] assms(5) obtain h where
    "KvArgs_SessionHeader (env_decode env (Command msg)) = Some h" "IsDuplicate (Some h) (kv_SessionMap s') = Ok True" by blast
  then show ?thesis using assms(6) by (simp add: kv_apply_def)
qed

theorem kv_at_most_once_witness:
  "\<exists>s'. kv_applies sample_env 5 [sample_msg] sample_kv = Ok s' \<and>
    kv_apply sample_env 5 (sample_msg\<lparr>CommandIndex := 9\<rparr>) s' = Ok (s'\<lparr>AppliedIndex := 9\<rparr>)"
proof -
  from sample_applies obtain s' where r: "kv_applies sample_env 5 [sample_msg] sample_kv = Ok s'" by blast
  from kv_at_most_once[OF sample_env_ok(1) sample_kv_ok(1) sample_env_ok(2) r, of sample_msg "sample_msg\<lparr>CommandIndex := 9\<rparr>"]
  show ?thesis using r by simp
qed

section \<open>Migration\<close>

lemma NewConfig_total: "None \<notin> set (PbConfig_Groups pb) \<Longrightarrow> \<exists>cfg. NewConfig pb = Ok cfg"
proof -
  have "None \<notin> set gs \<Longrightarrow> \<exists>cfg. foldM_go addGroup c gs = Ok cfg" for gs and c :: Config
  proof (induction gs arbitrary: c)
    case (Cons g gs)
    then obtain group where "g = Some group" by (cases g) auto
    then show ?case using Cons by (simp add: addGroup_def)
  qed simp
  then show "None \<notin> set (PbConfig_Groups pb) \<Longrightarrow> \<exists>cfg. NewConfig pb = Ok cfg" by (simp add: NewConfig_def)
qed

text \<open>A shard of the group that changes hands with the next configuration.\<close>

definition changes_hands :: "int64 \<Rightarrow> Config \<Rightarrow> PbConfig \<Rightarrow> nat \<Rightarrow> bool" where
  "changes_hands gid c nc i \<longleftrightarrow> i < length (PbConfig_Shards nc) \<and> (Config_Shards c ! i = gid) \<noteq> (PbConfig_Shards nc ! i = gid)"

lemma reconfigure_missing:
  assumes "kv_ok s" "CurrentConfig s = Some c" "PbConfig_Num nc = Config_Num c + 1" "1 < sint (PbConfig_Num nc)"
    "changes_hands gid c nc i" "shardAt s (of_nat i) = None"
  shows "\<exists>p. applyReconfigure gid (Some nc) s = Panic p"
proof -
  have "(i, PbConfig_Shards nc ! i) \<in> set (enumerate 0 (PbConfig_Shards nc))"
    using assms(5) by (auto simp: in_set_enumerate_eq changes_hands_def)
  then have "updateShardsStatus gid nc s \<noteq> Ok s1" for s1
    using assms statusLoop_missing[of c gid s "enumerate 0 (PbConfig_Shards nc)" s1, OF _ _ _ assms(6)]
    by (auto simp: updateShardsStatus_def changes_hands_def kv_ok_def)
  then obtain p where "updateShardsStatus gid nc s = Panic p" by (cases "updateShardsStatus gid nc s") auto
  then show ?thesis using assms(2,3) by (simp add: applyReconfigure_def configNum_def)
qed

text \<open>
  C21. Reconfiguration: the configuration with the next number becomes the current one and the
  current the last one. From number 2 on a shard the group loses becomes BE_PULLING, one it gains PULLING, and
  every other shard keeps its status; the server panics if it has no entry for a shard it loses or gains.
  Configurations up to number 1 are adopted without touching any shard, whatever they assign. Contents
  never change. Any other number is refused without effect. The configuration has at most one
  entry per shard and no nil group.
\<close>

theorem kv_reconfigures:
  assumes ok: "kv_ok s" and c: "CurrentConfig s = Some c"
    and nc: "PbConfig_Num nc = Config_Num c + 1" "length (PbConfig_Shards nc) \<le> NShards" "None \<notin> set (PbConfig_Groups nc)"
    and other: "PbConfig_Num nc' \<noteq> Config_Num c + 1"
  shows "(if 1 < sint (PbConfig_Num nc) \<and> (\<exists>i. changes_hands gid c nc i \<and> shardAt s (of_nat i) = None)
      then \<exists>p. applyReconfigure gid (Some nc) s = Panic p
      else \<exists>s' cfg. applyReconfigure gid (Some nc) s = Ok (statusReply Kv_OK, s') \<and> kv_ok s' \<and>
        NewConfig nc = Ok cfg \<and> CurrentConfig s' = Some cfg \<and> LastConfig s' = Some c \<and>
        (\<forall>i < length (PbConfig_Shards nc). shardAt s' (of_nat i) =
           (if 1 < sint (PbConfig_Num nc)
            then map_option (restatus (nextStatus gid (Config_Shards c ! i) (PbConfig_Shards nc ! i))) (shardAt s (of_nat i))
            else shardAt s (of_nat i)))) \<and>
    applyReconfigure gid (Some nc') s = Ok (statusReply ERR_OUT_DATED_CONFIG, s)"
proof -
  have sok: "shards_ok (Shards s)" "length (Config_Shards c) = NShards" using ok c by (auto simp: kv_ok_def config_ok_def)
  obtain cfg where cfg: "NewConfig nc = Ok cfg" using NewConfig_total[OF nc(3)] by blast
  have refuse: "applyReconfigure gid (Some nc') s = Ok (statusReply ERR_OUT_DATED_CONFIG, s)"
    using other c by (simp add: applyReconfigure_def configNum_def)
  let ?gs = "PbConfig_Shards nc"
  have adopt: "\<exists>s' cfg. applyReconfigure gid (Some nc) s = Ok (statusReply Kv_OK, s') \<and> kv_ok s' \<and>
        NewConfig nc = Ok cfg \<and> CurrentConfig s' = Some cfg \<and> LastConfig s' = Some c \<and>
        (\<forall>i < length ?gs. shardAt s' (of_nat i) = shardAt s1 (of_nat i))"
    if up: "updateShardsStatus gid nc s = Ok s1" "CurrentConfig s1 = Some c" for s1
  proof -
    let ?s' = "s1\<lparr>LastConfig := Some c, CurrentConfig := Some cfg\<rparr>"
    have app: "applyReconfigure gid (Some nc) s = Ok (statusReply Kv_OK, ?s')"
      using up cfg nc(1) c by (simp add: applyReconfigure_def configNum_def Let_def)
    have "kv_ok ?s'" using applyReconfigure_step[OF ok app] by (simp add: kv_step_def)
    then show ?thesis using app cfg by (intro exI[of _ ?s'] exI[of _ cfg]) (simp add: shardAt_def)
  qed
  show ?thesis
  proof (cases "1 < sint (PbConfig_Num nc)")
    case False
    then have "updateShardsStatus gid nc s = Ok s" by (simp add: updateShardsStatus_def)
    with adopt[OF this c] False refuse show ?thesis by simp
  next
    case num: True
    show ?thesis
    proof (cases "\<exists>i. changes_hands gid c nc i \<and> shardAt s (of_nat i) = None")
      case True
      then show ?thesis using reconfigure_missing[OF ok c nc(1) num] num refuse by auto
    next
      case there: False
      have "\<forall>j < length ?gs. (Config_Shards c ! (0 + j) = gid) = (?gs ! j = gid) \<or> shardAt s (of_nat (0 + j)) \<noteq> None"
        using there by (auto simp: changes_hands_def)
      with updateLoop_spec[OF sok(1), of 0 ?gs c gid] nc(2) sok(2) obtain s1 where
        1: "foldM_go (statusOne (Some c) gid) s (enumerate 0 ?gs) = Ok s1" "shards_step s s1"
          "\<forall>i < length ?gs. shardAt s1 (of_nat i) = map_option (restatus (nextStatus gid (Config_Shards c ! i) (?gs ! i))) (shardAt s (of_nat i))"
        by (auto simp: NShards_def)
      have "updateShardsStatus gid nc s = Ok s1" "CurrentConfig s1 = Some c"
        using 1(1) num c shards_step_fields(2)[OF 1(2)] by (simp_all add: updateShardsStatus_def)
      from adopt[OF this] 1(3) num there refuse show ?thesis by auto
    qed
  qed
qed

definition lose_config :: PbConfig where
  "lose_config = \<lparr>PbConfig_Num = 5, PbConfig_Shards = [0, 0, 0, 6], PbConfig_Groups = []\<rparr>"

theorem kv_reconfigures_witness:
  "\<exists>s'. applyReconfigure 5 (Some lose_config) sample_kv = Ok (statusReply Kv_OK, s') \<and>
    shardAt s' 3 = Some (sample_shard [''a'' \<mapsto> ''1''] BE_PULLING)"
proof -
  have c: "CurrentConfig sample_kv = Some sample_config" by (simp add: sample_kv_def)
  have n: "PbConfig_Shards lose_config ! 3 = 6" "Config_Shards sample_config ! 3 = 5" "length (PbConfig_Shards lose_config) = 4"
    by (simp_all add: lose_config_def sample_config_def NShards_def)
  have there: "\<not> (\<exists>i. changes_hands 5 sample_config lose_config i \<and> shardAt sample_kv (of_nat i) = None)"
    by (auto simp: changes_hands_def lose_config_def sample_config_def NShards_def sample_shardAt less_Suc_eq nth_Cons' nth_list_update)
  have num: "PbConfig_Num lose_config = Config_Num sample_config + 1" "length (PbConfig_Shards lose_config) \<le> NShards"
    "None \<notin> set (PbConfig_Groups lose_config)" "PbConfig_Num (lose_config\<lparr>PbConfig_Num := 0\<rparr>) \<noteq> Config_Num sample_config + 1"
    "1 < sint (PbConfig_Num lose_config)"
    by (simp_all add: lose_config_def sample_config_def NShards_def)
  from kv_reconfigures[OF sample_kv_ok(1) c num(1-4), of 5] there num(5) n(3) obtain s' where
    "applyReconfigure 5 (Some lose_config) sample_kv = Ok (statusReply Kv_OK, s')"
    "\<forall>i < 4. shardAt s' (of_nat i) = map_option (restatus (nextStatus 5 (Config_Shards sample_config ! i) (PbConfig_Shards lose_config ! i)))
        (shardAt sample_kv (of_nat i))"
    by auto
  moreover from this(2) have "shardAt s' 3 = map_option (restatus (nextStatus 5 5 6)) (shardAt sample_kv 3)"
    using n by (metis (no_types) numeral_less_iff of_nat_numeral semiring_norm(78) semiring_norm(81) semiring_norm(76))
  ultimately show ?thesis by (auto simp: sample_shardAt sample_shard_def restatus_def nextStatus_def)
qed

text \<open>
  Migration hands everything over: the shards and sessions one group gives out for a list of
  shards, inserted by a group that awaits exactly these, are there afterwards with the same
  contents and status GC; the receiver's other shards are untouched, and every request either
  group has processed is now covered by the receiver, in whatever order the sessions are visited.
\<close>

theorem migration_moves_shards:
  assumes A: "kv_ok A" "\<forall>i \<in> set (ShardIDs args). shardAt A i \<noteq> None" "distinct (ShardIDs args)"
    and B: "kv_ok B" "\<forall>i \<in> set (ShardIDs args). Status (shardAt B i) = Ok PULLING"
    and num: "sint (currentNum B) \<le> sint (ConfigNum args)"
    and env: "clone_ok cpA" "clone_ok cpB" "\<And>m. iterates m (v m)"
  shows "\<exists>resp B'. pulledShards cpA args A = Ok resp \<and>
    applyInsertShards cpB v (Some resp) B = Ok (statusReply Kv_OK, B') \<and> kv_ok B' \<and>
    (\<forall>i \<in> set (ShardIDs args). \<exists>sh. shardAt B' i = Some sh \<and> Status (Some sh) = Ok GC \<and>
       shard_content sh = shard_content (the (shardAt A i))) \<and>
    (\<forall>i. i \<notin> set (ShardIDs args) \<longrightarrow> shardAt B' i = shardAt B i) \<and>
    covers (kv_SessionMap A) (kv_SessionMap B') \<and> covers (kv_SessionMap B) (kv_SessionMap B')"
proof -
  from pulledShards_spec[OF A(1,2), of cpA] obtain resp where
    r: "pulledShards cpA args A = Ok resp" "Pulled_ConfigNum resp = ConfigNum args" "response_ok resp"
      "Pulled_Shards resp = map (\<lambda>i. cpA (pbShard (the (shardAt A i)))) (ShardIDs args)"
      "\<And>i. map_option (\<lambda>p. Session_ProcessedSeq (the p)) (ServerSessions resp i) = table_processed (kv_SessionMap A) i" by blast
  have "sint (currentNum B) \<le> sint (Pulled_ConfigNum resp)" using num r(2) by simp
  from insert_pulled[OF A B r(4,3,5) this env] r(1) show ?thesis by blast
qed

theorem migration_moves_shards_witness:
  "\<exists>resp B' sh. pulledShards (\<lambda>p. p) (KvArgs_zero\<lparr>ShardIDs := [3], ConfigNum := 4\<rparr>) sample_kv = Ok resp \<and>
    applyInsertShards (\<lambda>p. p) (\<lambda>m. sorted_list_of_set (dom m)) (Some resp) sample_puller = Ok (statusReply Kv_OK, B') \<and>
    shardAt B' 3 = Some sh \<and> shard_content sh = [''a'' \<mapsto> ''1'']"
proof -
  have it: "iterates m (sorted_list_of_set (dom m))" for m :: "int64 \<rightharpoonup> nat PbServerSession option"
    by (simp add: iterates_def)
  have num: "currentNum sample_puller = 4" by (simp add: currentNum_def sample_puller_def sample_kv_def sample_config_def)
  from migration_moves_shards[OF sample_kv_ok(1) _ _ sample_kv_ok(2) _ _ sample_clone sample_clone it,
      of "KvArgs_zero\<lparr>ShardIDs := [3], ConfigNum := 4\<rparr>"]
  show ?thesis by (auto simp: sample_shardAt num sample_shard_def)
qed

section \<open>Errors\<close>

text \<open>
  The command with which \<^verbatim>\<open>migratingAction\<close> hands pulled shards to its own group has a type that no case
  of \<^verbatim>\<open>apply\<close> handles: it is answered OK and the shards are dropped.
\<close>

lemma pulled_shards_are_dropped:
  "kv_command env gid (migratingAction_finish response h) s = Ok (statusReply Kv_OK, s)"
  by (simp add: kv_command_def migratingAction_finish_def Kv_types)

lemma initialState_ok: "kv_ok initialState"
  by (simp add: kv_ok_def initialState_def table_ok_New shards_ok_def config_ok_def)

text \<open>
  C34. A server that starts without a snapshot never serves a key: it has no shards and no command
  creates any, so every Get, Put and Append is answered WRONG_GROUP, whatever has been applied
  before. A configuration of number 1 or less is adopted and creates no shards either, even where it gives the group all of
  them; from number 2 on, the next configuration that gives its group a shard, or takes one from it, makes it panic.
\<close>

theorem kv_never_serves:
  assumes "env_ok env" "msgs_ok env msgs" "kv_applies env gid msgs initialState = Ok s" "keys_ok k2s"
  shows "Shards s = Map.empty \<and> applyGet k2s gid key s = Ok (statusReply ERR_WRONG_GROUP, s) \<and>
    applyPut k2s gid key v s = Ok (statusReply ERR_WRONG_GROUP, s) \<and>
    applyAppend k2s gid key v s = Ok (statusReply ERR_WRONG_GROUP, s) \<and>
    (\<forall>nc. PbConfig_Num nc = currentNum s + 1 \<longrightarrow>
       (if sint (PbConfig_Num nc) \<le> 1
        then \<forall>cfg. NewConfig nc = Ok cfg \<longrightarrow> applyReconfigure gid (Some nc) s =
               Ok (statusReply Kv_OK, s\<lparr>LastConfig := CurrentConfig s, CurrentConfig := Some cfg\<rparr>)
        else (\<exists>i. changes_hands gid (the (CurrentConfig s)) nc i) \<longrightarrow> (\<exists>p. applyReconfigure gid (Some nc) s = Panic p)))"
proof -
  from kv_applies_run[OF assms(1) initialState_ok assms(2,3)] have
    s: "kv_ok s" "Shards s = Map.empty" by (simp_all add: initialState_def)
  obtain c where c: "CurrentConfig s = Some c" using s(1) by (auto simp: kv_ok_def)
  have ns: "checkShard k2s gid key s = Ok False" by (simp add: checkShard_def Let_def s(2))
  have none: "shardAt s i = None" for i by (simp add: shardAt_def s(2))
  have "if sint (PbConfig_Num nc) \<le> 1
        then \<forall>cfg. NewConfig nc = Ok cfg \<longrightarrow> applyReconfigure gid (Some nc) s =
               Ok (statusReply Kv_OK, s\<lparr>LastConfig := CurrentConfig s, CurrentConfig := Some cfg\<rparr>)
        else (\<exists>i. changes_hands gid (the (CurrentConfig s)) nc i) \<longrightarrow> (\<exists>p. applyReconfigure gid (Some nc) s = Panic p)"
    if nc: "PbConfig_Num nc = currentNum s + 1" for nc
  proof (cases "sint (PbConfig_Num nc) \<le> 1")
    case True
    then show ?thesis using nc c by (simp add: applyReconfigure_def updateShardsStatus_def configNum_def currentNum_def Let_def)
  next
    case False
    then show ?thesis using reconfigure_missing[OF s(1) c _ _ _ none, of nc gid] nc c by (simp add: currentNum_def) blast
  qed
  moreover have "applyGet k2s gid key s = Ok (statusReply ERR_WRONG_GROUP, s)"
    "applyPut k2s gid key v s = Ok (statusReply ERR_WRONG_GROUP, s)"
    "applyAppend k2s gid key v s = Ok (statusReply ERR_WRONG_GROUP, s)"
    using ns by (simp_all add: applyGet_def applyPut_def applyAppend_def Let_def)
  ultimately show ?thesis using s(2) by blast
qed

text \<open>Configuration 1 gives no shard to group 5, number 2 gives it all.\<close>

definition join_configs :: "nat \<Rightarrow> PbConfig" where
  "join_configs n = \<lparr>PbConfig_Num = of_nat n, PbConfig_Shards = replicate NShards (if n = 1 then 6 else 5), PbConfig_Groups = []\<rparr>"

definition join_env :: "(nat, unit) kv_env" where
  "join_env = sample_env\<lparr>env_decode := (\<lambda>_. KvArgs_zero\<lparr>KvArgs_Type := Kv_RECONFIGURE, NextConfig := Some (join_configs 1),
     KvArgs_SessionHeader := Some \<lparr>Header_ID = 8, Header_Seq = 1\<rparr>\<rparr>)\<rparr>"

lemma join_run:
  "\<exists>s c. kv_applies join_env 5 [sample_msg] initialState = Ok s \<and> CurrentConfig s = Some c \<and> Config_Num c = 1 \<and>
     Config_Shards c = replicate NShards 6"
proof -
  let ?s0 = "initialState :: nat StateMachine" and ?h = "\<lparr>Header_ID = 8, Header_Seq = 1\<rparr>"
  obtain cfg where cfg: "NewConfig (join_configs 1) = Ok cfg" using NewConfig_total[of "join_configs 1"] by (auto simp: join_configs_def)
  let ?s1 = "?s0\<lparr>LastConfig := CurrentConfig ?s0, CurrentConfig := Some cfg\<rparr>"
  have c: "kv_command join_env 5 (env_decode join_env (Command sample_msg)) ?s0 = Ok (statusReply Kv_OK, ?s1)"
    using cfg by (simp add: kv_command_def join_env_def Kv_types applyReconfigure_def initialState_def configNum_def
        updateShardsStatus_def join_configs_def Let_def)
  have ok: "kv_ok ?s0" by (rule initialState_ok)
  have h: "KvArgs_SessionHeader (env_decode join_env (Command sample_msg)) = Some ?h" by (simp add: join_env_def)
  have t: "table_processed (kv_SessionMap ?s0) (Header_ID ?h) = None" "kv_SessionMap ?s1 = kv_SessionMap ?s0"
    by (simp_all add: initialState_def table_processed_def NewSessionMap_def)
  from kv_apply_runs[OF ok refl h t(1) c t(2)] obtain sm1 where
    "kv_apply join_env 5 sample_msg ?s0 = Ok (?s1\<lparr>kv_SessionMap := sm1, AppliedIndex := CommandIndex sample_msg\<rparr>)" by blast
  moreover have "Config_Num cfg = 1" "Config_Shards cfg = replicate NShards 6"
    using cfg by (auto simp: join_configs_def NewConfig_def Let_def)
  ultimately show ?thesis by (auto simp: kv_applies_def)
qed

theorem kv_never_serves_witness:
  "\<exists>s. kv_applies join_env 5 [sample_msg] initialState = Ok s \<and>
     applyPut (\<lambda>_. 3) 5 ''a'' ''1'' s = Ok (statusReply ERR_WRONG_GROUP, s) \<and>
     (\<exists>p. applyReconfigure 5 (Some (join_configs 2)) s = Panic p)"
proof -
  obtain s c where s: "kv_applies join_env 5 [sample_msg] initialState = Ok s" "CurrentConfig s = Some c" "Config_Num c = 1"
    "Config_Shards c = replicate NShards 6" using join_run by blast
  have env: "env_ok join_env" "msgs_ok join_env [sample_msg]"
    using sample_env_ok by (simp_all add: env_ok_def join_env_def msgs_ok_def kvargs_ok_def KvArgs_zero_def)
  have "PbConfig_Num (join_configs 2) = currentNum s + 1" "\<not> sint (PbConfig_Num (join_configs 2)) \<le> 1"
    "changes_hands 5 (the (CurrentConfig s)) (join_configs 2) 0"
    using s(2-4) by (simp_all add: join_configs_def currentNum_def changes_hands_def NShards_def)
  with kv_never_serves[OF env s(1) sample_keys, of "''a''" "''1''"] s(1) show ?thesis by auto
qed

text \<open>
  C33. No client of the store ever receives a value: whatever \<^verbatim>\<open>Execute\<close> returns, at once or after
  waiting, has the status WRONG_LEADER or BAD_SESSION, because the response read back from the
  session table is nil and asserting its type panics.
\<close>

theorem kv_execute_returns_errors:
  assumes "kv_Execute_begin marshal unmarshalAny errText args reply kv = Ok (Inl r, kv') \<or>
    kv_Execute_end unmarshalAny errText args reply kv = Ok r"
  shows "KvReply_Status r = ERR_WRONG_LEADER \<or> KvReply_Status r = ERR_BAD_SESSION"
proof -
  have lost: "resp = None" if "GetResponse unmarshalAny request s = Ok (resp, err)" for request s resp err
    using that by (auto simp: GetResponse_def withLock_def getResponse_def Let_def split: if_splits option.splits)
  show ?thesis using assms
    by (auto simp: kv_Execute_begin_def kv_Execute_end_def assertReply_def Let_def dest: lost split: if_splits option.splits)
qed

definition sample_server :: "nat ShardKV" where
  "sample_server = \<lparr>kv_me = 0, kv_rf = Raft_zero, kv_gid = 5, maxraftstate = 0, stateMachine = sample_kv,
     controller = MakeClerk 1 [1 :: nat], kv_stopped = False, kv_triggered = []\<rparr>"

theorem kv_execute_returns_errors_witness:
  "\<exists>r kv'. kv_Execute_begin (\<lambda>_. Ok [1]) (\<lambda>_ _. None :: unit option) (\<lambda>_. [])
      (KvArgs_zero\<lparr>KvArgs_SessionHeader := Some \<lparr>Header_ID = 9, Header_Seq = 1\<rparr>\<rparr>) KvReply_zero sample_server = Ok (Inl r, kv') \<and>
    (KvReply_Status r = ERR_WRONG_LEADER \<or> KvReply_Status r = ERR_BAD_SESSION)"
proof -
  have "\<exists>r kv'. kv_Execute_begin (\<lambda>_. Ok [1]) (\<lambda>_ _. None :: unit option) (\<lambda>_. [])
      (KvArgs_zero\<lparr>KvArgs_SessionHeader := Some \<lparr>Header_ID = 9, Header_Seq = 1\<rparr>\<rparr>) KvReply_zero sample_server = Ok (Inl r, kv')"
    by (simp add: kv_Execute_begin_def sample_server_def sample_kv_def IsDuplicate_spec table_ok_New Start_def Raft_zero_def)
  then show ?thesis using kv_execute_returns_errors by blast
qed

end
