(* ===== verification/KV_Monitors.thy ===== *)
theory KV_Monitors
  imports KV_Properties
begin

text \<open>
  What the monitors of a store server decide, src/server/server.go: \<^verbatim>\<open>configureAction\<close>,
  \<^verbatim>\<open>migratingAction\<close> and \<^verbatim>\<open>gcAction\<close>; and two ways in which requests get lost between its handlers.
\<close>

section \<open>Fetching configurations\<close>

lemma isMigrating_spec:
  assumes "shards_ok (Shards s)" "set is \<subseteq> dom (Shards s)"
  shows "isMigrating s is = Ok (\<exists>i \<in> set is. Status (shardAt s i) \<noteq> Ok SERVING)"
  using assms(2)
proof (induction "is")
  case (Cons i "is")
  obtain pb where "shardAt s i = Some (Shard (Some pb))"
    by (rule shardAt_ok[OF assms(1), of i]) (use Cons.prems in auto)
  then show ?case using Cons by simp
qed simp

lemma clerk_Query_spec:
  assumes "0 < ck_servers ck" "Retries (clientConfig ck) < 0"
  shows "\<exists>ck'. clerk_Query n attempts ck = Ok (map_option CtlReply_Config (firstOK attempts), ck')"
proof -
  obtain h c where h: "NextHeader (ck_session ck) = (h, c)" by force
  have "callLoop (ck\<lparr>ck_session := c\<rparr>) 0 attempts = Ok (case firstOK attempts of None \<Rightarrow> Running | Some r \<Rightarrow> Returned r)"
    using assms by (intro callLoop_firstOK) (simp_all add: retrying_def)
  then show ?thesis using h by (auto simp: clerk_Query_def clerk_call_def replyOf_def Let_def split: option.split)
qed

text \<open>
  C22. \<^verbatim>\<open>configureAction\<close> on every branch: while any shard is migrating it does not even ask; otherwise
  it asks the controller for the configuration after the current one and proposes exactly the configuration with
  that number. It waits while no attempt has been answered OK, and panics on an answer without a
  configuration.
\<close>

theorem configureAction_decides:
  assumes ok: "kv_ok (stateMachine kv)" "CurrentConfig (stateMachine kv) = Some c"
    and visit: "iterates (Shards (stateMachine kv)) (v (Shards (stateMachine kv)))"
    and ck: "0 < ck_servers (controller kv)" "Retries (clientConfig (controller kv)) < 0"
  shows "if \<exists>i \<in> dom (Shards (stateMachine kv)). Status (shardAt (stateMachine kv) i) \<noteq> Ok SERVING
    then configureAction v attempts h kv = Ok (Some None, kv)
    else \<exists>ck. configureAction v attempts h kv =
      (case firstOK attempts of
         None \<Rightarrow> Ok (None, kv\<lparr>controller := ck\<rparr>)
       | Some r \<Rightarrow>
           (case CtlReply_Config r of
              None \<Rightarrow> Panic NilDeref
            | Some nc \<Rightarrow> Ok (Some (if PbConfig_Num nc = Config_Num c + 1
                then Some (KvArgs_zero\<lparr>KvArgs_SessionHeader := Some h, KvArgs_Type := Kv_RECONFIGURE, NextConfig := Some nc\<rparr>)
                else None), kv\<lparr>controller := ck\<rparr>)))"
proof -
  let ?s = "stateMachine kv"
  have sok: "shards_ok (Shards ?s)" using ok(1) by (simp add: kv_ok_def)
  have "isMigrating ?s (v (Shards ?s)) = Ok (\<exists>i \<in> dom (Shards ?s). Status (shardAt ?s i) \<noteq> Ok SERVING)"
    using isMigrating_spec[OF sok, of "v (Shards ?s)"] visit by (simp add: iterates_def)
  moreover obtain ck' where "clerk_Query (Config_Num c + 1) attempts (controller kv) =
      Ok (map_option CtlReply_Config (firstOK attempts), ck')" using clerk_Query_spec[OF ck] by blast
  ultimately show ?thesis
    by (auto simp: configureAction_def configNum_def ok(2) KvArgs_zero_def Let_def split: option.splits intro: exI[of _ ck'])
qed

theorem configureAction_decides_witness:
  "\<exists>ck. configureAction (\<lambda>m. [3]) [CallError, Answered (CtlReply_zero\<lparr>CtlReply_Status := Ctl_OK, CtlReply_Config := Some lose_config\<rparr>)]
      \<lparr>Header_ID = 7, Header_Seq = 1\<rparr> sample_server =
    Ok (Some (Some (KvArgs_zero\<lparr>KvArgs_SessionHeader := Some \<lparr>Header_ID = 7, Header_Seq = 1\<rparr>, KvArgs_Type := Kv_RECONFIGURE,
      NextConfig := Some lose_config\<rparr>)), sample_server\<lparr>controller := ck\<rparr>)"
proof -
  have s: "stateMachine sample_server = sample_kv" "CurrentConfig sample_kv = Some sample_config"
    "dom (Shards sample_kv) = {3}" "iterates (Shards sample_kv) [3]"
    by (auto simp: sample_server_def sample_kv_def iterates_def)
  have ck: "0 < ck_servers (controller sample_server)" "Retries (clientConfig (controller sample_server)) < 0"
    by (simp_all add: sample_server_def MakeClerk_def defaultConfig_def)
  from configureAction_decides[of sample_server sample_config "\<lambda>m. [3]" "[CallError, Answered (CtlReply_zero\<lparr>CtlReply_Status := Ctl_OK,
      CtlReply_Config := Some lose_config\<rparr>)]"] sample_kv_ok(1) s ck
  show ?thesis by (auto simp: sample_shardAt sample_shard_def lose_config_def sample_config_def)
qed

section \<open>Asking other groups\<close>

definition shardsFrom :: "shard_visit \<Rightarrow> int32 \<Rightarrow> Config \<Rightarrow> 'any StateMachine \<Rightarrow> int64 \<Rightarrow> int64 list" where
  "shardsFrom v status l s p =
     filter (\<lambda>i. Status (shardAt s i) = Ok status \<and> Config_Shards l ! nat (sint i) = p) (v (Shards s))"

lemma addToGid_spec:
  assumes "shards_ok (Shards s)" "LastConfig s = Some l" "i \<in> dom (Shards s)" "0 \<le> sint i" "sint i < int (length (Config_Shards l))"
  shows "addToGid status s m i = Ok (if Status (shardAt s i) = Ok status
    then m(Config_Shards l ! nat (sint i) \<mapsto> (case m (Config_Shards l ! nat (sint i)) of None \<Rightarrow> [] | Some ids \<Rightarrow> ids) @ [i]) else m)"
proof -
  obtain pb where "shardAt s i = Some (Shard (Some pb))" "Shard_ID pb = i"
    by (rule shardAt_ok[OF assms(1), of i]) (use assms(3) in auto)
  then show ?thesis using assms(2,4,5)
    by (auto simp: addToGid_def indexInt_def ID_def shardOf_def split: option.split)
qed

lemma gid2Shards_spec:
  assumes "shards_ok (Shards s)" "LastConfig s = Some l" "iterates (Shards s) (v (Shards s))"
    "\<forall>i \<in> dom (Shards s). 0 \<le> sint i \<and> sint i < int (length (Config_Shards l))"
  shows "getGid2ShardsOnLastConfigByStatus v status s =
    Ok (\<lambda>p. if shardsFrom v status l s p = [] then None else Some (shardsFrom v status l s p))"
proof -
  let ?f = "\<lambda>is p. filter (\<lambda>i. Status (shardAt s i) = Ok status \<and> Config_Shards l ! nat (sint i) = p) is"
  have "foldM_go (addToGid status s) Map.empty is = Ok (\<lambda>p. if ?f is p = [] then None else Some (?f is p))"
    if "set is \<subseteq> dom (Shards s)" for "is"
    using that
  proof (induction "is" rule: rev_induct)
    case (snoc i "is")
    then have "i \<in> dom (Shards s)" by simp
    then show ?case using snoc addToGid_spec[OF assms(1,2), of i] assms(4)
      by (simp add: foldM_go_append) (auto simp: fun_eq_iff)
  qed simp
  then show ?thesis using assms(3)
    unfolding getGid2ShardsOnLastConfigByStatus_def shardsFrom_def iterates_def by simp
qed

lemma visited_all: "set ks \<subseteq> dom m \<Longrightarrow> visited m ks = map (\<lambda>k. (k, the (m k))) ks"
  by (induction ks) (auto simp: visited_def map_filter_simps)

lemma migrations_spec:
  assumes ok: "kv_ok (stateMachine kv)" "CurrentConfig (stateMachine kv) = Some c" "LastConfig (stateMachine kv) = Some l"
    and visit: "\<And>m. iterates m (v m)" "\<And>m. iterates m (w m)"
    and last: "\<forall>i \<in> dom (Shards (stateMachine kv)). 0 \<le> sint i \<and> sint i < int (length (Config_Shards l))"
  shows "\<exists>ps. distinct ps \<and> (\<forall>p. p \<in> set ps \<longleftrightarrow> shardsFrom v status l (stateMachine kv) p \<noteq> []) \<and>
    migrations v w status kv = Ok (map (\<lambda>p. (p, shardsFrom v status l (stateMachine kv) p, Config_Num c)) ps)"
proof -
  let ?s = "stateMachine kv" and ?f = "shardsFrom v status l (stateMachine kv)"
  let ?m = "\<lambda>p. if ?f p = [] then None else Some (?f p)"
  have sok: "shards_ok (Shards ?s)" using ok(1) by (simp add: kv_ok_def)
  note m = gid2Shards_spec[where v = v and s = "stateMachine kv" and status = status, OF sok ok(3) visit(1) last]
  have w: "distinct (w ?m)" "set (w ?m) = dom ?m" using visit(2) by (auto simp: iterates_def)
  have loop: "foldM_go (\<lambda>acc (gid, ids). go_bind (configNum (CurrentConfig ?s)) (\<lambda>n. Ok (acc @ [(gid, ids, n)]))) acc xs =
      Ok (acc @ map (\<lambda>(p, ids). (p, ids, Config_Num c)) xs)" for acc and xs :: "(int64 \<times> int64 list) list"
    by (induction xs arbitrary: acc) (auto simp: configNum_def ok(2))
  have "visited ?m (w ?m) = map (\<lambda>p. (p, ?f p)) (w ?m)" using visited_all[of "w ?m" ?m] w(2) by (auto split: if_splits)
  then have "migrations v w status kv = Ok (map (\<lambda>p. (p, ?f p, Config_Num c)) (w ?m))"
    using m loop[of "[]"] by (simp add: migrations_def)
  then show ?thesis using w by (intro exI[of _ "w ?m"]) (auto split: if_splits)
qed

text \<open>
  C23. The monitors that migrate shards call each group exactly once that had, in the last configuration, shards
  this group now awaits (\<^verbatim>\<open>migratingAction\<close>) or has taken over (\<^verbatim>\<open>gcAction\<close>), for exactly these shards and
  under the number of the current configuration.
\<close>

theorem migration_calls:
  assumes "kv_ok (stateMachine kv)" "CurrentConfig (stateMachine kv) = Some c" "LastConfig (stateMachine kv) = Some l"
    "\<And>m. iterates m (v m)" "\<And>m. iterates m (w m)"
    "\<forall>i \<in> dom (Shards (stateMachine kv)). 0 \<le> sint i \<and> sint i < int (length (Config_Shards l))"
  shows "(\<exists>ps. distinct ps \<and> (\<forall>p. p \<in> set ps \<longleftrightarrow> shardsFrom v PULLING l (stateMachine kv) p \<noteq> []) \<and>
      migratingAction v w kv = Ok (map (\<lambda>p. (p, shardsFrom v PULLING l (stateMachine kv) p, Config_Num c)) ps)) \<and>
    (\<exists>ps. distinct ps \<and> (\<forall>p. p \<in> set ps \<longleftrightarrow> shardsFrom v GC l (stateMachine kv) p \<noteq> []) \<and>
      gcAction v w kv = Ok (map (\<lambda>p. (p, shardsFrom v GC l (stateMachine kv) p, Config_Num c)) ps))"
  using migrations_spec[OF assms] by (simp add: migratingAction_def gcAction_def)

definition last_config :: Config where
  "last_config = \<lparr>Config_Num = 3, Config_Shards = (replicate NShards 0)[3 := 6], Config_Groups = Map.empty\<rparr>"

theorem migration_calls_witness:
  "migratingAction (\<lambda>m. sorted_list_of_set (dom m)) (\<lambda>m. sorted_list_of_set (dom m))
      (sample_server\<lparr>stateMachine := sample_puller\<lparr>LastConfig := Some last_config\<rparr>\<rparr>) = Ok [(6, [3], 4)]"
proof -
  let ?v = "\<lambda>m. sorted_list_of_set (dom m)"
  let ?s = "sample_puller\<lparr>LastConfig := Some last_config\<rparr>" and ?kv = "sample_server\<lparr>stateMachine := sample_puller\<lparr>LastConfig := Some last_config\<rparr>\<rparr>"
  have s: "kv_ok ?s" "CurrentConfig ?s = Some sample_config" "Shards ?s = Shards sample_puller"
    using sample_kv_ok(2) by (simp_all add: kv_ok_def sample_puller_def sample_kv_def)
  have d: "dom (Shards sample_puller) = {3}" "length (Config_Shards last_config) = NShards" "shardAt ?s = shardAt sample_puller"
    by (auto simp: sample_puller_def last_config_def shardAt_def fun_eq_iff)
  have v: "iterates m (?v m)" for m :: "int64 \<rightharpoonup> 'a" by (simp add: iterates_def)
  have f: "shardsFrom ?v PULLING last_config ?s p = (if p = 6 then [3] else [])" for p
    unfolding shardsFrom_def s(3) d(1,3)
    by (simp add: sample_shardAt sample_shard_def last_config_def NShards_def)
  have r: "\<forall>i \<in> dom (Shards (stateMachine ?kv)). 0 \<le> sint i \<and> sint i < int (length (Config_Shards last_config))"
    using s(3) d by (simp add: NShards_def)
  have "kv_ok (stateMachine ?kv)" "CurrentConfig (stateMachine ?kv) = Some sample_config"
    "LastConfig (stateMachine ?kv) = Some last_config" using s by simp_all
  from conjunct1[OF migration_calls[OF this v v r]] obtain ps where
    ps: "distinct ps" "\<forall>p. p \<in> set ps \<longleftrightarrow> shardsFrom ?v PULLING last_config ?s p \<noteq> []"
      "migratingAction ?v ?v ?kv = Ok (map (\<lambda>p. (p, shardsFrom ?v PULLING last_config ?s p, Config_Num sample_config)) ps)"
    by auto
  then have "\<forall>p. p \<in> set ps \<longleftrightarrow> p = 6" by (simp add: f)
  then have "set ps = {6}" by auto
  then have "ps = [6]" using ps(1) by (cases ps rule: remdups_adj.cases) auto
  then show ?thesis using ps(3) by (simp add: f sample_config_def)
qed

section \<open>Lost requests\<close>

text \<open>
  C36. A request that a group refuses because it does not serve the key is recorded like an executed
  one: applying the same command again at the group, at any later time, executes nothing and gives no answer,
  even if the group serves the key by then.
\<close>

theorem refused_request_is_lost:
  assumes env: "env_ok env" "keys_ok (env_key2shard env)" and s: "kv_ok s"
    and msgs: "msgs_ok env (msg # msgs)" "KvArgs_Type (env_decode env (Command msg)) \<in> {Kv_GET, Kv_PUT, Kv_APPEND}"
    and refused: "\<not> served (env_key2shard env) gid s (KvArgs_Key (env_decode env (Command msg)))"
    and run: "kv_applies env gid (msg # msgs) s = Ok s'"
  shows "(\<exists>s1. kv_apply env gid msg s = Ok s1 \<and> Shards s1 = Shards s) \<and>
    kv_apply env gid msg s' = Ok (s'\<lparr>AppliedIndex := CommandIndex msg\<rparr>)"
proof -
  let ?args = "env_decode env (Command msg)"
  from run obtain s1 where 1: "kv_apply env gid msg s = Ok s1" by (auto simp: kv_applies_def)
  have "checkShard (env_key2shard env) gid (KvArgs_Key ?args) s = Ok False" using checkShard_spec[OF s env(2)] refused by simp
  then have cmd: "kv_command env gid ?args s = Ok (statusReply ERR_WRONG_GROUP, s)"
    using msgs(2) by (auto simp: kv_command_def Kv_types applyGet_def applyPut_def applyAppend_def Let_def)
  have "Shards s1 = Shards s" using 1 cmd by (auto simp: kv_apply_def Let_def split: if_splits)
  moreover from kv_applies_run[OF env(1) s msgs(1) run] obtain h where
    h: "kv_ok s'" "KvArgs_SessionHeader ?args = Some h" "IsDuplicate (Some h) (kv_SessionMap s') = Ok True" by auto
  moreover from h have "kv_apply env gid msg s' = Ok (s'\<lparr>AppliedIndex := CommandIndex msg\<rparr>)" by (simp add: kv_apply_def)
  ultimately show ?thesis using 1 by blast
qed

lemma sample_refused:
  "\<exists>s'. kv_applies sample_env 5 [sample_msg] sample_puller = Ok s' \<and> table_processed (kv_SessionMap s') 9 = Some 1"
proof -
  let ?args = "env_decode sample_env (Command sample_msg)" and ?h = "\<lparr>Header_ID = 9, Header_Seq = 1\<rparr>"
  have refused: "\<not> served (\<lambda>_. 3) 5 sample_puller key" for key
    by (simp add: served_def sample_shardAt sample_shard_def shard_status)
  then have "checkShard (\<lambda>_. 3) 5 key sample_puller = Ok False" for key
    using checkShard_spec[OF sample_kv_ok(2) sample_keys] by simp
  then have cmd: "kv_command sample_env 5 ?args sample_puller = Ok (statusReply ERR_WRONG_GROUP, sample_puller)"
    by (simp add: kv_command_def sample_env_def Kv_types applyPut_def Let_def)
  have "KvArgs_SessionHeader ?args = Some ?h" "table_processed (kv_SessionMap sample_puller) 9 = None"
    by (simp_all add: sample_env_def sample_puller_def sample_kv_def table_ok_New)
  with kv_apply_runs[OF sample_kv_ok(2) refl _ _ cmd] show ?thesis by (auto simp: kv_applies_def)
qed

theorem refused_request_is_lost_witness:
  "\<exists>s'. kv_applies sample_env 5 [sample_msg] sample_puller = Ok s' \<and>
    kv_apply sample_env 5 sample_msg s' = Ok (s'\<lparr>AppliedIndex := CommandIndex sample_msg\<rparr>)"
proof -
  have k: "env_key2shard sample_env = (\<lambda>_. 3)" by (simp add: sample_env_def)
  have refused: "\<not> served (\<lambda>_. 3) 5 sample_puller key" for key
    by (simp add: served_def sample_shardAt sample_shard_def shard_status)
  obtain s' where "kv_applies sample_env 5 [sample_msg] sample_puller = Ok s'" using sample_refused by blast
  moreover have "KvArgs_Type (env_decode sample_env (Command sample_msg)) \<in> {Kv_GET, Kv_PUT, Kv_APPEND}" by (simp add: sample_env_def)
  ultimately show ?thesis
    using refused_request_is_lost[OF sample_env_ok(1) _ sample_kv_ok(2) sample_env_ok(2), of sample_msg 5 "[]" s'] refused k sample_keys by auto
qed

text \<open>
  C37. \<^verbatim>\<open>DeleteShards\<close> tells the group that took the shards over that they are deleted even when its command
  has not been applied: when its wait ends because something else was applied at the index, and the server has so far
  recorded only an earlier request of this client, none of the commands the server has applied is the
  request, \<^verbatim>\<open>Execute\<close> ends with BAD_SESSION, and yet the reply of \<^verbatim>\<open>DeleteShards\<close> has status OK.
\<close>

theorem delete_answers_ok:
  assumes "env_ok env" "kv_ok s0" "msgs_ok env msgs" "kv_applies env gid msgs s0 = Ok (stateMachine kv)"
    and h: "KvArgs_SessionHeader args = Some h"
    and earlier: "table_processed (kv_SessionMap (stateMachine kv)) (Header_ID h) = Some n" "n < Header_Seq h"
  shows "(\<forall>msg \<in> set msgs. KvArgs_SessionHeader (env_decode env (Command msg)) \<noteq> Some h) \<and>
    kv_Execute_end unmarshalAny errText args reply kv =
      Ok (reply\<lparr>KvReply_Status := ERR_BAD_SESSION, KvReply_Message := errText ErrReturned\<rparr>) \<and>
    DeleteShards_end unmarshalAny errText args reply kv =
      Ok (reply\<lparr>KvReply_Status := Kv_OK, KvReply_Message := errText ErrReturned\<rparr>)"
proof -
  from kv_applies_run[OF assms(1-4)] have t: "table_ok (kv_SessionMap (stateMachine kv))"
    and applied: "\<And>msg. msg \<in> set msgs \<Longrightarrow> \<exists>h. KvArgs_SessionHeader (env_decode env (Command msg)) = Some h \<and>
       IsDuplicate (Some h) (kv_SessionMap (stateMachine kv)) = Ok True" by (auto simp: kv_ok_def)
  have "IsDuplicate (Some h) (kv_SessionMap (stateMachine kv)) = Ok False" using IsDuplicate_spec[OF t] earlier by simp
  then have new: "KvArgs_SessionHeader (env_decode env (Command msg)) \<noteq> Some h" if "msg \<in> set msgs" for msg
    using applied[OF that] by auto
  have "GetResponse unmarshalAny (Some h) (kv_SessionMap (stateMachine kv)) = Ok (None, Some ErrReturned)"
    by (rule table_entry[OF t, of "Header_ID h"])
      (use earlier t in \<open>auto simp: GetResponse_def withLock_def getResponse_def getSession_def table_ok_def\<close>)
  then show ?thesis using h new by (cases reply) (simp add: kv_Execute_end_def DeleteShards_end_def)
qed

theorem delete_answers_ok_witness:
  "\<exists>s. kv_applies sample_env 5 [sample_msg] sample_puller = Ok s \<and>
    DeleteShards_end (\<lambda>_ _. None :: unit option) (\<lambda>_. ''returned'')
      (KvArgs_zero\<lparr>KvArgs_Type := Kv_DELETE_SHARDS, KvArgs_SessionHeader := Some \<lparr>Header_ID = 9, Header_Seq = 2\<rparr>\<rparr>) KvReply_zero
      (sample_server\<lparr>stateMachine := s\<rparr>) =
    Ok (KvReply_zero\<lparr>KvReply_Status := Kv_OK, KvReply_Message := ''returned''\<rparr>)"
proof -
  obtain s where s: "kv_applies sample_env 5 [sample_msg] sample_puller = Ok s" "table_processed (kv_SessionMap s) 9 = Some 1"
    using sample_refused by blast
  then show ?thesis
    using delete_answers_ok[OF sample_env_ok(1) sample_kv_ok(2) sample_env_ok(2), of 5 "[sample_msg]" "sample_server\<lparr>stateMachine := s\<rparr>"
        "KvArgs_zero\<lparr>KvArgs_Type := Kv_DELETE_SHARDS, KvArgs_SessionHeader := Some \<lparr>Header_ID = 9, Header_Seq = 2\<rparr>\<rparr>"
        "\<lparr>Header_ID = 9, Header_Seq = 2\<rparr>" 1 "\<lambda>_ _. None :: unit option" "\<lambda>_. ''returned''" KvReply_zero] by auto
qed

end
