(* ===== verification/Migration_Protocol.thy ===== *)
theory Migration_Protocol
  imports KV_Server
begin

text \<open>
  What the groups of store servers promise together, src/server/server.go seen from outside: one
  store, and a protocol by which groups take over shards from each other. The specification knows
  of every group only a \<open>view\<close> (the number of its configuration, the phase and content of each shard,
  and the requests it has processed) and of the network only what was asked for and offered. The
  theory Shard_System shows that the code follows it.
\<close>

section \<open>The store\<close>

datatype store_op = OpGet (op_key: string) | OpPut (op_key: string) string | OpAppend (op_key: string) string

text \<open>What an operation does to a map from keys to values, and what it answers.\<close>

fun op_effect :: "store_op \<Rightarrow> (string \<rightharpoonup> string) \<Rightarrow> (string \<rightharpoonup> string)" where
  "op_effect (OpGet k) m = m"
| "op_effect (OpPut k v) m = m(k \<mapsto> v)"
| "op_effect (OpAppend k v) m = m(k \<mapsto> (case m k of None \<Rightarrow> [] | Some x \<Rightarrow> x) @ v)"

fun op_reply :: "store_op \<Rightarrow> (string \<rightharpoonup> string) \<Rightarrow> KvReply" where
  "op_reply (OpGet k) m =
     (case m k of None \<Rightarrow> statusReply ERR_NO_KEY | Some v \<Rightarrow> (statusReply Kv_OK)\<lparr>KvReply_Value := v\<rparr>)"
| "op_reply _ m = statusReply Kv_OK"

text \<open>
  An answered request is its header, the operation and the reply. A list of them, in the order of
  execution, leads from the empty store to \<open>contents\<close>, and is \<open>legal\<close> if every reply is the one of a
  single map that executes the operations one after the other.
\<close>

type_synonym answer = "SessionHeader \<times> store_op \<times> KvReply"

definition contents :: "answer list \<Rightarrow> string \<rightharpoonup> string" where
  "contents tr = foldl (\<lambda>m (_, operation, _). op_effect operation m) Map.empty tr"

fun legal_from :: "(string \<rightharpoonup> string) \<Rightarrow> answer list \<Rightarrow> bool" where
  "legal_from m [] = True"
| "legal_from m ((_, operation, reply) # tr) \<longleftrightarrow> reply = op_reply operation m \<and> legal_from (op_effect operation m) tr"

definition legal :: "answer list \<Rightarrow> bool" where
  "legal tr = legal_from Map.empty tr"

text \<open>The answers on the keys of one shard to the requests of one client.\<close>

definition on_shard :: "(string \<Rightarrow> int64) \<Rightarrow> int64 \<Rightarrow> int64 \<Rightarrow> answer list \<Rightarrow> answer list" where
  "on_shard k2s i client tr = filter (\<lambda>(h, operation, _). k2s (op_key operation) = i \<and> Header_ID h = client) tr"

definition once_each :: "(string \<Rightarrow> int64) \<Rightarrow> answer list \<Rightarrow> bool" where
  "once_each k2s tr \<longleftrightarrow>
     (\<forall>i client. sorted_wrt (<) (map (\<lambda>(h, _). Header_Seq h) (on_shard k2s i client tr)))"

lemma contents_append: "contents (tr @ [(h, operation, r)]) = op_effect operation (contents tr)"
  by (simp add: contents_def)

lemma contents_Nil: "contents [] = Map.empty"
  by (simp add: contents_def)

lemma legal_from_append:
  "legal_from m (tr @ [(h, operation, r)]) \<longleftrightarrow>
   legal_from m tr \<and> r = op_reply operation (foldl (\<lambda>m (_, operation, _). op_effect operation m) m tr)"
  by (induction tr arbitrary: m) (simp_all split: prod.splits)

lemma legal_append: "legal (tr @ [(h, operation, r)]) \<longleftrightarrow> legal tr \<and> r = op_reply operation (contents tr)"
  by (simp add: legal_def contents_def legal_from_append)

lemma op_effect_other: "k \<noteq> op_key operation \<Longrightarrow> op_effect operation m k = m k"
  by (cases operation) auto

lemma op_effect_local:
  assumes "m (op_key operation) = m' (op_key operation)"
  shows "op_effect operation m (op_key operation) = op_effect operation m' (op_key operation)"
    "op_reply operation m = op_reply operation m'"
  using assms by (cases operation; simp)+

text \<open>A key no operation was about is not in the store.\<close>

lemma contents_untouched: "\<forall>(h, operation, r) \<in> set tr. op_key operation \<noteq> k \<Longrightarrow> contents tr k = None"
  by (induction tr rule: rev_induct) (auto simp: contents_Nil contents_append op_effect_other)

section \<open>The protocol\<close>

datatype phase = Serving | Awaiting | Leaving | Taken

record view =
  v_num :: nat
  v_phase :: "int64 \<Rightarrow> phase"
  v_held :: "int64 \<Rightarrow> string \<rightharpoonup> string"
  v_seen :: "int64 \<rightharpoonup> uint64"

text \<open>
  \<open>p_past\<close> holds the views a replica of the group may still have: all it has been through. \<open>p_ready\<close>:
  configurations proposed to a group; \<open>p_wanted\<close>: shards asked for by a group in its configuration
  from another one; \<open>p_offers\<close>: contents and sessions on their way to a group; \<open>p_drops\<close>: shards a group
  is asked to give up in a configuration.
\<close>

record protocol =
  p_now :: "int64 \<Rightarrow> view"
  p_past :: "int64 \<Rightarrow> view set"
  p_ready :: "(int64 \<times> nat) set"
  p_wanted :: "(int64 \<times> nat \<times> int64 \<times> int64 set) set"
  p_offers :: "(int64 \<times> nat \<times> int64 set \<times> (int64 \<Rightarrow> string \<rightharpoonup> string) \<times> (int64 \<rightharpoonup> uint64)) set"
  p_drops :: "(int64 \<times> nat \<times> int64 set) set"
  p_answers :: "answer list"

text \<open>Whether a request is one of those processed, and the order in which tables of requests grow.\<close>

definition covered :: "(int64 \<rightharpoonup> uint64) \<Rightarrow> SessionHeader \<Rightarrow> bool" where
  "covered sn h \<longleftrightarrow> (case sn (Header_ID h) of None \<Rightarrow> False | Some n \<Rightarrow> Header_Seq h \<le> n)"

definition seen_le :: "(int64 \<rightharpoonup> uint64) \<Rightarrow> (int64 \<rightharpoonup> uint64) \<Rightarrow> bool" where
  "seen_le a b \<longleftrightarrow> (\<forall>h. covered a h \<longrightarrow> covered b h)"

text \<open>\<open>own n i\<close> is the group of shard \<open>i\<close> in configuration \<open>n\<close>; group 0 is none.\<close>

type_synonym ownership = "nat \<Rightarrow> int64 \<Rightarrow> int64"

definition serves :: "ownership \<Rightarrow> int64 \<Rightarrow> view \<Rightarrow> int64 \<Rightarrow> bool" where
  "serves own g v i \<longleftrightarrow> own (v_num v) i = g \<and> (v_phase v i = Serving \<or> v_phase v i = Taken)"

definition nextPhase :: "ownership \<Rightarrow> int64 \<Rightarrow> nat \<Rightarrow> int64 \<Rightarrow> phase \<Rightarrow> phase" where
  "nextPhase own g n i ph =
     (if n = 0 then ph
      else if own n i = g \<and> own (Suc n) i \<noteq> g then Leaving
      else if own n i \<noteq> g \<and> own (Suc n) i = g then Awaiting else ph)"

text \<open>A group reaches a new view, which its replicas will have from now on.\<close>

definition advance :: "int64 \<Rightarrow> view \<Rightarrow> protocol \<Rightarrow> protocol" where
  "advance g v P = P\<lparr>p_now := (p_now P)(g := v), p_past := (p_past P)(g := insert v (p_past P g))\<rparr>"

definition executed :: "int64 \<Rightarrow> SessionHeader \<Rightarrow> store_op \<Rightarrow> view \<Rightarrow> view" where
  "executed i h operation v =
     v\<lparr>v_held := (v_held v)(i := op_effect operation (v_held v i)), v_seen := (v_seen v)(Header_ID h \<mapsto> Header_Seq h)\<rparr>"

definition reconfigured :: "ownership \<Rightarrow> int64 \<Rightarrow> view \<Rightarrow> view" where
  "reconfigured own g v = v\<lparr>v_num := Suc (v_num v), v_phase := (\<lambda>i. nextPhase own g (v_num v) i (v_phase v i))\<rparr>"

definition inserted :: "int64 set \<Rightarrow> (int64 \<Rightarrow> string \<rightharpoonup> string) \<Rightarrow> (int64 \<rightharpoonup> uint64) \<Rightarrow> view \<Rightarrow> view" where
  "inserted ids kv sn v =
     v\<lparr>v_phase := (\<lambda>i. if i \<in> ids \<and> v_phase v i = Awaiting then Taken else v_phase v i),
       v_held := (\<lambda>i. if i \<in> ids \<and> v_phase v i = Awaiting then kv i else v_held v i), v_seen := sn\<rparr>"

definition dropped :: "int64 set \<Rightarrow> view \<Rightarrow> view" where
  "dropped ids v =
     v\<lparr>v_phase := (\<lambda>i. if i \<in> ids \<and> (v_phase v i = Leaving \<or> v_phase v i = Taken) then Serving else v_phase v i),
       v_held := (\<lambda>i. if i \<in> ids \<and> v_phase v i = Leaving then Map.empty else v_held v i)\<rparr>"

inductive proto_step :: "ownership \<Rightarrow> nat \<Rightarrow> (string \<Rightarrow> int64) \<Rightarrow> protocol \<Rightarrow> protocol \<Rightarrow> bool"
  for own :: ownership and len :: nat and k2s :: "string \<Rightarrow> int64" where
  execute: "g \<noteq> 0 \<Longrightarrow> v = p_now P g \<Longrightarrow> i = k2s (op_key operation) \<Longrightarrow> serves own g v i \<Longrightarrow> \<not> covered (v_seen v) h \<Longrightarrow>
    proto_step own len k2s P
      ((advance g (executed i h operation v) P)\<lparr>p_answers := p_answers P @ [(h, operation, op_reply operation (v_held v i))]\<rparr>)"
| record_request: "g \<noteq> 0 \<Longrightarrow> v = p_now P g \<Longrightarrow> seen_le (v_seen v) sn \<Longrightarrow>
    proto_step own len k2s P (advance g (v\<lparr>v_seen := sn\<rparr>) P)"
| propose: "g \<noteq> 0 \<Longrightarrow> v \<in> p_past P g \<Longrightarrow> Suc (v_num v) < len \<Longrightarrow> \<forall>i. v_phase v i = Serving \<Longrightarrow>
    proto_step own len k2s P (P\<lparr>p_ready := insert (g, Suc (v_num v)) (p_ready P)\<rparr>)"
| reconfigure: "g \<noteq> 0 \<Longrightarrow> v = p_now P g \<Longrightarrow> (g, Suc (v_num v)) \<in> p_ready P \<Longrightarrow>
    proto_step own len k2s P (advance g (reconfigured own g v) P)"
| want: "g \<noteq> 0 \<Longrightarrow> v \<in> p_past P g \<Longrightarrow> \<forall>i \<in> ids. v_phase v i = Awaiting \<and> own (v_num v - 1) i = p \<Longrightarrow>
    proto_step own len k2s P (P\<lparr>p_wanted := insert (g, v_num v, p, ids) (p_wanted P)\<rparr>)"
| offer: "(g, n, p, ids) \<in> p_wanted P \<Longrightarrow> p \<noteq> 0 \<Longrightarrow> v \<in> p_past P p \<Longrightarrow> n \<le> v_num v \<Longrightarrow>
    proto_step own len k2s P (P\<lparr>p_offers := insert (g, n, ids, v_held v, v_seen v) (p_offers P)\<rparr>)"
| insert: "g \<noteq> 0 \<Longrightarrow> v = p_now P g \<Longrightarrow> (g, n, ids, kv, sn) \<in> p_offers P \<Longrightarrow> v_num v \<le> n \<Longrightarrow>
    seen_le (v_seen v) sn' \<Longrightarrow> seen_le sn sn' \<Longrightarrow>
    proto_step own len k2s P (advance g (inserted ids kv sn' v) P)"
| give_up: "g \<noteq> 0 \<Longrightarrow> v \<in> p_past P g \<Longrightarrow> \<forall>i \<in> ids. v_phase v i = Taken \<Longrightarrow>
    proto_step own len k2s P (P\<lparr>p_drops := insert (h, v_num v, ids) (p_drops P)\<rparr>)"
| delete: "g \<noteq> 0 \<Longrightarrow> v = p_now P g \<Longrightarrow> (g, v_num v, ids) \<in> p_drops P \<Longrightarrow>
    proto_step own len k2s P (advance g (dropped ids v) P)"

definition view0 :: view where
  "view0 = \<lparr>v_num = 0, v_phase = (\<lambda>_. Serving), v_held = (\<lambda>_. Map.empty), v_seen = Map.empty\<rparr>"

definition protocol0 :: protocol where
  "protocol0 = \<lparr>p_now = (\<lambda>_. view0), p_past = (\<lambda>_. {view0}), p_ready = {}, p_wanted = {}, p_offers = {},
     p_drops = {}, p_answers = []\<rparr>"

definition proto_reach :: "ownership \<Rightarrow> nat \<Rightarrow> (string \<Rightarrow> int64) \<Rightarrow> protocol \<Rightarrow> bool" where
  "proto_reach own len k2s = rtranclp (proto_step own len k2s) protocol0"

section \<open>Laws of views\<close>

lemma advance_simps [simp]:
  "p_now (advance g v P) = (p_now P)(g := v)" "p_past (advance g v P) = (p_past P)(g := insert v (p_past P g))"
  "p_ready (advance g v P) = p_ready P" "p_wanted (advance g v P) = p_wanted P" "p_offers (advance g v P) = p_offers P"
  "p_drops (advance g v P) = p_drops P" "p_answers (advance g v P) = p_answers P"
  by (simp_all add: advance_def)

lemma executed_simps [simp]:
  "v_num (executed i h operation v) = v_num v" "v_phase (executed i h operation v) = v_phase v"
  "v_held (executed i h operation v) = (v_held v)(i := op_effect operation (v_held v i))"
  "v_seen (executed i h operation v) = (v_seen v)(Header_ID h \<mapsto> Header_Seq h)"
  by (simp_all add: executed_def)

lemma reconfigured_simps [simp]:
  "v_num (reconfigured own g v) = Suc (v_num v)"
  "v_phase (reconfigured own g v) i = nextPhase own g (v_num v) i (v_phase v i)"
  "v_held (reconfigured own g v) = v_held v" "v_seen (reconfigured own g v) = v_seen v"
  by (simp_all add: reconfigured_def)

lemma inserted_simps [simp]:
  "v_num (inserted ids kv sn v) = v_num v"
  "v_phase (inserted ids kv sn v) i = (if i \<in> ids \<and> v_phase v i = Awaiting then Taken else v_phase v i)"
  "v_held (inserted ids kv sn v) i = (if i \<in> ids \<and> v_phase v i = Awaiting then kv i else v_held v i)"
  "v_seen (inserted ids kv sn v) = sn"
  by (simp_all add: inserted_def)

lemma dropped_simps [simp]:
  "v_num (dropped ids v) = v_num v"
  "v_phase (dropped ids v) i = (if i \<in> ids \<and> (v_phase v i = Leaving \<or> v_phase v i = Taken) then Serving else v_phase v i)"
  "v_held (dropped ids v) i = (if i \<in> ids \<and> v_phase v i = Leaving then Map.empty else v_held v i)"
  "v_seen (dropped ids v) = v_seen v"
  by (simp_all add: dropped_def)

lemma seen_le_refl [simp]: "seen_le a a"
  by (simp add: seen_le_def)

lemma seen_le_trans: "seen_le a b \<Longrightarrow> seen_le b c \<Longrightarrow> seen_le a c"
  by (simp add: seen_le_def)

lemma covered_upd:
  "covered (sn(j \<mapsto> n)) h \<longleftrightarrow> (if Header_ID h = j then Header_Seq h \<le> n else covered sn h)"
  by (simp add: covered_def)

lemma seen_le_upd: "\<not> covered sn h \<Longrightarrow> seen_le sn (sn(Header_ID h \<mapsto> Header_Seq h))"
  by (auto simp: seen_le_def covered_def split: option.splits)

end
