(* ===== verification/Shard_System.thy ===== *)
theory Shard_System
  imports KV_Migration Migration_Protocol
begin

text \<open>
  The groups of store servers as one system, src/server/server.go. Each group is its replicated
  state machine: the state all its replicas reach by applying the commands of their log, and the
  states on the way, in which a slower replica may still be. The monitors and remote handlers of a
  server act on the state of its replica, and what they do reaches other groups as commands: a
  command once proposed may be applied at any later time, several times, or never. The requests of
  clients may be applied at any time.

  The controller answers a query with the configuration of that number in a fixed history, which is what
  theory Shardctl_Properties shows of it. Package client, which the repository does not hold, is taken to
  deliver what its names say: \<^verbatim>\<open>PullShards\<close> returns a response the asked group gave, and
  \<^verbatim>\<open>DeleteShards\<close> passes the shards and the number of the configuration on. Responses and commands arrive
  as they were sent or in the form a trip over the wire gives them. A call that panics is not a step: the server
  is gone. \<^verbatim>\<open>migratingAction\<close> proposes pulled shards under the type INSERT_SHARDS, which \<^verbatim>\<open>apply\<close>
  ignores; the system lets them be proposed under PULL_SHARDS as well, the type under which \<^verbatim>\<open>apply\<close>
  inserts them.

  Every group starts in configuration 0 with some of the shards, empty. \<^verbatim>\<open>StartServer\<close> creates none, so the
  code's own runs are those that start without any (\<open>code_start\<close>) and propose under INSERT_SHARDS; in them no group
  ever serves a key (property kv_never_serves). The other runs are those of the program with these two
  slips put right. What is proved holds of all of them.
\<close>

section \<open>The system\<close>

type_synonym call = "int64 \<times> int64 list \<times> int64"

record 'any kv_system =
  sys_now :: "int64 \<Rightarrow> 'any StateMachine"
  sys_past :: "int64 \<Rightarrow> 'any StateMachine set"
  sys_commands :: "(int64 \<times> 'any KvArgs) set"
  sys_pulls :: "(int64 \<times> call) set"
  sys_deletes :: "(int64 \<times> call) set"
  sys_answers :: "answer list"

text \<open>What clients may send: every command but those of the migration.\<close>

definition client_command :: "'any KvArgs \<Rightarrow> bool" where
  "client_command args \<longleftrightarrow> KvArgs_Type args \<notin> {Kv_PULL_SHARDS, Kv_DELETE_SHARDS, Kv_RECONFIGURE}"

definition op_of :: "'any KvArgs \<Rightarrow> store_op option" where
  "op_of args =
     (if KvArgs_Type args = Kv_GET then Some (OpGet (KvArgs_Key args))
      else if KvArgs_Type args = Kv_PUT then Some (OpPut (KvArgs_Key args) (KvArgs_Value args))
      else if KvArgs_Type args = Kv_APPEND then Some (OpAppend (KvArgs_Key args) (KvArgs_Value args))
      else None)"

text \<open>
  The answer to a command applied in a state: the reply \<^verbatim>\<open>apply\<close> records for the request, unless the request
  is a duplicate or the group does not serve its key.
\<close>

definition kv_answer :: "('any, 'e) kv_env \<Rightarrow> int64 \<Rightarrow> 'any KvArgs \<Rightarrow> 'any StateMachine \<Rightarrow> answer list" where
  "kv_answer env g args s =
     (case (op_of args, KvArgs_SessionHeader args, IsDuplicate (KvArgs_SessionHeader args) (kv_SessionMap s),
            kv_command env g args s) of
        (Some operation, Some h, Ok False, Ok (reply, _)) \<Rightarrow>
          if KvReply_Status reply = ERR_WRONG_GROUP then [] else [(h, operation, reply)]
      | _ \<Rightarrow> [])"

text \<open>A command that was proposed to a group, as it was or as the log's bytes give it back.\<close>

definition proposed :: "'any kv_system \<Rightarrow> int64 \<Rightarrow> 'any KvArgs \<Rightarrow> bool" where
  "proposed S g args \<longleftrightarrow> (\<exists>args0 anorm. (g, args0) \<in> sys_commands S \<and> args \<in> {args0, KvArgs_norm anorm args0})"

inductive sys_step :: "('any, 'e) kv_env \<Rightarrow> PbConfig list \<Rightarrow> 'any kv_system \<Rightarrow> 'any kv_system \<Rightarrow> bool"
  for env :: "('any, 'e) kv_env" and cfgs :: "PbConfig list" where
  configure: "g \<noteq> 0 \<Longrightarrow> stateMachine kv \<in> sys_past S g \<Longrightarrow> (\<And>m. iterates m (v m)) \<Longrightarrow>
    configureAction v attempts h kv = Ok (Some (Some args), kv') \<Longrightarrow> NextConfig args = Some c \<Longrightarrow> c \<in> set cfgs \<Longrightarrow>
    sys_step env cfgs S (S\<lparr>sys_commands := insert (g, args) (sys_commands S)\<rparr>)"
| migrate: "g \<noteq> 0 \<Longrightarrow> stateMachine kv \<in> sys_past S g \<Longrightarrow> (\<And>m. iterates m (v m)) \<Longrightarrow> (\<And>m. iterates m (w m)) \<Longrightarrow>
    migratingAction v w kv = Ok calls \<Longrightarrow> call \<in> set calls \<Longrightarrow>
    sys_step env cfgs S (S\<lparr>sys_pulls := insert (g, call) (sys_pulls S)\<rparr>)"
| pull: "(g, p, ids, n) \<in> sys_pulls S \<Longrightarrow> p \<noteq> 0 \<Longrightarrow> stateMachine kv \<in> sys_past S p \<Longrightarrow>
    ShardIDs args = ids \<Longrightarrow> ConfigNum args = n \<Longrightarrow>
    PullShards marshalResponse (env_clone env) args KvReply_zero kv = Ok reply \<Longrightarrow> KvReply_Status reply = Kv_OK \<Longrightarrow>
    pulledShards (env_clone env) args (stateMachine kv) = Ok response \<Longrightarrow>
    response' \<in> {response, PullShardsResponse_norm anorm response} \<Longrightarrow> ty \<in> {Kv_INSERT_SHARDS, Kv_PULL_SHARDS} \<Longrightarrow>
    sys_step env cfgs S
      (S\<lparr>sys_commands := insert (g, (migratingAction_finish (Some response') h)\<lparr>KvArgs_Type := ty\<rparr>) (sys_commands S)\<rparr>)"
| collect: "g \<noteq> 0 \<Longrightarrow> stateMachine kv \<in> sys_past S g \<Longrightarrow> (\<And>m. iterates m (v m)) \<Longrightarrow> (\<And>m. iterates m (w m)) \<Longrightarrow>
    gcAction v w kv = Ok calls \<Longrightarrow> call \<in> set calls \<Longrightarrow>
    sys_step env cfgs S (S\<lparr>sys_deletes := insert (g, call) (sys_deletes S)\<rparr>)"
| delete_remote: "(g, p, ids, n) \<in> sys_deletes S \<Longrightarrow> p \<noteq> 0 \<Longrightarrow> stateMachine kv \<in> sys_past S p \<Longrightarrow>
    KvArgs_Type args = Kv_DELETE_SHARDS \<Longrightarrow> ShardIDs args = ids \<Longrightarrow> ConfigNum args = n \<Longrightarrow>
    DeleteShards_begin marshal (unmarshalAny :: 'any option \<Rightarrow> KvReply option \<Rightarrow> 'e option) errText args KvReply_zero kv = Ok (Inr index, kv') \<Longrightarrow>
    sys_step env cfgs S (S\<lparr>sys_commands := insert (p, args) (sys_commands S)\<rparr>)"
| delete_local: "(g, p, ids, n) \<in> sys_deletes S \<Longrightarrow>
    sys_step env cfgs S (S\<lparr>sys_commands := insert (g, gcAction_finish (ids, n) h) (sys_commands S)\<rparr>)"
| apply_command: "g \<noteq> 0 \<Longrightarrow> args = env_decode env (Command msg) \<Longrightarrow> proposed S g args \<or> client_command args \<Longrightarrow>
    kv_apply env g msg (sys_now S g) = Ok s' \<Longrightarrow>
    sys_step env cfgs S (S\<lparr>sys_now := (sys_now S)(g := s'), sys_past := (sys_past S)(g := insert s' (sys_past S g)),
      sys_answers := sys_answers S @ kv_answer env g args (sys_now S g)\<rparr>)"

text \<open>The start: group \<open>g\<close> has the shards \<open>D g\<close>.\<close>

definition valid_shard :: "int64 \<Rightarrow> bool" where
  "valid_shard i \<longleftrightarrow> 0 \<le> sint i \<and> sint i < int NShards"

definition allShards :: "int64 \<rightharpoonup> Shard option" where
  "allShards i =
     (if valid_shard i then Some (Some (Shard (Some \<lparr>Shard_ID = i, Shard_KV = Some Map.empty, Shard_Status = SERVING\<rparr>)))
      else None)"

definition sys_start :: "(int64 \<Rightarrow> int64 set) \<Rightarrow> 'any kv_system" where
  "sys_start D = \<lparr>sys_now = (\<lambda>g. initialState\<lparr>Shards := allShards |` D g\<rparr>),
     sys_past = (\<lambda>g. {initialState\<lparr>Shards := allShards |` D g\<rparr>}),
     sys_commands = {}, sys_pulls = {}, sys_deletes = {}, sys_answers = []\<rparr>"

lemma code_start: "sys_now (sys_start (\<lambda>_. {})) g = initialState"
  by (simp add: sys_start_def initialState_def)

text \<open>
  A history of configurations: numbered from 0, each with an array of full size, the first without
  groups; short enough that its numbers do not wrap around.
\<close>

definition configs_ok :: "PbConfig list \<Rightarrow> bool" where
  "configs_ok cfgs \<longleftrightarrow> cfgs \<noteq> [] \<and> length cfgs < 2 ^ 63 \<and> PbConfig_Shards (cfgs ! 0) = replicate NShards 0 \<and>
     (\<forall>n < length cfgs. PbConfig_Num (cfgs ! n) = of_nat n \<and> length (PbConfig_Shards (cfgs ! n)) = NShards)"

definition system_ok :: "('any, 'e) kv_env \<Rightarrow> PbConfig list \<Rightarrow> bool" where
  "system_ok env cfgs \<longleftrightarrow> env_ok env \<and> keys_ok (env_key2shard env) \<and> configs_ok cfgs"

definition sys_reach :: "('any, 'e) kv_env \<Rightarrow> PbConfig list \<Rightarrow> 'any kv_system \<Rightarrow> bool" where
  "sys_reach env cfgs S \<longleftrightarrow> system_ok env cfgs \<and> (\<exists>D. rtranclp (sys_step env cfgs) (sys_start D) S)"

section \<open>The system seen as the protocol\<close>

definition owner :: "PbConfig list \<Rightarrow> ownership" where
  "owner cfgs n i =
     (if n < length cfgs \<and> valid_shard i then PbConfig_Shards (cfgs ! n) ! nat (sint i) else 0)"

fun status_code :: "phase \<Rightarrow> int32" where
  "status_code Serving = SERVING"
| "status_code Awaiting = PULLING"
| "status_code Leaving = BE_PULLING"
| "status_code Taken = GC"

text \<open>A state of a group and its view; a shard the group has no entry for is in no migration.\<close>

definition shard_view :: "'any StateMachine \<Rightarrow> view \<Rightarrow> int64 \<Rightarrow> bool" where
  "shard_view s v i \<longleftrightarrow>
     (if valid_shard i \<and> Shards s i \<noteq> None then \<exists>pb. shardAt s i = Some (Shard (Some pb)) \<and> Shard_Status pb = status_code (v_phase v i) \<and>
        readKV (Shard_KV pb) = v_held v i
      else Shards s i = None \<and> v_phase v i = Serving)"

definition config_view :: "PbConfig list \<Rightarrow> 'any StateMachine \<Rightarrow> nat \<Rightarrow> bool" where
  "config_view cfgs s n \<longleftrightarrow> n < length cfgs \<and>
     (\<exists>c. CurrentConfig s = Some c \<and> Config_Num c = of_nat n \<and> Config_Shards c = PbConfig_Shards (cfgs ! n)) \<and>
     (case LastConfig s of None \<Rightarrow> n = 0
      | Some l \<Rightarrow> 0 < n \<and> Config_Shards l = PbConfig_Shards (cfgs ! (n - 1)))"

definition state_view :: "PbConfig list \<Rightarrow> 'any StateMachine \<Rightarrow> view \<Rightarrow> bool" where
  "state_view cfgs s v \<longleftrightarrow> kv_ok s \<and> config_view cfgs s (v_num v) \<and>
     v_seen v = table_processed (kv_SessionMap s) \<and> (\<forall>i. shard_view s v i)"

text \<open>A proposed command and what it stands for.\<close>

definition pulled_view :: "'any PullShardsResponse \<Rightarrow> nat \<Rightarrow> int64 set \<Rightarrow> (int64 \<Rightarrow> string \<rightharpoonup> string) \<Rightarrow> (int64 \<rightharpoonup> uint64) \<Rightarrow> bool" where
  "pulled_view response n ids kv sn \<longleftrightarrow> Pulled_ConfigNum response = of_nat n \<and> response_ok response \<and>
     (\<exists>pbs. Pulled_Shards response = map Some pbs \<and> ids = Shard_ID ` set pbs \<and>
        (\<forall>pb \<in> set pbs. readKV (Shard_KV pb) = kv (Shard_ID pb))) \<and>
     (\<forall>i. map_option (\<lambda>p. Session_ProcessedSeq (the p)) (ServerSessions response i) = sn i)"

definition command_view :: "PbConfig list \<Rightarrow> protocol \<Rightarrow> int64 \<Rightarrow> 'any KvArgs \<Rightarrow> bool" where
  "command_view cfgs P g args \<longleftrightarrow>
     (KvArgs_Type args = Kv_RECONFIGURE \<longrightarrow>
        (\<exists>m < length cfgs. NextConfig args = Some (cfgs ! m) \<and> (g, m) \<in> p_ready P)) \<and>
     (KvArgs_Type args = Kv_PULL_SHARDS \<longrightarrow>
        (\<exists>response n ids kv sn. PulledShards args = Some response \<and> n < length cfgs \<and>
           pulled_view response n ids kv sn \<and> (g, n, ids, kv, sn) \<in> p_offers P)) \<and>
     (KvArgs_Type args = Kv_DELETE_SHARDS \<longrightarrow>
        (\<exists>n < length cfgs. ConfigNum args = of_nat n \<and> (g, n, set (ShardIDs args)) \<in> p_drops P))"

definition pull_view :: "PbConfig list \<Rightarrow> protocol \<Rightarrow> int64 \<Rightarrow> call \<Rightarrow> bool" where
  "pull_view cfgs P g c \<longleftrightarrow> (case c of (p, ids, num) \<Rightarrow>
     \<exists>n < length cfgs. num = of_nat n \<and> (g, n, p, set ids) \<in> p_wanted P)"

definition delete_view :: "PbConfig list \<Rightarrow> protocol \<Rightarrow> int64 \<Rightarrow> call \<Rightarrow> bool" where
  "delete_view cfgs P g c \<longleftrightarrow> (case c of (p, ids, num) \<Rightarrow>
     \<exists>n < length cfgs. num = of_nat n \<and> (g, n, set ids) \<in> p_drops P \<and> (p, n, set ids) \<in> p_drops P)"

definition follows :: "('any, 'e) kv_env \<Rightarrow> PbConfig list \<Rightarrow> 'any kv_system \<Rightarrow> protocol \<Rightarrow> bool" where
  "follows env cfgs S P \<longleftrightarrow> system_ok env cfgs \<and> sys_answers S = p_answers P \<and>
     (\<forall>g. state_view cfgs (sys_now S g) (p_now P g) \<and> (\<forall>s \<in> sys_past S g. \<exists>v \<in> p_past P g. state_view cfgs s v)) \<and>
     (\<forall>(g, args) \<in> sys_commands S. command_view cfgs P g args) \<and>
     (\<forall>(g, c) \<in> sys_pulls S. pull_view cfgs P g c) \<and>
     (\<forall>(g, c) \<in> sys_deletes S. delete_view cfgs P g c)"

end
