(* ===== verification/Migration_Invariant.thy ===== *)
theory Migration_Invariant
  imports Migration_Protocol
begin

text \<open>
  The invariant of the migration protocol. At any time one group holds a shard: the one that has
  received it in the latest configuration in which anyone has. What that group has, and what is on
  its way to its successor, is what the answers so far make of the shard; and it knows every
  request answered on it.
\<close>

section \<open>Who has a shard\<close>

text \<open>The group of shard \<open>i\<close> in configuration \<open>m\<close> has received it; the last configuration for which this holds.\<close>

definition got :: "ownership \<Rightarrow> protocol \<Rightarrow> int64 \<Rightarrow> nat \<Rightarrow> bool" where
  "got own P i m \<longleftrightarrow> 0 < m \<and> own m i \<noteq> 0 \<and>
     (m < v_num (p_now P (own m i)) \<or> m = v_num (p_now P (own m i)) \<and> v_phase (p_now P (own m i)) i \<noteq> Awaiting)"

definition latest :: "ownership \<Rightarrow> protocol \<Rightarrow> int64 \<Rightarrow> nat \<Rightarrow> bool" where
  "latest own P i m \<longleftrightarrow> got own P i m \<and> (\<forall>m' > m. \<not> got own P i m')"

text \<open>Content and requests in step with the answers on a shard.\<close>

definition agrees :: "(string \<Rightarrow> int64) \<Rightarrow> answer list \<Rightarrow> int64 \<Rightarrow> (string \<rightharpoonup> string) \<Rightarrow> (int64 \<rightharpoonup> uint64) \<Rightarrow> bool" where
  "agrees k2s tr i kv sn \<longleftrightarrow> (\<forall>k. k2s k = i \<longrightarrow> kv k = contents tr k) \<and>
     (\<forall>(h, operation, r) \<in> set tr. k2s (op_key operation) = i \<longrightarrow> covered sn h)"

section \<open>The parts of the invariant\<close>

definition view_ok :: "ownership \<Rightarrow> int64 \<Rightarrow> view \<Rightarrow> bool" where
  "view_ok own g v \<longleftrightarrow>
     (\<forall>i. (v_phase v i = Awaiting \<or> v_phase v i = Taken \<longrightarrow>
             2 \<le> v_num v \<and> own (v_num v) i = g \<and> own (v_num v - 1) i \<noteq> g) \<and>
          (v_phase v i = Leaving \<longrightarrow> own (v_num v) i \<noteq> g) \<and> (v_num v = 0 \<longrightarrow> v_held v i = Map.empty))"

text \<open>An earlier view of the same group.\<close>

definition before :: "view \<Rightarrow> view \<Rightarrow> bool" where
  "before v v' \<longleftrightarrow> v_num v \<le> v_num v' \<and>
     (v_num v = v_num v' \<longrightarrow> (\<forall>i. (v_phase v i = Serving \<longrightarrow> v_phase v' i = Serving) \<and>
        (v_phase v i \<noteq> Awaiting \<longrightarrow> v_phase v' i \<noteq> Awaiting)))"

definition views_ok :: "ownership \<Rightarrow> protocol \<Rightarrow> bool" where
  "views_ok own P \<longleftrightarrow> (\<forall>g. g \<noteq> 0 \<longrightarrow> p_now P g \<in> p_past P g \<and>
     (\<forall>v \<in> p_past P g. view_ok own g v \<and> before v (p_now P g)))"

definition ready_ok :: "nat \<Rightarrow> protocol \<Rightarrow> bool" where
  "ready_ok len P \<longleftrightarrow> (\<forall>(g, m) \<in> p_ready P. g \<noteq> 0 \<and> m < len \<and> m \<le> Suc (v_num (p_now P g)) \<and>
     (m = Suc (v_num (p_now P g)) \<longrightarrow> (\<forall>i. v_phase (p_now P g) i = Serving)))"

definition chain_ok :: "ownership \<Rightarrow> protocol \<Rightarrow> bool" where
  "chain_ok own P \<longleftrightarrow> (\<forall>i m k. got own P i m \<and> 0 < k \<and> k < m \<longrightarrow> own k i \<noteq> 0 \<and> k < v_num (p_now P (own k i)))"

definition wanted_ok :: "ownership \<Rightarrow> protocol \<Rightarrow> bool" where
  "wanted_ok own P \<longleftrightarrow> (\<forall>(g, n, p, ids) \<in> p_wanted P. g \<noteq> 0 \<and> n \<le> v_num (p_now P g) \<and>
     (\<forall>i \<in> ids. 2 \<le> n \<and> own n i = g \<and> own (n - 1) i = p))"

definition offers_ok :: "ownership \<Rightarrow> protocol \<Rightarrow> bool" where
  "offers_ok own P \<longleftrightarrow> (\<forall>(g, n, ids, kv, sn) \<in> p_offers P. g \<noteq> 0 \<and> n \<le> v_num (p_now P g) \<and>
     (\<exists>p. p \<noteq> 0 \<and> n \<le> v_num (p_now P p) \<and> (\<forall>i \<in> ids. 2 \<le> n \<and> own n i = g \<and> own (n - 1) i = p)))"

definition drops_ok :: "ownership \<Rightarrow> protocol \<Rightarrow> bool" where
  "drops_ok own P \<longleftrightarrow> (\<forall>(h, n, ids) \<in> p_drops P. \<forall>i \<in> ids. got own P i n)"

definition held_ok :: "ownership \<Rightarrow> (string \<Rightarrow> int64) \<Rightarrow> protocol \<Rightarrow> bool" where
  "held_ok own k2s P \<longleftrightarrow> (\<forall>i m. latest own P i m \<longrightarrow> (\<forall>v \<in> p_past P (own m i).
     m < v_num v \<or> v = p_now P (own m i) \<longrightarrow> agrees k2s (p_answers P) i (v_held v i) (v_seen v)))"

definition sent_ok :: "ownership \<Rightarrow> (string \<Rightarrow> int64) \<Rightarrow> protocol \<Rightarrow> bool" where
  "sent_ok own k2s P \<longleftrightarrow> (\<forall>(g, n, ids, kv, sn) \<in> p_offers P. \<forall>i \<in> ids.
     n = v_num (p_now P g) \<and> v_phase (p_now P g) i = Awaiting \<longrightarrow> agrees k2s (p_answers P) i (kv i) sn)"

definition answers_ok :: "ownership \<Rightarrow> (string \<Rightarrow> int64) \<Rightarrow> protocol \<Rightarrow> bool" where
  "answers_ok own k2s P \<longleftrightarrow> legal (p_answers P) \<and> once_each k2s (p_answers P) \<and>
     (\<forall>(h, operation, r) \<in> set (p_answers P). \<exists>m. got own P (k2s (op_key operation)) m)"

lemmas proto_parts = views_ok_def ready_ok_def chain_ok_def wanted_ok_def offers_ok_def drops_ok_def

section \<open>Steps of views\<close>

lemma nextPhase_Awaiting: "nextPhase own g n i Serving = Awaiting \<longleftrightarrow> n \<noteq> 0 \<and> own n i \<noteq> g \<and> own (Suc n) i = g"
  by (simp add: nextPhase_def)

lemma before_refl [simp]: "before v v"
  by (simp add: before_def)

lemma before_trans: "before u v \<Longrightarrow> before v w \<Longrightarrow> before u w"
  unfolding before_def by (metis le_antisym le_trans)

lemma before_step:
  "before v (executed i h operation v)" "before v (v\<lparr>v_seen := sn\<rparr>)" "before v (reconfigured own g v)"
  "before v (inserted ids kv sn v)" "before v (dropped ids v)"
  by (simp_all add: before_def)

lemma view_ok_executed: "view_ok own g v \<Longrightarrow> own 0 i \<noteq> g \<Longrightarrow> serves own g v i \<Longrightarrow> view_ok own g (executed i h operation v)"
  by (auto simp: view_ok_def serves_def fun_upd_def)

lemma view_ok_seen: "view_ok own g v \<Longrightarrow> view_ok own g (v\<lparr>v_seen := sn\<rparr>)"
  by (simp add: view_ok_def)

lemma view_ok_reconfigured:
  "\<forall>i. v_phase v i = Serving \<Longrightarrow> view_ok own g (reconfigured own g v)"
  by (auto simp: view_ok_def nextPhase_def)

lemma view_ok_inserted: "view_ok own g v \<Longrightarrow> view_ok own g (inserted ids kv sn v)"
  by (auto simp: view_ok_def)

lemma view_ok_dropped: "view_ok own g v \<Longrightarrow> view_ok own g (dropped ids v)"
  by (auto simp: view_ok_def)

text \<open>A step of a group takes it to a later view; nothing else changes in this way.\<close>

lemma proto_step_now:
  assumes "proto_step own len k2s P P'"
  shows "before (p_now P g) (p_now P' g)"
  using assms by cases (auto simp: before_step)

lemma views_ok_step:
  assumes "proto_step own len k2s P P'" "views_ok own P" "ready_ok len P" "\<forall>i. own 0 i = 0"
  shows "views_ok own P'"
proof -
  have adv: "views_ok own (advance g v P)" if "g \<noteq> 0" "view_ok own g v" "before (p_now P g) v" for g v
    using assms(2) that by (auto simp: views_ok_def intro: before_trans)
  have adv': "views_ok own (P\<lparr>p_answers := tr\<rparr>) = views_ok own P" for tr and P :: protocol by (simp add: views_ok_def)
  have ok: "view_ok own g (p_now P g)" if "g \<noteq> 0" for g using assms(2) that by (simp add: views_ok_def)
  show ?thesis using assms(1)
  proof cases
    case (execute g v i operation h)
    then show ?thesis using adv[of g] ok[of g] assms(4) by (simp add: adv' view_ok_executed before_step)
  next
    case (reconfigure g v)
    then have "\<forall>i. v_phase v i = Serving" using assms(3) by (auto simp: ready_ok_def)
    then show ?thesis using adv[of g] reconfigure by (simp add: view_ok_reconfigured before_step)
  next
    case (record_request g v sn)
    then show ?thesis using adv[of g] ok[of g] by (simp add: view_ok_seen before_step)
  next
    case (insert g v n ids kv sn sn')
    then show ?thesis using adv[of g] ok[of g] by (simp add: view_ok_inserted before_step)
  next
    case (delete g v ids)
    then show ?thesis using adv[of g] ok[of g] by (simp add: view_ok_dropped before_step)
  qed (use assms(2) in \<open>simp_all add: views_ok_def\<close>)
qed

lemma ready_ok_step:
  assumes "proto_step own len k2s P P'" "views_ok own P" "ready_ok len P"
  shows "ready_ok len P'"
proof -
  have old: "g \<noteq> 0 \<and> m < len \<and> m \<le> Suc (v_num (p_now P' g)) \<and>
      (m = Suc (v_num (p_now P' g)) \<longrightarrow> (\<forall>i. v_phase (p_now P' g) i = Serving))" if "(g, m) \<in> p_ready P" for g m
  proof -
    have "before (p_now P g) (p_now P' g)" using proto_step_now[OF assms(1)] .
    moreover have "g \<noteq> 0" "m < len" "m \<le> Suc (v_num (p_now P g))"
      "m = Suc (v_num (p_now P g)) \<longrightarrow> (\<forall>i. v_phase (p_now P g) i = Serving)"
      using assms(3) that by (auto simp: ready_ok_def)
    ultimately show ?thesis unfolding before_def by auto
  qed
  have keep: "ready_ok len P'" if "p_ready P' = p_ready P" using old that by (auto simp: ready_ok_def)
  from assms(1) show ?thesis
  proof cases
    case (propose g v)
    then have "before v (p_now P g)" using assms(2) by (simp add: views_ok_def)
    then show ?thesis using old propose unfolding before_def by (fastforce simp: ready_ok_def)
  qed (rule keep, simp)+
qed

section \<open>Steps of possession\<close>

lemma got_same:
  assumes "p_now P' = p_now P"
  shows "got own P' i m = got own P i m" "latest own P' i m = latest own P i m"
  using assms by (simp_all add: got_def latest_def)

lemma got_advance:
  "got own (advance g v P) i m \<longleftrightarrow>
   (if own m i = g then 0 < m \<and> g \<noteq> 0 \<and> (m < v_num v \<or> m = v_num v \<and> v_phase v i \<noteq> Awaiting) else got own P i m)"
  by (auto simp: got_def)

lemma got_advance_same:
  assumes "v_num v = v_num (p_now P g)" "\<forall>i. v_phase v i = Awaiting \<longleftrightarrow> v_phase (p_now P g) i = Awaiting"
  shows "got own (advance g v P) i m = got own P i m" "latest own (advance g v P) i m = latest own P i m"
proof -
  show "got own (advance g v P) i m = got own P i m" for i m
    by (cases "own m i = g") (auto simp: got_def assms(1) assms(2)[rule_format])
  then show "latest own (advance g v P) i m = latest own P i m" by (simp add: latest_def)
qed

lemma got_step:
  assumes "proto_step own len k2s P P'" "got own P i m"
  shows "got own P' i m"
  using proto_step_now[OF assms(1), of "own m i"] assms(2) unfolding got_def before_def by auto

lemma v_num_step: "proto_step own len k2s P P' \<Longrightarrow> v_num (p_now P g) \<le> v_num (p_now P' g)"
  using proto_step_now[of own len k2s P P' g] by (simp add: before_def)

text \<open>Serving a shard means having it in the latest configuration.\<close>

lemma serves_latest:
  assumes "chain_ok own P" "own 0 i = 0" "g \<noteq> 0" "serves own g (p_now P g) i"
  shows "latest own P i (v_num (p_now P g))" "own (v_num (p_now P g)) i = g" "v_num (p_now P g) \<noteq> 0"
proof -
  let ?n = "v_num (p_now P g)"
  show own: "own ?n i = g" using assms(4) by (simp add: serves_def)
  then show pos: "?n \<noteq> 0" using assms(2,3) by metis
  have "got own P i ?n" using own pos assms(3,4) by (auto simp: got_def serves_def)
  moreover have "\<not> got own P i m" if "?n < m" for m
    using assms(1) that pos own unfolding chain_ok_def by (metis less_irrefl neq0_conv)
  ultimately show "latest own P i ?n" by (simp add: latest_def)
qed

text \<open>A shard that is awaited in the latest configuration of its group is with the group before.\<close>

lemma awaited_latest:
  assumes "chain_ok own P" "own n i = g" "own (n - 1) i = p" "p \<noteq> 0" "n \<le> v_num (p_now P p)" "2 \<le> n"
    "n = v_num (p_now P g)" "v_phase (p_now P g) i = Awaiting"
  shows "latest own P i (n - 1)"
proof -
  have "got own P i (n - 1)" using assms(3-6) by (auto simp: got_def)
  moreover have "\<not> got own P i m" if "n - 1 < m" for m
  proof (cases "m = n")
    case True
    then show ?thesis using assms(2,7,8) by (simp add: got_def)
  next
    case False
    then have "n < m" "0 < n" using that assms(6) by auto
    then show ?thesis using assms(1,2,7) unfolding chain_ok_def by (metis less_irrefl)
  qed
  ultimately show ?thesis by (simp add: latest_def)
qed

text \<open>How a group comes to have a shard in a configuration: by inserting it, or by keeping it.\<close>

definition took_over :: "ownership \<Rightarrow> protocol \<Rightarrow> protocol \<Rightarrow> int64 \<Rightarrow> nat \<Rightarrow> bool" where
  "took_over own P P' i m \<longleftrightarrow> (\<exists>ids kv sn. (own m i, m, ids, kv, sn) \<in> p_offers P \<and> i \<in> ids \<and>
     v_num (p_now P (own m i)) = m \<and> v_phase (p_now P (own m i)) i = Awaiting \<and>
     v_held (p_now P' (own m i)) i = kv i \<and> seen_le sn (v_seen (p_now P' (own m i))))"

definition kept :: "ownership \<Rightarrow> protocol \<Rightarrow> protocol \<Rightarrow> int64 \<Rightarrow> nat \<Rightarrow> bool" where
  "kept own P P' i m \<longleftrightarrow> m = Suc (v_num (p_now P (own m i))) \<and> v_phase (p_now P (own m i)) i = Serving \<and>
     (v_num (p_now P (own m i)) = 0 \<or> own (v_num (p_now P (own m i))) i = own m i) \<and>
     v_held (p_now P' (own m i)) = v_held (p_now P (own m i)) \<and> v_seen (p_now P' (own m i)) = v_seen (p_now P (own m i))"

lemma new_got:
  assumes "proto_step own len k2s P P'" "got own P' i m" "\<not> got own P i m" "ready_ok len P" "offers_ok own P"
  shows "own m i \<noteq> 0" "0 < m" "v_num (p_now P' (own m i)) = m"
    "took_over own P P' i m \<and> p_answers P' = p_answers P \<or> kept own P P' i m \<and> p_answers P' = p_answers P"
proof -
  have "own m i \<noteq> 0 \<and> 0 < m \<and> v_num (p_now P' (own m i)) = m \<and>
    (took_over own P P' i m \<and> p_answers P' = p_answers P \<or> kept own P P' i m \<and> p_answers P' = p_answers P)"
  using assms(1)
  proof cases
    case (execute g u j operation h)
    then have "p_now P' = p_now (advance g (executed j h operation u) P)" by simp
    then show ?thesis using assms(2,3) got_same(1)[of P' "advance g (executed j h operation u) P"]
        got_advance_same(1)[of "executed j h operation u" P g] execute by simp
  next
    case (reconfigure g u)
    show ?thesis
    proof (cases "own m i = g")
      case True
      have all: "\<forall>i. v_phase u i = Serving" using reconfigure assms(4) by (auto simp: ready_ok_def)
      moreover have "m = Suc (v_num u)" "nextPhase own g (v_num u) i Serving \<noteq> Awaiting" "0 < m"
        using assms(2,3) reconfigure True all by (auto simp: got_advance) (auto simp: got_def)
      ultimately show ?thesis using True reconfigure unfolding kept_def by (auto simp: nextPhase_Awaiting)
    qed (use assms(2,3) reconfigure in \<open>simp add: got_advance\<close>)
  next
    case (insert g u n ids kv sn sn')
    show ?thesis
    proof (cases "own m i = g")
      case True
      have "n = v_num u" using insert assms(5) by (auto simp: offers_ok_def)
      moreover have "m = v_num u" "i \<in> ids" "v_phase u i = Awaiting" "0 < m"
        using assms(2,3) insert True by (auto simp: got_advance split: if_splits) (auto simp: got_def)
      ultimately show ?thesis using True insert unfolding took_over_def by auto
    qed (use assms(2,3) insert in \<open>simp add: got_advance\<close>)
  next
    case (record_request g u sn)
    then show ?thesis using assms(2,3) got_advance_same(1)[of "u\<lparr>v_seen := sn\<rparr>" P g] by simp
  next
    case (delete g u ids)
    have "\<forall>i. v_phase (dropped ids u) i = Awaiting \<longleftrightarrow> v_phase (p_now P g) i = Awaiting" using delete by auto
    with got_advance_same(1)[of "dropped ids u" P g] delete have "got own P' i m = got own P i m" by simp
    then show ?thesis using assms(2,3) by simp
  qed (use assms(2,3) in \<open>simp_all add: got_def\<close>)
  then show "own m i \<noteq> 0" "0 < m" "v_num (p_now P' (own m i)) = m"
    "took_over own P P' i m \<and> p_answers P' = p_answers P \<or> kept own P P' i m \<and> p_answers P' = p_answers P" by blast+
qed

lemma chain_ok_step:
  assumes "proto_step own len k2s P P'" "chain_ok own P" "ready_ok len P" "offers_ok own P"
  shows "chain_ok own P'"
  unfolding chain_ok_def
proof (intro allI impI)
  fix i :: int64 and m k :: nat
  assume a: "got own P' i m \<and> 0 < k \<and> k < m"
  have le: "v_num (p_now P (own k i)) \<le> v_num (p_now P' (own k i))" by (rule v_num_step[OF assms(1)])
  have earlier: "own k i \<noteq> 0 \<and> k < v_num (p_now P' (own k i))" if "got own P i m'" "k < m'" for m'
  proof -
    have "own k i \<noteq> 0 \<and> k < v_num (p_now P (own k i))" using assms(2) that a unfolding chain_ok_def by blast
    then show ?thesis using le by simp
  qed
  show "own k i \<noteq> 0 \<and> k < v_num (p_now P' (own k i))"
  proof (cases "got own P i m")
    case True
    then show ?thesis using earlier a by blast
  next
    case False
    note new = new_got[OF assms(1) conjunct1[OF a] False assms(3,4)]
    from new(4) show ?thesis
    proof (elim disjE conjE)
      assume "took_over own P P' i m"
      then obtain p where p: "p \<noteq> 0" "m \<le> v_num (p_now P p)" "2 \<le> m" "own (m - 1) i = p"
        using assms(4) unfolding took_over_def offers_ok_def by fastforce
      then have "got own P i (m - 1)" by (auto simp: got_def)
      moreover from a have "k = m - 1 \<or> k < m - 1" by linarith
      ultimately show ?thesis using earlier[of "m - 1"] p a v_num_step[OF assms(1), of p] by auto
    next
      assume kept: "kept own P P' i m"
      then have n: "v_num (p_now P (own m i)) = m - 1" unfolding kept_def by linarith
      have "own (m - 1) i = own m i" using kept a unfolding kept_def n by auto
      moreover from this have "got own P i (m - 1)" using kept new(1) a n by (simp add: kept_def got_def)
      moreover from a have "k = m - 1 \<or> k < m - 1" by linarith
      ultimately show ?thesis using earlier[of "m - 1"] new(1,3) a by auto
    qed
  qed
qed

lemma wanted_ok_step:
  assumes "proto_step own len k2s P P'" "views_ok own P" "wanted_ok own P"
  shows "wanted_ok own P'"
proof -
  have old: "g \<noteq> 0 \<and> n \<le> v_num (p_now P' g) \<and> (\<forall>i \<in> ids. 2 \<le> n \<and> own n i = g \<and> own (n - 1) i = p)"
    if "(g, n, p, ids) \<in> p_wanted P" for g n p ids
    using assms(3) that v_num_step[OF assms(1), of g] unfolding wanted_ok_def by fastforce
  have keep: "wanted_ok own P'" if "p_wanted P' = p_wanted P" using old that by (auto simp: wanted_ok_def)
  from assms(1) show ?thesis
  proof cases
    case (want g v ids p)
    then have v: "view_ok own g v" "before v (p_now P g)" using assms(2) by (simp_all add: views_ok_def)
    then have "\<forall>i \<in> ids. 2 \<le> v_num v \<and> own (v_num v) i = g \<and> own (v_num v - 1) i = p" "v_num v \<le> v_num (p_now P g)"
      using want unfolding view_ok_def before_def by blast+
    moreover have "p_wanted P' = insert (g, v_num v, p, ids) (p_wanted P)" "p_now P' g = p_now P g" using want(1) by simp_all
    ultimately show ?thesis using old want(2) unfolding wanted_ok_def by fastforce
  qed (rule keep, simp)+
qed

lemma offers_ok_step:
  assumes "proto_step own len k2s P P'" "views_ok own P" "wanted_ok own P" "offers_ok own P"
  shows "offers_ok own P'"
proof -
  have le: "n \<le> v_num (p_now P g) \<Longrightarrow> n \<le> v_num (p_now P' g)" for n g
    using v_num_step[OF assms(1), of g] by simp
  have old: "g \<noteq> 0 \<and> n \<le> v_num (p_now P' g) \<and>
      (\<exists>p. p \<noteq> 0 \<and> n \<le> v_num (p_now P' p) \<and> (\<forall>i \<in> ids. 2 \<le> n \<and> own n i = g \<and> own (n - 1) i = p))"
    if "(g, n, ids, kv, sn) \<in> p_offers P" for g n ids kv sn
    using assms(4) that le unfolding offers_ok_def by fastforce
  have keep: "offers_ok own P'" if "p_offers P' = p_offers P"
    unfolding offers_ok_def that using old by fast
  from assms(1) show ?thesis
  proof cases
    case (offer g n p ids v)
    have "before v (p_now P p)" using offer assms(2) by (simp add: views_ok_def)
    then have "n \<le> v_num (p_now P p)" using offer by (simp add: before_def)
    moreover have "g \<noteq> 0 \<and> n \<le> v_num (p_now P g) \<and> (\<forall>i \<in> ids. 2 \<le> n \<and> own n i = g \<and> own (n - 1) i = p)"
      using offer assms(3) by (auto simp: wanted_ok_def)
    ultimately have new: "g \<noteq> 0 \<and> n \<le> v_num (p_now P' g) \<and>
        (\<exists>p. p \<noteq> 0 \<and> n \<le> v_num (p_now P' p) \<and> (\<forall>i \<in> ids. 2 \<le> n \<and> own n i = g \<and> own (n - 1) i = p))"
      using le offer(3) by blast
    have eq: "p_offers P' = insert (g, n, ids, v_held v, v_seen v) (p_offers P)" using offer(1) by simp
    show ?thesis unfolding offers_ok_def eq using old new by fast
  qed (rule keep, simp)+
qed

lemma drops_ok_step:
  assumes "proto_step own len k2s P P'" "views_ok own P" "drops_ok own P"
  shows "drops_ok own P'"
proof -
  have old: "got own P' i n" if "(h, n, ids) \<in> p_drops P" "i \<in> ids" for h n ids i
    using assms(3) that got_step[OF assms(1)] by (fastforce simp: drops_ok_def)
  have keep: "drops_ok own P'" if "p_drops P' = p_drops P" using old that by (auto simp: drops_ok_def)
  from assms(1) show ?thesis
  proof cases
    case (give_up g v ids h)
    have "got own P i (v_num v)" if "i \<in> ids" for i
    proof -
      have v: "view_ok own g v" "before v (p_now P g)" using assms(2) give_up by (simp_all add: views_ok_def)
      then have "own (v_num v) i = g" "0 < v_num v" using that give_up unfolding view_ok_def by auto
      then show ?thesis using v(2) that give_up unfolding got_def before_def by (metis le_neq_implies_less phase.distinct(9))
    qed
    then have new: "got own P' i (v_num v)" if "i \<in> ids" for i using got_step[OF assms(1)] that by blast
    have "p_drops P' = insert (h, v_num v, ids) (p_drops P)" using give_up(1) by simp
    then show ?thesis using old new unfolding drops_ok_def by fastforce
  qed (rule keep, simp)+
qed

section \<open>Steps of the contents\<close>

lemma agrees_seen: "agrees k2s tr i kv sn \<Longrightarrow> seen_le sn sn' \<Longrightarrow> agrees k2s tr i kv sn'"
  by (fastforce simp: agrees_def seen_le_def)

lemma agrees_other:
  assumes "k2s (op_key operation) \<noteq> i"
  shows "agrees k2s (tr @ [(h, operation, r)]) i kv sn \<longleftrightarrow> agrees k2s tr i kv sn"
proof -
  have "contents (tr @ [(h, operation, r)]) k = contents tr k" if "k2s k = i" for k
    using assms that by (metis contents_append op_effect_other)
  then show ?thesis using assms by (auto simp: agrees_def)
qed

lemma agrees_executed:
  assumes "agrees k2s tr (k2s (op_key operation)) (v_held v (k2s (op_key operation))) (v_seen v)" "\<not> covered (v_seen v) h"
  shows "agrees k2s (tr @ [(h, operation, r)]) (k2s (op_key operation))
    (v_held (executed (k2s (op_key operation)) h operation v) (k2s (op_key operation)))
    (v_seen (executed (k2s (op_key operation)) h operation v))"
proof -
  let ?i = "k2s (op_key operation)" and ?v = "executed (k2s (op_key operation)) h operation v"
  have "v_held ?v ?i k = contents (tr @ [(h, operation, r)]) k" if "k2s k = ?i" for k
  proof (cases "k = op_key operation")
    case True
    then show ?thesis using assms(1) op_effect_local(1)[of "v_held v ?i" operation "contents tr"]
      by (simp add: agrees_def contents_append)
  next
    case False
    then show ?thesis using assms(1) that by (simp add: agrees_def contents_append op_effect_other)
  qed
  moreover have "covered (v_seen ?v) h'" if "(h', operation', r') \<in> set (tr @ [(h, operation, r)])" "k2s (op_key operation') = ?i"
    for h' operation' r'
    using that assms seen_le_upd[OF assms(2)] by (auto simp: agrees_def seen_le_def covered_upd)
  ultimately show ?thesis unfolding agrees_def by blast
qed

lemma no_answers:
  assumes "\<forall>(h, operation, r) \<in> set tr. k2s (op_key operation) \<noteq> i"
  shows "agrees k2s tr i Map.empty sn"
proof -
  have "contents tr k = None" if "k2s k = i" for k using assms that by (intro contents_untouched) auto
  then show ?thesis using assms by (auto simp: agrees_def)
qed

text \<open>An advance of one group keeps what is held in order if its new view is.\<close>

lemma held_ok_advance:
  assumes "held_ok own k2s P" "views_ok own P" "g \<noteq> 0" "before (p_now P g) v"
    and "\<And>i m. latest own (advance g v P) i m \<Longrightarrow> own m i = g \<Longrightarrow> agrees k2s (p_answers P) i (v_held v i) (v_seen v)"
    and "\<And>i m. latest own (advance g v P) i m \<Longrightarrow> latest own P i m \<or> own m i = g \<and> m = v_num v"
  shows "held_ok own k2s (advance g v P)"
  unfolding held_ok_def
proof (intro allI impI ballI)
  fix i m u
  assume a: "latest own (advance g v P) i m" "u \<in> p_past (advance g v P) (own m i)"
    "m < v_num u \<or> u = p_now (advance g v P) (own m i)"
  show "agrees k2s (p_answers (advance g v P)) i (v_held u i) (v_seen u)"
  proof (cases "own m i = g")
    case False
    then have "latest own P i m" using a(1) assms(6) by blast
    moreover have "u \<in> p_past P (own m i)" "m < v_num u \<or> u = p_now P (own m i)" using a(2,3) False by auto
    ultimately show ?thesis using assms(1) unfolding held_ok_def advance_simps by blast
  next
    case g: True
    show ?thesis
    proof (cases "u = v")
      case True
      then show ?thesis using assms(5)[OF a(1) g] by simp
    next
      case False
      then have u: "u \<in> p_past P g" "m < v_num u" using a(2,3) g by auto
      then have "v_num u \<le> v_num v" using assms(2-4) unfolding views_ok_def before_def by (metis le_trans)
      then have "latest own P i m" using assms(6)[OF a(1)] u(2) by auto
      then show ?thesis using assms(1) u g by (simp add: held_ok_def)
    qed
  qed
qed

text \<open>What the group of the latest configuration has now.\<close>

lemma held_now:
  assumes "held_ok own k2s P" "views_ok own P" "latest own P i m"
  shows "agrees k2s (p_answers P) i (v_held (p_now P (own m i)) i) (v_seen (p_now P (own m i)))"
proof -
  have "own m i \<noteq> 0" using assms(3) by (simp add: latest_def got_def)
  then show ?thesis using assms unfolding held_ok_def views_ok_def by blast
qed

end
