(* ===== verification/Migration_Safety.thy ===== *)
theory Migration_Safety
  imports Migration_Invariant
begin

text \<open>
  The safety of the migration protocol: every reachable state satisfies the invariant of theory
  Migration_Invariant, so two groups never serve one shard, the answers are those of a single
  store, and no request is executed twice on a shard.
\<close>

section \<open>Contents\<close>

lemma latest_back:
  assumes "proto_step own len k2s P P'" "latest own P' i m" "got own P i m"
  shows "latest own P i m"
  using assms got_step[OF assms(1)] unfolding latest_def by blast

text \<open>A group that keeps a shard in its next configuration held it as the answers say.\<close>

lemma kept_agrees:
  assumes "kept own P P' i m" "own m i \<noteq> 0" "\<forall>i. own 0 i = 0" "views_ok own P" "chain_ok own P"
    "held_ok own k2s P" "answers_ok own k2s P"
  shows "agrees k2s (p_answers P) i (v_held (p_now P (own m i)) i) (v_seen (p_now P (own m i)))"
proof (cases "v_num (p_now P (own m i)) = 0")
  case False
  let ?g = "own m i"
  have "own (v_num (p_now P ?g)) i = ?g" "serves own ?g (p_now P ?g) i"
    using assms(1) False by (auto simp: kept_def serves_def)
  with serves_latest[OF assms(5) _ assms(2)] assms(3) have "latest own P i (v_num (p_now P ?g))" by blast
  from held_now[OF assms(6,4) this] show ?thesis using \<open>own (v_num (p_now P ?g)) i = ?g\<close> by simp
next
  case True
  let ?g = "own m i"
  have m: "m = 1" using assms(1) True by (simp add: kept_def)
  have "\<not> got own P i m'" for m'
  proof
    assume g: "got own P i m'"
    then have "0 < m'" by (simp add: got_def)
    then consider "m' = 1" | "1 < m'" by linarith
    then show False
    proof cases
      case 1
      then show ?thesis using g m True by (simp add: got_def)
    next
      case 2
      then have "1 < v_num (p_now P (own 1 i))" using assms(5) g unfolding chain_ok_def by auto
      then show ?thesis using m True by simp
    qed
  qed
  then have "\<forall>(h, operation, r) \<in> set (p_answers P). k2s (op_key operation) \<noteq> i"
    using assms(7) by (fastforce simp: answers_ok_def)
  then have "agrees k2s (p_answers P) i Map.empty (v_seen (p_now P ?g))" by (rule no_answers)
  moreover have "v_held (p_now P ?g) i = Map.empty"
    using assms(2,4) True unfolding views_ok_def view_ok_def by blast
  ultimately show ?thesis by simp
qed

text \<open>What a group has just come to have is what the answers say.\<close>

lemma new_agrees:
  assumes step: "proto_step own len k2s P P'" and new: "got own P' i m" "\<not> got own P i m"
    and ok: "\<forall>i. own 0 i = 0" "views_ok own P" "ready_ok len P" "chain_ok own P" "offers_ok own P" "held_ok own k2s P"
      "sent_ok own k2s P" "answers_ok own k2s P"
  shows "agrees k2s (p_answers P') i (v_held (p_now P' (own m i)) i) (v_seen (p_now P' (own m i)))"
proof -
  note n = new_got[OF step new ok(3,5)]
  from n(4) show ?thesis
  proof (elim disjE conjE)
    assume a: "took_over own P P' i m" "p_answers P' = p_answers P"
    then obtain ids kv sn where o: "(own m i, m, ids, kv, sn) \<in> p_offers P" "i \<in> ids"
      "v_num (p_now P (own m i)) = m" "v_phase (p_now P (own m i)) i = Awaiting"
      "v_held (p_now P' (own m i)) i = kv i" "seen_le sn (v_seen (p_now P' (own m i)))"
      by (auto simp: took_over_def)
    then have "agrees k2s (p_answers P) i (kv i) sn" using ok(7) unfolding sent_ok_def by fastforce
    then show ?thesis using agrees_seen o(5,6) a(2) by metis
  next
    assume a: "kept own P P' i m" "p_answers P' = p_answers P"
    then show ?thesis using kept_agrees[OF a(1) n(1) ok(1,2,4,6,8)] by (simp add: kept_def)
  qed
qed

lemma latest_unique: "latest own P i m \<Longrightarrow> latest own P i m' \<Longrightarrow> m = m'"
  unfolding latest_def by (metis nat_neq_iff)

lemma held_ok_execute:
  assumes ok: "held_ok own k2s P" "views_ok own P" "chain_ok own P" "\<forall>i. own 0 i = 0"
    and exec: "g \<noteq> 0" "i = k2s (op_key operation)" "serves own g (p_now P g) i" "\<not> covered (v_seen (p_now P g)) h"
  defines "v' \<equiv> executed i h operation (p_now P g)"
  shows "held_ok own k2s ((advance g v' P)\<lparr>p_answers := p_answers P @ [(h, operation, r)]\<rparr>)"
  unfolding held_ok_def
proof (intro allI impI ballI)
  let ?P = "(advance g v' P)\<lparr>p_answers := p_answers P @ [(h, operation, r)]\<rparr>"
  fix j m u assume a: "latest own ?P j m" "u \<in> p_past ?P (own m j)" "m < v_num u \<or> u = p_now ?P (own m j)"
  have "latest own ?P j m = latest own (advance g v' P) j m" by (rule got_same(2)) simp
  also have "\<dots> = latest own P j m" by (rule got_advance_same(2)) (simp_all add: v'_def)
  finally have l: "latest own P j m" using a(1) by simp
  note now = held_now[OF ok(1,2)]
  have seen: "seen_le (v_seen (p_now P g)) (v_seen v')" using seen_le_upd[OF exec(4)] by (simp add: v'_def)
  note serving = serves_latest[OF ok(3) ok(4)[rule_format] exec(1,3)]
  show "agrees k2s (p_answers ?P) j (v_held u j) (v_seen u)"
  proof (cases "j = i")
    case True
    then have m: "m = v_num (p_now P g)" "own m j = g" using latest_unique[OF l] serving by auto
    have "v_num x \<le> v_num (p_now P g)" if "x \<in> p_past P g" for x
      using ok(2) exec(1) that by (simp add: views_ok_def before_def)
    then have "u = v'" using a(2,3) m by (fastforce simp: v'_def)
    then show ?thesis using agrees_executed[of k2s "p_answers P" operation "p_now P g" h r] now[OF serving(1)] serving(2) exec(2,4) True
      by (simp add: v'_def)
  next
    case False
    have "agrees k2s (p_answers P) j (v_held u j) (v_seen u)"
    proof (cases "own m j = g \<and> u = v'")
      case True
      then have "v_held u j = v_held (p_now P g) j" using False by (simp add: v'_def)
      then show ?thesis using now[OF l] seen agrees_seen True by metis
    next
      case old: False
      then have "u \<in> p_past P (own m j)" "m < v_num u \<or> u = p_now P (own m j)" using a(2,3) by (auto split: if_splits)
      then show ?thesis using ok(1) l unfolding held_ok_def by blast
    qed
    then show ?thesis using agrees_other[of k2s operation j] False exec(2) by simp
  qed
qed

lemma held_ok_step:
  assumes step: "proto_step own len k2s P P'"
    and ok: "\<forall>i. own 0 i = 0" "views_ok own P" "ready_ok len P" "chain_ok own P" "offers_ok own P" "drops_ok own P"
      "held_ok own k2s P" "sent_ok own k2s P" "answers_ok own k2s P"
  shows "held_ok own k2s P'"
proof -
  note now = held_now[OF ok(7,2)]
  note newly = new_agrees[OF step _ _ ok(1-5,7-9)]
  have adv: "held_ok own k2s (advance g v P)"
    if P': "P' = advance g v P" and "g \<noteq> 0" "before (p_now P g) v" "seen_le (v_seen (p_now P g)) (v_seen v)"
      and same: "\<And>i m. got own P i m \<Longrightarrow> latest own P' i m \<Longrightarrow> own m i = g \<Longrightarrow> v_held v i = v_held (p_now P g) i" for g v
  proof (rule held_ok_advance[OF ok(7,2) that(2,3)])
    fix i m assume l: "latest own (advance g v P) i m"
    have lg: "latest own P' i m" "got own P' i m" using l P' by (simp_all add: latest_def)
    show "agrees k2s (p_answers P) i (v_held v i) (v_seen v)" if "own m i = g"
    proof (cases "got own P i m")
      case True
      from now[OF latest_back[OF step lg(1) True]] show ?thesis
        using same[OF True lg(1) that] agrees_seen \<open>seen_le _ (v_seen v)\<close> that by metis
    next
      case False
      from newly[OF lg(2) False] show ?thesis using P' that by simp
    qed
    show "latest own P i m \<or> own m i = g \<and> m = v_num v"
    proof (cases "got own P i m")
      case True
      then show ?thesis using latest_back[OF step lg(1)] by blast
    next
      case False
      moreover have "own m i = g" using lg(2) False P' by (auto simp: got_advance split: if_splits)
      ultimately show ?thesis using new_got(3)[OF step lg(2) False ok(3,5)] P' by simp
    qed
  qed
  have keep: "held_ok own k2s P'" if "p_now P' = p_now P" "p_past P' = p_past P" "p_answers P' = p_answers P"
    using ok(7) that got_same(2)[OF that(1)] by (simp add: held_ok_def)
  from step show ?thesis
  proof cases
    case (record_request g v sn)
    then show ?thesis using adv[of g "v\<lparr>v_seen := sn\<rparr>"] by (simp add: before_step)
  next
    case (reconfigure g v)
    then show ?thesis using adv[of g "reconfigured own g v"] by (simp add: before_step)
  next
    case (insert g v n ids kv sn sn')
    have "v_held (inserted ids kv sn' v) i = v_held v i" if l: "got own P i m" "latest own P' i m" "own m i = g" for i m
    proof (rule ccontr)
      assume "v_held (inserted ids kv sn' v) i \<noteq> v_held v i"
      then have i: "i \<in> ids" "v_phase v i = Awaiting" by (auto split: if_splits)
      have "view_ok own g v" using ok(2) insert by (simp add: views_ok_def)
      then have o: "own (v_num v) i = g" "0 < v_num v" using i(2) unfolding view_ok_def by auto
      then have "got own P' i (v_num v)" using insert i by (simp add: got_advance)
      moreover have "m < v_num v" using l(1,3) i(2) o insert by (auto simp: got_def)
      ultimately show False using l(2) by (auto simp: latest_def)
    qed
    then show ?thesis using adv[of g "inserted ids kv sn' v"] insert by (simp add: before_step)
  next
    case (delete g v ids)
    have "v_held (dropped ids v) i = v_held v i" if l: "got own P i m" "latest own P' i m" "own m i = g" for i m
    proof (rule ccontr)
      assume "v_held (dropped ids v) i \<noteq> v_held v i"
      then have i: "i \<in> ids" "v_phase v i = Leaving" by (auto split: if_splits)
      have "view_ok own g v" using ok(2) delete by (simp add: views_ok_def)
      then have o: "own (v_num v) i \<noteq> g" using i(2) unfolding view_ok_def by auto
      have "got own P i (v_num v)" using ok(6) delete i(1) by (fastforce simp: drops_ok_def)
      then have "\<not> m < v_num v" using latest_back[OF step l(2,1)] by (auto simp: latest_def)
      then show False using l(1,3) o delete by (auto simp: got_def)
    qed
    then show ?thesis using adv[of g "dropped ids v"] delete by (simp add: before_step)
  next
    case (execute g v j operation h)
    show ?thesis unfolding execute(1)
      using held_ok_execute[OF ok(7,2,4,1), of g j] execute(2-6) by simp
  qed (rule keep; simp)+
qed

lemma sent_ok_step:
  assumes step: "proto_step own len k2s P P'"
    and ok: "\<forall>i. own 0 i = 0" "views_ok own P" "chain_ok own P" "wanted_ok own P" "offers_ok own P"
      "held_ok own k2s P" "sent_ok own k2s P"
  shows "sent_ok own k2s P'"
proof -
  have old: "n = v_num (p_now P g) \<and> v_phase (p_now P g) i = Awaiting \<and> agrees k2s (p_answers P) i (kv i) sn \<and>
      2 \<le> n \<and> n \<le> v_num (p_now P (own (n - 1) i)) \<and> latest own P i (n - 1)"
    if o: "(g, n, ids, kv, sn) \<in> p_offers P" "i \<in> ids" "n = v_num (p_now P' g)" "v_phase (p_now P' g) i = Awaiting"
    for g n ids kv sn i
  proof -
    obtain p where p: "p \<noteq> 0" "n \<le> v_num (p_now P p)" "2 \<le> n" "own n i = g" "own (n - 1) i = p" "n \<le> v_num (p_now P g)"
      using ok(5) o(1,2) unfolding offers_ok_def by fast
    have b: "before (p_now P g) (p_now P' g)" using proto_step_now[OF step] .
    then have n: "n = v_num (p_now P g)" "v_phase (p_now P g) i = Awaiting"
      using o(3,4) p(6) unfolding before_def by auto
    moreover have "agrees k2s (p_answers P) i (kv i) sn" using ok(7) o(1,2) n unfolding sent_ok_def by fastforce
    ultimately show ?thesis using awaited_latest[OF ok(3) p(4,5,1,2,3)] p(2,3,5) by blast
  qed
  have keep: "sent_ok own k2s P'" if "p_offers P' = p_offers P" "p_answers P' = p_answers P"
    using old unfolding sent_ok_def that by fast
  from step show ?thesis
  proof cases
    case (execute g v j operation h)
    have "agrees k2s (p_answers P') i (kv i) sn"
      if o: "(g', n, ids, kv, sn) \<in> p_offers P" "i \<in> ids" "n = v_num (p_now P' g')" "v_phase (p_now P' g') i = Awaiting"
      for g' n ids kv sn i
    proof -
      note a = old[OF o]
      have "j \<noteq> i"
      proof
        assume "j = i"
        then have "latest own P i (v_num v)" "own (v_num v) i = g"
          using serves_latest[OF ok(3) ok(1)[rule_format], of g i] execute by auto
        moreover from this have "v_num v = n - 1" using a latest_unique by blast
        ultimately have "own (n - 1) i = g" by metis
        moreover have "2 \<le> n" "n \<le> v_num (p_now P (own (n - 1) i))" using a by blast+
        ultimately show False using execute(3) \<open>v_num v = n - 1\<close> by simp
      qed
      then show ?thesis using a execute agrees_other[of k2s operation i] by auto
    qed
    then show ?thesis using execute(1) unfolding sent_ok_def by fastforce
  next
    case (offer g n p ids v)
    have "agrees k2s (p_answers P) i (v_held v i) (v_seen v)"
      if i: "i \<in> ids" "n = v_num (p_now P g)" "v_phase (p_now P g) i = Awaiting" for i
    proof -
      have w: "2 \<le> n" "own n i = g" "own (n - 1) i = p" using ok(4) offer(2) i(1) unfolding wanted_ok_def by fast+
      have "n \<le> v_num (p_now P p)" using offer ok(2) unfolding views_ok_def before_def by (metis le_trans)
      from awaited_latest[OF ok(3) w(2,3) offer(3) this w(1) i(2,3)] have "latest own P i (n - 1)" .
      moreover have "n - 1 < v_num v" using offer(5) w(1) by simp
      ultimately show ?thesis using ok(6) offer(4) w(3) unfolding held_ok_def by blast
    qed
    then show ?thesis using ok(7) offer(1) unfolding sent_ok_def by auto
  qed (rule keep; simp)+
qed

lemma once_each_append:
  assumes "once_each k2s tr" "\<forall>(h', operation', r') \<in> set tr. k2s (op_key operation') = k2s (op_key operation) \<longrightarrow>
    Header_ID h' = Header_ID h \<longrightarrow> Header_Seq h' < Header_Seq h"
  shows "once_each k2s (tr @ [(h, operation, r)])"
  using assms by (fastforce simp: once_each_def on_shard_def sorted_wrt_append)

lemma answers_ok_step:
  assumes step: "proto_step own len k2s P P'"
    and ok: "\<forall>i. own 0 i = 0" "views_ok own P" "chain_ok own P" "held_ok own k2s P" "answers_ok own k2s P"
  shows "answers_ok own k2s P'"
proof -
  have there: "\<exists>m. got own P' (k2s (op_key operation)) m" if "(h, operation, r) \<in> set (p_answers P)" for h operation r
    using ok(5) that got_step[OF step] by (fastforce simp: answers_ok_def)
  have keep: "answers_ok own k2s P'" if "p_answers P' = p_answers P"
    using ok(5) there unfolding answers_ok_def that by fast
  from step show ?thesis
  proof cases
    case (execute g v i operation h)
    have l: "latest own P i (v_num v)" "own (v_num v) i = g"
      using serves_latest[OF ok(3) ok(1)[rule_format], of g i] execute by auto
    then have a: "agrees k2s (p_answers P) i (v_held v i) (v_seen v)" using held_now[OF ok(4,2) l(1)] execute by simp
    then have "op_reply operation (v_held v i) = op_reply operation (contents (p_answers P))"
      using execute(4) by (intro op_effect_local(2)) (simp add: agrees_def)
    then have "legal (p_answers P')" using ok(5) execute(1) by (simp add: legal_append answers_ok_def)
    moreover have "once_each k2s (p_answers P')"
    proof -
      have "Header_Seq h' < Header_Seq h" if "(h', operation', r') \<in> set (p_answers P)" "k2s (op_key operation') = i"
        "Header_ID h' = Header_ID h" for h' operation' r'
      proof -
        have "covered (v_seen v) h'" using a that(1,2) by (auto simp: agrees_def)
        then show ?thesis using execute(6) that(3) by (auto simp: covered_def split: option.splits)
      qed
      then show ?thesis using ok(5) execute(1,4) once_each_append[of k2s "p_answers P" operation h]
        by (fastforce simp: answers_ok_def)
    qed
    moreover have "got own P' i (v_num v)" using got_step[OF step] l(1) by (simp add: latest_def)
    ultimately show ?thesis using there execute(1,4) unfolding answers_ok_def by fastforce
  qed (rule keep; simp)+
qed

section \<open>Reachable states\<close>

definition proto_ok :: "ownership \<Rightarrow> nat \<Rightarrow> (string \<Rightarrow> int64) \<Rightarrow> protocol \<Rightarrow> bool" where
  "proto_ok own len k2s P \<longleftrightarrow> views_ok own P \<and> ready_ok len P \<and> chain_ok own P \<and> wanted_ok own P \<and> offers_ok own P \<and>
     drops_ok own P \<and> held_ok own k2s P \<and> sent_ok own k2s P \<and> answers_ok own k2s P"

lemma proto_ok_start: "proto_ok own len k2s protocol0"
proof -
  have "\<not> got own protocol0 i m" for i m by (auto simp: got_def protocol0_def view0_def)
  then show ?thesis
    by (simp add: proto_ok_def proto_parts held_ok_def sent_ok_def answers_ok_def latest_def)
      (simp add: protocol0_def view0_def view_ok_def legal_def once_each_def on_shard_def)
qed

lemma proto_reach_ok:
  assumes "proto_reach own len k2s P" "\<forall>i. own 0 i = 0"
  shows "proto_ok own len k2s P"
  using assms(1) unfolding proto_reach_def
proof (induction rule: rtranclp_induct)
  case base
  show ?case by (rule proto_ok_start)
next
  case (step P P')
  then show ?case unfolding proto_ok_def
    using views_ok_step[OF step(2)] ready_ok_step[OF step(2)] chain_ok_step[OF step(2)] wanted_ok_step[OF step(2)]
      offers_ok_step[OF step(2)] drops_ok_step[OF step(2)] held_ok_step[OF step(2) assms(2)]
      sent_ok_step[OF step(2) assms(2)] answers_ok_step[OF step(2) assms(2)] assms(2) by blast
qed

text \<open>Two groups never serve one shard at the same time.\<close>

lemma one_server:
  assumes "proto_ok own len k2s P" "\<forall>i. own 0 i = 0" "g \<noteq> 0" "h \<noteq> 0"
    "serves own g (p_now P g) i" "serves own h (p_now P h) i"
  shows "g = h"
proof -
  have chain: "chain_ok own P" using assms(1) by (simp add: proto_ok_def)
  note s = serves_latest[OF chain assms(2)[rule_format]]
  show ?thesis using s(1,2)[OF assms(3,5)] s(1,2)[OF assms(4,6)] latest_unique by metis
qed

end
