(* ===== verification/Shard_Simulation.thy ===== *)
theory Shard_Simulation
  imports Shard_System Migration_Safety
begin

text \<open>
  The groups of store servers follow the migration protocol: the effect of every command on the
  view of a group, of every monitor and handler on what is asked for and offered, and the forward
  simulation these amount to.
\<close>

section \<open>Numbers of configurations and shards\<close>

lemma num_eq: "configs_ok cfgs \<Longrightarrow> n < length cfgs \<Longrightarrow> m < length cfgs \<Longrightarrow> (of_nat n :: int64) = of_nat m \<longleftrightarrow> n = m"
  by (rule of_nat_small_eq) (auto simp: configs_ok_def)

lemma num_Suc: "configs_ok cfgs \<Longrightarrow> n < length cfgs \<Longrightarrow> m < length cfgs \<Longrightarrow> (of_nat m :: int64) = of_nat n + 1 \<longleftrightarrow> m = Suc n"
  using of_nat_small_eq[of m "Suc n"] by (simp add: configs_ok_def add.commute)

lemma num_sint: "configs_ok cfgs \<Longrightarrow> n < length cfgs \<Longrightarrow> sint (of_nat n :: int64) = int n"
  by (rule sint_of_nat_64) (auto simp: configs_ok_def)

lemma config_num: "configs_ok cfgs \<Longrightarrow> n < length cfgs \<Longrightarrow> PbConfig_Num (cfgs ! n) = of_nat n"
  by (simp add: configs_ok_def)

lemma config_length: "configs_ok cfgs \<Longrightarrow> n < length cfgs \<Longrightarrow> length (PbConfig_Shards (cfgs ! n)) = NShards"
  by (simp add: configs_ok_def)

lemma owner_0: "configs_ok cfgs \<Longrightarrow> owner cfgs 0 i = 0"
  by (auto simp: owner_def configs_ok_def valid_shard_def nth_replicate)

lemma valid_shardE:
  assumes "valid_shard i"
  obtains j where "i = of_nat j" "j < NShards" "nat (sint i) = j"
proof (rule that[of "nat (sint i)"])
  have "word_of_int (sint i) = (of_nat (nat (sint i)) :: int64)"
    using assms by (metis int_nat_eq of_int_of_nat_eq valid_shard_def word_of_int_eq_iff)
  then show "i = of_nat (nat (sint i))" by simp
qed (use assms in \<open>auto simp: valid_shard_def\<close>)

lemma valid_of_nat: "j < NShards \<Longrightarrow> valid_shard (of_nat j) \<and> nat (sint (of_nat j :: int64)) = j"
  using sint_of_nat_64[of j] by (simp add: valid_shard_def NShards_def)

lemma status_code_eq [simp]: "status_code a = status_code b \<longleftrightarrow> a = b"
  by (cases a; cases b) (simp_all add: shard_status)

lemma status_codes:
  "status_code ph = SERVING \<longleftrightarrow> ph = Serving" "status_code ph = PULLING \<longleftrightarrow> ph = Awaiting"
  "status_code ph = BE_PULLING \<longleftrightarrow> ph = Leaving" "status_code ph = GC \<longleftrightarrow> ph = Taken"
  by (cases ph; simp add: shard_status)+

section \<open>States and views\<close>

lemma state_view_shards: "state_view cfgs s v \<Longrightarrow> shards_ok (Shards s)"
  by (simp add: state_view_def kv_ok_def)

lemma state_view_table: "state_view cfgs s v \<Longrightarrow> table_ok (kv_SessionMap s)"
  by (simp add: state_view_def kv_ok_def)

lemma state_view_seen: "state_view cfgs s v \<Longrightarrow> v_seen v = table_processed (kv_SessionMap s)"
  by (simp add: state_view_def)

lemma state_view_config:
  assumes "state_view cfgs s v"
  obtains c where "CurrentConfig s = Some c" "Config_Num c = of_nat (v_num v)"
    "Config_Shards c = PbConfig_Shards (cfgs ! v_num v)" "v_num v < length cfgs"
  using assms by (auto simp: state_view_def config_view_def)

text \<open>The shard under a number, if it is one.\<close>

lemma state_view_shardE:
  assumes "state_view cfgs s v"
  obtains (there) pb where "valid_shard i" "Shards s i = Some (Some (Shard (Some pb)))" "shardAt s i = Some (Shard (Some pb))"
      "Shard_ID pb = i" "Shard_Status pb = status_code (v_phase v i)" "readKV (Shard_KV pb) = v_held v i"
  | (missing) "Shards s i = None" "shardAt s i = None" "v_phase v i = Serving"
proof (cases "valid_shard i \<and> Shards s i \<noteq> None")
  case True
  then have valid: "valid_shard i" by blast
  have "shard_view s v i" using assms by (simp add: state_view_def)
  with True obtain pb where pb: "shardAt s i = Some (Shard (Some pb))" "Shard_Status pb = status_code (v_phase v i)"
    "readKV (Shard_KV pb) = v_held v i" unfolding shard_view_def if_P[OF True] by blast
  then have at: "Shards s i = Some (Some (Shard (Some pb)))" by (auto simp: shardAt_def split: option.splits)
  then have "Shard_ID pb = i" using state_view_shards[OF assms] by (auto simp: shards_ok_def)
  with valid at pb show ?thesis by (rule_tac there)
next
  case False
  moreover have "shard_view s v i" using assms by (simp add: state_view_def)
  ultimately have m: "Shards s i = None" "v_phase v i = Serving" unfolding shard_view_def if_not_P[OF False] by blast+
  show ?thesis by (rule missing[OF m(1) _ m(2)]) (simp add: shardAt_def m(1))
qed

lemma shard_view_cong: "Shards s' = Shards s \<Longrightarrow> shard_view s' v i = shard_view s v i"
  by (simp only: shard_view_def shardAt_def)

text \<open>Replacing a shard, and replacing the sessions.\<close>

lemma state_view_put:
  assumes "state_view cfgs s v" "valid_shard i" "Shard_ID pb = i" "Shard_Status pb = status_code ph"
  shows "state_view cfgs (putShard i (Shard (Some pb)) s)
    (v\<lparr>v_phase := (v_phase v)(i := ph), v_held := (v_held v)(i := readKV (Shard_KV pb))\<rparr>)"
proof -
  have "shards_ok ((Shards s)(i \<mapsto> Some (Shard (Some pb))))" by (rule shards_ok_put[OF state_view_shards[OF assms(1)] assms(3)])
  moreover have "shard_view (putShard i (Shard (Some pb)) s)
      (v\<lparr>v_phase := (v_phase v)(i := ph), v_held := (v_held v)(i := readKV (Shard_KV pb))\<rparr>) j" for j
  proof -
    have "shard_view s v j" using assms(1) by (simp add: state_view_def)
    then show ?thesis using assms(2-4) by (simp add: shard_view_def shardAt_put split: if_splits)
  qed
  ultimately show ?thesis using assms(1) by (simp add: state_view_def kv_ok_def config_view_def)
qed

lemma shardAt_frame [simp]:
  "shardAt (s\<lparr>kv_SessionMap := t\<rparr>) = shardAt s" "shardAt (s\<lparr>AppliedIndex := n\<rparr>) = shardAt s"
  "shardAt (s\<lparr>kv_SessionMap := t, AppliedIndex := n\<rparr>) = shardAt s"
  by (simp_all add: shardAt_def fun_eq_iff)

lemma state_view_sessions:
  assumes "state_view cfgs s v" "table_ok t"
  shows "state_view cfgs (s\<lparr>kv_SessionMap := t, AppliedIndex := n\<rparr>) (v\<lparr>v_seen := table_processed t\<rparr>)"
    "state_view cfgs (s\<lparr>kv_SessionMap := t\<rparr>) (v\<lparr>v_seen := table_processed t\<rparr>)"
  using assms by (simp_all add: state_view_def kv_ok_def config_view_def shard_view_def)

lemma state_view_index: "state_view cfgs s v \<Longrightarrow> state_view cfgs (s\<lparr>AppliedIndex := n\<rparr>) v"
  by (simp add: state_view_def kv_ok_def config_view_def shard_view_def)

text \<open>Being served is serving, where the shard is there.\<close>

lemma served_iff:
  assumes "state_view cfgs s v" "keys_ok k2s"
  shows "served k2s g s key \<longleftrightarrow> shardAt s (k2s key) \<noteq> None \<and> serves (owner cfgs) g v (k2s key)"
proof -
  have valid: "valid_shard (k2s key)" using assms(2) by (simp add: keys_ok_def valid_shard_def)
  obtain c where c: "CurrentConfig s = Some c" "Config_Shards c = PbConfig_Shards (cfgs ! v_num v)" "v_num v < length cfgs"
    using assms(1) by (rule state_view_config)
  show ?thesis
  proof (rule state_view_shardE[OF assms(1), of "k2s key"])
    fix pb assume pb: "shardAt s (k2s key) = Some (Shard (Some pb))" "Shard_Status pb = status_code (v_phase v (k2s key))"
    have "served k2s g s key \<longleftrightarrow> (v_phase v (k2s key) = Serving \<or> v_phase v (k2s key) = Taken) \<and>
        PbConfig_Shards (cfgs ! v_num v) ! nat (sint (k2s key)) = g"
      using pb c(1,2) by (simp add: served_def status_codes)
    then show ?thesis using c(3) valid pb(1) by (auto simp: serves_def owner_def)
  qed (simp add: served_def)
qed

lemma served_serves:
  assumes "state_view cfgs s v" "keys_ok k2s" "served k2s g s key"
  shows "serves (owner cfgs) g v (k2s key)"
  using served_iff[OF assms(1,2)] assms(3) by blast

section \<open>Operations on keys\<close>

text \<open>An operation on a key that is served is the operation of the store; any other is refused.\<close>

lemma kv_command_op:
  assumes v: "state_view cfgs s v" and k: "keys_ok (env_key2shard env)" and op: "op_of args = Some operation"
    and cmd: "kv_command env g args s = Ok (reply, s')"
  defines "i \<equiv> env_key2shard env (op_key operation)"
  shows "if served (env_key2shard env) g s (op_key operation)
    then reply = op_reply operation (v_held v i) \<and>
      state_view cfgs s' (v\<lparr>v_held := (v_held v)(i := op_effect operation (v_held v i))\<rparr>) \<and> kv_SessionMap s' = kv_SessionMap s
    else reply = statusReply ERR_WRONG_GROUP \<and> s' = s"
proof -
  let ?k2s = "env_key2shard env"
  have ok: "kv_ok s" using v by (simp add: state_view_def)
  have valid: "valid_shard i" using k by (simp add: i_def keys_ok_def valid_shard_def)
  have check: "checkShard ?k2s g key s = Ok (served ?k2s g s key)" for key
    using checkShard_spec[OF ok k] by simp
  consider (get) "KvArgs_Type args = Kv_GET" "operation = OpGet (KvArgs_Key args)"
    | (put) "KvArgs_Type args = Kv_PUT" "operation = OpPut (KvArgs_Key args) (KvArgs_Value args)"
    | (app) "KvArgs_Type args = Kv_APPEND" "operation = OpAppend (KvArgs_Key args) (KvArgs_Value args)"
    using op by (auto simp: op_of_def split: if_splits)
  note kinds = this
  show ?thesis
  proof (cases "served ?k2s g s (op_key operation)")
    case False
    from kinds show ?thesis
      by cases (use cmd check False in \<open>auto simp: kv_command_def Kv_types applyGet_def applyPut_def applyAppend_def Let_def\<close>)
  next
    case True
    then have "shardAt s i \<noteq> None" using served_iff[OF v k] unfolding i_def by blast
    then obtain pb where pb: "shardAt s i = Some (Shard (Some pb))" "Shard_ID pb = i" "Shard_Status pb = status_code (v_phase v i)"
      "readKV (Shard_KV pb) = v_held v i" by (rule_tac state_view_shardE[OF v, of i]) auto
    have put: "state_view cfgs (putShard i (Shard (Some (pb\<lparr>Shard_KV := Some m\<rparr>))) s) (v\<lparr>v_held := (v_held v)(i := m)\<rparr>)" for m
      using state_view_put[OF v valid, of "pb\<lparr>Shard_KV := Some m\<rparr>" "v_phase v i"] pb(2,3) by (simp add: fun_upd_idem)
    have held: "Shard_KV pb = Some m \<Longrightarrow> v_held v i = m" for m using pb(4) by simp
    have get: "Shard_Get key (shardAt s i) = Ok (case v_held v i key of Some x \<Rightarrow> (x, None) | None \<Rightarrow> ([], Some ErrNoKey))" for key
      using pb by (simp add: Shard_Get_def shardOf_def)
    from kinds show ?thesis
    proof cases
      case get
      then show ?thesis using cmd check v True \<open>\<And>key. Shard_Get key (shardAt s i) = _\<close>
        by (auto simp: kv_command_def Kv_types applyGet_def Let_def i_def split: option.splits if_splits)
    next
      case put
      then show ?thesis using cmd check pb(1,4) held True \<open>\<And>m. state_view cfgs (putShard i _ s) _\<close>
        by (auto simp: kv_command_def Kv_types applyPut_def Let_def Shard_Put_def shardOf_def i_def split: option.splits if_splits)
    next
      case app
      then show ?thesis using cmd check pb(1,4) held True \<open>\<And>m. state_view cfgs (putShard i _ s) _\<close>
        by (auto simp: kv_command_def Kv_types applyAppend_def Let_def Shard_Append_def shardOf_def i_def split: option.splits if_splits)
    qed
  qed
qed

section \<open>Commands of the migration\<close>

lemma view_eqI:
  "v_num v = v_num w \<Longrightarrow> (\<And>i. v_phase v i = v_phase w i) \<Longrightarrow> (\<And>i. v_held v i = v_held w i) \<Longrightarrow> v_seen v = v_seen w \<Longrightarrow>
   v = (w :: view)"
  by (cases v; cases w) (simp add: fun_eq_iff)

lemma dropped_insert: "dropped (insert i A) v = dropped A (dropped {i} v)"
  by (rule view_eqI) auto

lemma inserted_insert: "inserted (insert i A) kv sn v = inserted A kv sn (inserted {i} kv sn' v)"
  by (rule view_eqI) auto

lemma dropped_empty: "dropped {} v = v"
  by (simp add: dropped_def)

lemma inserted_empty: "inserted {} kv (v_seen v) v = v"
  by (simp add: inserted_def)

lemma deleteOne_view:
  assumes "state_view cfgs s v" "clone_ok cp" "deleteOne cp s i = Ok s'"
  shows "state_view cfgs s' (dropped {i} v)"
proof (rule state_view_shardE[OF assms(1), of i])
  fix pb assume pb: "valid_shard i" "shardAt s i = Some (Shard (Some pb))" "Shard_ID pb = i"
    "Shard_Status pb = status_code (v_phase v i)" "readKV (Shard_KV pb) = v_held v i"
  obtain new where new: "NewShard cp (Some \<lparr>Shard_ID = i, Shard_KV = None, Shard_Status = SERVING\<rparr>) = Shard (Some new)"
    "Shard_ID new = i" "Shard_Status new = status_code Serving" "readKV (Shard_KV new) = Map.empty"
    using NewShard_spec[OF assms(2), of "\<lparr>Shard_ID = i, Shard_KV = None, Shard_Status = SERVING\<rparr>"] by (auto simp: fun_eq_iff readKV_def)
  show ?thesis
  proof (cases "v_phase v i")
    case Leaving
    then have "dropped {i} v = v\<lparr>v_phase := (v_phase v)(i := Serving), v_held := (v_held v)(i := Map.empty)\<rparr>"
      by (intro view_eqI) auto
    then show ?thesis using assms(3) Leaving pb new state_view_put[OF assms(1) pb(1) new(2,3)]
      by (simp add: deleteOne_def)
  next
    case Taken
    then have "dropped {i} v = v\<lparr>v_phase := (v_phase v)(i := Serving), v_held := (v_held v)(i := v_held v i)\<rparr>"
      by (intro view_eqI) auto
    moreover have "s' = putShard i (Shard (Some (pb\<lparr>Shard_Status := SERVING\<rparr>))) s"
      using assms(3) Taken pb by (simp add: deleteOne_def shard_status)
    ultimately show ?thesis using state_view_put[OF assms(1) pb(1), of "pb\<lparr>Shard_Status := SERVING\<rparr>" Serving] pb(3,5) by simp
  next
    case Serving
    then have "dropped {i} v = v" by (intro view_eqI) auto
    then show ?thesis using assms(1,3) Serving pb by (simp add: deleteOne_def shard_status)
  next
    case Awaiting
    then have "dropped {i} v = v" by (intro view_eqI) auto
    then show ?thesis using assms(1,3) Awaiting pb by (simp add: deleteOne_def shard_status)
  qed
qed (use assms(3) in \<open>simp add: deleteOne_def\<close>)

lemma deleteLoop_view:
  assumes "state_view cfgs s v" "clone_ok cp" "foldM_go (deleteOne cp) s ids = Ok s'"
  shows "state_view cfgs s' (dropped (set ids) v)"
  using assms(1,3)
proof (induction ids arbitrary: s v)
  case (Cons i ids)
  then obtain s1 where 1: "deleteOne cp s i = Ok s1" "foldM_go (deleteOne cp) s1 ids = Ok s'" by auto
  from Cons.IH[OF deleteOne_view[OF Cons.prems(1) assms(2) 1(1)] 1(2)] show ?case
    using dropped_insert[of i "set ids" v] by simp
qed (simp add: dropped_empty)

lemma insertOne_view:
  assumes "state_view cfgs s v" "clone_ok cp" "insertOne cp s (Some pb) = Ok s'" "readKV (Shard_KV pb) = kv (Shard_ID pb)"
  shows "state_view cfgs s' (inserted {Shard_ID pb} kv (v_seen v) v)"
proof (rule state_view_shardE[OF assms(1), of "Shard_ID pb"])
  fix pb0 assume pb0: "valid_shard (Shard_ID pb)" "shardAt s (Shard_ID pb) = Some (Shard (Some pb0))"
    "Shard_Status pb0 = status_code (v_phase v (Shard_ID pb))"
  obtain new where new: "cp (Some pb) = Some new" "Shard_ID new = Shard_ID pb" "readKV (Shard_KV new) = readKV (Shard_KV pb)"
    using assms(2) unfolding clone_ok_def by blast
  show ?thesis
  proof (cases "v_phase v (Shard_ID pb) = Awaiting")
    case True
    let ?new = "new\<lparr>Shard_Status := GC\<rparr>"
    have "inserted {Shard_ID pb} kv (v_seen v) v =
        v\<lparr>v_phase := (v_phase v)(Shard_ID pb := Taken), v_held := (v_held v)(Shard_ID pb := readKV (Shard_KV ?new))\<rparr>"
      using True new(3) assms(4) by (intro view_eqI) auto
    moreover have "s' = putShard (Shard_ID pb) (Shard (Some ?new)) s"
      using assms(3) True pb0 new insertOne_spec[OF assms(2) state_view_shards[OF assms(1)], of pb] by simp
    moreover have "state_view cfgs (putShard (Shard_ID pb) (Shard (Some ?new)) s)
        (v\<lparr>v_phase := (v_phase v)(Shard_ID pb := Taken), v_held := (v_held v)(Shard_ID pb := readKV (Shard_KV ?new))\<rparr>)"
      by (rule state_view_put[OF assms(1) pb0(1)]) (simp_all add: new(2))
    ultimately show ?thesis by (simp only:)
  next
    case False
    then have "inserted {Shard_ID pb} kv (v_seen v) v = v" by (intro view_eqI) auto
    moreover have "s' = s"
      using assms(3) False pb0 insertOne_spec[OF assms(2) state_view_shards[OF assms(1)], of pb] by (simp add: status_codes)
    ultimately show ?thesis using assms(1) by simp
  qed
qed (use assms(3) in \<open>simp add: insertOne_def\<close>)

lemma insertLoop_view:
  assumes "state_view cfgs s v" "clone_ok cp" "foldM_go (insertOne cp) s (map Some pbs) = Ok s'"
    "\<forall>pb \<in> set pbs. readKV (Shard_KV pb) = kv (Shard_ID pb)"
  shows "state_view cfgs s' (inserted (Shard_ID ` set pbs) kv (v_seen v) v)"
  using assms(1,3,4)
proof (induction pbs arbitrary: s v)
  case (Cons pb pbs)
  then obtain s1 where 1: "insertOne cp s (Some pb) = Ok s1" "foldM_go (insertOne cp) s1 (map Some pbs) = Ok s'" by auto
  have "state_view cfgs s1 (inserted {Shard_ID pb} kv (v_seen v) v)"
    using insertOne_view[OF Cons.prems(1) assms(2) 1(1)] Cons.prems(3) by simp
  from Cons.IH[OF this 1(2)] Cons.prems(3) show ?case
    using inserted_insert[of "Shard_ID pb" "Shard_ID ` set pbs" kv "v_seen v" v "v_seen v"] by simp
qed (simp add: inserted_empty)

lemma covers_seen:
  "table_ok t \<Longrightarrow> table_ok t' \<Longrightarrow> covers t t' \<longleftrightarrow> seen_le (table_processed t) (table_processed t')"
  by (simp add: covers_def seen_le_def covered_def IsDuplicate_spec)

text \<open>What a received table says, as a table.\<close>

lemma Merge_seen:
  assumes "table_ok t" "None \<notin> ran m" "\<forall>i. map_option (\<lambda>p. Session_ProcessedSeq (the p)) (m i) = sn i" "iterates m ks"
  shows "\<exists>t'. Merge (visited m ks) t = Ok t' \<and> table_ok t' \<and>
    seen_le (table_processed t) (table_processed t') \<and> seen_le sn (table_processed t')"
proof -
  let ?u = "\<lparr>sm_Map = (\<lambda>i. map_option (\<lambda>p. Some (ServerSession p)) (m i)), sm_mu = True\<rparr>"
  have u: "table_ok ?u" using assms(2) by (auto simp: table_ok_def ran_def) (metis not_None_eq)
  have p: "map_option (\<lambda>p. Session_ProcessedSeq (the p)) (m i) = table_processed ?u i" for i
    using assms(2) by (auto simp: table_processed_def ran_def split: option.splits)
  then have "table_processed ?u = sn" using assms(3) by (simp add: fun_eq_iff)
  with Merge_covers[OF assms(1) u assms(2) p assms(4)] show ?thesis using covers_seen assms(1) u by metis
qed

lemma NewConfig_shards:
  assumes "NewConfig pb = Ok cfg" "length (PbConfig_Shards pb) = NShards"
  shows "Config_Shards cfg = PbConfig_Shards pb"
  by (rule foldM_go_inv[where I = "\<lambda>c. Config_Shards c = PbConfig_Shards pb", OF _ _ assms(1)[unfolded NewConfig_def]])
    (auto simp: assms(2) addGroup_def split: if_splits)

lemma restatus_Shard [simp]:
  "restatus f (Shard (Some pb)) = Shard (Some (pb\<lparr>Shard_Status := f (Shard_Status pb)\<rparr>))"
  by (simp add: restatus_def)

lemma nextStatus_code:
  assumes "n \<noteq> 0" "Suc n < length cfgs" "valid_shard i"
  shows "nextStatus g (PbConfig_Shards (cfgs ! n) ! nat (sint i)) (PbConfig_Shards (cfgs ! Suc n) ! nat (sint i)) (status_code ph) =
    status_code (nextPhase (owner cfgs) g n i ph)"
  using assms by (simp add: nextStatus_def nextPhase_def owner_def)

lemma updateShardsStatus_view:
  assumes v: "state_view cfgs s v" and cfgs: "configs_ok cfgs" "Suc (v_num v) < length cfgs"
    and up: "updateShardsStatus g (cfgs ! Suc (v_num v)) s = Ok s'"
  shows "shards_step s s' \<and> (\<forall>i. shard_view s' (reconfigured (owner cfgs) g v) i)"
proof (cases "v_num v = 0")
  case True
  then have "s' = s" using up cfgs num_sint[OF cfgs(1), of 1] by (simp add: updateShardsStatus_def config_num)
  moreover have "shard_view s (reconfigured (owner cfgs) g v) i" for i
    using v True by (simp add: state_view_def shard_view_def nextPhase_def)
  ultimately show ?thesis using shards_step_refl[OF state_view_shards[OF v]] by blast
next
  case False
  let ?n = "v_num v" and ?gs = "PbConfig_Shards (cfgs ! Suc (v_num v))"
  obtain c where c: "CurrentConfig s = Some c" "Config_Shards c = PbConfig_Shards (cfgs ! ?n)" "?n < length cfgs"
    using v by (rule state_view_config)
  have len: "length ?gs = NShards" "length (Config_Shards c) = NShards" using config_length[OF cfgs(1)] cfgs(2) c by simp_all
  have "\<not> sint (of_nat (Suc ?n) :: int64) \<le> 1" using num_sint[OF cfgs] False by simp
  then have loop: "foldM_go (statusOne (Some c) g) s (enumerate 0 ?gs) = Ok s'"
    using up c(1) config_num[OF cfgs] by (simp add: updateShardsStatus_def)
  have there: "(Config_Shards c ! j = g) = (?gs ! j = g) \<or> shardAt s (of_nat j) \<noteq> None" if "j < NShards" for j
    using statusLoop_missing[OF loop state_view_shards[OF v], of j "?gs ! j"] that len(1) by (auto simp: in_set_enumerate_eq)
  from updateLoop_spec[OF state_view_shards[OF v], of 0 ?gs c g] len there loop have
    1: "shards_step s s'"
      "\<And>j. j < NShards \<Longrightarrow> shardAt s' (of_nat j) = map_option (restatus (nextStatus g (Config_Shards c ! j) (?gs ! j))) (shardAt s (of_nat j))"
    by (auto simp: NShards_def)
  have same: "Shards s' i = None \<longleftrightarrow> Shards s i = None" for i
  proof -
    have "dom (Shards s') = dom (Shards s)" using 1(1) by (simp add: shards_step_def)
    then show ?thesis by (metis domIff)
  qed
  have "shard_view s' (reconfigured (owner cfgs) g v) i" for i
  proof (rule state_view_shardE[OF v, of i])
    fix pb assume pb: "valid_shard i" "Shards s i = Some (Some (Shard (Some pb)))" "shardAt s i = Some (Shard (Some pb))"
      "Shard_Status pb = status_code (v_phase v i)" "readKV (Shard_KV pb) = v_held v i"
    obtain j where j: "i = of_nat j" "j < NShards" "nat (sint i) = j" using pb(1) by (rule valid_shardE)
    then show ?thesis using 1(2)[OF j(2)] pb nextStatus_code[OF False cfgs(2) pb(1), of g "v_phase v i"] c(2) same[of i]
      by (simp add: shard_view_def)
  next
    assume m: "Shards s i = None" "shardAt s i = None" "v_phase v i = Serving"
    have "nextPhase (owner cfgs) g ?n i Serving = Serving"
    proof (cases "valid_shard i")
      case True
      then obtain j where j: "i = of_nat j" "j < NShards" "nat (sint i) = j" by (rule valid_shardE)
      then have "(Config_Shards c ! j = g) = (?gs ! j = g)" using there[OF j(2)] m(2) by simp
      then show ?thesis using j True c cfgs(2) by (simp add: nextPhase_def owner_def)
    qed (simp add: nextPhase_def owner_def)
    then show ?thesis using m same[of i] by (simp add: shard_view_def)
  qed
  then show ?thesis using 1(1) by blast
qed

lemma applyReconfigure_view:
  assumes v: "state_view cfgs s v" and cfgs: "configs_ok cfgs" "m < length cfgs"
    and app: "applyReconfigure g (Some (cfgs ! m)) s = Ok (reply, s')"
  shows "if m = Suc (v_num v) then state_view cfgs s' (reconfigured (owner cfgs) g v) else s' = s"
proof -
  obtain c where c: "CurrentConfig s = Some c" "Config_Num c = of_nat (v_num v)"
    "Config_Shards c = PbConfig_Shards (cfgs ! v_num v)" "v_num v < length cfgs" using v by (rule state_view_config)
  have num: "PbConfig_Num (cfgs ! m) = Config_Num c + 1 \<longleftrightarrow> m = Suc (v_num v)"
    using num_Suc[OF cfgs(1) c(4) cfgs(2)] config_num[OF cfgs] c(2) by simp
  show ?thesis
  proof (cases "m = Suc (v_num v)")
    case False
    then show ?thesis using app c(1) num by (simp add: applyReconfigure_def configNum_def)
  next
    case True
    from app c(1) num True obtain s1 cfg where 1: "updateShardsStatus g (cfgs ! m) s = Ok s1" "NewConfig (cfgs ! m) = Ok cfg"
      "s' = s1\<lparr>LastConfig := CurrentConfig s1, CurrentConfig := Some cfg\<rparr>"
      by (auto simp: applyReconfigure_def configNum_def Let_def)
    note up = updateShardsStatus_view[OF v cfgs(1) cfgs(2)[unfolded True] 1(1)[unfolded True]]
    have ok: "kv_ok s'" using applyReconfigure_step[OF _ app] v by (simp add: state_view_def kv_step_def)
    have f: "kv_SessionMap s1 = kv_SessionMap s" "CurrentConfig s1 = Some c"
      using shards_step_fields[OF conjunct1[OF up]] c(1) by simp_all
    have "Config_Shards cfg = PbConfig_Shards (cfgs ! m)" using NewConfig_shards[OF 1(2)] config_length[OF cfgs] by simp
    moreover have "Config_Num cfg = of_nat m" using NewConfig_ok[OF 1(2)] config_num[OF cfgs] by simp
    ultimately have "config_view cfgs s' m" using 1(3) f(2) c cfgs(2) True by (simp add: config_view_def)
    moreover have "shard_view s' (reconfigured (owner cfgs) g v) i" for i
      using up shard_view_cong[of s' s1 "reconfigured (owner cfgs) g v"] 1(3) by simp
    ultimately show ?thesis using ok 1(3) f(1) True state_view_seen[OF v] by (simp add: state_view_def)
  qed
qed

section \<open>One applied command\<close>

lemma applyInsert_view:
  assumes v: "state_view cfgs s v" and cfgs: "configs_ok cfgs" "n < length cfgs"
    and env: "clone_ok cp" "\<And>m. iterates m (w m)"
    and resp: "pulled_view response n ids kv sn" and app: "applyInsertShards cp w (Some response) s = Ok (reply, s')"
  shows "if v_num v \<le> n then \<exists>sn'. seen_le (v_seen v) sn' \<and> seen_le sn sn' \<and> state_view cfgs s' (inserted ids kv sn' v)
    else s' = s"
proof -
  obtain c where c: "CurrentConfig s = Some c" "Config_Num c = of_nat (v_num v)" "v_num v < length cfgs"
    using v by (rule state_view_config)
  obtain pbs where r: "Pulled_ConfigNum response = of_nat n" "response_ok response" "Pulled_Shards response = map Some pbs"
    "ids = Shard_ID ` set pbs" "\<forall>pb \<in> set pbs. readKV (Shard_KV pb) = kv (Shard_ID pb)"
    "\<forall>i. map_option (\<lambda>p. Session_ProcessedSeq (the p)) (ServerSessions response i) = sn i"
    using resp by (auto simp: pulled_view_def)
  have num: "sint (Pulled_ConfigNum response) < sint (Config_Num c) \<longleftrightarrow> \<not> v_num v \<le> n"
    using num_sint[OF cfgs(1)] cfgs(2) c(2,3) r(1) by auto
  show ?thesis
  proof (cases "v_num v \<le> n")
    case False
    then show ?thesis using app c(1) num by (simp add: applyInsertShards_def configNum_def)
  next
    case True
    from app c(1) num True r(3) obtain s1 t where 1: "foldM_go (insertOne cp) s (map Some pbs) = Ok s1"
      "Merge (visited (ServerSessions response) (w (ServerSessions response))) (kv_SessionMap s1) = Ok t"
      "s' = s1\<lparr>kv_SessionMap := t\<rparr>" by (auto simp: applyInsertShards_def configNum_def)
    have v1: "state_view cfgs s1 (inserted ids kv (v_seen v) v)"
      unfolding r(4) by (rule insertLoop_view[OF v env(1) 1(1) r(5)])
    have "None \<notin> ran (ServerSessions response)" using r(2) by (simp add: response_ok_def)
    from Merge_seen[OF state_view_table[OF v1] this r(6) env(2)] 1(2) state_view_seen[OF v1] have
      t: "table_ok t" "seen_le (v_seen v) (table_processed t)" "seen_le sn (table_processed t)" by auto
    have "state_view cfgs s' ((inserted ids kv (v_seen v) v)\<lparr>v_seen := table_processed t\<rparr>)"
      using state_view_sessions(2)[OF v1 t(1)] 1(3) by simp
    moreover have "(inserted ids kv (v_seen v) v)\<lparr>v_seen := table_processed t\<rparr> = inserted ids kv (table_processed t) v"
      by (simp add: inserted_def)
    ultimately show ?thesis using True t(2,3) by auto
  qed
qed

lemma applyDelete_view:
  assumes v: "state_view cfgs s v" and cfgs: "configs_ok cfgs" "n < length cfgs" and cp: "clone_ok cp"
    and app: "applyDeleteShards cp (of_nat n) ids s = Ok (reply, s')"
  shows "if n = v_num v then state_view cfgs s' (dropped (set ids) v) else s' = s"
proof -
  obtain c where c: "CurrentConfig s = Some c" "Config_Num c = of_nat (v_num v)" "v_num v < length cfgs"
    using v by (rule state_view_config)
  have num: "(of_nat n :: int64) = Config_Num c \<longleftrightarrow> n = v_num v" using num_eq[OF cfgs(1,2) c(3)] c(2) by simp
  show ?thesis
  proof (cases "n = v_num v")
    case True
    then show ?thesis using app c(1) num deleteLoop_view[OF v cp] by (auto simp: applyDeleteShards_def configNum_def)
  qed (use app c(1) num in \<open>simp add: applyDeleteShards_def configNum_def\<close>)
qed

text \<open>
  A command that is not an operation on a key takes the view to the one a protocol step prescribes,
  or leaves it as it is.
\<close>

lemma kv_command_migration:
  assumes ok: "system_ok env cfgs" and v: "state_view cfgs s (p_now P g)" and g: "g \<noteq> 0" "op_of args = None"
    and view: "command_view cfgs P g args \<or> client_command args" and cmd: "kv_command env g args s = Ok (reply, s')"
  shows "\<exists>v'. state_view cfgs s' v' \<and>
    (v' = p_now P g \<or> proto_step (owner cfgs) (length cfgs) (env_key2shard env) P (advance g v' P)) \<and>
    seen_le (v_seen (p_now P g)) (v_seen v')"
proof -
  let ?step = "proto_step (owner cfgs) (length cfgs) (env_key2shard env) P"
  have o: "configs_ok cfgs" "clone_ok (env_clone env)" "\<And>m. iterates m (env_visit env m)"
    using ok by (auto simp: system_ok_def env_ok_def)
  have same: ?thesis if "s' = s" using v that by auto
  consider (pulled) "KvArgs_Type args = Kv_PULL_SHARDS" | (del) "KvArgs_Type args = Kv_DELETE_SHARDS"
    | (conf) "KvArgs_Type args = Kv_RECONFIGURE" | (other) "KvArgs_Type args \<notin> {Kv_PULL_SHARDS, Kv_DELETE_SHARDS, Kv_RECONFIGURE}"
    by auto
  then show ?thesis
  proof cases
    case pulled
    then obtain response n ids kv sn where r: "PulledShards args = Some response" "n < length cfgs"
      "pulled_view response n ids kv sn" "(g, n, ids, kv, sn) \<in> p_offers P"
      using view by (auto simp: command_view_def client_command_def)
    have "applyInsertShards (env_clone env) (env_visit env) (Some response) s = Ok (reply, s')"
      using cmd pulled r(1) by (simp add: kv_command_def Kv_types)
    from applyInsert_view[OF v o(1) r(2) o(2,3) r(3) this] show ?thesis
      using proto_step.insert[OF g(1) refl r(4)] same by (auto split: if_splits)
  next
    case del
    then obtain n where r: "n < length cfgs" "ConfigNum args = of_nat n" "(g, n, set (ShardIDs args)) \<in> p_drops P"
      using view by (auto simp: command_view_def client_command_def Kv_types)
    have "applyDeleteShards (env_clone env) (of_nat n) (ShardIDs args) s = Ok (reply, s')"
      using cmd del r(2) by (simp add: kv_command_def Kv_types)
    from applyDelete_view[OF v o(1) r(1) o(2) this] show ?thesis
      using proto_step.delete[OF g(1) refl, of P "set (ShardIDs args)"] r(3) same by (auto split: if_splits)
  next
    case conf
    then obtain m where r: "m < length cfgs" "NextConfig args = Some (cfgs ! m)" "(g, m) \<in> p_ready P"
      using view by (auto simp: command_view_def client_command_def Kv_types)
    have "applyReconfigure g (Some (cfgs ! m)) s = Ok (reply, s')"
      using cmd conf r(2) by (simp add: kv_command_def Kv_types)
    from applyReconfigure_view[OF v o(1) r(1) this] show ?thesis
      using proto_step.reconfigure[OF g(1) refl, of P] r(3) same by (auto split: if_splits)
  next
    case other
    then have "s' = s" using cmd g(2) by (auto simp: kv_command_def op_of_def applyEmpty_def split: if_splits)
    then show ?thesis by (rule same)
  qed
qed

end
