(* ===== verification/Shard_Refinement.thy ===== *)
theory Shard_Refinement
  imports Shard_Simulation
begin

text \<open>
  The sharded store refines the migration protocol: a forward simulation, stated once as a locale and
  interpreted on the system of theory Shard_System and the protocol of theory Migration_Protocol.
\<close>

section \<open>Forward simulations\<close>

locale forward_simulation =
  fixes init :: "'s \<Rightarrow> bool" and step :: "'s \<Rightarrow> 's \<Rightarrow> bool"
    and spec_init :: "'a \<Rightarrow> bool" and spec_step :: "'a \<Rightarrow> 'a \<Rightarrow> bool" and rel :: "'s \<Rightarrow> 'a \<Rightarrow> bool"
  assumes init_law: "init s \<Longrightarrow> \<exists>a. spec_init a \<and> rel s a"
    and step_law: "rel s a \<Longrightarrow> step s s' \<Longrightarrow> \<exists>a'. rtranclp spec_step a a' \<and> rel s' a'"
begin

lemma run_simulated:
  assumes "rtranclp step s s'" "rel s a"
  shows "\<exists>a'. rtranclp spec_step a a' \<and> rel s' a'"
  using assms
proof (induction rule: rtranclp_induct)
  case (step t u)
  then obtain b c where "rtranclp spec_step a b" "rel t b" "rtranclp spec_step b c" "rel u c" using step_law by meson
  then show ?case by (meson rtranclp_trans)
qed blast

lemma reach_simulated:
  assumes "init s" "rtranclp step s s'"
  shows "\<exists>a a'. spec_init a \<and> rtranclp spec_step a a' \<and> rel s' a'"
  using init_law[OF assms(1)] run_simulated[OF assms(2)] by blast

end

section \<open>Applying a command\<close>

text \<open>Only the view of one group has moved on.\<close>

definition moved :: "int64 \<Rightarrow> view \<Rightarrow> protocol \<Rightarrow> protocol \<Rightarrow> bool" where
  "moved g v P P' \<longleftrightarrow> p_now P' = (p_now P)(g := v) \<and> v \<in> p_past P' g \<and> (\<forall>h. p_past P h \<subseteq> p_past P' h) \<and>
     p_ready P' = p_ready P \<and> p_wanted P' = p_wanted P \<and> p_offers P' = p_offers P \<and> p_drops P' = p_drops P"

lemma moved_advance: "moved g v P (advance g v P)"
  by (auto simp: moved_def)

lemma moved_twice: "moved g v P (advance g v (advance g u P))"
  by (auto simp: moved_def)

lemma seen_le_record:
  "\<forall>n. sn (Header_ID h) = Some n \<longrightarrow> n \<le> Header_Seq h \<Longrightarrow> seen_le sn (sn(Header_ID h \<mapsto> Header_Seq h))"
  by (auto simp: seen_le_def covered_def split: option.splits)

lemma view_seen_same: "v\<lparr>v_seen := v_seen v\<rparr> = (v :: view)"
  by simp

lemma op_reply_served: "KvReply_Status (op_reply operation m) \<noteq> ERR_WRONG_GROUP"
  by (cases operation) (simp_all add: statusReply_def KvReply_zero_def Kv_status split: option.split)

lemma kv_apply_follows:
  assumes ok: "system_ok env cfgs" and v: "state_view cfgs s (p_now P g)" and g: "g \<noteq> 0"
    and args: "args = env_decode env (Command msg)" "command_view cfgs P g args \<or> client_command args"
    and app: "kv_apply env g msg s = Ok s'"
  shows "\<exists>P' v'. rtranclp (proto_step (owner cfgs) (length cfgs) (env_key2shard env)) P P' \<and> moved g v' P P' \<and>
    state_view cfgs s' v' \<and> p_answers P' = p_answers P @ kv_answer env g args s"
proof -
  let ?step = "proto_step (owner cfgs) (length cfgs) (env_key2shard env)"
  obtain h where h: "KvArgs_SessionHeader args = Some h"
    using app args(1) by (cases "KvArgs_SessionHeader args") (auto simp: kv_apply_def IsDuplicate_def withLock_def Let_def split: if_splits)
  note t = state_view_table[OF v] and seen = state_view_seen[OF v]
  have dup: "IsDuplicate (Some h) (kv_SessionMap s) = Ok (covered (v_seen (p_now P g)) h)"
    using IsDuplicate_spec[OF t] seen by (simp add: covered_def)
  show ?thesis
  proof (cases "covered (v_seen (p_now P g)) h")
    case True
    then have "s' = s\<lparr>AppliedIndex := CommandIndex msg\<rparr>" using app args(1) h dup by (simp add: kv_apply_def)
    moreover have "kv_answer env g args s = []" using h dup True by (simp add: kv_answer_def split: option.split)
    moreover have "?step P (advance g (p_now P g) P)"
      using proto_step.record_request[OF g refl, of P "v_seen (p_now P g)"] by simp
    ultimately show ?thesis using moved_advance state_view_index[OF v] by (metis append_Nil2 advance_simps(7) r_into_rtranclp)
  next
    case False
    then obtain reply s1 sm where 1: "kv_command env g args s = Ok (reply, s1)"
      "recordResponse (env_marshalAny env) (kv_SessionMap s1) h reply = Ok sm"
      "s' = s1\<lparr>kv_SessionMap := sm, AppliedIndex := CommandIndex msg\<rparr>"
      using app args(1) h dup by (auto simp: kv_apply_def Let_def)
    have recorded: ?thesis
      if v1: "state_view cfgs s1 v1" and st: "v1 = p_now P g \<or> ?step P (advance g v1 P)" and none: "kv_answer env g args s = []" for v1
    proof -
      note rec = recordResponse_Ok[OF state_view_table[OF v1] 1(2)]
      let ?v = "v1\<lparr>v_seen := table_processed sm\<rparr>"
      have "seen_le (v_seen v1) (table_processed sm)" using rec seen_le_record state_view_seen[OF v1] by metis
      moreover have "state_view cfgs s' ?v" using state_view_sessions(1)[OF v1] rec 1(3) by blast
      moreover have "?step P1 (advance g ?v P1)" if "p_now P1 g = v1" "seen_le (v_seen v1) (table_processed sm)" for P1
        using proto_step.record_request[OF g refl, of P1] that by simp
      ultimately show ?thesis using st none moved_advance moved_twice
        by (metis (no_types, lifting) advance_simps(1,7) append_Nil2 fun_upd_same r_into_rtranclp rtranclp.rtrancl_into_rtrancl)
    qed
    show ?thesis
    proof (cases "op_of args")
      case None
      with kv_command_migration[OF ok v g None args(2) 1(1)] show ?thesis using recorded by (auto simp: kv_answer_def)
    next
      case (Some operation)
      let ?i = "env_key2shard env (op_key operation)"
      have k: "keys_ok (env_key2shard env)" using ok by (simp add: system_ok_def)
      note cmd = kv_command_op[OF v k Some 1(1)]
      show ?thesis
      proof (cases "served (env_key2shard env) g s (op_key operation)")
        case False
        then have "reply = statusReply ERR_WRONG_GROUP" "s1 = s" using cmd by simp_all
        then show ?thesis using recorded[of "p_now P g"] v 1(1) h dup \<open>\<not> covered _ h\<close> Some
          by (simp add: kv_answer_def statusReply_def)
      next
        case True
        let ?v = "executed ?i h operation (p_now P g)"
        from True cmd have c: "reply = op_reply operation (v_held (p_now P g) ?i)" "kv_SessionMap s1 = kv_SessionMap s"
          "state_view cfgs s1 ((p_now P g)\<lparr>v_held := (v_held (p_now P g))(?i := op_effect operation (v_held (p_now P g) ?i))\<rparr>)" by simp_all
        note rec = recordResponse_Ok[OF state_view_table[OF c(3)] 1(2)]
        have e: "?v = (p_now P g)\<lparr>v_held := (v_held (p_now P g))(?i := op_effect operation (v_held (p_now P g) ?i)),
            v_seen := table_processed sm\<rparr>" using rec c(2) seen by (simp add: executed_def)
        have "state_view cfgs s' ?v" unfolding 1(3) e by (rule state_view_sessions(1)[OF c(3) conjunct1[OF rec]])
        moreover have "kv_answer env g args s = [(h, operation, reply)]"
          using 1(1) h dup \<open>\<not> covered _ h\<close> Some c(1) op_reply_served by (simp add: kv_answer_def)
        moreover have "?step P ((advance g ?v P)\<lparr>p_answers := p_answers P @ [(h, operation, reply)]\<rparr>)"
          unfolding c(1) by (rule proto_step.execute) (use g served_serves[OF v k True] \<open>\<not> covered _ h\<close> in simp_all)
        ultimately show ?thesis using c(1)
          by (intro exI[of _ "(advance g ?v P)\<lparr>p_answers := p_answers P @ [(h, operation, reply)]\<rparr>"] exI[of _ ?v])
            (auto simp: moved_def)
      qed
    qed
  qed
qed

section \<open>Monitors and handlers\<close>

text \<open>More is asked for or offered, and nothing else happens.\<close>

definition grown :: "protocol \<Rightarrow> protocol \<Rightarrow> bool" where
  "grown P P' \<longleftrightarrow> p_now P' = p_now P \<and> p_past P' = p_past P \<and> p_answers P' = p_answers P \<and> p_ready P \<subseteq> p_ready P' \<and>
     p_wanted P \<subseteq> p_wanted P' \<and> p_offers P \<subseteq> p_offers P' \<and> p_drops P \<subseteq> p_drops P'"

lemma command_view_grows:
  assumes "command_view cfgs P g args" "p_ready P \<subseteq> p_ready P'" "p_offers P \<subseteq> p_offers P'" "p_drops P \<subseteq> p_drops P'"
  shows "command_view cfgs P' g args"
  using assms unfolding command_view_def by (meson subsetD)

lemma pull_view_grows: "pull_view cfgs P g c \<Longrightarrow> p_wanted P \<subseteq> p_wanted P' \<Longrightarrow> pull_view cfgs P' g c"
  unfolding pull_view_def by (auto split: prod.splits)

lemma delete_view_grows: "delete_view cfgs P g c \<Longrightarrow> p_drops P \<subseteq> p_drops P' \<Longrightarrow> delete_view cfgs P' g c"
  unfolding delete_view_def by (auto split: prod.splits)

lemma follows_grown:
  assumes "follows env cfgs S P" "grown P P'" "sys_now S' = sys_now S" "sys_past S' = sys_past S" "sys_answers S' = sys_answers S"
    and "\<And>g args. (g, args) \<in> sys_commands S' \<Longrightarrow> (g, args) \<notin> sys_commands S \<Longrightarrow> command_view cfgs P' g args"
    and "\<And>g c. (g, c) \<in> sys_pulls S' \<Longrightarrow> (g, c) \<notin> sys_pulls S \<Longrightarrow> pull_view cfgs P' g c"
    and "\<And>g c. (g, c) \<in> sys_deletes S' \<Longrightarrow> (g, c) \<notin> sys_deletes S \<Longrightarrow> delete_view cfgs P' g c"
  shows "follows env cfgs S' P'"
proof -
  have grow: "p_ready P \<subseteq> p_ready P'" "p_wanted P \<subseteq> p_wanted P'" "p_offers P \<subseteq> p_offers P'" "p_drops P \<subseteq> p_drops P'"
    using assms(2) by (auto simp: grown_def)
  have "command_view cfgs P' g args" if "(g, args) \<in> sys_commands S'" for g args
    using assms(1,6) that command_view_grows[OF _ grow(1,3,4)] unfolding follows_def by fast
  moreover have "pull_view cfgs P' g c" if "(g, c) \<in> sys_pulls S'" for g c
    using assms(1,7) that pull_view_grows[OF _ grow(2)] unfolding follows_def by fast
  moreover have "delete_view cfgs P' g c" if "(g, c) \<in> sys_deletes S'" for g c
    using assms(1,8) that delete_view_grows[OF _ grow(4)] unfolding follows_def by fast
  ultimately show ?thesis using assms(1-5) unfolding follows_def grown_def by auto
qed

lemma follows_moved:
  assumes f: "follows env cfgs S P" and m: "moved g v' P P'" "state_view cfgs s' v'" "p_answers P' = p_answers P @ tr"
  shows "follows env cfgs (S\<lparr>sys_now := (sys_now S)(g := s'), sys_past := (sys_past S)(g := insert s' (sys_past S g)),
    sys_answers := sys_answers S @ tr\<rparr>) P'"
proof -
  have same: "p_ready P' = p_ready P" "p_wanted P' = p_wanted P" "p_offers P' = p_offers P" "p_drops P' = p_drops P"
    "p_now P' = (p_now P)(g := v')" "v' \<in> p_past P' g" "\<And>h. p_past P h \<subseteq> p_past P' h" using m(1) by (auto simp: moved_def)
  have past: "\<exists>v \<in> p_past P' h. state_view cfgs s v" if "s \<in> ((sys_past S)(g := insert s' (sys_past S g))) h" for h s
  proof (cases "s = s' \<and> h = g")
    case False
    then have "s \<in> sys_past S h" using that by (auto split: if_splits)
    then show ?thesis using f same(7) unfolding follows_def by blast
  qed (use m(2) same(6) in blast)
  have "command_view cfgs P' h args" if "(h, args) \<in> sys_commands S" for h args
    using f that same(1-4) by (fastforce simp: follows_def command_view_def)
  moreover have "pull_view cfgs P' h c" if "(h, c) \<in> sys_pulls S" for h c
    using f that same(2) by (fastforce simp: follows_def pull_view_def)
  moreover have "delete_view cfgs P' h c" if "(h, c) \<in> sys_deletes S" for h c
    using f that same(4) by (fastforce simp: follows_def delete_view_def)
  ultimately show ?thesis using f m(2,3) past same(5) unfolding follows_def by auto
qed

text \<open>\<^verbatim>\<open>configureAction\<close>\<close>

lemma isMigrating_False:
  "isMigrating s is = Ok False \<Longrightarrow> \<forall>i \<in> set is. Status (shardAt s i) = Ok SERVING"
  by (induction "is") (auto split: if_splits)

lemma configure_view:
  assumes v: "state_view cfgs (stateMachine kv) v" and cfgs: "configs_ok cfgs" "c \<in> set cfgs" and w: "\<And>m. iterates m (w m)"
    and act: "configureAction w attempts h kv = Ok (Some (Some args), kv')" "NextConfig args = Some c"
  shows "Suc (v_num v) < length cfgs \<and> c = cfgs ! Suc (v_num v) \<and> (\<forall>i. v_phase v i = Serving) \<and>
    KvArgs_Type args = Kv_RECONFIGURE"
proof -
  let ?s = "stateMachine kv"
  obtain cur where cur: "CurrentConfig ?s = Some cur" "Config_Num cur = of_nat (v_num v)" "v_num v < length cfgs"
    using v by (rule state_view_config)
  from act cur(1) have m: "isMigrating ?s (w (Shards ?s)) = Ok False" and c: "PbConfig_Num c = Config_Num cur + 1"
    and ty: "KvArgs_Type args = Kv_RECONFIGURE"
    by (auto simp: configureAction_def configNum_def Let_def KvArgs_zero_def split: if_splits option.splits)
  have "v_phase v i = Serving" for i
  proof (rule state_view_shardE[OF v, of i])
    fix pb assume pb: "Shards ?s i = Some (Some (Shard (Some pb)))" "shardAt ?s i = Some (Shard (Some pb))"
      "Shard_Status pb = status_code (v_phase v i)"
    have "i \<in> set (w (Shards ?s))" using w[of "Shards ?s"] pb(1) by (auto simp: iterates_def)
    then show ?thesis using isMigrating_False[OF m] pb by (auto simp: status_codes)
  qed
  moreover obtain m where "m < length cfgs" "c = cfgs ! m" using cfgs(2) by (metis in_set_conv_nth)
  moreover from this have "m = Suc (v_num v)" using num_Suc[OF cfgs(1) cur(3)] c config_num[OF cfgs(1)] cur(2) by metis
  ultimately show ?thesis using ty by blast
qed

text \<open>\<^verbatim>\<open>migratingAction\<close> and \<^verbatim>\<open>gcAction\<close>\<close>

lemma visited_map: "(k, x) \<in> set (visited m ks) \<Longrightarrow> m k = Some x"
  by (induction ks) (auto simp: visited_def map_filter_simps split: option.splits)

lemma gid2Shards_view:
  assumes ok: "shards_ok (Shards s)" and g: "getGid2ShardsOnLastConfigByStatus w status s = Ok m" "m p = Some ids" "i \<in> set ids"
  shows "Status (shardAt s i) = Ok status \<and> (\<exists>l. LastConfig s = Some l \<and> indexInt (Config_Shards l) (sint i) = Ok p)"
proof -
  let ?I = "\<lambda>m. \<forall>p ids. m p = Some ids \<longrightarrow> (\<forall>i \<in> set ids. Status (shardAt s i) = Ok status \<and>
    (\<exists>l. LastConfig s = Some l \<and> indexInt (Config_Shards l) (sint i) = Ok p))"
  have "?I m"
  proof (rule foldM_go_inv[where I = ?I, OF _ _ g(1)[unfolded getGid2ShardsOnLastConfigByStatus_def]])
    fix m1 j m2 assume inv: "?I m1" and step: "addToGid status s m1 j = Ok m2"
    have "ID (shardAt s j) = Ok sid \<Longrightarrow> sid = j" for sid
      using ok by (rule_tac shardAt_ok[OF ok, of j]) (auto simp: ID_def shardOf_def)
    then show "?I m2" using inv step by (fastforce simp: addToGid_def split: if_splits option.splits)
  qed simp
  then show ?thesis using g(2,3) by blast
qed

lemma migrations_view:
  assumes v: "state_view cfgs (stateMachine kv) v" and calls: "migrations w w' (status_code ph) kv = Ok calls" "(p, ids, n) \<in> set calls"
    and ph: "ph \<noteq> Serving"
  shows "n = of_nat (v_num v) \<and> v_num v < length cfgs \<and> (\<forall>i \<in> set ids. v_phase v i = ph \<and> owner cfgs (v_num v - 1) i = p)"
proof -
  let ?s = "stateMachine kv"
  obtain cur where cur: "CurrentConfig ?s = Some cur" "Config_Num cur = of_nat (v_num v)" "v_num v < length cfgs"
    using v by (rule state_view_config)
  obtain m where m: "getGid2ShardsOnLastConfigByStatus w (status_code ph) ?s = Ok m"
    "foldM_go (\<lambda>acc (gid, ids). go_bind (configNum (CurrentConfig ?s)) (\<lambda>n. Ok (acc @ [(gid, ids, n)]))) [] (visited m (w' m)) = Ok calls"
    using calls(1) by (auto simp: migrations_def)
  have "\<forall>(p, ids, n) \<in> set calls. m p = Some ids \<and> n = Config_Num cur"
    by (rule foldM_go_inv[where I = "\<lambda>acc. \<forall>(p, ids, n) \<in> set acc. m p = Some ids \<and> n = Config_Num cur", OF _ _ m(2)])
      (auto simp: configNum_def cur(1) dest: visited_map)
  then have p: "m p = Some ids" "n = Config_Num cur" using calls(2) by auto
  have "v_phase v i = ph \<and> owner cfgs (v_num v - 1) i = p" if i: "i \<in> set ids" for i
  proof (rule state_view_shardE[OF v, of i])
    fix pb assume pb: "valid_shard i" "shardAt ?s i = Some (Shard (Some pb))" "Shard_Status pb = status_code (v_phase v i)"
    obtain l where l: "LastConfig ?s = Some l" "indexInt (Config_Shards l) (sint i) = Ok p" "Status (shardAt ?s i) = Ok (status_code ph)"
      using gid2Shards_view[OF state_view_shards[OF v] m(1) p(1) i] by blast
    have "0 < v_num v" "Config_Shards l = PbConfig_Shards (cfgs ! (v_num v - 1))"
      using v l(1) by (auto simp: state_view_def config_view_def)
    then show ?thesis using l pb cur(3) by (auto simp: owner_def indexInt_def split: if_splits)
  next
    assume "shardAt ?s i = None"
    then show ?thesis using gid2Shards_view[OF state_view_shards[OF v] m(1) p(1) i] by simp
  qed
  then show ?thesis using p(2) cur(2,3) by blast
qed

text \<open>\<^verbatim>\<open>PullShards\<close>\<close>

lemma PullShards_num:
  assumes "state_view cfgs (stateMachine kv) v" "configs_ok cfgs" "n < length cfgs" "ConfigNum args = of_nat n"
    "PullShards marshalResponse cp args KvReply_zero kv = Ok reply" "KvReply_Status reply = Kv_OK"
  shows "n \<le> v_num v"
proof -
  obtain cur where cur: "CurrentConfig (stateMachine kv) = Some cur" "Config_Num cur = of_nat (v_num v)" "v_num v < length cfgs"
    using assms(1) by (rule state_view_config)
  have "\<not> sint (Config_Num cur) < sint (ConfigNum args)"
    using assms(5,6) cur(1) by (auto simp: PullShards_def configNum_def Kv_status split: if_splits)
  then show ?thesis using num_sint[OF assms(2)] assms(3,4) cur(2,3) by simp
qed

lemma pulledShards_there:
  assumes "pulledShards cp args s = Ok response"
  shows "\<forall>i \<in> set (ShardIDs args). shardAt s i \<noteq> None"
proof -
  have "\<forall>i \<in> set ids. shardAt s i \<noteq> None"
    if "foldM_go (\<lambda>acc shardID. go_bind (Shard_ProtoMessage cp (shardAt s shardID)) (\<lambda>m. Ok (acc @ [m]))) acc ids = Ok r" for acc ids r
    using that by (induction ids arbitrary: acc) (auto simp: Shard_ProtoMessage_def)
  then show ?thesis using assms by (auto simp: pulledShards_def)
qed

lemma pulledShards_view:
  assumes v: "state_view cfgs s v" and cp: "clone_ok cp" and pull: "pulledShards cp args s = Ok response" "ConfigNum args = of_nat n"
  shows "pulled_view response n (set (ShardIDs args)) (v_held v) (v_seen v)"
proof -
  let ?ids = "ShardIDs args"
  note there = pulledShards_there[OF pull(1)]
  have ok: "kv_ok s" using v by (simp add: state_view_def)
  from pulledShards_spec[OF ok there, of cp] pull(1) have
    r: "Pulled_ConfigNum response = ConfigNum args" "response_ok response"
      "Pulled_Shards response = map (\<lambda>i. cp (pbShard (the (shardAt s i)))) ?ids"
      "\<forall>i. map_option (\<lambda>p. Session_ProcessedSeq (the p)) (ServerSessions response i) = table_processed (kv_SessionMap s) i" by auto
  define f where "f i = the (cp (pbShard (the (shardAt s i))))" for i
  have f: "cp (pbShard (the (shardAt s i))) = Some (f i) \<and> Shard_ID (f i) = i \<and> readKV (Shard_KV (f i)) = v_held v i"
    if "i \<in> set ?ids" for i
  proof (rule state_view_shardE[OF v, of i])
    fix pb assume pb: "shardAt s i = Some (Shard (Some pb))" "Shard_ID pb = i" "readKV (Shard_KV pb) = v_held v i"
    obtain pb' where "cp (Some pb) = Some pb'" "Shard_ID pb' = i" "readKV (Shard_KV pb') = v_held v i"
      using cp pb(2,3) unfolding clone_ok_def by metis
    then show ?thesis using pb(1) by (simp add: f_def)
  qed (use there that in simp)
  have "Pulled_Shards response = map Some (map f ?ids)" using r(3) f by simp
  moreover have "set ?ids = Shard_ID ` set (map f ?ids)" using f by (force simp: image_image)
  moreover have "\<forall>pb \<in> set (map f ?ids). readKV (Shard_KV pb) = v_held v (Shard_ID pb)" using f by auto
  ultimately show ?thesis using r pull(2) state_view_seen[OF v] unfolding pulled_view_def by metis
qed

section \<open>The simulation\<close>

lemma pulled_view_norm: "pulled_view response n ids kv sn \<Longrightarrow> pulled_view (PullShardsResponse_norm anorm response) n ids kv sn"
proof -
  assume v: "pulled_view response n ids kv sn"
  then obtain pbs where r: "Pulled_ConfigNum response = of_nat n" "response_ok response" "Pulled_Shards response = map Some pbs"
    "ids = Shard_ID ` set pbs" "\<forall>pb \<in> set pbs. readKV (Shard_KV pb) = kv (Shard_ID pb)"
    "\<forall>i. map_option (\<lambda>p. Session_ProcessedSeq (the p)) (ServerSessions response i) = sn i" unfolding pulled_view_def by blast
  have "Pulled_Shards (PullShardsResponse_norm anorm response) = map Some (map PbShard_norm pbs)" "ids = Shard_ID ` set (map PbShard_norm pbs)"
    "\<forall>pb \<in> set (map PbShard_norm pbs). readKV (Shard_KV pb) = kv (Shard_ID pb)"
    using r(3-5) by (simp_all add: norm_response(2) image_image)
  then show ?thesis using norm_response(1,3,4)[where resp = response and anorm = anorm] r(1,2,6) unfolding pulled_view_def by metis
qed

lemma command_view_norm:
  assumes "command_view cfgs P g args"
  shows "command_view cfgs P g (KvArgs_norm anorm args)"
proof -
  have f: "KvArgs_Type (KvArgs_norm anorm args) = KvArgs_Type args" "NextConfig (KvArgs_norm anorm args) = NextConfig args"
    "ConfigNum (KvArgs_norm anorm args) = ConfigNum args" "ShardIDs (KvArgs_norm anorm args) = ShardIDs args"
    "PulledShards (KvArgs_norm anorm args) = map_option (PullShardsResponse_norm anorm) (PulledShards args)"
    by (simp_all add: KvArgs_norm_def)
  show ?thesis using assms pulled_view_norm unfolding command_view_def f by fastforce
qed

lemma command_view_insert: "KvArgs_Type args = Kv_INSERT_SHARDS \<Longrightarrow> command_view cfgs P g args"
  by (simp add: command_view_def Kv_types)

lemma follows_step:
  assumes f: "follows env cfgs S P" and st: "sys_step env cfgs S S'"
  shows "\<exists>P'. rtranclp (proto_step (owner cfgs) (length cfgs) (env_key2shard env)) P P' \<and> follows env cfgs S' P'"
proof -
  let ?step = "proto_step (owner cfgs) (length cfgs) (env_key2shard env)"
  have ok: "system_ok env cfgs" "configs_ok cfgs" "clone_ok (env_clone env)" using f by (auto simp: follows_def system_ok_def env_ok_def)
  have past: "\<exists>v \<in> p_past P g. state_view cfgs s v" if "s \<in> sys_past S g" for g s using f that by (auto simp: follows_def)
  have grow: ?thesis
    if "rtranclp ?step P P'" "grown P P'" "sys_now S' = sys_now S" "sys_past S' = sys_past S" "sys_answers S' = sys_answers S"
      "\<And>g args. (g, args) \<in> sys_commands S' \<Longrightarrow> (g, args) \<notin> sys_commands S \<Longrightarrow> command_view cfgs P' g args"
      "\<And>g c. (g, c) \<in> sys_pulls S' \<Longrightarrow> (g, c) \<notin> sys_pulls S \<Longrightarrow> pull_view cfgs P' g c"
      "\<And>g c. (g, c) \<in> sys_deletes S' \<Longrightarrow> (g, c) \<notin> sys_deletes S \<Longrightarrow> delete_view cfgs P' g c" for P'
    using follows_grown[OF f that(2-8)] that(1) by blast
  from st show ?thesis
  proof cases
    case (configure g kv w attempts h args kv' c)
    then obtain v where v: "v \<in> p_past P g" "state_view cfgs (stateMachine kv) v" using past by blast
    note c = configure_view[OF v(2) ok(2) configure(7,4,5,6)]
    then have "?step P (P\<lparr>p_ready := insert (g, Suc (v_num v)) (p_ready P)\<rparr>)"
      using proto_step.propose[OF configure(2) v(1)] by blast
    then show ?thesis using configure(1,6) c
      by (intro grow[OF r_into_rtranclp]) (auto simp: grown_def command_view_def Kv_types)
  next
    case (migrate g kv w w' calls call)
    then obtain v where v: "v \<in> p_past P g" "state_view cfgs (stateMachine kv) v" using past by blast
    obtain p ids n where call: "call = (p, ids, n)" by (cases call)
    have m: "n = of_nat (v_num v) \<and> v_num v < length cfgs \<and> (\<forall>i \<in> set ids. v_phase v i = Awaiting \<and> owner cfgs (v_num v - 1) i = p)"
      using migrations_view[OF v(2), of w w' Awaiting calls p ids n] migrate call by (simp add: migratingAction_def)
    then have "?step P (P\<lparr>p_wanted := insert (g, v_num v, p, set ids) (p_wanted P)\<rparr>)"
      using proto_step.want[OF migrate(2) v(1)] by blast
    then show ?thesis using migrate(1) m call
      by (intro grow[OF r_into_rtranclp]) (auto simp: grown_def pull_view_def)
  next
    case (pull g p ids num kv args marshalResponse reply response response' anorm ty h)
    then obtain v where v: "v \<in> p_past P p" "state_view cfgs (stateMachine kv) v" using past by blast
    obtain n where n: "n < length cfgs" "num = of_nat n" "(g, n, p, set ids) \<in> p_wanted P"
      using f pull(2) by (fastforce simp: follows_def pull_view_def)
    have "n \<le> v_num v" using PullShards_num[OF v(2) ok(2) n(1) _ pull(7,8)] n(2) pull(6) by simp
    let ?P = "P\<lparr>p_offers := insert (g, n, set ids, v_held v, v_seen v) (p_offers P)\<rparr>"
    let ?args = "(migratingAction_finish (Some response') h)\<lparr>KvArgs_Type := ty\<rparr>"
    have "?step P ?P" using proto_step.offer[OF n(3) pull(3) v(1) \<open>n \<le> v_num v\<close>] .
    moreover have "command_view cfgs ?P g ?args"
    proof -
      have "pulled_view response' n (set ids) (v_held v) (v_seen v)"
        using pulledShards_view[OF v(2) ok(3) pull(9)] pull(5,6,10) n(2) pulled_view_norm by blast
      moreover have "KvArgs_Type ?args \<noteq> Kv_RECONFIGURE" "KvArgs_Type ?args \<noteq> Kv_DELETE_SHARDS"
        using pull(11) by (auto simp: Kv_types)
      moreover have "PulledShards ?args = Some response'" "(g, n, set ids, v_held v, v_seen v) \<in> p_offers ?P"
        by (simp_all add: migratingAction_finish_def)
      ultimately show ?thesis using n(1) unfolding command_view_def by blast
    qed
    ultimately show ?thesis using pull(1) by (intro grow[OF r_into_rtranclp]) (auto simp: grown_def)
  next
    case (collect g kv w w' calls call)
    then obtain v where v: "v \<in> p_past P g" "state_view cfgs (stateMachine kv) v" using past by blast
    obtain p ids n where call: "call = (p, ids, n)" by (cases call)
    have m: "n = of_nat (v_num v)" "v_num v < length cfgs" "\<forall>i \<in> set ids. v_phase v i = Taken"
      using migrations_view[OF v(2), of w w' Taken calls p ids n] collect call by (auto simp: gcAction_def)
    let ?P1 = "P\<lparr>p_drops := insert (g, v_num v, set ids) (p_drops P)\<rparr>"
    let ?P2 = "?P1\<lparr>p_drops := insert (p, v_num v, set ids) (p_drops ?P1)\<rparr>"
    have "?step P ?P1" using collect(2) v(1) m(3) by (rule proto_step.give_up)
    moreover have "?step ?P1 ?P2" using collect(2) v(1) m(3) by (intro proto_step.give_up[of g v ?P1]) simp_all
    ultimately have "rtranclp ?step P ?P2" by (meson converse_rtranclp_into_rtranclp r_into_rtranclp)
    then show ?thesis using collect(1) m call
      by (intro grow) (auto simp: grown_def delete_view_def)
  next
    case (delete_remote g p ids num kv args marshal unmarshalAny errText index kv')
    then have "command_view cfgs P p args"
      using f by (fastforce simp: follows_def delete_view_def command_view_def Kv_types)
    then show ?thesis using delete_remote(1) by (intro grow[of P]) (auto simp: grown_def)
  next
    case (delete_local g p ids num h)
    then have "command_view cfgs P g (gcAction_finish (ids, num) h)"
      using f by (fastforce simp: follows_def delete_view_def command_view_def Kv_types gcAction_finish_def)
    then show ?thesis using delete_local(1) by (intro grow[of P]) (auto simp: grown_def)
  next
    case (apply_command g args msg s')
    have "state_view cfgs (sys_now S g) (p_now P g)" using f by (simp add: follows_def)
    moreover have "command_view cfgs P g args" if "proposed S g args"
      using that f command_view_norm unfolding proposed_def follows_def by fast
    then have "command_view cfgs P g args \<or> client_command args" using apply_command(4) by blast
    ultimately obtain P' v' where "rtranclp ?step P P'" "moved g v' P P'" "state_view cfgs s' v'"
      "p_answers P' = p_answers P @ kv_answer env g args (sys_now S g)"
      using kv_apply_follows[OF ok(1) _ apply_command(2,3) _ apply_command(5)] by blast
    then show ?thesis using follows_moved[OF f, of g v' P' s'] apply_command(1) by blast
  qed
qed

lemma start_view:
  assumes "configs_ok cfgs"
  shows "state_view cfgs (initialState\<lparr>Shards := allShards |` D\<rparr>) view0"
proof -
  have "shards_ok (allShards |` D)" by (auto simp: shards_ok_def allShards_def restrict_map_def split: if_splits)
  then show ?thesis using assms
    by (auto simp: state_view_def kv_ok_def initialState_def table_ok_New config_ok_def config_view_def configs_ok_def view0_def
        shard_view_def shardAt_def allShards_def restrict_map_def)
qed

interpretation sharding: forward_simulation "\<lambda>S. (\<exists>D. S = sys_start D) \<and> system_ok env cfgs" "sys_step env cfgs" "\<lambda>P. P = protocol0"
  "proto_step (owner cfgs) (length cfgs) (env_key2shard env)" "follows env cfgs" for env :: "('any, 'e) kv_env" and cfgs
proof
  show "\<exists>a. a = protocol0 \<and> follows env cfgs S a" if "(\<exists>D. S = sys_start D) \<and> system_ok env cfgs" for S
    using that start_view[of cfgs] by (auto simp: follows_def sys_start_def protocol0_def system_ok_def)
  show "\<exists>P'. rtranclp (proto_step (owner cfgs) (length cfgs) (env_key2shard env)) P P' \<and> follows env cfgs S' P'"
    if "follows env cfgs S P" "sys_step env cfgs S S'" for S P S'
    using that by (rule follows_step)
qed

text \<open>Every reachable state of the system follows a reachable state of the protocol, which satisfies its invariant.\<close>

lemma sys_reach_proto:
  assumes "sys_reach env cfgs S"
  obtains P where "follows env cfgs S P" "proto_ok (owner cfgs) (length cfgs) (env_key2shard env) P" "\<forall>i. owner cfgs 0 i = 0"
proof -
  have o: "\<forall>i. owner cfgs 0 i = 0" using assms owner_0 by (auto simp: sys_reach_def system_ok_def)
  obtain D where "system_ok env cfgs" "rtranclp (sys_step env cfgs) (sys_start D) S" using assms by (auto simp: sys_reach_def)
  then obtain P where
    "proto_reach (owner cfgs) (length cfgs) (env_key2shard env) P" "follows env cfgs S P"
    using sharding.reach_simulated[of "sys_start D" env cfgs S] by (auto simp: proto_reach_def)
  with proto_reach_ok[of "owner cfgs" "length cfgs" "env_key2shard env" P] that o show ?thesis by blast
qed

end
