(* ===== verification/Sharding_Properties.thy ===== *)
theory Sharding_Properties
  imports Shard_Refinement KV_Properties
begin

text \<open>
  The properties of the groups of store servers together. In the instances there are two
  configurations: number 0, and number 1, which gives all shards to group 5; group 5 has
  adopted it and executed one Put (\<open>system_run\<close>).
\<close>

section \<open>An instance\<close>

definition config_5 :: PbConfig where
  "config_5 = \<lparr>PbConfig_Num = 1, PbConfig_Shards = replicate NShards 5, PbConfig_Groups = []\<rparr>"

definition two_configs :: "PbConfig list" where
  "two_configs = [\<lparr>PbConfig_Num = 0, PbConfig_Shards = replicate NShards 0, PbConfig_Groups = []\<rparr>, config_5]"

definition put_args :: "nat KvArgs" where
  "put_args = KvArgs_zero\<lparr>KvArgs_Type := Kv_PUT, KvArgs_Key := ''b'', KvArgs_Value := ''2'',
     KvArgs_SessionHeader := Some \<lparr>Header_ID = 9, Header_Seq = 1\<rparr>\<rparr>"

definition conf_args :: "nat KvArgs" where
  "conf_args = KvArgs_zero\<lparr>KvArgs_SessionHeader := Some \<lparr>Header_ID = 8, Header_Seq = 1\<rparr>, KvArgs_Type := Kv_RECONFIGURE,
     KvArgs_Key := [], NextConfig := Some config_5\<rparr>"

definition run_env :: "(nat, unit) kv_env" where
  "run_env = sample_env\<lparr>env_decode := (\<lambda>c. if c = Some [1] then conf_args else put_args)\<rparr>"

definition run_msg :: "byte \<Rightarrow> ApplyMsg" where
  "run_msg b = sample_msg\<lparr>Command := Some [b]\<rparr>"

lemma run_system_ok: "system_ok run_env two_configs"
proof -
  have "env_ok run_env" using sample_env_ok(1) by (simp add: env_ok_def run_env_def)
  moreover have "configs_ok two_configs"
    by (simp add: configs_ok_def two_configs_def config_5_def less_Suc_eq nth_Cons')
  moreover have "keys_ok (env_key2shard run_env)" using sample_keys by (simp add: run_env_def sample_env_def)
  ultimately show ?thesis by (simp add: system_ok_def)
qed

text \<open>What a configuration monitor proposes when all shards are served and its query is answered.\<close>

definition kv_of :: "'any StateMachine \<Rightarrow> 'any ShardKV" where
  "kv_of s = \<lparr>kv_me = 0, kv_rf = Raft_zero, kv_gid = 5, maxraftstate = 0, stateMachine = s, controller = MakeClerk 1 [1 :: nat],
     kv_stopped = False, kv_triggered = []\<rparr>"

lemma configure_answered:
  assumes "state_view cfgs s v" "\<forall>i. v_phase v i = Serving" "\<And>m. iterates m (w m)" "PbConfig_Num c = of_nat (v_num v) + 1"
  shows "\<exists>kv'. configureAction w [Answered (CtlReply_zero\<lparr>CtlReply_Status := Ctl_OK, CtlReply_Config := Some c\<rparr>)] h (kv_of s) =
    Ok (Some (Some (KvArgs_zero\<lparr>KvArgs_SessionHeader := Some h, KvArgs_Type := Kv_RECONFIGURE, KvArgs_Key := [], NextConfig := Some c\<rparr>)), kv')"
proof -
  obtain cur where cur: "CurrentConfig s = Some cur" "Config_Num cur = of_nat (v_num v)" using assms(1) by (rule state_view_config)
  have "Status (shardAt s i) = Ok SERVING" if "i \<in> dom (Shards s)" for i
    by (rule state_view_shardE[OF assms(1), of i]) (use assms(2) that in auto)
  moreover have "\<forall>i \<in> set is. Status (shardAt s i) = Ok SERVING \<Longrightarrow> isMigrating s is = Ok False" for "is"
    by (induction "is") auto
  ultimately have "isMigrating s (w (Shards s)) = Ok False" using assms(3)[of "Shards s"] by (auto simp: iterates_def)
  then show ?thesis using cur assms(4)
    by (simp add: configureAction_def kv_of_def configNum_def clerk_Query_def clerk_call_def MakeClerk_def NewClientSession_def
        NextHeader_def retrying_def defaultConfig_def replyOf_def Let_def split: prod.split)
qed

lemma sys_reach_step: "sys_reach env cfgs S \<Longrightarrow> sys_step env cfgs S S' \<Longrightarrow> sys_reach env cfgs S'"
  by (auto simp: sys_reach_def intro: rtranclp.rtrancl_into_rtrancl)

lemma sys_reach_start: "system_ok env cfgs \<Longrightarrow> sys_reach env cfgs (sys_start D)"
  by (auto simp: sys_reach_def)

lemma system_run:
  "\<exists>S :: nat kv_system. sys_reach run_env two_configs S \<and> served (\<lambda>_. 3) 5 (sys_now S 5) ''b'' \<and>
     sys_answers S = [(\<lparr>Header_ID = 9, Header_Seq = 1\<rparr>, OpPut ''b'' ''2'', statusReply Kv_OK)]"
proof -
  let ?h = "\<lparr>Header_ID = 8, Header_Seq = 1\<rparr>" and ?h' = "\<lparr>Header_ID = 9, Header_Seq = 1\<rparr>"
  let ?s0 = "initialState\<lparr>Shards := allShards\<rparr> :: nat StateMachine"
  have cfgs: "configs_ok two_configs" using run_system_ok by (simp add: system_ok_def)
  have v0: "state_view two_configs ?s0 view0" using start_view[OF cfgs, of UNIV] by (simp add: restrict_map_def)
  let ?S0 = "sys_start (\<lambda>_. UNIV) :: nat kv_system"
  have start: "sys_now ?S0 g = ?s0" "sys_past ?S0 g = {?s0}" "sys_answers ?S0 = []" for g
    by (simp_all add: sys_start_def restrict_map_def)
  define S1 :: "nat kv_system" where "S1 = ?S0\<lparr>sys_commands := insert (5, conf_args) (sys_commands ?S0)\<rparr>"
  have it: "iterates m (sorted_list_of_set (dom m))" for m :: "int64 \<rightharpoonup> Shard option" by (simp add: iterates_def)
  obtain kv' where "configureAction (\<lambda>m. sorted_list_of_set (dom m))
      [Answered (CtlReply_zero\<lparr>CtlReply_Status := Ctl_OK, CtlReply_Config := Some config_5\<rparr>)] ?h (kv_of ?s0) = Ok (Some (Some conf_args), kv')"
    using configure_answered[OF v0 _ it, of config_5 ?h] by (auto simp: view0_def config_5_def conf_args_def)
  moreover have "config_5 \<in> set two_configs" by (simp add: two_configs_def)
  ultimately have "sys_step run_env two_configs ?S0 S1" unfolding S1_def
    by (intro sys_step.configure[OF _ _ it]) (simp_all add: kv_of_def start conf_args_def)
  then have r1: "sys_reach run_env two_configs S1" using sys_reach_step sys_reach_start[OF run_system_ok] by blast
  obtain cfg where cfg: "NewConfig config_5 = Ok cfg" using NewConfig_total[of config_5] by (auto simp: config_5_def)
  let ?s1 = "?s0\<lparr>LastConfig := CurrentConfig ?s0, CurrentConfig := Some cfg\<rparr>"
  have "applyReconfigure 5 (Some config_5) ?s0 = Ok (statusReply Kv_OK, ?s1)"
    using cfg by (simp add: applyReconfigure_def initialState_def configNum_def updateShardsStatus_def config_5_def Let_def)
  then have c1: "kv_command run_env 5 conf_args ?s0 = Ok (statusReply Kv_OK, ?s1)"
    by (simp add: kv_command_def conf_args_def Kv_types)
  have "env_decode run_env (Command (run_msg 1)) = conf_args" "KvArgs_SessionHeader conf_args = Some ?h"
    by (simp_all add: run_env_def run_msg_def conf_args_def)
  from kv_apply_runs[OF _ this _ c1] obtain sm1 where
    a1: "kv_apply run_env 5 (run_msg 1) ?s0 = Ok (?s1\<lparr>kv_SessionMap := sm1, AppliedIndex := CommandIndex (run_msg 1)\<rparr>)"
      "table_ok sm1" "table_processed sm1 = [8 \<mapsto> 1]"
    using v0 by (auto simp: state_view_def initialState_def table_ok_New view0_def)
  define s2 where "s2 = ?s1\<lparr>kv_SessionMap := sm1, AppliedIndex := CommandIndex (run_msg 1)\<rparr>"
  have "state_view two_configs ?s1 (reconfigured (owner two_configs) 5 view0)"
    using applyReconfigure_view[OF v0 cfgs, of 1 5] \<open>applyReconfigure 5 (Some config_5) ?s0 = _\<close>
    by (auto simp: two_configs_def view0_def)
  from state_view_sessions(1)[OF this a1(2)] have v2: "state_view two_configs s2
      ((reconfigured (owner two_configs) 5 view0)\<lparr>v_seen := [8 \<mapsto> 1]\<rparr>)" using a1(3) by (simp add: s2_def)
  let ?v2 = "(reconfigured (owner two_configs) 5 view0)\<lparr>v_seen := [8 \<mapsto> 1]\<rparr>"
  define S2 where "S2 = S1\<lparr>sys_now := (sys_now S1)(5 := s2), sys_past := (sys_past S1)(5 := insert s2 (sys_past S1 5)),
      sys_answers := sys_answers S1 @ kv_answer run_env 5 conf_args (sys_now S1 5)\<rparr>"
  have "sys_step run_env two_configs S1 S2" unfolding S2_def
    by (rule sys_step.apply_command[of 5 conf_args run_env "run_msg 1"])
      (use a1(1) in \<open>auto simp: run_env_def run_msg_def S1_def start s2_def proposed_def\<close>)
  then have r2: "sys_reach run_env two_configs S2" by (rule sys_reach_step[OF r1])
  have valid: "valid_shard 3" by (simp add: valid_shard_def NShards_def)
  have keys: "keys_ok (env_key2shard run_env)" "env_key2shard run_env = (\<lambda>_. 3)" using sample_keys by (simp_all add: run_env_def sample_env_def)
  have serve: "serves (owner two_configs) 5 ?v2 3"
    using valid by (simp add: serves_def view0_def nextPhase_def owner_def two_configs_def config_5_def NShards_def)
    let ?sh = "\<lambda>m. Shard (Some \<lparr>Shard_ID = 3, Shard_KV = Some m, Shard_Status = SERVING\<rparr>)"
  have sh: "shardAt s2 3 = Some (?sh Map.empty)" using valid by (simp add: s2_def shardAt_def allShards_def)
  have sv: "served (\<lambda>_. 3) 5 s2 ''b''" using served_iff[OF v2 keys(1), of 5 "''b''"] serve keys(2) sh by simp
  have ok2: "kv_ok s2" using v2 by (simp add: state_view_def)
  let ?s3 = "putShard 3 (?sh [''b'' \<mapsto> ''2'']) s2"
  have c2: "kv_command run_env 5 put_args s2 = Ok (statusReply Kv_OK, ?s3)"
    using checkShard_spec[OF ok2 keys(1), of 5 "''b''"] sv sh keys(2)
    by (simp add: kv_command_def put_args_def Kv_types applyPut_def Let_def Shard_Put_def shardOf_def)
  have d2: "env_decode run_env (Command (run_msg 2)) = put_args" "KvArgs_SessionHeader put_args = Some ?h'"
    by (simp_all add: run_env_def run_msg_def put_args_def)
  have t2: "kv_SessionMap s2 = sm1" by (simp add: s2_def)
  have dup: "IsDuplicate (Some ?h') (kv_SessionMap s2) = Ok False" using a1(2,3) by (simp add: t2 IsDuplicate_spec)
  from kv_apply_runs[OF ok2 d2 _ c2] obtain sm2 where
    a2: "kv_apply run_env 5 (run_msg 2) s2 = Ok (?s3\<lparr>kv_SessionMap := sm2, AppliedIndex := CommandIndex (run_msg 2)\<rparr>)" "table_ok sm2"
    using a1(3) by (auto simp: t2)
  define s4 where "s4 = ?s3\<lparr>kv_SessionMap := sm2, AppliedIndex := CommandIndex (run_msg 2)\<rparr>"
  define S3 where "S3 = S2\<lparr>sys_now := (sys_now S2)(5 := s4), sys_past := (sys_past S2)(5 := insert s4 (sys_past S2 5)),
      sys_answers := sys_answers S2 @ kv_answer run_env 5 put_args (sys_now S2 5)\<rparr>"
  have now: "sys_now S2 5 = s2" by (simp add: S2_def)
  have "sys_step run_env two_configs S2 S3" unfolding S3_def
    by (rule sys_step.apply_command[of 5 put_args run_env "run_msg 2"])
      (use a2(1) d2(1) in \<open>simp_all add: now s4_def client_command_def put_args_def Kv_types\<close>)
  then have r3: "sys_reach run_env two_configs S3" by (rule sys_reach_step[OF r2])
  have "sys_answers S3 = [(?h', OpPut ''b'' ''2'', statusReply Kv_OK)]"
  proof -
    have "kv_answer run_env 5 conf_args ?s0 = []" by (simp add: kv_answer_def op_of_def conf_args_def Kv_types)
    moreover have "kv_answer run_env 5 put_args s2 = [(?h', OpPut ''b'' ''2'', statusReply Kv_OK)]"
      using c2 dup d2(2) by (simp add: kv_answer_def op_of_def put_args_def Kv_types statusReply_def Kv_status)
    ultimately show ?thesis by (simp add: S3_def now) (simp add: S2_def S1_def start)
  qed
  moreover have "served (\<lambda>_. 3) 5 (sys_now S3 5) ''b''"
    using sv sh by (simp add: S3_def s4_def served_def shardAt_put)
  ultimately show ?thesis using r3 by blast
qed

section \<open>The code's own start\<close>

text \<open>
  In the runs that start as \<^verbatim>\<open>StartServer\<close> leaves the groups, no group ever has a shard, and no Get, Put or Append is
  answered other than WRONG_GROUP.
\<close>

lemma no_shardAt: "Shards s = Map.empty \<Longrightarrow> shardAt s i = None"
  by (simp add: shardAt_def)

lemma no_shards_command:
  assumes "Shards s = Map.empty" "kv_command env g args s = Ok (reply, s')"
  shows "Shards s' = Map.empty \<and> (op_of args \<noteq> None \<longrightarrow> reply = statusReply ERR_WRONG_GROUP)"
proof -
  have check: "checkShard k2s g key s = Ok False" for k2s key by (simp add: checkShard_def Let_def assms(1))
  have loop: "Shards t = Map.empty" if "foldM_go f s xs = Ok t" "\<And>t x t'. Shards t = Map.empty \<Longrightarrow> f t x = Ok t' \<Longrightarrow> Shards t' = Map.empty"
    for f and xs :: "'c list" and t
    by (rule foldM_go_inv[where I = "\<lambda>t. Shards t = Map.empty", OF assms(1) _ that(1)]) (rule that(2))
  have ins: "Shards t' = Map.empty" if "Shards t = Map.empty" "insertOne (env_clone env) t p = Ok t'" for t t' p
    using that no_shardAt[OF that(1)] by (auto simp: insertOne_def)
  have del: "Shards t' = Map.empty" if "Shards t = Map.empty" "deleteOne (env_clone env) t i = Ok t'" for t t' i
    using that no_shardAt[OF that(1)] by (auto simp: deleteOne_def)
  have st: "Shards t' = Map.empty" if "Shards t = Map.empty" "statusOne c g t x = Ok t'" for t t' c x
    using that no_shardAt[OF that(1)] by (auto simp: statusOne_def SetStatus_def shardOf_def split: prod.splits if_splits)
  show ?thesis
  proof (cases "op_of args")
    case (Some operation)
    then show ?thesis using assms check
      by (auto simp: op_of_def kv_command_def Kv_types applyGet_def applyPut_def applyAppend_def Let_def split: if_splits)
  next
    case None
    consider "KvArgs_Type args = Kv_PULL_SHARDS" | "KvArgs_Type args = Kv_DELETE_SHARDS" | "KvArgs_Type args = Kv_RECONFIGURE"
      | "KvArgs_Type args \<notin> {Kv_PULL_SHARDS, Kv_DELETE_SHARDS, Kv_RECONFIGURE}" by auto
    then have "Shards s' = Map.empty"
    proof cases
      case 1
      then show ?thesis using assms loop[OF _ ins]
        by (auto simp: kv_command_def Kv_types applyInsertShards_def split: if_splits)
    next
      case 2
      then show ?thesis using assms loop[OF _ del]
        by (auto simp: kv_command_def Kv_types applyDeleteShards_def split: if_splits)
    next
      case 3
      then show ?thesis using assms loop[OF _ st]
        by (auto simp: kv_command_def Kv_types applyReconfigure_def updateShardsStatus_def Let_def split: if_splits)
    next
      case 4
      then show ?thesis using assms None by (auto simp: kv_command_def op_of_def applyEmpty_def split: if_splits)
    qed
    then show ?thesis using None by simp
  qed
qed

lemma no_shards_apply:
  assumes "Shards s = Map.empty" "kv_apply env g msg s = Ok s'"
  shows "Shards s' = Map.empty" "kv_answer env g (env_decode env (Command msg)) s = []"
proof -
  let ?args = "env_decode env (Command msg)"
  have keep: "Shards s1 = Map.empty" if "kv_command env g args s = Ok (reply, s1)" for args reply s1
    using no_shards_command[OF assms(1) that] by simp
  show "Shards s' = Map.empty"
    using assms by (auto simp: kv_apply_def Let_def split: if_splits dest: keep)
  show "kv_answer env g ?args s = []"
    using no_shards_command[OF assms(1), of env g ?args]
    by (auto simp: kv_answer_def statusReply_def split: option.splits go.splits bool.splits)
qed

lemma code_runs_answer_nothing:
  assumes "rtranclp (sys_step env cfgs) (sys_start (\<lambda>_. {})) S"
  shows "(\<forall>g. Shards (sys_now S g) = Map.empty) \<and> sys_answers S = []"
  using assms
proof (induction rule: rtranclp_induct)
  case base
  then show ?case by (simp add: sys_start_def)
next
  case (step S S')
  from step.hyps(2) step.IH show ?case
    by cases (auto dest: no_shards_apply)
qed

section \<open>One store\<close>

text \<open>
  C4. The groups together are one store. Whatever reconfigurations, migrations, retries and slow
  replicas there are, in every order, every answer other than WRONG_GROUP the groups have given to a Get, Put or Append is
  the one a single map gives that executes the same operations one after the other; and a group that
  serves a key has for it what this map has. The runs are those of theory Shard_System: groups start with any of the
  shards, empty, which includes the code's own start with none, where nothing is ever answered
  (\<open>code_runs_answer_nothing\<close>); pulled shards are proposed under the type the code uses and \<^verbatim>\<open>apply\<close> ignores, or
  under the one \<^verbatim>\<open>apply\<close> inserts; a server that panics takes no step.
\<close>

theorem groups_are_one_store:
  assumes "sys_reach env cfgs S"
  shows "legal (sys_answers S) \<and>
    (\<forall>g key. g \<noteq> 0 \<and> served (env_key2shard env) g (sys_now S g) key \<longrightarrow>
       lookup (env_key2shard env) (sys_now S g) key = contents (sys_answers S) key)"
proof -
  let ?k2s = "env_key2shard env"
  obtain P where P: "follows env cfgs S P" "proto_ok (owner cfgs) (length cfgs) ?k2s P" "\<forall>i. owner cfgs 0 i = 0"
    using assms by (rule sys_reach_proto)
  have parts: "views_ok (owner cfgs) P" "chain_ok (owner cfgs) P" "held_ok (owner cfgs) ?k2s P" "answers_ok (owner cfgs) ?k2s P"
    using P(2) by (auto simp: proto_ok_def)
  have k: "keys_ok ?k2s" using assms by (simp add: sys_reach_def system_ok_def)
  have "lookup ?k2s (sys_now S g) key = contents (sys_answers S) key" if g: "g \<noteq> 0" "served ?k2s g (sys_now S g) key" for g key
  proof -
    have v: "state_view cfgs (sys_now S g) (p_now P g)" using P(1) by (simp add: follows_def)
    have "serves (owner cfgs) g (p_now P g) (?k2s key)" by (rule served_serves[OF v k g(2)])
    note l = serves_latest[OF parts(2) P(3)[rule_format] g(1) this]
    have "v_held (p_now P g) (?k2s key) key = contents (p_answers P) key"
      using held_now[OF parts(3,1) l(1)] l(2) by (simp add: agrees_def)
    moreover have "lookup ?k2s (sys_now S g) key = v_held (p_now P g) (?k2s key) key"
      by (rule state_view_shardE[OF v, of "?k2s key"])
        (use g(2) in \<open>simp_all add: lookup_def served_def\<close>)
    ultimately show ?thesis using P(1) by (simp add: follows_def)
  qed
  then show ?thesis using parts(4) P(1) by (auto simp: answers_ok_def follows_def)
qed

theorem groups_are_one_store_witness:
  "\<exists>S :: nat kv_system. sys_reach run_env two_configs S \<and> lookup (\<lambda>_. 3) (sys_now S 5) ''b'' = Some ''2''"
proof -
  obtain S :: "nat kv_system" where S: "sys_reach run_env two_configs S" "served (\<lambda>_. 3) 5 (sys_now S 5) ''b''"
    "sys_answers S = [(\<lparr>Header_ID = 9, Header_Seq = 1\<rparr>, OpPut ''b'' ''2'', statusReply Kv_OK)]" using system_run by blast
  have "env_key2shard run_env = (\<lambda>_. 3)" by (simp add: run_env_def sample_env_def)
  then have "lookup (\<lambda>_. 3) (sys_now S 5) ''b'' = contents (sys_answers S) ''b''"
    using groups_are_one_store[OF S(1)] S(2) by auto
  then show ?thesis using S(1,3) by (auto simp: contents_def)
qed

text \<open>
  C5. No request is executed twice on a shard, wherever the shard is: the requests of one client that
  were executed on the keys of one shard have strictly increasing numbers, across all groups that
  had the shard and all handovers between them. The runs are those of C4: any start with empty shards, the code's own
  with none among them, and pulled shards proposed as the code does or under the type \<^verbatim>\<open>apply\<close> inserts.
\<close>

theorem once_across_groups:
  assumes "sys_reach env cfgs S"
  shows "once_each (env_key2shard env) (sys_answers S)"
proof -
  obtain P where "follows env cfgs S P" "proto_ok (owner cfgs) (length cfgs) (env_key2shard env) P"
    using assms by (rule sys_reach_proto)
  then show ?thesis by (simp add: follows_def proto_ok_def answers_ok_def)
qed

theorem once_across_groups_witness:
  "\<exists>S :: nat kv_system. sys_reach run_env two_configs S \<and> length (sys_answers S) = 1 \<and> once_each (\<lambda>_. 3) (sys_answers S)"
proof -
  obtain S :: "nat kv_system" where S: "sys_reach run_env two_configs S" "length (sys_answers S) = 1" using system_run by fastforce
  have "env_key2shard run_env = (\<lambda>_. 3)" by (simp add: run_env_def sample_env_def)
  then show ?thesis using once_across_groups[OF S(1)] S by auto
qed

text \<open>
  C9. At no time do two groups serve the same shard: two groups whose states accept operations on
  keys of one shard are the same group. The runs are those of C4: any start with empty shards (even one that gives
  a shard to several groups), the code's own with none among them, and pulled shards proposed as the code does or
  under the type \<^verbatim>\<open>apply\<close> inserts.
\<close>

theorem one_group_serves:
  assumes "sys_reach env cfgs S" "g \<noteq> 0" "h \<noteq> 0" "env_key2shard env key = env_key2shard env key'"
    "checkShard (env_key2shard env) g key (sys_now S g) = Ok True"
    "checkShard (env_key2shard env) h key' (sys_now S h) = Ok True"
  shows "g = h"
proof -
  obtain P where P: "follows env cfgs S P" "proto_ok (owner cfgs) (length cfgs) (env_key2shard env) P" "\<forall>i. owner cfgs 0 i = 0"
    using assms(1) by (rule sys_reach_proto)
  have k: "keys_ok (env_key2shard env)" using assms(1) by (simp add: sys_reach_def system_ok_def)
  have v: "state_view cfgs (sys_now S g) (p_now P g)" for g using P(1) by (simp add: follows_def)
  have s: "serves (owner cfgs) g (p_now P g) (env_key2shard env key)"
    if "checkShard (env_key2shard env) g key (sys_now S g) = Ok True" for g key
  proof -
    have "kv_ok (sys_now S g)" using v by (simp add: state_view_def)
    from checkShard_spec[OF this k, of g key] that served_serves[OF v k, of g g key] show ?thesis by simp
  qed
  show ?thesis using one_server[OF P(2,3) assms(2,3) s[OF assms(5)]] s[OF assms(6)] assms(4) by metis
qed

theorem one_group_serves_witness:
  "\<exists>S :: nat kv_system. sys_reach run_env two_configs S \<and> checkShard (\<lambda>_. 3) 5 ''b'' (sys_now S 5) = Ok True \<and>
    checkShard (\<lambda>_. 3) 6 ''b'' (sys_now S 6) \<noteq> Ok True"
proof -
  obtain S :: "nat kv_system" where S: "sys_reach run_env two_configs S" "served (\<lambda>_. 3) 5 (sys_now S 5) ''b''" using system_run by blast
  have k: "env_key2shard run_env = (\<lambda>_. 3)" by (simp add: run_env_def sample_env_def)
  obtain P where "follows run_env two_configs S P" using S(1) by (rule sys_reach_proto)
  then have "kv_ok (sys_now S 5)" by (simp add: follows_def state_view_def)
  then have "checkShard (\<lambda>_. 3) 5 ''b'' (sys_now S 5) = Ok True" using checkShard_spec[OF _ sample_keys] S(2) by metis
  then show ?thesis using one_group_serves[OF S(1), of 5 6 "''b''" "''b''"] k S(1) by auto
qed

end
