(* ===== verification/Service_Properties.thy ===== *)
theory Service_Properties
  imports "HOL-Library.List_Lexorder" "HOL-Library.Char_ord" Service_Codec_Maps KV_Properties Raft_Properties Codec_Properties
begin

text \<open>
  The properties of the codecs of the services, and of what goes over the wire: commands on their way
  through the log, and shards on their way to another group. In the instances \<^verbatim>\<open>types.Any\<close> is a string of bytes
  (\<open>sample_any\<close>).
\<close>

section \<open>An instance\<close>

definition sample_any :: "byte list any_codec" where
  "sample_any = \<lparr>any_Size = (\<lambda>p. length (the p)),
     any_MarshalToSizedBuffer = (\<lambda>p d. Ok (take (length d - length (the p)) d @ the p, int (length (the p)))),
     any_Unmarshal = (\<lambda>m bs. (bs, None)), any_zero = []\<rparr>"

lemma sample_any_ok: "any_ok sample_any (\<lambda>b. b) (\<lambda>b. b)"
  by (simp add: any_ok_def sample_any_def) (unfold_locales; simp add: fills_def)

definition visits_keys :: "((string \<rightharpoonup> string) \<Rightarrow> string list) \<Rightarrow> bool" where
  "visits_keys v \<longleftrightarrow> (\<forall>m. finite (dom m) \<longrightarrow> iterates m (v m))"

lemma sample_visits_keys: "visits_keys (\<lambda>m. sorted_list_of_set (dom m))"
  by (simp add: visits_keys_def iterates_def)

section \<open>Commands\<close>

text \<open>
  C13. Every message of the services comes back from the wire. A command of a store server can be marshalled when its
  pointers in repeated fields are set and its maps are visited in an order of their keys; the bytes are as many as \<^verbatim>\<open>Size\<close> says, and
  decoding them gives the command back, with empty maps of shards nil and responses of sessions as \<^verbatim>\<open>types.Any\<close> leaves
  them. Replies of a server come back with empty data nil, commands and replies of the controller as they were.
\<close>

theorem service_round_trips:
  assumes "any_ok A aenc anorm" "KvArgs_ok v w args" "CtlArgs_ok cargs" "CtlReply_ok creply"
  shows "(\<exists>bs. KvArgs_Marshal A v w (Some args) = Ok bs \<and> length bs = KvArgs_Size A v w (Some args) \<and>
      (length bs < 2 ^ 63 \<longrightarrow> KvArgs_Unmarshal A KvArgs_zero bs = (KvArgs_norm anorm args, None))) \<and>
    (\<exists>bs. KvReply_Marshal (Some reply) = Ok bs \<and> length bs = KvReply_Size (Some reply) \<and>
      (length bs < 2 ^ 63 \<longrightarrow> KvReply_Unmarshal KvReply_zero bs = (reply\<lparr>KvReply_Data := normBytes (KvReply_Data reply)\<rparr>, None))) \<and>
    (\<exists>bs. CtlArgs_Marshal (Some cargs) = Ok bs \<and> length bs = CtlArgs_Size (Some cargs) \<and>
      (length bs < 2 ^ 63 \<longrightarrow> CtlArgs_Unmarshal CtlArgs_zero bs = (cargs, None))) \<and>
    (\<exists>bs. CtlReply_Marshal (Some creply) = Ok bs \<and> length bs = CtlReply_Size (Some creply) \<and>
      (length bs < 2 ^ 63 \<longrightarrow> CtlReply_Unmarshal CtlReply_zero bs = (creply, None)))"
proof -
  note codec = KvArgs_codec[OF assms(1), of v w]
  have "\<exists>bs. KvArgs_Marshal A v w (Some args) = Ok bs \<and> length bs = KvArgs_Size A v w (Some args) \<and>
      (length bs < 2 ^ 63 \<longrightarrow> KvArgs_Unmarshal A KvArgs_zero bs = (KvArgs_norm anorm args, None))"
    using pb_codec.marshal[OF codec assms(2)] pb_codec.sz_enc[OF codec assms(2)] pb_codec.unmarshal_enc[OF codec assms(2)]
    by (auto simp: KvArgs_Marshal_def KvArgs_Unmarshal_def)
  moreover have "\<exists>bs. KvReply_Marshal (Some reply) = Ok bs \<and> length bs = KvReply_Size (Some reply) \<and>
      (length bs < 2 ^ 63 \<longrightarrow> KvReply_Unmarshal KvReply_zero bs = (reply\<lparr>KvReply_Data := normBytes (KvReply_Data reply)\<rparr>, None))"
    using KvReply_pb.marshal[of reply] KvReply_pb.sz_enc[of reply] KvReply_pb.unmarshal_enc[of reply]
    by (auto simp: KvReply_Marshal_def KvReply_Unmarshal_def KvReply_norm_def)
  moreover have "\<exists>bs. CtlArgs_Marshal (Some cargs) = Ok bs \<and> length bs = CtlArgs_Size (Some cargs) \<and>
      (length bs < 2 ^ 63 \<longrightarrow> CtlArgs_Unmarshal CtlArgs_zero bs = (cargs, None))"
    using CtlArgs_pb.marshal[OF assms(3)] CtlArgs_pb.sz_enc[OF assms(3)] CtlArgs_pb.unmarshal_enc[OF assms(3)]
    by (auto simp: CtlArgs_Marshal_def CtlArgs_Unmarshal_def)
  moreover have "\<exists>bs. CtlReply_Marshal (Some creply) = Ok bs \<and> length bs = CtlReply_Size (Some creply) \<and>
      (length bs < 2 ^ 63 \<longrightarrow> CtlReply_Unmarshal CtlReply_zero bs = (creply, None))"
    using CtlReply_pb.marshal[OF assms(4)] CtlReply_pb.sz_enc[OF assms(4)] CtlReply_pb.unmarshal_enc[OF assms(4)]
    by (auto simp: CtlReply_Marshal_def CtlReply_Unmarshal_def)
  ultimately show ?thesis by blast
qed

abbreviation key_order :: "(string \<rightharpoonup> string) \<Rightarrow> string list" where
  "key_order m \<equiv> sorted_list_of_set (dom m)"

abbreviation client_order :: "(int64 \<rightharpoonup> byte list PbServerSession option) \<Rightarrow> int64 list" where
  "client_order m \<equiv> sorted_list_of_set (dom m)"

definition sample_response :: "byte list PullShardsResponse" where
  "sample_response = \<lparr>Pulled_Shards = [Some \<lparr>Shard_ID = 3, Shard_KV = Some [''a'' \<mapsto> ''1''], Shard_Status = BE_PULLING\<rparr>],
     ServerSessions = [7 \<mapsto> Some \<lparr>Session_ID = 7, Session_ProcessedSeq = 2, LastResponse = Some [8, 1]\<rparr>], Pulled_ConfigNum = 4\<rparr>"

definition sample_command :: "byte list KvArgs" where
  "sample_command = KvArgs_zero\<lparr>KvArgs_Type := Kv_PULL_SHARDS, KvArgs_SessionHeader := Some \<lparr>Header_ID = 9, Header_Seq = 1\<rparr>,
     ShardIDs := [3, 8], PulledShards := Some sample_response\<rparr>"

lemma sample_command_ok:
  "PullShardsResponse_ok key_order client_order sample_response" "KvArgs_ok key_order client_order sample_command"
  by (simp_all add: KvArgs_ok_def PullShardsResponse_ok_def PbShard_ok_def iterates_def sample_command_def sample_response_def
      KvArgs_zero_def)

lemma small_sov: "v < 128 \<Longrightarrow> sov v = 1"
  by (simp add: sov_length varint_word[of v] not_le[symmetric])

lemma sample_command_size: "KvArgs_Size sample_any key_order client_order (Some sample_command) < 2 ^ 63"
  by (simp add: KvArgs_Size_def sample_command_def KvArgs_zero_def SessionHeader_Size_def PullShardsResponse_Size_def
      sample_response_def PbShard_Size_def PbServerSession_Size_def sample_any_def Kv_types BE_PULLING_def Let_def small_sov)

lemma service_round_trips_witness:
  "\<exists>bs. KvArgs_Marshal sample_any key_order client_order (Some sample_command) = Ok bs \<and>
     KvArgs_Unmarshal sample_any KvArgs_zero bs = (sample_command, None)"
proof -
  have ok: "CtlArgs_ok CtlArgs_zero" "CtlReply_ok CtlReply_zero"
    by (simp_all add: CtlArgs_ok_def CtlReply_ok_def CtlArgs_zero_def CtlReply_zero_def)
  have norm: "KvArgs_norm (\<lambda>b. b) sample_command = sample_command"
    by (simp add: KvArgs_norm_def PullShardsResponse_norm_def PbShard_norm_def PbServerSession_norm_def sample_command_def
        sample_response_def KvArgs_zero_def fun_eq_iff)
  show ?thesis
    using service_round_trips[OF sample_any_ok sample_command_ok(2) ok, of KvReply_zero] sample_command_size norm by auto
qed

text \<open>
  C31. The decoders of the services and of the Raft peer return on every input: on any bytes shorter than \<open>2 ^ 63\<close> each
  iteration of the loops over fields, over packed numbers and over map entries advances (with the wrapped length
  arithmetic of the code), so the loops end, and any error is one of the errors of the source.
\<close>

theorem decoding_ends:
  assumes "any_ok A aenc anorm" "length bs < 2 ^ 63"
  shows "snd (KvArgs_Unmarshal A a bs) \<noteq> Some ErrNoProgress \<and> snd (KvReply_Unmarshal r bs) \<noteq> Some ErrNoProgress \<and>
    snd (PullShardsResponse_Unmarshal A p bs) \<noteq> Some ErrNoProgress \<and>
    snd (CtlArgs_Unmarshal ca bs) \<noteq> Some ErrNoProgress \<and> snd (CtlReply_Unmarshal cr bs) \<noteq> Some ErrNoProgress \<and>
    snd (RaftState_Unmarshal s bs) \<noteq> Some ErrNoProgress \<and> snd (AppendEntriesArgs_Unmarshal e bs) \<noteq> Some ErrNoProgress \<and>
    snd (InstallSnapshotArgs_Unmarshal i bs) \<noteq> Some ErrNoProgress \<and> snd (RequestVoteArgs_Unmarshal v bs) \<noteq> Some ErrNoProgress"
  unfolding KvArgs_Unmarshal_def KvReply_Unmarshal_def PullShardsResponse_Unmarshal_def CtlArgs_Unmarshal_def CtlReply_Unmarshal_def
    RaftState_Unmarshal_def AppendEntriesArgs_Unmarshal_def InstallSnapshotArgs_Unmarshal_def RequestVoteArgs_Unmarshal_def
  by (intro conjI pb_codec.total[OF KvArgs_codec[OF assms(1), where v = "\<lambda>_. []" and w = "\<lambda>_. []"] assms(2)] KvReply_pb.total[OF assms(2)]
      pb_codec.total[OF PullShardsResponse_codec[OF assms(1), where v = "\<lambda>_. []" and w = "\<lambda>_. []"] assms(2)]
      CtlArgs_pb.total[OF assms(2)] CtlReply_pb.total[OF assms(2)] RaftState_pb.total[OF assms(2)]
      AppendEntriesArgs_pb.total[OF assms(2)] InstallSnapshotArgs_pb.total[OF assms(2)] RequestVoteArgs_pb.total[OF assms(2)])

lemma decoding_ends_witness: "snd (KvArgs_Unmarshal sample_any KvArgs_zero [0x6a, 0xff, 0xff]) \<noteq> Some ErrNoProgress"
  using decoding_ends[OF sample_any_ok, of "[0x6a, 0xff, 0xff]" KvArgs_zero] by simp

section \<open>Shards on the wire\<close>

lemma norm_clone:
  assumes "clone_ok cp"
  shows "clone_ok (\<lambda>p. map_option PbShard_norm (cp p))"
  unfolding clone_ok_def
proof (intro conjI allI)
  show "map_option PbShard_norm (cp None) = None" using assms by (simp add: clone_ok_def)
  fix pb
  obtain pb' where pb': "cp (Some pb) = Some pb'" "Shard_ID pb' = Shard_ID pb" "Shard_Status pb' = Shard_Status pb"
    "readKV (Shard_KV pb') = readKV (Shard_KV pb)" "Shard_KV pb = None \<longrightarrow> Shard_KV pb' = None"
    using assms unfolding clone_ok_def by blast
  then have "Shard_KV pb = None \<longrightarrow> Shard_KV (PbShard_norm pb') = None" by (simp add: PbShard_norm_def readKV_None)
  with pb' show "\<exists>pb'. map_option PbShard_norm (cp (Some pb)) = Some pb' \<and> Shard_ID pb' = Shard_ID pb \<and>
      Shard_Status pb' = Shard_Status pb \<and> readKV (Shard_KV pb') = readKV (Shard_KV pb) \<and> (Shard_KV pb = None \<longrightarrow> Shard_KV pb' = None)"
    by simp
qed

lemma response_round_trip:
  assumes "any_ok A aenc anorm" "PullShardsResponse_ok v w resp"
  shows "\<exists>bs. PullShardsResponse_Marshal A v w (Some resp) = Ok bs \<and>
    (length bs < 2 ^ 63 \<longrightarrow> PullShardsResponse_Unmarshal A PullShardsResponse_zero bs = (PullShardsResponse_norm anorm resp, None))"
proof -
  note codec = PullShardsResponse_codec[OF assms(1), of v w]
  show ?thesis
    using pb_codec.marshal[OF codec assms(2)] pb_codec.unmarshal_enc[OF codec assms(2)]
    by (auto simp: PullShardsResponse_Marshal_def PullShardsResponse_Unmarshal_def)
qed

text \<open>
  C10. Migration over the wire: what a group that holds the shards answers to \<^verbatim>\<open>PullShards\<close> can be marshalled, and
  the decoded bytes, applied by a group that awaits the shards, make it hold
  the same contents there, leave its other shards alone, and cover every request that either group has processed.
\<close>

theorem migration_over_the_wire:
  assumes wire: "any_ok A aenc anorm" "visits_keys v" "\<And>m. iterates m (w m)"
    and a: "kv_ok a" "\<forall>i \<in> set (ShardIDs args). shardAt a i \<noteq> None" "distinct (ShardIDs args)"
      "\<forall>i \<in> set (ShardIDs args). finite (dom (shard_content (the (shardAt a i))))"
    and b: "kv_ok b" "\<forall>i \<in> set (ShardIDs args). Status (shardAt b i) = Ok PULLING"
    and num: "sint (currentNum b) \<le> sint (ConfigNum args)"
    and env: "clone_ok cpa" "clone_ok cpb" "\<And>m. iterates m (u m)"
  shows "\<exists>resp bs. pulledShards cpa args a = Ok resp \<and> PullShardsResponse_Marshal A v w (Some resp) = Ok bs \<and>
    (length bs < 2 ^ 63 \<longrightarrow> (\<exists>resp' b'. PullShardsResponse_Unmarshal A PullShardsResponse_zero bs = (resp', None) \<and>
      applyInsertShards cpb u (Some resp') b = Ok (statusReply Kv_OK, b') \<and> kv_ok b' \<and>
      (\<forall>i \<in> set (ShardIDs args). \<exists>sh. shardAt b' i = Some sh \<and> Status (Some sh) = Ok GC \<and>
         shard_content sh = shard_content (the (shardAt a i))) \<and>
      (\<forall>i. i \<notin> set (ShardIDs args) \<longrightarrow> shardAt b' i = shardAt b i) \<and>
      covers (kv_SessionMap a) (kv_SessionMap b') \<and> covers (kv_SessionMap b) (kv_SessionMap b')))"
proof -
  from pulledShards_spec[OF a(1,2), of cpa] obtain resp where
    r: "pulledShards cpa args a = Ok resp" "Pulled_ConfigNum resp = ConfigNum args" "response_ok resp"
      "Pulled_Shards resp = map (\<lambda>i. cpa (pbShard (the (shardAt a i)))) (ShardIDs args)"
      "\<And>i. map_option (\<lambda>p. Session_ProcessedSeq (the p)) (ServerSessions resp i) = table_processed (kv_SessionMap a) i" by blast
  have shards: "shards_ok (Shards a)" using a(1) by (simp add: kv_ok_def)
  have "\<exists>pb. cpa (pbShard (the (shardAt a i))) = Some pb \<and> PbShard_ok v pb" if i: "i \<in> set (ShardIDs args)" for i
  proof -
    obtain pb0 where pb0: "shardAt a i = Some (Shard (Some pb0))"
      using a(2) i by (rule_tac shardAt_ok[OF shards, of i]) auto
    obtain pb where "cpa (Some pb0) = Some pb" "readKV (Shard_KV pb) = readKV (Shard_KV pb0)"
      using env(1) unfolding clone_ok_def by blast
    moreover have "finite (dom (readKV (Shard_KV pb0)))" using a(4) i pb0 by force
    ultimately show ?thesis using pb0 wire(2) by (simp add: PbShard_ok_def visits_keys_def)
  qed
  then have "PullShardsResponse_ok v w resp" using wire(3) by (force simp: PullShardsResponse_ok_def r(4))
  from response_round_trip[OF wire(1) this] obtain bs where
    bs: "PullShardsResponse_Marshal A v w (Some resp) = Ok bs"
      "length bs < 2 ^ 63 \<Longrightarrow> PullShardsResponse_Unmarshal A PullShardsResponse_zero bs = (PullShardsResponse_norm anorm resp, None)"
    by blast
  let ?r' = "PullShardsResponse_norm anorm resp"
  have "Pulled_Shards ?r' = map (\<lambda>i. map_option PbShard_norm (cpa (pbShard (the (shardAt a i))))) (ShardIDs args)"
    by (simp add: norm_response(2) r(4))
  moreover have "sint (currentNum b) \<le> sint (Pulled_ConfigNum ?r')" using num r(2) by (simp add: norm_response(1))
  moreover have "map_option (\<lambda>p. Session_ProcessedSeq (the p)) (ServerSessions ?r' i) = table_processed (kv_SessionMap a) i" for i
    using norm_response(4)[OF r(3)] r(5) by simp
  ultimately obtain b' where "applyInsertShards cpb u (Some ?r') b = Ok (statusReply Kv_OK, b') \<and> kv_ok b' \<and>
      (\<forall>i \<in> set (ShardIDs args). \<exists>sh. shardAt b' i = Some sh \<and> Status (Some sh) = Ok GC \<and>
         shard_content sh = shard_content (the (shardAt a i))) \<and>
      (\<forall>i. i \<notin> set (ShardIDs args) \<longrightarrow> shardAt b' i = shardAt b i) \<and>
      covers (kv_SessionMap a) (kv_SessionMap b') \<and> covers (kv_SessionMap b) (kv_SessionMap b')"
    using insert_pulled[OF a(1-3) b _ norm_response(3)[OF r(3)] _ _ norm_clone[OF env(1)] env(2,3)] by blast
  then show ?thesis using r(1) bs by blast
qed

definition wire_kv :: "Shard \<Rightarrow> byte list StateMachine" where
  "wire_kv sh = \<lparr>Shards = [3 \<mapsto> Some sh], kv_SessionMap = NewSessionMap, AppliedIndex = 0,
     CurrentConfig = Some sample_config, LastConfig = None\<rparr>"

lemma wire_kv_ok: "kv_ok (wire_kv (sample_shard kv st))"
  by (simp add: kv_ok_def wire_kv_def table_ok_New shards_ok_def config_ok_def sample_config_def sample_shard_def)

lemma wire_shardAt [simp]: "shardAt (wire_kv sh) 3 = Some sh" "currentNum (wire_kv sh) = 4"
  by (simp_all add: shardAt_def currentNum_def wire_kv_def sample_config_def)

lemma migration_over_the_wire_witness:
  "\<exists>resp bs. pulledShards (\<lambda>p. p) (KvArgs_zero\<lparr>ShardIDs := [3], ConfigNum := 4\<rparr>) (wire_kv (sample_shard [''a'' \<mapsto> ''1''] SERVING)) = Ok resp \<and>
     PullShardsResponse_Marshal sample_any key_order client_order (Some resp) = Ok bs \<and>
     (length bs < 2 ^ 63 \<longrightarrow> (\<exists>b' sh. applyInsertShards (\<lambda>p. p) client_order
        (Some (fst (PullShardsResponse_Unmarshal sample_any PullShardsResponse_zero bs)))
        (wire_kv (sample_shard Map.empty PULLING)) = Ok (statusReply Kv_OK, b') \<and>
        shardAt b' 3 = Some sh \<and> shard_content sh = [''a'' \<mapsto> ''1'']))"
proof -
  let ?args = "KvArgs_zero\<lparr>ShardIDs := [3], ConfigNum := 4\<rparr>" and ?a = "wire_kv (sample_shard [''a'' \<mapsto> ''1''] SERVING)"
    and ?b = "wire_kv (sample_shard Map.empty PULLING)"
  have it: "iterates m (client_order m)" for m :: "int64 \<rightharpoonup> byte list PbServerSession option" by (simp add: iterates_def)
  have a: "\<forall>i \<in> set (ShardIDs ?args). shardAt ?a i \<noteq> None" "distinct (ShardIDs ?args)"
    "\<forall>i \<in> set (ShardIDs ?args). finite (dom (shard_content (the (shardAt ?a i))))"
    "\<forall>i \<in> set (ShardIDs ?args). Status (shardAt ?b i) = Ok PULLING" "sint (currentNum ?b) \<le> sint (ConfigNum ?args)"
    by (simp_all add: sample_shard_def)
  from migration_over_the_wire[OF sample_any_ok sample_visits_keys it wire_kv_ok a(1,2,3) wire_kv_ok a(4,5) sample_clone sample_clone it]
  show ?thesis by (force simp: sample_shard_def)
qed

text \<open>
  C35. A shard that arrives empty cannot be written: it is decoded with a nil map, which \<^verbatim>\<open>NewShard\<close> keeps, and
  although the group serves it from then on, the first Put or Append to it panics.
\<close>

theorem empty_shard_cannot_be_written:
  assumes wire: "any_ok A aenc anorm" "PullShardsResponse_ok v w resp"
      "PullShardsResponse_Marshal A v w (Some resp) = Ok bs" "length bs < 2 ^ 63"
    and resp: "Pulled_Shards resp = [Some pb]" "Shard_ID pb = k2s key" "readKV (Shard_KV pb) = Map.empty" "response_ok resp"
    and b: "kv_ok b" "Status (shardAt b (k2s key)) = Ok PULLING" "sint (currentNum b) \<le> sint (Pulled_ConfigNum resp)"
      "Config_Shards (the (CurrentConfig b)) ! nat (sint (k2s key)) = gid"
    and env: "clone_ok cp" "\<And>m. iterates m (u m)" "keys_ok k2s"
  shows "\<exists>resp' b'. PullShardsResponse_Unmarshal A PullShardsResponse_zero bs = (resp', None) \<and>
    applyInsertShards cp u (Some resp') b = Ok (statusReply Kv_OK, b') \<and>
    checkShard k2s gid key b' = Ok True \<and>
    applyPut k2s gid key val b' = Panic NilMapWrite \<and> applyAppend k2s gid key val b' = Panic NilMapWrite"
proof -
  let ?r = "PullShardsResponse_norm anorm resp" and ?i = "k2s key"
  have dec: "PullShardsResponse_Unmarshal A PullShardsResponse_zero bs = (?r, None)"
    using response_round_trip[OF wire(1,2)] wire(3,4) by auto
  have shards: "shards_ok (Shards b)" and t: "table_ok (kv_SessionMap b)" using b(1) by (auto simp: kv_ok_def)
  obtain new where new: "cp (Some (PbShard_norm pb)) = Some new" "Shard_ID new = ?i" "Shard_KV new = None"
  proof -
    have "Shard_KV (PbShard_norm pb) = None" "Shard_ID (PbShard_norm pb) = ?i" using resp(2,3) by (simp_all add: PbShard_norm_def)
    then show ?thesis using env(1) that unfolding clone_ok_def by metis
  qed
  let ?sh = "Shard (Some (new\<lparr>Shard_Status := GC\<rparr>))"
  obtain sh0 where "shardAt b ?i = Some sh0" "Status (Some sh0) = Ok PULLING"
    using b(2) by (cases "shardAt b ?i") auto
  then have ins: "foldM_go (insertOne cp) b (Pulled_Shards ?r) = Ok (putShard ?i ?sh b)"
    using insertOne_spec[OF env(1) shards, of "PbShard_norm pb"] resp(1,2) new(1) by (simp add: norm_response(2))
  have "None \<notin> ran (ServerSessions ?r)" using norm_response(3)[OF resp(4)] by (simp add: response_ok_def)
  then obtain m where m: "Merge (visited (ServerSessions ?r) (u (ServerSessions ?r))) (kv_SessionMap b) = Ok m"
    using Merge_spec[OF t visited_iterates(1)[OF env(2)]] visited_iterates(3)[OF env(2)] by metis
  let ?b = "(putShard ?i ?sh b)\<lparr>kv_SessionMap := m\<rparr>"
  obtain c where c: "CurrentConfig b = Some c" using b(1) by (auto simp: kv_ok_def)
  have app: "applyInsertShards cp u (Some ?r) b = Ok (statusReply Kv_OK, ?b)"
    using b(3) c ins m by (simp add: applyInsertShards_def configNum_def currentNum_def norm_response(1))
  have kv: "kv_ok ?b" using applyInsertShards_step[OF env(1,2) b(1) norm_response(3)[OF resp(4)] app] by (simp add: kv_step_def)
  have at: "shardAt ?b ?i = Some ?sh" by (simp add: shardAt_def)
  then have "served k2s gid ?b key" using b(4) by (simp add: served_def)
  then have chk: "checkShard k2s gid key ?b = Ok True" using checkShard_spec[OF kv env(3), of gid key] by (simp only:)
  then have "applyPut k2s gid key val ?b = Panic NilMapWrite" "applyAppend k2s gid key val ?b = Panic NilMapWrite"
    using at new(3) by (simp_all add: applyPut_def applyAppend_def Shard_Put_def Shard_Append_def shardOf_def Let_def)
  with dec app chk show ?thesis by blast
qed

definition empty_response :: "byte list PullShardsResponse" where
  "empty_response = \<lparr>Pulled_Shards = [Some \<lparr>Shard_ID = 3, Shard_KV = Some Map.empty, Shard_Status = BE_PULLING\<rparr>],
     ServerSessions = Map.empty, Pulled_ConfigNum = 4\<rparr>"

lemma empty_response_ok:
  "PullShardsResponse_ok key_order client_order empty_response" "response_ok empty_response"
  "PullShardsResponse_Size sample_any key_order client_order (Some empty_response) = 8"
  by (simp_all add: PullShardsResponse_ok_def PbShard_ok_def iterates_def response_ok_def empty_response_def
      PullShardsResponse_Size_def PbShard_Size_def BE_PULLING_def Let_def small_sov)

lemma empty_shard_cannot_be_written_witness:
  "\<exists>resp' b'. applyInsertShards (\<lambda>p. p) client_order (Some resp') (wire_kv (sample_shard Map.empty PULLING)) = Ok (statusReply Kv_OK, b') \<and>
     applyPut (\<lambda>_. 3) 5 ''a'' ''1'' b' = Panic NilMapWrite"
proof -
  note codec = PullShardsResponse_codec[OF sample_any_ok, of key_order client_order]
  obtain bs where "PullShardsResponse_Marshal sample_any key_order client_order (Some empty_response) = Ok bs"
    "length bs < 2 ^ 63"
    using pb_codec.marshal[OF codec empty_response_ok(1)] pb_codec.sz_enc[OF codec empty_response_ok(1)] empty_response_ok(3)
    by (simp add: PullShardsResponse_Marshal_def)
  moreover have "Pulled_Shards empty_response = [Some \<lparr>Shard_ID = 3, Shard_KV = Some Map.empty, Shard_Status = BE_PULLING\<rparr>]"
    "sint (currentNum (wire_kv (sample_shard Map.empty PULLING))) \<le> sint (Pulled_ConfigNum empty_response)"
    by (simp_all add: empty_response_def)
  moreover have "Status (shardAt (wire_kv (sample_shard Map.empty PULLING)) 3) = Ok PULLING" by (simp add: sample_shard_def)
  moreover have "Config_Shards (the (CurrentConfig (wire_kv (sample_shard Map.empty PULLING)))) ! nat (sint (3 :: int64)) = 5"
    by (simp add: wire_kv_def sample_config_def NShards_def)
  moreover have "iterates m (client_order m)" for m :: "int64 \<rightharpoonup> byte list PbServerSession option" by (simp add: iterates_def)
  ultimately show ?thesis
    using empty_shard_cannot_be_written[OF sample_any_ok empty_response_ok(1), of bs _ "\<lambda>_. 3" "''a''"
        "wire_kv (sample_shard Map.empty PULLING)" 5 "\<lambda>p. p" client_order "''1''"]
      empty_response_ok(2) wire_kv_ok[of Map.empty PULLING] sample_clone sample_keys by auto
qed

section \<open>From Execute to the applied command\<close>

text \<open>
  C11. What \<^verbatim>\<open>Execute\<close> proposes at a leader is what every server of the group applies: the command stands, marshalled, in the
  leader's log at the index \<^verbatim>\<open>Execute\<close> waits for, and the message made of this entry decodes to the command, which is
  the one given unless it carries shards, whose empty maps are nil then.
\<close>

theorem proposed_command_is_applied:
  assumes wire: "any_ok A aenc anorm" "KvArgs_ok v w args" "KvArgs_Size A v w (Some args) < 2 ^ 63"
    and leader: "raft_ok (kv_rf kv)" "unat (nextIndex (kv_rf kv) ! unat (rf_me (kv_rf kv))) = log_last (lg (kv_rf kv)) + 1"
    and call: "kv_Execute_begin (\<lambda>args. KvArgs_Marshal A v w (Some args)) unmarshalAny errText args reply kv = Ok (Inr index, kv')"
  shows "\<exists>e. unat index = log_last (lg (kv_rf kv)) + 1 \<and>
    log_view (lg (kv_rf kv')) = (log_view (lg (kv_rf kv)))(unat index \<mapsto> e) \<and> CommandIndex (command_msg e) = index \<and>
    KvArgs_Unmarshal A KvArgs_zero (bcontent (Command (command_msg e))) = (KvArgs_norm anorm args, None) \<and>
    (PulledShards args = None \<longrightarrow> KvArgs_norm anorm args = args)"
proof -
  note codec = KvArgs_codec[OF wire(1), of v w]
  let ?enc = "KvArgs_enc aenc v w args"
  have m: "KvArgs_Marshal A v w (Some args) = Ok ?enc" "length ?enc < 2 ^ 63"
    using pb_codec.marshal[OF codec wire(2)] pb_codec.sz_enc[OF codec wire(2)] wire(3) by (simp_all add: KvArgs_Marshal_def)
  have dec: "KvArgs_Unmarshal A KvArgs_zero ?enc = (KvArgs_norm anorm args, None)"
    using pb_codec.unmarshal_enc[OF codec wire(2) m(2)] by (simp add: KvArgs_Unmarshal_def)
  from call m(1) obtain t rf where start: "Start (Some ?enc) (kv_rf kv) = Ok ((index, t, True), rf)" "kv_rf kv' = rf"
    by (auto simp: kv_Execute_begin_def Let_def split: if_splits option.splits)
  then have "rf_state (kv_rf kv) = ServerStateLeader" by (auto simp: Start_def split: if_splits)
  from Start_appends[OF leader(1) this leader(2), of "Some ?enc"] start
  show ?thesis using leader(2) dec by (auto simp: command_msg_def bcontent_def KvArgs_norm_def intro!: exI[of _ "\<lparr>Entry_Term = t, Entry_Index = index, Entry_Data = Some ?enc\<rparr>"])
qed

definition sample_kv_server :: "byte list ShardKV" where
  "sample_kv_server = \<lparr>kv_me = 1, kv_rf = sample_leader, kv_gid = 5, maxraftstate = -1,
     stateMachine = wire_kv (sample_shard [''a'' \<mapsto> ''1''] SERVING), controller = MakeClerk 1 [1 :: nat], kv_stopped = False, kv_triggered = []\<rparr>"

lemma proposed_command_is_applied_witness:
  "\<exists>kv' e. kv_Execute_begin (\<lambda>args. KvArgs_Marshal sample_any key_order client_order (Some args)) (\<lambda>_ _. None :: unit option) (\<lambda>_. [])
       sample_command KvReply_zero sample_kv_server = Ok (Inr 3, kv') \<and> log_view (lg (kv_rf kv')) 3 = Some e \<and>
     fst (KvArgs_Unmarshal sample_any KvArgs_zero (bcontent (Command (command_msg e)))) = KvArgs_norm (\<lambda>b. b) sample_command"
proof -
  note codec = KvArgs_codec[OF sample_any_ok, of key_order client_order]
  have kv: "stateMachine sample_kv_server = wire_kv (sample_shard [''a'' \<mapsto> ''1''] SERVING)" "kv_rf sample_kv_server = sample_leader"
    by (simp_all add: sample_kv_server_def)
  have nxt: "unat (nextIndex sample_leader ! unat (rf_me sample_leader)) = log_last (lg sample_leader) + 1" by simp
  obtain bs where bs: "KvArgs_Marshal sample_any key_order client_order (Some sample_command) = Ok bs"
    using pb_codec.marshal[OF codec sample_command_ok(2)] by (simp add: KvArgs_Marshal_def)
  have "IsDuplicate (KvArgs_SessionHeader sample_command) (NewSessionMap :: byte list SessionMap) = Ok False"
    by (simp add: sample_command_def KvArgs_zero_def IsDuplicate_spec[OF table_ok_New(1)] table_ok_New)
  moreover obtain rf' where "Start (Some bs) sample_leader = Ok ((3, 3, True), rf')"
    using Start_appends[OF sample_leader_ok _ nxt, of "Some bs"] by auto
  ultimately have run: "kv_Execute_begin (\<lambda>args. KvArgs_Marshal sample_any key_order client_order (Some args))
      (\<lambda>_ _. None :: unit option) (\<lambda>_. []) sample_command KvReply_zero sample_kv_server =
        Ok (Inr 3, sample_kv_server\<lparr>kv_rf := rf'\<rparr>)"
    using bs by (simp add: kv_Execute_begin_def kv wire_kv_def Let_def)
  from proposed_command_is_applied[OF sample_any_ok sample_command_ok(2) sample_command_size _ _ run]
  show ?thesis using run sample_leader_ok by (auto simp: kv)
qed

end
