(* ===== verification/Raft_Cluster.thy ===== *)
theory Raft_Cluster
  imports Raft_Machine
begin

text \<open>
  The peers of a group together, src/raft/raft.go. Each peer runs the events of theory Raft_Machine
  in any order; requests for replication travel as bytes, the encoding the generated code gives
  them, and may be lost, delayed, repeated and reordered. The steps are those of the code, with elections for any
  term, votes counted late, and snapshots of other peers installed. As in Raft_Machine the handlers have a reply to
  write to, and a peer that has crashed does not come back, since \<^verbatim>\<open>Make\<close> panics.

  The state records, beside the peers and the requests on their way, which peer won which term, in order, and
  whether a snapshot of another peer has ever replaced a log. The theory shows that the logs match (entries of
  the same index and term are the same and have the same entries before them) in every run in which no term has
  been won twice and no such snapshot has been installed. Both conditions are needed and the code guarantees
  neither: it counts late votes of earlier elections (property late_votes_elect), lets a vote be
  given twice (vote_rule), and sends a wrong term with a snapshot (snapshot_transfer). A peer may compact its own log
  at any time.
\<close>

section \<open>What the events leave alone\<close>

text \<open>
  The log; a peer that leads afterwards led before, in the same term and with the same place for its next
  command, or has just been elected.
\<close>

definition own_next :: "Raft \<Rightarrow> uint64" where
  "own_next rf = nextIndex rf ! unat (rf_me rf)"

definition calm :: "Raft \<Rightarrow> Raft \<Rightarrow> bool" where
  "calm rf rf' \<longleftrightarrow> lg rf' = lg rf \<and>
     (rf_state rf' = ServerStateLeader \<longrightarrow>
        rf_state rf = ServerStateLeader \<and> term_of rf' = term_of rf \<and> own_next rf' = own_next rf \<or>
        own_next rf' = of_nat (log_last (lg rf')) + 1)"

lemma calm_refl [simp]: "calm rf rf"
  by (simp add: calm_def)

lemma calm_trans: "calm a b \<Longrightarrow> calm b c \<Longrightarrow> calm a c"
  by (auto simp: calm_def)

lemma calm_same:
  assumes "lg rf' = lg rf" "rf_state rf' = rf_state rf" "term_of rf' = term_of rf" "nextIndex rf' = nextIndex rf" "rf_me rf' = rf_me rf"
  shows "calm rf rf'"
  using assms by (simp add: calm_def own_next_def)

lemma calm_not_leader: "lg rf' = lg rf \<Longrightarrow> rf_state rf' \<noteq> ServerStateLeader \<Longrightarrow> calm rf rf'"
  by (simp add: calm_def)

lemma convertToFollower_calm:
  assumes "peer_ok rf" "convertToFollower t rf = Ok rf'"
  shows "calm rf rf'" "rf_state rf' = ServerStateFollower" "peer_ok rf'"
  using convertToFollower_spec[OF assms(1), of t] assms(2) by (auto intro: calm_not_leader)

lemma convertToLeader_calm:
  assumes "raft_ok rf" "convertToLeader rf = Ok rf'"
  shows "calm rf rf'"
proof -
  have "peer_ok rf" "unat (rf_me rf) < rf_peers rf" using assms(1) by (simp_all add: raft_ok_def leader_ok_def)
  from convertToLeader_spec[OF this] assms(2) this(2) show ?thesis
    by (auto simp: calm_def own_next_def)
qed

lemma commitEntryBeforeIndex_calm:
  assumes "peer_ok rf" "commitEntryBeforeIndex i rf = Ok rf'"
  shows "calm rf rf'" "rf_state rf' = rf_state rf" "lg rf' = lg rf" "term_of rf' = term_of rf"
proof -
  have *: "lg rf' = lg rf \<and> rf_state rf' = rf_state rf \<and> term_of rf' = term_of rf \<and> nextIndex rf' = nextIndex rf \<and> rf_me rf' = rf_me rf"
    using assms by (auto simp: commitEntryBeforeIndex_def term_of_def split: if_splits)
  then show "calm rf rf'" by (intro calm_same) auto
  show "rf_state rf' = rf_state rf" "lg rf' = lg rf" "term_of rf' = term_of rf" using * by auto
qed

lemma checkIfEntryShouldBeCommitted_calm:
  "peer_ok rf \<Longrightarrow> checkIfEntryShouldBeCommitted n rf = Ok rf' \<Longrightarrow> calm rf rf'"
  by (auto simp: checkIfEntryShouldBeCommitted_def split: if_splits dest: commitEntryBeforeIndex_calm(1))

lemma index_upd_calm:
  assumes "store (nextIndex rf) (int server) x = Ok ni" "of_nat server \<noteq> rf_me rf"
  shows "calm rf (rf\<lparr>nextIndex := ni, matchIndex := mi\<rparr>)"
proof -
  have "server \<noteq> unat (rf_me rf)" using assms(2) by auto
  moreover have "ni = (nextIndex rf)[server := x]" using assms(1) by (auto simp: store_def split: if_splits)
  ultimately show ?thesis by (simp add: calm_def own_next_def term_of_def)
qed

lemma RequestVote_calm:
  assumes ok: "raft_ok rf" and ret: "RequestVote_with (Some r0) args rf = Ok (r, rf')"
  shows "calm rf rf'"
proof -
  have pk: "peer_ok rf" using ok by (simp add: raft_ok_def)
  obtain a where a: "RVArgs_Args args = Some a" using ret by (auto simp: RequestVote_with_def)
  show ?thesis
  proof (cases "Args_Term a < term_of rf")
    case True
    then show ?thesis using ret a pk by (simp add: RequestVote_with_def setRejectRequestVoteReply_def)
  next
    case False
    from convertToFollower_spec[OF pk, of "Args_Term a"] obtain rf1 where
      1: "convertToFollower (Args_Term a) rf = Ok rf1" by blast
    note c = convertToFollower_calm[OF pk 1]
    have "rf' = rf1 \<or> rf' = saved (rf1\<lparr>hardState := Some ((hs rf1)\<lparr>VotedFor := CandidateID args\<rparr>)\<rparr>)"
      using ret False a pk 1 c(3)
      by (auto simp: RequestVote_with_def setRejectRequestVoteReply_def split: if_splits)
    then show ?thesis using c by (auto simp: calm_def)
  qed
qed

lemma InstallSnapshot_calm:
  assumes ok: "raft_ok rf" and ret: "InstallSnapshot_with (Some r0) args rf = Ok (r, rf')"
  shows "calm rf rf'"
proof -
  have pk: "peer_ok rf" using ok by (simp add: raft_ok_def)
  obtain a where a: "ISArgs_Args args = Some a" using ret by (auto simp: InstallSnapshot_with_def)
  have "rf' = rf \<or> (\<exists>rf1 ap. (rf1 = rf \<or> convertToFollower (Args_Term a) rf = Ok rf1) \<and>
      rf' = rf1\<lparr>leaderId := Args_Leader a, applied := ap\<rparr>)"
    using ret a pk by (auto simp: InstallSnapshot_with_def Let_def split: if_splits)
  moreover have "calm x (x\<lparr>leaderId := l, applied := ap\<rparr>)" for x l ap
    by (rule calm_same) (simp_all add: term_of_def)
  ultimately show ?thesis using convertToFollower_calm(1)[OF pk] by (metis calm_refl calm_trans)
qed

lemma receiveVote_calm:
  assumes ok: "raft_ok rf" and ret: "receiveVote p rf = Ok (b, rf')"
  shows "calm rf rf'"
proof -
  obtain reply where p: "p = Some reply" using ret by (auto simp: receiveVote_def)
  define rf1 where "rf1 = (if VoteGranted reply then rf\<lparr>votes := votes rf + 1\<rparr> else rf)"
  have 1: "raft_ok rf1" "calm rf rf1"
    using ok by (auto simp: rf1_def raft_ok_def calm_def own_next_def term_of_def)
  have "rf' = rf1 \<or> convertToLeader rf1 = Ok rf'"
    using ret p by (auto simp: receiveVote_def Let_def rf1_def[symmetric] split: if_splits)
  then show ?thesis using 1 convertToLeader_calm calm_trans by blast
qed

lemma callRequestVote_receive_calm:
  assumes "peer_ok rf" "callRequestVote_receive ctxDone r rf = Ok (out, rf')"
  shows "calm rf rf'"
  using assms by (auto simp: callRequestVote_receive_def split: prod.splits if_splits dest: convertToFollower_calm(1))

lemma backUpNextIndex_calm:
  assumes "backUpNextIndex server reply rf = Ok (e, rf')" "of_nat server \<noteq> rf_me rf"
  shows "calm rf rf'"
proof -
  obtain x ni where "store (nextIndex rf) (int server) x = Ok ni" "rf' = rf\<lparr>nextIndex := ni\<rparr>"
    using assms(1) by (auto simp: backUpNextIndex_def split: if_splits)
  then show ?thesis using index_upd_calm[OF _ assms(2), of x ni "matchIndex rf"] by simp
qed

lemma callAppendEntries_receive_calm:
  assumes pk: "peer_ok rf" and ret: "callAppendEntries_receive server args out rf = Ok (e, rf')" and s: "of_nat server \<noteq> rf_me rf"
  shows "calm rf rf'"
proof (cases out)
  case (Reply reply)
  have "rf' = rf \<or> (\<exists>t. convertToFollower t rf = Ok rf') \<or> (\<exists>e. backUpNextIndex server reply rf = Ok (e, rf')) \<or>
     (\<exists>x ni mi n. store (nextIndex rf) (int server) x = Ok ni \<and>
       checkIfEntryShouldBeCommitted n (rf\<lparr>nextIndex := ni, matchIndex := mi\<rparr>) = Ok rf')"
    using ret Reply pk by (auto simp: callAppendEntries_receive_def split: if_splits)
  then show ?thesis
  proof (elim disjE exE conjE)
    fix x ni mi n
    assume a: "store (nextIndex rf) (int server) x = Ok ni"
      "checkIfEntryShouldBeCommitted n (rf\<lparr>nextIndex := ni, matchIndex := mi\<rparr>) = Ok rf'"
    have "peer_ok (rf\<lparr>nextIndex := ni, matchIndex := mi\<rparr>)" using pk by simp
    from checkIfEntryShouldBeCommitted_calm[OF this a(2)] show ?thesis by (rule calm_trans[OF index_upd_calm[OF a(1) s]])
  qed (use convertToFollower_calm(1)[OF pk] backUpNextIndex_calm[OF _ s] in auto)
qed (use ret in \<open>simp_all add: callAppendEntries_receive_def\<close>)

lemma callInstallSnapshot_receive_calm:
  assumes pk: "peer_ok rf" and ret: "callInstallSnapshot_receive server args out rf = Ok rf'" and s: "of_nat server \<noteq> rf_me rf"
  shows "calm rf rf'"
proof (cases out)
  case (Reply reply)
  have "(\<exists>t. convertToFollower t rf = Ok rf') \<or>
     (\<exists>x ni mi. store (nextIndex rf) (int server) x = Ok ni \<and> rf' = rf\<lparr>nextIndex := ni, matchIndex := mi\<rparr>)"
    using ret Reply pk by (auto simp: callInstallSnapshot_receive_def split: if_splits)
  then show ?thesis using convertToFollower_calm(1)[OF pk] index_upd_calm[OF _ s] by auto
qed (use ret in \<open>simp_all add: callInstallSnapshot_receive_def\<close>)

lemma spawn_calm: "calm rf (spawn g rf)"
  by (rule calm_same) (simp_all add: term_of_def)

lemma spawnToOthers_calm: "calm rf (spawnToOthers g rf)"
proof -
  have "calm rf (foldl (\<lambda>rf i. if of_nat i = rf_me rf then rf else spawn (g i) rf) rf is)" for "is"
    by (induction "is" rule: rev_induct) (auto intro: calm_trans spawn_calm)
  then show ?thesis by (simp add: spawnToOthers_def)
qed

lemma callAppendEntries_send_calm: "callAppendEntries_send c server hb rf = Ok (r, rf') \<Longrightarrow> calm rf rf'"
  by (auto simp: callAppendEntries_send_def spawn_calm split: if_splits)

lemma applyCommittedLogs_calm:
  assumes "peer_ok rf" "applyCommittedLogs_turn rf = Ok rf'"
  shows "calm rf rf'"
proof -
  have "rf' = rf \<or> (\<exists>i ap. rf' = rf\<lparr>lastApplied := i, applied := ap\<rparr>)"
    using assms by (auto simp: applyCommittedLogs_turn_def Let_def split: if_splits)
  moreover have "calm rf (rf\<lparr>lastApplied := i, applied := ap\<rparr>)" for i ap
    by (rule calm_same) (simp_all add: term_of_def)
  ultimately show ?thesis by auto
qed

lemma ticker_start_calm: "calm rf (snd (ticker_start rf))"
  by (rule calm_same) (simp_all add: ticker_start_def Let_def term_of_def)

lemma ticker_turn_calm: "calm rf (snd (ticker_turn t ev rf))"
  by (auto simp: ticker_turn_def spawn_calm split: ticker_event.splits)

lemma Kill_calm: "Kill rf = Ok rf' \<Longrightarrow> calm rf rf'"
  by (auto simp: Kill_def term_of_def split: if_splits intro!: calm_same)

lemma launchElection_calm: "raft_ok rf \<Longrightarrow> launchElection t rf = Ok rf' \<Longrightarrow> calm rf rf'"
  using launchElection_spec[of rf t] by (auto intro: calm_not_leader)

text \<open>The events that leave the log alone, with replies only from other peers.\<close>

fun quiet :: "event \<Rightarrow> Raft \<Rightarrow> bool" where
  "quiet (EvAppendEntries args) rf \<longleftrightarrow> False"
| "quiet (EvStart command) rf \<longleftrightarrow> False"
| "quiet (EvSnapshot index sn) rf \<longleftrightarrow> False"
| "quiet (EvCondInstallSnapshot t i sn) rf \<longleftrightarrow> False"
| "quiet (EvEntriesReply server args out) rf \<longleftrightarrow> of_nat server \<noteq> rf_me rf"
| "quiet (EvSnapshotReply server args out) rf \<longleftrightarrow> of_nat server \<noteq> rf_me rf"
| "quiet _ rf \<longleftrightarrow> True"

lemmas event_calm = RequestVote_calm InstallSnapshot_calm receiveVote_calm callRequestVote_receive_calm
  callAppendEntries_receive_calm callInstallSnapshot_receive_calm callAppendEntries_send_calm applyCommittedLogs_calm
  Kill_calm launchElection_calm

lemma handle_calm:
  assumes "raft_ok rf" "quiet ev rf" "handle ev rf = Ok rf'"
  shows "calm rf rf'"
proof -
  have "peer_ok rf" using assms(1) by (simp add: raft_ok_def)
  with assms show ?thesis
    by (cases ev) (auto intro: event_calm simp: spawnToOthers_calm replicateToAllServers_def sendHeartBeatPeriodicallyToAll_turn_def
        sendRequestVoteToAll_start_def ticker_start_calm ticker_turn_calm)
qed

section \<open>Logs and what was ever created\<close>

text \<open>
  The entries leaders ever created, by term and index, as they look after a trip over the wire, with
  the term of the entry before.
\<close>

type_synonym history = "uint64 \<times> nat \<rightharpoonup> Entry \<times> uint64"

definition log_term :: "Log \<Rightarrow> nat \<Rightarrow> uint64" where
  "log_term l n = (if n = log_base l then IncludedTerm l
                   else case log_view l n of None \<Rightarrow> 0 | Some e \<Rightarrow> Entry_Term e)"

definition boundary_ok :: "Log \<Rightarrow> bool" where
  "boundary_ok l \<longleftrightarrow> (IncludedIndex l = 0 \<longrightarrow> IncludedTerm l = 0)"

definition log_from :: "history \<Rightarrow> Log \<Rightarrow> bool" where
  "log_from C l \<longleftrightarrow> (\<forall>n e. log_view l n = Some e \<longrightarrow> C (Entry_Term e, n) = Some (Entry_norm e, log_term l (n - 1)))"

definition batch_from :: "history \<Rightarrow> nat \<Rightarrow> uint64 \<Rightarrow> Entry list \<Rightarrow> bool" where
  "batch_from C p t es \<longleftrightarrow> batch_at p es \<and>
     (\<forall>i < length es. C (Entry_Term (es ! i), p + 1 + i) =
        Some (Entry_norm (es ! i), if i = 0 then t else Entry_Term (es ! (i - 1))))"

lemma Entry_norm_simps [simp]:
  "Entry_Term (Entry_norm e) = Entry_Term e" "Entry_Index (Entry_norm e) = Entry_Index e"
  "Entry_norm (Entry_norm e) = Entry_norm e"
  by (simp_all add: Entry_norm_def normBytes_def)

lemma log_term_view: "log_view l n = Some e \<Longrightarrow> log_term l n = Entry_Term e"
  by (auto simp: log_term_def log_view_def split: if_splits)

lemma term_at_log_term:
  assumes "boundary_ok l" "log_base l \<le> unat i"
  shows "term_at l i = log_term l (unat i)"
proof -
  have eq: "unat i = log_base l \<longleftrightarrow> i = IncludedIndex l" unfolding log_base_def by (rule word_unat_eq_iff[symmetric])
  show ?thesis
  proof (cases "i = IncludedIndex l")
    case True
    then show ?thesis using assms(1) eq by (simp add: term_at_def log_term_def boundary_ok_def)
  next
    case False
    then have "i \<noteq> 0" using eq assms(2) by auto
    with False show ?thesis using eq by (simp add: term_at_def log_term_def)
  qed
qed

lemma log_fromD: "log_from C l \<Longrightarrow> log_view l n = Some e \<Longrightarrow> C (Entry_Term e, n) = Some (Entry_norm e, log_term l (n - 1))"
  by (simp add: log_from_def)

lemma history_mono: "C \<subseteq>\<^sub>m C' \<Longrightarrow> C k = Some x \<Longrightarrow> C' k = Some x"
  by (metis domI map_le_def)

lemma log_from_mono: "log_from C l \<Longrightarrow> C \<subseteq>\<^sub>m C' \<Longrightarrow> log_from C' l"
  using history_mono[of C C'] unfolding log_from_def by blast

lemma batch_from_mono: "batch_from C p t es \<Longrightarrow> C \<subseteq>\<^sub>m C' \<Longrightarrow> batch_from C' p t es"
  using history_mono[of C C'] unfolding batch_from_def by blast

lemma batch_from_norm: "batch_from C p t es \<Longrightarrow> batch_from C p t (map Entry_norm es)"
  by (auto simp: batch_from_def batch_at_def)

text \<open>A new entry behind the last one.\<close>

lemma log_from_append:
  assumes wf: "log_wf l" and chain: "log_from C l" and new: "C (Entry_Term e, log_last l + 1) = None"
    and l': "log_base l' = log_base l" "IncludedTerm l' = IncludedTerm l" "log_view l' = (log_view l)(log_last l + 1 \<mapsto> e)"
  shows "log_from (C((Entry_Term e, log_last l + 1) \<mapsto> (Entry_norm e, log_term l (log_last l)))) l'"
proof -
  have same: "log_term l' n = log_term l n" if "n \<le> log_last l" for n using that by (simp add: log_term_def l')
  have C: "C \<subseteq>\<^sub>m C((Entry_Term e, log_last l + 1) \<mapsto> x)" for x using new by (auto simp: map_le_def)
  show ?thesis
    unfolding log_from_def
  proof (intro allI impI)
    fix n e' assume v: "log_view l' n = Some e'"
    show "(C((Entry_Term e, log_last l + 1) \<mapsto> (Entry_norm e, log_term l (log_last l)))) (Entry_Term e', n) =
        Some (Entry_norm e', log_term l' (n - 1))"
    proof (cases "n = log_last l + 1")
      case True
      then show ?thesis using v same l'(3) by simp
    next
      case False
      then have o: "log_view l n = Some e'" using v l'(3) by simp
      then have "n - 1 \<le> log_last l" using log_view_index(3)[OF wf o] by simp
      then show ?thesis using log_fromD[OF chain o] False same by simp
    qed
  qed
qed

text \<open>A log cut off at the front.\<close>

lemma log_from_compact:
  assumes chain: "log_from C l" and l': "log_base l \<le> i" "log_base l' = i" "IncludedTerm l' = log_term l i" "log_view l' = log_view l |` {i<..}"
  shows "log_from C l'"
  unfolding log_from_def
proof (intro allI impI)
  fix n e assume "log_view l' n = Some e"
  then have n: "log_view l n = Some e" "i < n" using l'(4) by (auto simp: restrict_map_def split: if_splits)
  then have "log_term l' (n - 1) = log_term l (n - 1)"
    using l' by (cases "n - 1 = i") (auto simp: log_term_def restrict_map_def)
  then show "C (Entry_Term e, n) = Some (Entry_norm e, log_term l' (n - 1))" using log_fromD[OF chain n(1)] by simp
qed

text \<open>A log that has accepted a batch.\<close>

lemma log_from_merged:
  assumes wf: "log_wf l" "log_wf l'" and chain: "log_from C l" and batch: "batch_from C p t es"
    and p: "log_base l \<le> p" "p \<le> log_last l" "log_term l p = t"
    and m: "merged l p es l'" and t': "IncludedTerm l' = IncludedTerm l"
  shows "log_from C l'"
  unfolding log_from_def
proof (intro allI impI)
  have base: "log_base l' = log_base l" using m by (simp add: merged_def)
  have low: "log_term l' n = log_term l n" if "n \<le> p" for n
    using m that by (simp add: merged_def log_term_def t')
  have mid: "\<exists>e. log_view l' (p + 1 + i) = Some e \<and> Entry_Term e = Entry_Term (es ! i) \<and> (e = es ! i \<or> log_view l (p + 1 + i) = Some e)"
    if "i < length es" for i using m that unfolding merged_def by blast
  have midt: "log_term l' (p + i) = (if i = 0 then t else Entry_Term (es ! (i - 1)))" if "i \<le> length es" for i
  proof (cases i)
    case 0
    then show ?thesis using low[of p] p(3) by simp
  next
    case (Suc j)
    then show ?thesis using mid[of j] that log_term_view by fastforce
  qed
  fix n e assume e: "log_view l' n = Some e"
  have n: "log_base l < n" "n \<le> log_last l'" using log_view_index(2,3)[OF wf(2) e] base by simp_all
  consider "n \<le> p" | i where "n = p + 1 + i" "i < length es" | "p + length es < n"
    by (cases "n \<le> p", blast, cases "n - p - 1 < length es") (auto simp: not_less intro: that(2)[of "n - p - 1"])
  then show "C (Entry_Term e, n) = Some (Entry_norm e, log_term l' (n - 1))"
  proof cases
    case 1
    then have "log_view l n = Some e" using m e by (simp add: merged_def)
    then show ?thesis using log_fromD[OF chain] low[of "n - 1"] 1 by simp
  next
    case (2 i)
    have b: "C (Entry_Term (es ! i), n) = Some (Entry_norm (es ! i), log_term l' (n - 1))"
      using batch 2 midt[of i] by (simp add: batch_from_def)
    from mid[OF 2(2)] e 2(1) have "Entry_Term e = Entry_Term (es ! i)" "e = es ! i \<or> log_view l n = Some e" by auto
    then show ?thesis using b log_fromD[OF chain, of n e] by auto
  next
    case 3
    then have a: "log_last l' = max (log_last l) (p + length es)" "log_view l \<subseteq>\<^sub>m log_view l'"
      using m n(2) by (auto simp: merged_def split: if_splits)
    have keep: "log_view l' k = log_view l k" if "log_base l < k" "k \<le> log_last l" for k
      using a(2) log_view_Some[OF wf(1) that] by (metis domI map_le_def)
    have k: "n \<le> log_last l" using 3 a(1) n(2) by auto
    have "log_term l' (n - 1) = log_term l (n - 1)"
      using keep[of "n - 1"] n(1) k t' base by (cases "n - 1 = log_base l") (auto simp: log_term_def)
    then show ?thesis using keep[OF n(1) k] e log_fromD[OF chain, of n e] by simp
  qed
qed

section \<open>The events that change the log\<close>

lemma conflictLoop_keeps:
  assumes "conflictLoop rf ps = Ok (b, rf')" "peer_ok rf"
  shows "IncludedTerm (lg rf') = IncludedTerm (lg rf)"
  using assms
proof (induction ps)
  case (Cons p ps)
  have "peer_ok (with_log l rf) \<and> IncludedTerm l = IncludedTerm (lg rf)" if "DiscardAfterAnd (lg rf) i = Ok l" for l i
    using that Cons.prems(2) DiscardAfterAnd_wf[of "lg rf" i l]
    by (auto simp: DiscardAfterAnd_def)
  then show ?case using Cons by (auto simp: Len_wf split: if_splits)
qed simp

lemma appendLoop_keeps:
  assumes "raft_ok rf" "0 \<notin> Entry_Index ` set es" "appendLoop rf (map Some es) = Ok rf'"
  shows "IncludedTerm (lg rf') = IncludedTerm (lg rf)"
proof -
  have "IncludedTerm l' = IncludedTerm l" if "foldM_go Append l es = Ok l'" for l l'
    using that
  proof (induction es arbitrary: l)
    case (Cons e es)
    then obtain l1 where l1: "Append l e = Ok l1" "foldM_go Append l1 es = Ok l'" by auto
    then have "IncludedTerm l1 = IncludedTerm l" by (auto simp: Append_def split: if_splits)
    then show ?case using Cons.IH[OF l1(2)] by simp
  qed simp
  then show ?thesis using appendLoop_refines[OF assms(1,2)] assms(3) by auto
qed

lemma followCommit_keeps:
  assumes "peer_ok rf" "followCommit args reply rf = Ok (r, rf')"
  shows "lg rf' = lg rf" "rf_state rf' = rf_state rf" "term_of rf' = term_of rf"
  using assms by (auto simp: followCommit_def Let_def split: if_splits dest: commitEntryBeforeIndex_calm(2,3,4))

text \<open>The steps of the handler behind the check of the term.\<close>

lemma AppendEntries_steps:
  assumes ok: "raft_ok rf" and a: "AEArgs_Args args = Some a" "term_of rf \<le> Args_Term a"
    and es: "AEArgs_Entries args = map Some es"
    and ret: "AppendEntries_with (Some r0) args rf = Ok (r, rf')"
  shows "\<exists>rf2. raft_ok rf2 \<and> lg rf2 = lg rf \<and> term_of rf2 = Args_Term a \<and>
    (rf_state rf2 = rf_state rf \<and> term_of rf = Args_Term a \<or> rf_state rf2 = ServerStateFollower) \<and>
    (rf' = rf2 \<and> AEReply_Status r \<noteq> Success \<or> log_base (lg rf) \<le> unat (PrevLogIndex args) \<and> unat (PrevLogIndex args) \<le> log_last (lg rf) \<and>
      term_at (lg rf) (PrevLogIndex args) = PrevLogTerm args \<and>
      (\<exists>b rf3. conflictLoop rf2 (map Some es) = Ok (b, rf3) \<and>
        (b \<and> rf' = rf3 \<or> \<not> b \<and> (\<exists>rf4 reply. appendLoop rf3 (map Some es) = Ok rf4 \<and> followCommit args reply rf4 = Ok (r, rf')))))"
proof -
  have pk: "peer_ok rf" "log_wf (lg rf)" using ok by (auto simp: raft_ok_def)
  obtain rf1 where 1: "(if term_of rf < Args_Term a then convertToFollower (Args_Term a) rf else Ok rf) = Ok rf1"
    "grows rf rf1" "lg rf1 = lg rf" "term_of rf1 = Args_Term a"
    and st: "rf_state rf1 = rf_state rf \<and> term_of rf = Args_Term a \<or> rf_state rf1 = ServerStateFollower"
    using adopt_term[OF ok a(2)] convertToFollower_calm(2)[OF pk(1)] a(2) by (cases "term_of rf < Args_Term a") auto
  define rf2 where "rf2 = rf1\<lparr>leaderId := Args_Leader a\<rparr>"
  have 2: "raft_ok rf2" "peer_ok rf2" "lg rf2 = lg rf" "rf_state rf2 = rf_state rf1" "term_of rf2 = Args_Term a"
    using 1 by (auto simp: rf2_def grows_def raft_ok_def)
  let ?p = "unat (PrevLogIndex args)"
  note eval = AppendEntries_with_def Success_def OldSnapshot_def NotContain_def Let_def rf2_def[symmetric] Len_wf[OF pk(2)]
  have "rf' = rf2 \<and> AEReply_Status r \<noteq> Success \<or> (log_base (lg rf) \<le> ?p \<and> ?p \<le> log_last (lg rf) \<and> term_at (lg rf) (PrevLogIndex args) = PrevLogTerm args \<and>
      (\<exists>b rf3. conflictLoop rf2 (map Some es) = Ok (b, rf3) \<and>
        (b \<and> rf' = rf3 \<or> \<not> b \<and> (\<exists>rf4 reply. appendLoop rf3 (map Some es) = Ok rf4 \<and> followCommit args reply rf4 = Ok (r, rf')))))"
  proof (cases "PrevLogIndex args < IncludedIndex (lg rf) \<or> of_nat (log_last (lg rf)) < PrevLogIndex args")
    case True
    then show ?thesis using ret a pk 1(1,3) 2 es not_le[of "term_of rf" "Args_Term a"]
      by (auto simp: eval split: if_splits)
  next
    case False
    then have r: "log_base (lg rf) \<le> ?p" "?p \<le> log_last (lg rf)"
      using last_less_iff[OF pk(2), of "PrevLogIndex args"] less_base_iff[of "PrevLogIndex args" "lg rf"] by (simp_all add: not_less)
    from EntryAt_term_at[OF pk(2) r] obtain e where
      e: "EntryAt (lg rf) (PrevLogIndex args) = Ok e" "Entry_Term e = term_at (lg rf) (PrevLogIndex args)" by blast
    then show ?thesis using ret a pk 1(1,3) 2 es False r by (auto simp: eval split: if_splits)
  qed
  then show ?thesis using 2 st by (intro exI[of _ rf2]) simp
qed

text \<open>A request of a term that is not older: the log is as before, or has accepted the batch.\<close>

lemma AppendEntries_log:
  assumes ok: "raft_ok rf" and a: "AEArgs_Args args = Some a" "term_of rf \<le> Args_Term a"
    and es: "AEArgs_Entries args = map Some es" "batch_at (unat (PrevLogIndex args)) es"
    and ret: "AppendEntries_with (Some r0) args rf = Ok (r, rf')"
  shows "term_of rf' = Args_Term a \<and> (rf_state rf' = rf_state rf \<and> term_of rf = Args_Term a \<or> rf_state rf' = ServerStateFollower) \<and>
    (lg rf' = lg rf \<and> AEReply_Status r \<noteq> Success \<or> log_base (lg rf) \<le> unat (PrevLogIndex args) \<and> unat (PrevLogIndex args) \<le> log_last (lg rf) \<and>
       term_at (lg rf) (PrevLogIndex args) = PrevLogTerm args \<and>
       merged (lg rf) (unat (PrevLogIndex args)) es (lg rf') \<and> IncludedTerm (lg rf') = IncludedTerm (lg rf))"
proof -
  let ?p = "unat (PrevLogIndex args)"
  from AppendEntries_steps[OF ok a es(1) ret] obtain rf2 where
    2: "raft_ok rf2" "lg rf2 = lg rf" "term_of rf2 = Args_Term a"
      "rf_state rf2 = rf_state rf \<and> term_of rf = Args_Term a \<or> rf_state rf2 = ServerStateFollower"
    and steps: "rf' = rf2 \<and> AEReply_Status r \<noteq> Success \<or> log_base (lg rf) \<le> ?p \<and> ?p \<le> log_last (lg rf) \<and> term_at (lg rf) (PrevLogIndex args) = PrevLogTerm args \<and>
      (\<exists>b rf3. conflictLoop rf2 (map Some es) = Ok (b, rf3) \<and>
        (b \<and> rf' = rf3 \<or> \<not> b \<and> (\<exists>rf4 reply. appendLoop rf3 (map Some es) = Ok rf4 \<and> followCommit args reply rf4 = Ok (r, rf'))))"
    by blast
  show ?thesis
  proof (cases "rf' = rf2 \<and> AEReply_Status r \<noteq> Success")
    case False
    then have p: "log_base (lg rf) \<le> ?p" "?p \<le> log_last (lg rf)" "term_at (lg rf) (PrevLogIndex args) = PrevLogTerm args"
      using steps by blast+
    from accept_batch[OF 2(1) es(2)] p(1,2) 2(2) obtain x1 x2 where
      x: "conflictLoop rf2 (map Some es) = Ok (False, x1)" "appendLoop x1 (map Some es) = Ok x2" "log_only rf2 x2"
        "merged (lg rf) ?p es (lg x2)" by auto
    have "raft_ok x1" using conflictLoop_log_only[OF 2(1) x(1)] by (simp add: log_only_def)
    moreover have "peer_ok rf2" using 2(1) by (simp add: raft_ok_def)
    ultimately have k: "IncludedTerm (lg x2) = IncludedTerm (lg rf)"
      using appendLoop_keeps[OF _ batch_at_nonzero[OF es(2)] x(2)] conflictLoop_keeps[OF x(1)] 2(2) by simp
    obtain reply where f: "followCommit args reply x2 = Ok (r, rf')" using steps False x(1,2) by auto
    have "peer_ok x2" using x(3) by (simp add: log_only_def raft_ok_def)
    from followCommit_keeps[OF this f] x(3,4) k p 2(3,4) show ?thesis by (auto simp: log_only_def term_of_def)
  qed (use 2 in auto)
qed

text \<open>A command given to a leader whose next index is the one after its log.\<close>

lemma Start_log:
  assumes ok: "raft_ok rf" and room: "log_last (lg rf) < 2 ^ 64 - 1"
    and nxt: "rf_state rf = ServerStateLeader \<longrightarrow> own_next rf = of_nat (log_last (lg rf)) + 1"
    and ret: "Start command rf = Ok (r, rf')"
  shows "rf' = rf \<or> (\<exists>e. rf_state rf = ServerStateLeader \<and> Entry_Term e = term_of rf \<and> term_of rf' = term_of rf \<and>
    log_base (lg rf') = log_base (lg rf) \<and> IncludedTerm (lg rf') = IncludedTerm (lg rf) \<and>
    log_last (lg rf') = log_last (lg rf) + 1 \<and> log_view (lg rf') = (log_view (lg rf))(log_last (lg rf) + 1 \<mapsto> e) \<and>
    own_next rf' = of_nat (log_last (lg rf')) + 1 \<and> Entry_Data e = command \<and> commit_of rf' = commit_of rf)"
proof (cases "rf_state rf = ServerStateLeader")
  case False
  then show ?thesis using ret by (simp add: Start_def)
next
  case True
  have pk: "peer_ok rf" "leader_ok rf" "log_wf (lg rf)" using ok by (auto simp: raft_ok_def)
  have me: "unat (rf_me rf) < length (nextIndex rf)" using pk(2) True by (simp add: leader_ok_def)
  let ?i = "own_next rf"
  let ?e = "\<lparr>Entry_Term = term_of rf, Entry_Index = ?i, Entry_Data = command\<rparr>"
  let ?rf1 = "rf\<lparr>nextIndex := (nextIndex rf)[unat (rf_me rf) := ?i + 1]\<rparr>"
  have "unat (of_nat (log_last (lg rf) + 1) :: uint64) = log_last (lg rf) + 1"
    using room by (simp only: unat_of_nat) (simp add: mod_less)
  then have i: "unat ?i = log_last (lg rf) + 1" using mp[OF nxt True] by (simp add: add.commute)
  have "grows rf ?rf1" using index_upd_grows[OF ok, of "(nextIndex rf)[unat (rf_me rf) := ?i + 1]" "matchIndex rf"] by simp
  then have 1: "raft_ok ?rf1" "peer_ok ?rf1" by (auto simp: grows_def raft_ok_def)
  have f: "lg ?rf1 = lg rf" "term_of ?rf1 = term_of rf" by (simp_all add: lg_def hs_def term_of_def)
  have "Entry_Index ?e \<noteq> 0" using i by auto
  from appendEntryToLog_spec[OF 1(1) this] f obtain rf2 where
    2: "appendEntryToLog ?rf1 ?e = Ok rf2" "Append (lg rf) ?e = Ok (lg rf2)" "log_only ?rf1 rf2" by auto
  have "rf' = rf2" using ret True me 1(2) f(2) 2(1) by (simp add: Start_def index64_def store_me own_next_def Let_def)
  from Append_next[OF pk(3), of ?e] i 2(2) have
    l: "log_wf (lg rf2)" "log_base (lg rf2) = log_base (lg rf)" "IncludedTerm (lg rf2) = IncludedTerm (lg rf)"
      "log_view (lg rf2) = (log_view (lg rf))(log_last (lg rf) + 1 \<mapsto> ?e)" by auto
  have last: "log_last (lg rf2) = log_last (lg rf) + 1" by (rule raftLog.last_append[OF pk(3) l(1,2,4)])
  have own2: "own_next rf2 = ?i + 1" and hs2: "term_of rf2 = term_of rf" "commit_of rf2 = commit_of rf"
    using 2(3) me by (simp_all add: log_only_def own_next_def term_of_def commit_of_def)
  then have "own_next rf2 = of_nat (log_last (lg rf2)) + 1" using last mp[OF nxt True] by (simp add: add.commute)
  then show ?thesis using \<open>rf' = rf2\<close> l last True hs2 by (intro disjI2 exI[of _ ?e]) simp
qed

text \<open>A snapshot that is refused, or whose installation leaves the log as it is.\<close>

lemma CondInstallSnapshot_calm:
  assumes ok: "raft_ok rf" and ret: "CondInstallSnapshot t i sn rf = Ok (b, rf')" and same: "lg rf' = lg rf"
  shows "calm rf rf'"
proof -
  have pk: "peer_ok rf" "log_wf (lg rf)" using ok by (auto simp: raft_ok_def)
  have "rf' = rf \<or> (\<exists>l. log_wf l \<and> rf' = savedWith sn (with_log l (rf\<lparr>lastApplied := i\<rparr>)))"
    using ret pk CompactForSnapshot_wf[OF pk(2)]
    by (fastforce simp: CondInstallSnapshot_def split: if_splits)
  then show ?thesis using same pk by (auto intro!: calm_same simp: term_of_def)
qed

text \<open>A compaction of the own log.\<close>

lemma Snapshot_log:
  assumes ok: "raft_ok rf" and ret: "Raft_Snapshot i sn rf = Ok rf'"
  shows "rf_state rf' = rf_state rf \<and> term_of rf' = term_of rf \<and> own_next rf' = own_next rf"
    "lg rf' = lg rf \<or> log_base (lg rf) \<le> unat i \<and> IncludedIndex (lg rf') = i \<and> IncludedTerm (lg rf') = term_at (lg rf) i \<and>
       log_last (lg rf') = log_last (lg rf) \<and> log_view (lg rf') = log_view (lg rf) |` {unat i<..}"
proof -
  have pk: "peer_ok rf" "log_wf (lg rf)" using ok by (auto simp: raft_ok_def)
  let ?rf2 = "rf\<lparr>hardState := Some ((hs rf)\<lparr>Commit := goMax (commit_of rf) i\<rparr>), lastApplied := goMax (lastApplied rf) i\<rparr>"
  have pk2: "peer_ok ?rf2" using pk(1) by simp
  have c: "unat i < log_base (lg rf) \<Longrightarrow> CompactForSnapshot (lg rf) i t \<noteq> Ok l" for t l
    using CompactForSnapshot_spec[OF pk(2), of i t] by simp
  have *: "rf' = savedWith sn ?rf2 \<or> log_base (lg rf) \<le> unat i \<and> unat i \<le> log_last (lg rf) \<and>
      (\<exists>l. log_wf l \<and> rf' = savedWith sn (with_log l ?rf2))"
  proof (cases "log_last (lg rf) < unat i")
    case True
    then have "\<not> i \<le> of_nat (log_last (lg rf))" using last_less_iff[OF pk(2), of i] by (simp add: not_le)
    then show ?thesis using ret pk pk2 LastEntry_index[OF pk(2)] by (auto simp: Raft_Snapshot_def Let_def)
  next
    case False
    then show ?thesis using ret pk pk2 c CompactForSnapshot_wf[OF pk(2)] LastEntry_index[OF pk(2)] last_less_iff[OF pk(2), of i]
      by (fastforce simp: Raft_Snapshot_def Let_def not_less split: if_splits)
  qed
  then show "rf_state rf' = rf_state rf \<and> term_of rf' = term_of rf \<and> own_next rf' = own_next rf"
    using pk2 by (auto simp: term_of_def own_next_def)
  show "lg rf' = lg rf \<or> log_base (lg rf) \<le> unat i \<and> IncludedIndex (lg rf') = i \<and> IncludedTerm (lg rf') = term_at (lg rf) i \<and>
       log_last (lg rf') = log_last (lg rf) \<and> log_view (lg rf') = log_view (lg rf) |` {unat i<..}"
    using * snapshot_compacts_law[OF ok, of i sn] ret pk2 by auto
qed

text \<open>The request sent to a follower: the entries behind the one it starts from.\<close>

lemma send_log:
  assumes ok: "raft_ok rf"
    and ret: "callAppendEntries_send c server hb rf = Ok (Inr args, rf')"
  defines "l \<equiv> lg rf" and "p \<equiv> unat (PrevLogIndex args)"
  shows "rf' = rf \<and> rf_state rf = ServerStateLeader \<and> AEArgs_Args args = Some \<lparr>Args_Term = term_of rf, Args_Leader = rf_me rf\<rparr> \<and>
    log_base l \<le> p \<and> p \<le> log_last l \<and> PrevLogTerm args = log_term l p \<and>
    AEArgs_Entries args = (if hb then [] else map (log_view l) [p + 1..<log_last l + 1])"
proof -
  have pk: "peer_ok rf" "log_wf l" using ok by (auto simp: raft_ok_def l_def)
  obtain nx where nx: "indexInt (nextIndex rf) (int server) = Ok nx" "log_base l < unat nx" "rf' = rf" "rf_state rf = ServerStateLeader"
    and new: "newAppendEntriesArgs server hb rf = Ok args"
    using ret pk by (auto simp: callAppendEntries_send_def LastIncludedIndex_def log_base_def word_less_nat_alt not_le l_def split: if_splits)
  have prev: "unat (nx - 1) = unat nx - 1" using nx(2) by (intro unat_pred) simp
  from new nx(1) pk obtain pt es0 where
    args: "AEArgs_Args args = Some \<lparr>Args_Term = term_of rf, Args_Leader = rf_me rf\<rparr>" "AEArgs_Entries args = es0"
        "PrevLogIndex args = nx - 1" "PrevLogTerm args = pt"
      and pt: "nx - 1 = IncludedIndex l \<and> pt = IncludedTerm l \<or>
        nx - 1 \<noteq> IncludedIndex l \<and> (\<exists>e. EntryAt l (nx - 1) = Ok e \<and> pt = Entry_Term e)"
      and es0: "if hb then es0 = [] else EntriesAfter l nx = Ok es0"
    by (auto simp: newAppendEntriesArgs_def LastIncludedIndex_def LastIncludedTerm_def l_def split: if_splits)
  have p: "p = unat nx - 1" "p + 1 = unat nx" using args(3) prev nx(2) by (simp_all add: p_def)
  have eq: "nx - 1 = IncludedIndex l \<longleftrightarrow> p = log_base l" unfolding p(1) prev[symmetric] log_base_def by (rule word_unat_eq_iff)
  have r: "p \<le> log_last l \<and> pt = log_term l p"
  proof (cases "nx - 1 = IncludedIndex l")
    case True
    then show ?thesis using pt eq raftLog.base_le_last[of l] by (auto simp: log_term_def)
  next
    case False
    have "nx - 1 \<noteq> 0"
    proof
      assume "nx - 1 = 0"
      then have "p = 0" using p(1) prev by simp
      with nx(2) p(2) eq False show False by simp
    qed
    then obtain e where "log_view l p = Some e" "pt = Entry_Term e"
      using pt False prev p(1) by (auto simp: EntryAt_view[OF pk(2)] split: option.splits)
    then show ?thesis using log_view_index(3)[OF pk(2)] log_term_view by fastforce
  qed
  have "es0 = (if hb then [] else map (log_view l) [p + 1..<log_last l + 1])"
    using es0 EntriesAfter_spec[OF pk(2) nx(2)] r p(2) by (simp del: upt_Suc split: if_splits)
  then show ?thesis using args nx r p by simp
qed

lemma send_from:
  assumes ok: "raft_ok rf" "log_from C (lg rf)"
    and ret: "callAppendEntries_send c server hb rf = Ok (Inr args, rf')"
  shows "\<exists>es. AEArgs_Entries args = map Some es \<and> batch_from C (unat (PrevLogIndex args)) (PrevLogTerm args) es"
proof -
  let ?l = "lg rf" and ?p = "unat (PrevLogIndex args)"
  have wf: "log_wf ?l" using ok by (auto simp: raft_ok_def)
  note S = send_log[OF ok(1) ret]
  define es where "es = (if hb then [] else map (the \<circ> log_view ?l) [?p + 1..<log_last ?l + 1])"
  have view: "log_view ?l n = Some (the (log_view ?l n))" if "?p + 1 \<le> n" "n \<le> log_last ?l" for n
    using that S log_view_Some[OF wf, of n] by (metis Suc_eq_plus1 Suc_le_lessD le_less_trans option.sel)
  have es: "AEArgs_Entries args = map Some es" using S view by (auto simp: es_def simp del: upt_Suc)
  have at: "log_view ?l (?p + 1 + i) = Some (es ! i)" if "i < length es" for i
    using that view[of "?p + 1 + i"] by (auto simp: es_def simp del: upt_Suc split: if_splits)
  have "batch_from C ?p (PrevLogTerm args) es"
    unfolding batch_from_def batch_at_def
  proof (intro conjI allI impI)
    fix i assume i: "i < length es"
    show "unat (Entry_Index (es ! i)) = ?p + 1 + i" using log_view_index(1)[OF wf at[OF i]] by simp
    have "log_term ?l (?p + i) = (if i = 0 then PrevLogTerm args else Entry_Term (es ! (i - 1)))"
      using S log_term_view[OF at[of "i - 1"]] i by (cases i) auto
    then show "C (Entry_Term (es ! i), ?p + 1 + i) = Some (Entry_norm (es ! i), if i = 0 then PrevLogTerm args else Entry_Term (es ! (i - 1)))"
      using log_fromD[OF ok(2) at[OF i]] by simp
  qed
  with es show ?thesis by blast
qed

section \<open>The group\<close>

text \<open>
  The peers \<open>i\<close> with \<open>unat i < members\<close>, the requests on their way, each with its destination, the terms won so
  far with their winners, and whether a snapshot of another peer has replaced a log.
\<close>

record cluster =
  members :: nat
  peer :: "uint64 \<Rightarrow> Raft"
  net :: "(uint64 \<times> byte list) set"
  wins :: "(uint64 \<times> uint64) list"
  installed :: bool

text \<open>A peer wins its term when it becomes its leader.\<close>

definition won :: "uint64 \<Rightarrow> Raft \<Rightarrow> Raft \<Rightarrow> (uint64 \<times> uint64) list" where
  "won i rf rf' =
     (if rf_state rf' = ServerStateLeader \<and> (rf_state rf \<noteq> ServerStateLeader \<or> term_of rf' \<noteq> term_of rf)
      then [(term_of rf', i)] else [])"

fun replaces :: "event \<Rightarrow> Raft \<Rightarrow> Raft \<Rightarrow> bool" where
  "replaces (EvCondInstallSnapshot t i sn) rf rf' \<longleftrightarrow> lg rf' \<noteq> lg rf"
| "replaces ev rf rf' \<longleftrightarrow> False"

definition cluster_start :: "cluster \<Rightarrow> bool" where
  "cluster_start s \<longleftrightarrow> net s = {} \<and> wins s = [] \<and> \<not> installed s \<and>
     (\<forall>i. unat i < members s \<longrightarrow> raft_ok (peer s i) \<and> rf_me (peer s i) = i \<and> rf_peers (peer s i) = members s \<and>
        rf_state (peer s i) \<noteq> ServerStateLeader \<and>
        lg (peer s i) = \<lparr>Log_Entries = [], IncludedIndex = 0, IncludedTerm = 0\<rparr>)"

text \<open>What a peer does by itself or on other messages than requests for replication; replies come from other peers.\<close>

fun own_event :: "event \<Rightarrow> Raft \<Rightarrow> bool" where
  "own_event (EvAppendEntries args) rf \<longleftrightarrow> False"
| "own_event (EvEntriesReply server args out) rf \<longleftrightarrow> of_nat server \<noteq> rf_me rf"
| "own_event (EvSnapshotReply server args out) rf \<longleftrightarrow> of_nat server \<noteq> rf_me rf"
| "own_event ev rf \<longleftrightarrow> True"

inductive cluster_step :: "cluster \<Rightarrow> cluster \<Rightarrow> bool" where
  peer_event: "unat i < members s \<Longrightarrow> event_ok ev (peer s i) \<Longrightarrow> own_event ev (peer s i) \<Longrightarrow>
    handle ev (peer s i) = Ok rf \<Longrightarrow>
    cluster_step s (s\<lparr>peer := (peer s)(i := rf), wins := wins s @ won i (peer s i) rf,
      installed := installed s \<or> replaces ev (peer s i) rf\<rparr>)"
| send_entries: "unat i < members s \<Longrightarrow> server < members s \<Longrightarrow> of_nat server \<noteq> i \<Longrightarrow>
    callAppendEntries_send c server hb (peer s i) = Ok (Inr args, rf) \<Longrightarrow>
    AppendEntriesArgs_Marshal (Some args) = Ok bs \<Longrightarrow> length bs < 2 ^ 63 \<Longrightarrow>
    cluster_step s (s\<lparr>peer := (peer s)(i := rf), net := {(of_nat server, bs)} \<union> net s\<rparr>)"
| receive_entries: "unat i < members s \<Longrightarrow> (i, bs) \<in> net s \<Longrightarrow>
    AppendEntriesArgs_Unmarshal AppendEntriesArgs_zero bs = (args, None) \<Longrightarrow>
    AppendEntries_with (Some AppendEntriesReply_zero) args (peer s i) = Ok (r, rf) \<Longrightarrow>
    cluster_step s (s\<lparr>peer := (peer s)(i := rf), wins := wins s @ won i (peer s i) rf\<rparr>)"

inductive cluster_run :: "cluster \<Rightarrow> cluster \<Rightarrow> bool" where
  cluster_refl: "cluster_run s s"
| cluster_more: "cluster_run s s1 \<Longrightarrow> cluster_step s1 s2 \<Longrightarrow> cluster_run s s2"

text \<open>What has happened is not forgotten.\<close>

lemma cluster_step_keeps:
  assumes "cluster_step s s'"
  shows "(\<exists>ws. wins s' = wins s @ ws) \<and> (installed s \<longrightarrow> installed s') \<and> members s' = members s"
  using assms by cases auto

section \<open>The invariant of the group\<close>

definition peer_inv :: "(uint64 \<times> uint64) list \<Rightarrow> history \<Rightarrow> uint64 \<Rightarrow> Raft \<Rightarrow> bool" where
  "peer_inv W C i rf \<longleftrightarrow> raft_ok rf \<and> rf_me rf = i \<and> boundary_ok (lg rf) \<and> log_from C (lg rf) \<and>
     (rf_state rf = ServerStateLeader \<longrightarrow> (term_of rf, i) \<in> set W \<and> own_next rf = of_nat (log_last (lg rf)) + 1 \<and>
        (\<forall>n. C (term_of rf, n) \<noteq> None \<longrightarrow> n \<le> log_last (lg rf)))"

definition wire_inv :: "(uint64 \<times> uint64) list \<Rightarrow> history \<Rightarrow> uint64 \<Rightarrow> byte list \<Rightarrow> bool" where
  "wire_inv W C j bs \<longleftrightarrow> (\<exists>args a es k. bs = AppendEntriesArgs_enc args \<and> length bs < 2 ^ 63 \<and>
     AEArgs_Args args = Some a \<and> (Args_Term a, k) \<in> set W \<and> k \<noteq> j \<and>
     AEArgs_Entries args = map Some es \<and> batch_from C (unat (PrevLogIndex args)) (PrevLogTerm args) es)"

definition cluster_inv :: "history \<Rightarrow> cluster \<Rightarrow> bool" where
  "cluster_inv C s \<longleftrightarrow> (\<forall>i. unat i < members s \<longrightarrow> peer_inv (wins s) C i (peer s i)) \<and>
     (\<forall>j bs. (j, bs) \<in> net s \<longrightarrow> wire_inv (wins s) C j bs) \<and> (\<forall>t n. C (t, n) \<noteq> None \<longrightarrow> t \<in> fst ` set (wins s))"

lemma cluster_start_inv: "cluster_start s \<Longrightarrow> cluster_inv Map.empty s"
  by (auto simp: cluster_start_def cluster_inv_def peer_inv_def boundary_ok_def log_from_def log_view_def log_last_def)

lemma one_winner: "distinct (map fst W) \<Longrightarrow> (t, i) \<in> set W \<Longrightarrow> (t, k) \<in> set W \<Longrightarrow> i = k"
  by (rule eq_key_imp_eq_value)

lemma won_nil: "rf_state rf' \<noteq> ServerStateLeader \<Longrightarrow> won i rf rf' = []"
  by (simp add: won_def)

text \<open>Peers and messages that a step does not touch.\<close>

lemma wire_inv_mono:
  assumes "wire_inv W C j bs" "C \<subseteq>\<^sub>m C'"
  shows "wire_inv (W @ ws) C' j bs"
proof -
  from assms(1) obtain args a es k where m: "bs = AppendEntriesArgs_enc args" "length bs < 2 ^ 63" "AEArgs_Args args = Some a"
    "(Args_Term a, k) \<in> set W" "k \<noteq> j" "AEArgs_Entries args = map Some es"
    "batch_from C (unat (PrevLogIndex args)) (PrevLogTerm args) es" unfolding wire_inv_def by blast
  with batch_from_mono[OF m(7) assms(2)] show ?thesis
    unfolding wire_inv_def by (intro exI[of _ args] exI[of _ a] exI[of _ es] exI[of _ k]) simp
qed

lemma peer_inv_other:
  assumes inv: "peer_inv W C k rf" and C: "C \<subseteq>\<^sub>m C'" and new: "\<And>t n. (t, k) \<in> set W \<Longrightarrow> C' (t, n) = C (t, n)"
  shows "peer_inv (W @ ws) C' k rf"
proof -
  have "C' (term_of rf, n) = C (term_of rf, n)" if "rf_state rf = ServerStateLeader" for n
    using new inv that by (simp add: peer_inv_def)
  then show ?thesis using inv log_from_mono[OF _ C] by (simp add: peer_inv_def)
qed

text \<open>A peer that has taken a step without adding to the history.\<close>

lemma peer_inv_step:
  assumes inv: "peer_inv W C i rf" and C: "\<forall>t n. C (t, n) \<noteq> None \<longrightarrow> t \<in> fst ` set W"
    and once: "distinct (map fst (W @ won i rf rf'))"
    and s: "sound rf rf'" and l: "boundary_ok (lg rf')" "log_from C (lg rf')" "log_last (lg rf') = log_last (lg rf)"
    and own: "rf_state rf' = ServerStateLeader \<longrightarrow> own_next rf' = of_nat (log_last (lg rf')) + 1"
  shows "peer_inv (W @ won i rf rf') C i rf'"
proof -
  have "(term_of rf', i) \<in> set (W @ won i rf rf') \<and> (\<forall>n. C (term_of rf', n) \<noteq> None \<longrightarrow> n \<le> log_last (lg rf'))"
    if ld: "rf_state rf' = ServerStateLeader"
  proof (cases "rf_state rf = ServerStateLeader \<and> term_of rf' = term_of rf")
    case True
    then show ?thesis using inv l(3) by (simp add: peer_inv_def)
  next
    case False
    then have w: "won i rf rf' = [(term_of rf', i)]" using ld by (auto simp: won_def)
    then have "term_of rf' \<notin> fst ` set W" using once by simp
    then have "\<forall>n. C (term_of rf', n) = None" using C by blast
    then show ?thesis using w by simp
  qed
  then show ?thesis using s l own inv by (simp add: peer_inv_def sound_def)
qed

lemma cluster_inv_step:
  assumes inv: "cluster_inv C s" and s': "members s' = members s" "peer s' = (peer s)(i := rf)" "wins s' = wins s @ ws"
    and C: "C \<subseteq>\<^sub>m C'" and once: "distinct (map fst (wins s))"
    and i: "peer_inv (wins s') C' i rf"
    and new: "\<And>t n. C' (t, n) = C (t, n) \<or> (t, i) \<in> set (wins s)" "\<And>t n. C' (t, n) \<noteq> None \<Longrightarrow> t \<in> fst ` set (wins s')"
    and N: "\<And>j bs. (j, bs) \<in> net s' \<Longrightarrow> (j, bs) \<in> net s \<or> wire_inv (wins s') C' j bs"
  shows "cluster_inv C' s'"
  unfolding cluster_inv_def
proof (intro conjI allI impI)
  fix k :: uint64
  assume k: "unat k < members s'"
  have "peer_inv (wins s') C' k (peer s k)" if "k \<noteq> i"
    unfolding s'(3)
  proof (rule peer_inv_other[OF _ C])
    show "peer_inv (wins s) C k (peer s k)" using inv k s'(1) by (simp add: cluster_inv_def)
    fix t n assume "(t, k) \<in> set (wins s)"
    then have "(t, i) \<notin> set (wins s)" using one_winner[OF once] that by blast
    then show "C' (t, n) = C (t, n)" using new(1) by blast
  qed
  then show "peer_inv (wins s') C' k (peer s' k)" using i s'(2) by simp
next
  fix j bs assume "(j, bs) \<in> net s'"
  then show "wire_inv (wins s') C' j bs"
    using N[of j bs] inv wire_inv_mono[OF _ C, of "wins s"] s'(3) by (auto simp: cluster_inv_def)
qed (use new(2) in blast)

text \<open>The three kinds of steps.\<close>

lemma start_inv:
  assumes p: "peer_inv W C i rf" and C: "\<forall>t n. C (t, n) \<noteq> None \<longrightarrow> t \<in> fst ` set W"
    and g: "sound rf rf'" and room: "log_last (lg rf) < 2 ^ 64 - 1" and st: "Start command rf = Ok (r, rf')"
  shows "\<exists>C'. C \<subseteq>\<^sub>m C' \<and> (\<forall>t n. C' (t, n) = C (t, n) \<or> (t, i) \<in> set W) \<and> peer_inv (W @ won i rf rf') C' i rf'"
proof -
  have ok: "raft_ok rf" "boundary_ok (lg rf)" "log_from C (lg rf)" "log_wf (lg rf)"
    and own: "rf_state rf = ServerStateLeader \<longrightarrow> own_next rf = of_nat (log_last (lg rf)) + 1"
    and ld: "rf_state rf = ServerStateLeader \<Longrightarrow> (term_of rf, i) \<in> set W"
      "\<And>n. rf_state rf = ServerStateLeader \<Longrightarrow> C (term_of rf, n) \<noteq> None \<Longrightarrow> n \<le> log_last (lg rf)"
    using p by (auto simp: peer_inv_def raft_ok_def)
  from Start_log[OF ok(1) room own(1) st] show ?thesis
  proof (elim disjE exE conjE)
    assume "rf' = rf"
    then show ?thesis using p by (intro exI[of _ C]) (simp add: won_def)
  next
    fix e assume e: "rf_state rf = ServerStateLeader" "Entry_Term e = term_of rf" "term_of rf' = term_of rf"
      "log_base (lg rf') = log_base (lg rf)" "IncludedTerm (lg rf') = IncludedTerm (lg rf)" "log_last (lg rf') = log_last (lg rf) + 1"
      "log_view (lg rf') = (log_view (lg rf))(log_last (lg rf) + 1 \<mapsto> e)" "own_next rf' = of_nat (log_last (lg rf')) + 1"
    let ?k = "(term_of rf, log_last (lg rf) + 1)"
    let ?C = "C(?k \<mapsto> (Entry_norm e, log_term (lg rf) (log_last (lg rf))))"
    have none: "C ?k = None" using ld(2)[OF e(1), of "log_last (lg rf) + 1"] by fastforce
    have "log_from ?C (lg rf')" using log_from_append[OF ok(4,3), of e "lg rf'"] none e by simp
    moreover have "boundary_ok (lg rf')" using ok(2) e(4,5) by (simp add: boundary_ok_def log_base_def word_unat_eq_iff)
    moreover have "n \<le> log_last (lg rf')" if "?C (term_of rf, n) \<noteq> None" for n
      using ld(2)[OF e(1), of n] that e(6) by (cases "n = log_last (lg rf) + 1") auto
    ultimately have "peer_inv (W @ won i rf rf') ?C i rf'"
      using ld(1)[OF e(1)] e(3,8) g p by (auto simp: peer_inv_def sound_def)
    moreover have "C \<subseteq>\<^sub>m ?C" using none by (auto simp: map_le_def)
    moreover have "\<forall>t n. ?C (t, n) = C (t, n) \<or> (t, i) \<in> set W" using ld(1)[OF e(1)] by auto
    ultimately show ?thesis by blast
  qed
qed

lemma own_event_inv:
  assumes p: "peer_inv W C i rf" and C: "\<forall>t n. C (t, n) \<noteq> None \<longrightarrow> t \<in> fst ` set W"
    and ev: "event_ok ev rf" "own_event ev rf" and h: "handle ev rf = Ok rf'"
    and once: "distinct (map fst (W @ won i rf rf'))" and keep: "\<not> replaces ev rf rf'"
  shows "\<exists>C'. C \<subseteq>\<^sub>m C' \<and> (\<forall>t n. C' (t, n) = C (t, n) \<or> (t, i) \<in> set W) \<and> peer_inv (W @ won i rf rf') C' i rf'"
proof -
  have ok: "raft_ok rf" "boundary_ok (lg rf)" "log_from C (lg rf)" "log_wf (lg rf)"
    and own: "rf_state rf = ServerStateLeader \<Longrightarrow> own_next rf = of_nat (log_last (lg rf)) + 1"
    using p by (auto simp: peer_inv_def raft_ok_def)
  have g: "sound rf rf'" by (rule handle_sound[OF ok(1) ev(1) h])
  have same: ?thesis if "boundary_ok (lg rf')" "log_from C (lg rf')" "log_last (lg rf') = log_last (lg rf)"
    "rf_state rf' = ServerStateLeader \<longrightarrow> own_next rf' = of_nat (log_last (lg rf')) + 1"
    using peer_inv_step[OF p C once g that] by (intro exI[of _ C]) simp
  have calm: ?thesis if "calm rf rf'" using that ok own by (intro same) (auto simp: calm_def)
  consider (calm) "quiet ev rf" | (start) command where "ev = EvStart command" | (snapshot) j sn where "ev = EvSnapshot j sn"
    | (install) t j sn where "ev = EvCondInstallSnapshot t j sn"
    using ev(2) by (cases ev) auto
  then show ?thesis
  proof cases
    case calm
    from handle_calm[OF ok(1) calm h] show ?thesis by (rule \<open>calm rf rf' \<Longrightarrow> ?thesis\<close>)
  next
    case (install t j sn)
    then obtain b where "CondInstallSnapshot t j sn rf = Ok (b, rf')" "lg rf' = lg rf" using h keep by auto
    then show ?thesis using CondInstallSnapshot_calm[OF ok(1)] calm by blast
  next
    case (snapshot j sn)
    with h have "Raft_Snapshot j sn rf = Ok rf'" by simp
    note S = Snapshot_log[OF ok(1) this]
    have own': "rf_state rf' = ServerStateLeader \<longrightarrow> own_next rf' = of_nat (log_last (lg rf)) + 1" using S(1) own by simp
    from S(2) show ?thesis
    proof
      assume "lg rf' = lg rf"
      then show ?thesis using ok own' by (intro same) auto
    next
      assume c: "log_base (lg rf) \<le> unat j \<and> IncludedIndex (lg rf') = j \<and> IncludedTerm (lg rf') = term_at (lg rf) j \<and>
        log_last (lg rf') = log_last (lg rf) \<and> log_view (lg rf') = log_view (lg rf) |` {unat j<..}"
      then have "log_from C (lg rf')"
        using term_at_log_term[OF ok(2), of j] by (intro log_from_compact[OF ok(3), of "unat j"]) (auto simp: log_base_def)
      moreover have "boundary_ok (lg rf')" using c by (auto simp: boundary_ok_def term_at_def)
      ultimately show ?thesis using c own' by (intro same) auto
    qed
  next
    case (start command)
    with h obtain r where "Start command rf = Ok (r, rf')" by auto
    from start_inv[OF p C g _ this] ev(1) start show ?thesis by simp
  qed
qed

lemma receive_inv:
  assumes p: "peer_inv W C i rf" and once: "distinct (map fst W)" and w: "wire_inv W C i bs"
    and dec: "AppendEntriesArgs_Unmarshal AppendEntriesArgs_zero bs = (args, None)"
    and ret: "AppendEntries_with (Some AppendEntriesReply_zero) args rf = Ok (r, rf')"
  shows "won i rf rf' = [] \<and> peer_inv W C i rf'"
proof -
  from w obtain args0 a es k where m: "bs = AppendEntriesArgs_enc args0" "length bs < 2 ^ 63" "AEArgs_Args args0 = Some a"
    "(Args_Term a, k) \<in> set W" "k \<noteq> i" "AEArgs_Entries args0 = map Some es"
    "batch_from C (unat (PrevLogIndex args0)) (PrevLogTerm args0) es" unfolding wire_inv_def by blast
  have "AppendEntriesArgs_ok args0" by (simp add: AppendEntriesArgs_ok_def m(6))
  from AppendEntriesArgs_pb.unmarshal_enc[OF this] m(1,2) dec have args: "args = AppendEntriesArgs_norm args0"
    by (simp add: AppendEntriesArgs_Unmarshal_def)
  let ?es = "map Entry_norm es" and ?p = "unat (PrevLogIndex args)"
  have A: "AEArgs_Args args = Some a" "AEArgs_Entries args = map Some ?es" "batch_from C ?p (PrevLogTerm args) ?es"
    using m batch_from_norm[OF m(7)] by (simp_all add: args AppendEntriesArgs_norm_def)
  have ok: "raft_ok rf" "log_wf (lg rf)" using p by (auto simp: peer_inv_def raft_ok_def)
  have batch: "batch_at ?p ?es" using A(3) by (simp add: batch_from_def)
  show ?thesis
  proof (cases "Args_Term a < term_of rf")
    case True
    then show ?thesis using AppendEntries_oldTerm[OF ok(1) A(1) True] ret p by (simp add: won_def)
  next
    case False
    then have le: "term_of rf \<le> Args_Term a" by simp
    note R = AppendEntries_log[OF ok(1) A(1) le A(2) batch ret]
    have "\<forall>e. Some e \<in> set (AEArgs_Entries args) \<longrightarrow> Entry_Index e \<noteq> 0"
      using A(2) batch_at_nonzero[OF batch] by auto
    then have g: "grows rf rf'" by (rule AppendEntries_grows[OF ok(1) _ ret])
    then have wf: "log_wf (lg rf')" by (auto simp: grows_def raft_ok_def)
    have st: "rf_state rf' \<noteq> ServerStateLeader"
    proof
      assume "rf_state rf' = ServerStateLeader"
      then have "rf_state rf = ServerStateLeader" "term_of rf = Args_Term a" using R by auto
      then have "(Args_Term a, i) \<in> set W" using p by (simp add: peer_inv_def)
      then show False using one_winner[OF once m(4)] m(5) by blast
    qed
    have b: "boundary_ok (lg rf)" "log_from C (lg rf)" using p by (simp_all add: peer_inv_def)
    from R have "lg rf' = lg rf \<or> log_base (lg rf) \<le> ?p \<and> ?p \<le> log_last (lg rf) \<and> term_at (lg rf) (PrevLogIndex args) = PrevLogTerm args \<and>
        merged (lg rf) ?p ?es (lg rf') \<and> IncludedTerm (lg rf') = IncludedTerm (lg rf)" by blast
    then have "boundary_ok (lg rf') \<and> log_from C (lg rf')"
    proof
      assume c: "log_base (lg rf) \<le> ?p \<and> ?p \<le> log_last (lg rf) \<and> term_at (lg rf) (PrevLogIndex args) = PrevLogTerm args \<and>
        merged (lg rf) ?p ?es (lg rf') \<and> IncludedTerm (lg rf') = IncludedTerm (lg rf)"
      then have "log_from C (lg rf')"
        using log_from_merged[OF ok(2) wf b(2) A(3)] term_at_log_term[OF b(1), of "PrevLogIndex args"] by simp
      moreover have "log_base (lg rf') = log_base (lg rf)" using c by (simp add: merged_def)
      ultimately show ?thesis using b(1) c by (simp add: boundary_ok_def log_base_def word_unat_eq_iff)
    qed (use b in simp)
    then show ?thesis using st g p by (simp add: peer_inv_def grows_def won_nil)
  qed
qed

lemma cluster_step_inv:
  assumes "cluster_step s s'" "cluster_inv C s" "distinct (map fst (wins s'))" "\<not> installed s'"
  shows "\<exists>C'. cluster_inv C' s'"
proof -
  have once: "distinct (map fst (wins s))" using cluster_step_keeps[OF assms(1)] assms(3) by auto
  from assms show ?thesis
  proof cases
    case (peer_event i ev rf)
    have p: "peer_inv (wins s) C i (peer s i)" and C: "\<forall>t n. C (t, n) \<noteq> None \<longrightarrow> t \<in> fst ` set (wins s)"
      using assms(2) peer_event(2) by (simp_all add: cluster_inv_def)
    from peer_event(1) assms(3,4) have "distinct (map fst (wins s @ won i (peer s i) rf))" "\<not> replaces ev (peer s i) rf" by auto
    from own_event_inv[OF p C peer_event(3-5) this] obtain C' where
      C': "C \<subseteq>\<^sub>m C'" "\<forall>t n. C' (t, n) = C (t, n) \<or> (t, i) \<in> set (wins s)" "peer_inv (wins s @ won i (peer s i) rf) C' i rf" by blast
    have t: "t \<in> fst ` set (wins s)" if "C' (t, n) \<noteq> None" for t n
      using C C'(2) that by (metis fst_conv image_eqI)
    have new: "C' (t, n) \<noteq> None \<Longrightarrow> t \<in> fst ` set (wins s')" "C' (t, n) = C (t, n) \<or> (t, i) \<in> set (wins s)" for t n
      using t[of t n] C'(2) peer_event(1) by (auto simp: image_Un)
    have "cluster_inv C' s'"
    proof (rule cluster_inv_step[OF assms(2) _ _ _ C'(1) once _ new(2,1), where rf = rf and ws = "won i (peer s i) rf"])
      show "peer_inv (wins s') C' i rf" using C'(3) peer_event(1) by simp
    qed (use peer_event(1) in simp_all)
    then show ?thesis by blast
  next
    case (send_entries i server c hb args rf bs)
    have p: "peer_inv (wins s) C i (peer s i)" and C: "\<forall>t n. C (t, n) \<noteq> None \<longrightarrow> t \<in> fst ` set (wins s)"
      using assms(2) send_entries(2) by (simp_all add: cluster_inv_def)
    then have ok: "raft_ok (peer s i)" "log_from C (lg (peer s i))" by (simp_all add: peer_inv_def)
    from send_log[OF ok(1) send_entries(5)] send_from[OF ok send_entries(5)] obtain es where
      a: "rf = peer s i" "rf_state (peer s i) = ServerStateLeader"
        "AEArgs_Args args = Some \<lparr>Args_Term = term_of (peer s i), Args_Leader = rf_me (peer s i)\<rparr>"
        "AEArgs_Entries args = map Some es" "batch_from C (unat (PrevLogIndex args)) (PrevLogTerm args) es" by blast
    have "AppendEntriesArgs_ok args" by (simp add: AppendEntriesArgs_ok_def a(4))
    from AppendEntriesArgs_pb.marshal[OF this] have "bs = AppendEntriesArgs_enc args"
      using send_entries(6) by (simp add: AppendEntriesArgs_Marshal_def)
    moreover have "(term_of (peer s i), i) \<in> set (wins s)" using p a(2) by (simp add: peer_inv_def)
    ultimately have w: "wire_inv (wins s) C (of_nat server) bs"
      unfolding wire_inv_def using a send_entries(4,7) by (intro exI[of _ args] exI[of _ "\<lparr>Args_Term = term_of (peer s i), Args_Leader = rf_me (peer s i)\<rparr>"] exI[of _ es] exI[of _ i]) auto
    have "cluster_inv C s'"
    proof (rule cluster_inv_step[OF assms(2) _ _ _ map_le_refl once, where i = i and rf = rf and ws = "[]"])
      show "t \<in> fst ` set (wins s')" if "C (t, n) \<noteq> None" for t n using C that send_entries(1) by fastforce
    qed (use w p a(1) send_entries(1) in auto)
    then show ?thesis by blast
  next
    case (receive_entries i bs args r rf)
    have C: "\<forall>t n. C (t, n) \<noteq> None \<longrightarrow> t \<in> fst ` set (wins s)" and "peer_inv (wins s) C i (peer s i)" "wire_inv (wins s) C i bs"
      using assms(2) receive_entries(2,3) by (auto simp: cluster_inv_def)
    then have "won i (peer s i) rf = []" "peer_inv (wins s) C i rf" using receive_inv[OF _ once _ receive_entries(4,5)] by blast+
    then have "cluster_inv C s'"
    proof (intro cluster_inv_step[OF assms(2) _ _ _ map_le_refl once, where i = i and rf = rf and ws = "[]"])
      show "t \<in> fst ` set (wins s')" if "C (t, n) \<noteq> None" for t n using C that receive_entries(1) by fastforce
    qed (use receive_entries(1) in auto)
    then show ?thesis by blast
  qed
qed

lemma cluster_run_inv:
  assumes "cluster_run s0 s" "cluster_start s0" "distinct (map fst (wins s))" "\<not> installed s"
  shows "\<exists>C. cluster_inv C s"
  using assms
proof (induction rule: cluster_run.induct)
  case (cluster_refl s)
  then show ?case using cluster_start_inv by blast
next
  case (cluster_more s s1 s2)
  have "distinct (map fst (wins s1))" "\<not> installed s1"
    using cluster_step_keeps[OF cluster_more.hyps(2)] cluster_more.prems by auto
  with cluster_more obtain C where "cluster_inv C s1" by blast
  then show ?case using cluster_step_inv[OF cluster_more.hyps(2)] cluster_more.prems by blast
qed

section \<open>Logs of one history match\<close>

lemma history_logs_match:
  assumes wf: "log_wf l" "log_wf k" and C: "log_from C l" "log_from C k"
    and n: "log_view l n = Some e" "log_view k n = Some e'" "Entry_Term e = Entry_Term e'"
    and m: "m \<le> n" "log_base l \<le> m" "log_base k \<le> m"
  shows "log_term l m = log_term k m \<and> (log_base l < m \<longrightarrow> log_base k < m \<longrightarrow>
    map_option Entry_norm (log_view l m) = map_option Entry_norm (log_view k m))"
  using m n
proof (induction n arbitrary: e e')
  case 0
  then show ?case using log_view_index(2)[OF wf(1) "0.prems"(4)] by simp
next
  case (Suc n)
  have c: "C (Entry_Term e, Suc n) = Some (Entry_norm e, log_term l n)" "C (Entry_Term e', Suc n) = Some (Entry_norm e', log_term k n)"
    using log_fromD[OF C(1) Suc.prems(4)] log_fromD[OF C(2) Suc.prems(5)] by simp_all
  then have eq: "Entry_norm e = Entry_norm e'" "log_term l n = log_term k n" using Suc.prems(6) by simp_all
  show ?case
  proof (cases "m = Suc n")
    case True
    then show ?thesis using Suc.prems(4-6) eq(1) log_term_view by auto
  next
    case False
    then have mn: "m \<le> n" using Suc.prems(1) by simp
    show ?thesis
    proof (cases "m = n")
      case True
      show ?thesis
      proof (intro conjI impI)
        assume b: "log_base l < m" "log_base k < m"
        have "n \<le> log_last l" "n \<le> log_last k"
          using log_view_index(3)[OF wf(1) Suc.prems(4)] log_view_index(3)[OF wf(2) Suc.prems(5)] by simp_all
        then obtain x y where x: "log_view l n = Some x" "log_view k n = Some y"
          using log_view_Some[OF wf(1), of n] log_view_Some[OF wf(2), of n] b True by metis
        then have "Entry_Term x = Entry_Term y" using eq(2) log_term_view by metis
        then show "map_option Entry_norm (log_view l m) = map_option Entry_norm (log_view k m)"
          using log_fromD[OF C(1) x(1)] log_fromD[OF C(2) x(2)] True x by simp
      qed (use eq(2) True in simp)
    next
      case False
      then have b: "log_base l < n" "log_base k < n" using mn Suc.prems(2,3) by simp_all
      have "n \<le> log_last l" "n \<le> log_last k"
        using log_view_index(3)[OF wf(1) Suc.prems(4)] log_view_index(3)[OF wf(2) Suc.prems(5)] by simp_all
      then obtain x y where x: "log_view l n = Some x" "log_view k n = Some y"
        using log_view_Some[OF wf(1) b(1)] log_view_Some[OF wf(2) b(2)] by metis
      then have "Entry_Term x = Entry_Term y" using eq(2) log_term_view by metis
      then show ?thesis using Suc.IH[OF mn Suc.prems(2,3) x] by simp
    qed
  qed
qed

lemma cluster_logs_match:
  assumes "cluster_run s0 s" "cluster_start s0" "distinct (map fst (wins s))" "\<not> installed s"
    and "unat i < members s" "unat j < members s"
    and n: "log_view (lg (peer s i)) n = Some e" "log_view (lg (peer s j)) n = Some e'" "Entry_Term e = Entry_Term e'"
    and m: "m \<le> n" "log_base (lg (peer s i)) \<le> m" "log_base (lg (peer s j)) \<le> m"
  shows "log_term (lg (peer s i)) m = log_term (lg (peer s j)) m \<and>
    (log_base (lg (peer s i)) < m \<longrightarrow> log_base (lg (peer s j)) < m \<longrightarrow>
      map_option Entry_norm (log_view (lg (peer s i)) m) = map_option Entry_norm (log_view (lg (peer s j)) m))"
proof -
  obtain C where "cluster_inv C s" using cluster_run_inv[OF assms(1-4)] by blast
  then have "log_wf (lg (peer s k)) \<and> log_from C (lg (peer s k))" if "unat k < members s" for k
    using that by (auto simp: cluster_inv_def peer_inv_def raft_ok_def)
  then show ?thesis using history_logs_match[OF _ _ _ _ n m, of C] assms(5,6) by blast
qed

lemma cluster_run_ok:
  assumes "cluster_run s0 s" "cluster_start s0" "distinct (map fst (wins s))" "\<not> installed s" "unat i < members s"
  shows "raft_ok (peer s i) \<and> boundary_ok (lg (peer s i)) \<and> (\<exists>C. log_from C (lg (peer s i)))"
  using cluster_run_inv[OF assms(1-4)] assms(5) unfolding cluster_inv_def peer_inv_def by metis

text \<open>A follower that has accepted the request holds an entry of the leader's term at the leader's last index.\<close>

lemma accepted_last:
  assumes L: "raft_ok L" "callAppendEntries_send c server False L = Ok (Inr args, L')"
    and F: "raft_ok F" "boundary_ok (lg F)" "AppendEntries_with (Some AppendEntriesReply_zero) (AppendEntriesArgs_norm args) F = Ok (r, F')"
    and r: "AEReply_Status r = Success" and above: "log_base (lg F') < log_last (lg L)" "log_base (lg L) < log_last (lg L)"
  shows "\<exists>e e'. log_view (lg L) (log_last (lg L)) = Some e \<and> log_view (lg F') (log_last (lg L)) = Some e' \<and> Entry_Term e = Entry_Term e'"
proof -
  let ?l = "lg L" and ?p = "unat (PrevLogIndex args)" and ?args = "AppendEntriesArgs_norm args"
  have wf: "log_wf ?l" "log_wf (lg F)" using L(1) F(1) by (auto simp: raft_ok_def)
  note S = send_log[OF L]
  define es where "es = map (the \<circ> log_view ?l) [?p + 1..<log_last ?l + 1]"
  have view: "log_view ?l n = Some (the (log_view ?l n))" "unat (Entry_Index (the (log_view ?l n))) = n" if "?p + 1 \<le> n" "n \<le> log_last ?l" for n
    using that S log_view_Some[OF wf(1), of n] log_view_index(1)[OF wf(1), of n]
    by (metis Suc_eq_plus1 Suc_le_lessD le_less_trans option.sel)+
  have es: "AEArgs_Entries args = map Some es" using S view(1) by (auto simp: es_def simp del: upt_Suc)
  have len: "?p + length es = log_last ?l" using S by (simp add: es_def)
  have batch: "batch_at ?p (map Entry_norm es)"
    using view(2) S by (auto simp: es_def batch_at_def simp del: upt_Suc)
  have A: "AEArgs_Args ?args = Some \<lparr>Args_Term = term_of L, Args_Leader = rf_me L\<rparr>" "AEArgs_Entries ?args = map Some (map Entry_norm es)"
    "PrevLogIndex ?args = PrevLogIndex args" "PrevLogTerm ?args = PrevLogTerm args"
    using conjunct1[OF conjunct2[OF conjunct2[OF S]]] es by (simp_all add: AppendEntriesArgs_norm_def)
  have le: "term_of F \<le> term_of L"
  proof (rule ccontr)
    assume "\<not> term_of F \<le> term_of L"
    then show False using AppendEntries_oldTerm[OF F(1) A(1), of AppendEntriesReply_zero] F(3) r by (auto simp: Success_def OldTerm_def)
  qed
  from AppendEntries_log[OF F(1) A(1) _ A(2) _ F(3)] le batch A r have
    m: "log_base (lg F) \<le> ?p" "?p \<le> log_last (lg F)" "term_at (lg F) (PrevLogIndex args) = PrevLogTerm args"
      "merged (lg F) ?p (map Entry_norm es) (lg F')" by auto
  obtain e where e: "log_view ?l (log_last ?l) = Some e" using log_view_Some[OF wf(1) above(2) order_refl] by blast
  show ?thesis
  proof (cases "es = []")
    case True
    then have p: "?p = log_last ?l" using len by simp
    have "log_base (lg F) < ?p" using m(1,4) above(1) p by (simp add: merged_def)
    from log_view_Some[OF wf(2) this m(2)] obtain x where x: "log_view (lg F) ?p = Some x" by blast
    then have "Entry_Term x = Entry_Term e"
      using m(3) term_at_log_term[OF F(2) m(1)] log_term_view[OF x] log_term_view[OF e] S p by simp
    moreover have "log_view (lg F') ?p = Some x" using m(4) x by (simp add: merged_def)
    ultimately show ?thesis using e p by auto
  next
    case False
    let ?i = "length es - 1"
    have i: "?i < length es" "?p + 1 + ?i = log_last ?l" using False len by (cases es; simp)+
    then obtain e' where "log_view (lg F') (log_last ?l) = Some e'" "Entry_Term e' = Entry_Term (es ! ?i)"
      using m(4) unfolding merged_def by (metis Entry_norm_simps(1) length_map nth_map)
    moreover have "es ! ?i = e" using i view(1)[of "log_last ?l"] e by (simp add: es_def del: upt_Suc)
    ultimately show ?thesis using e by auto
  qed
qed

end
