(* ===== verification/Raft_Cluster_Properties.thy ===== *)
theory Raft_Cluster_Properties
  imports Raft_Cluster
begin

text \<open>
  The log matching property of Raft, of the group of peers of theory Raft_Cluster, with a run of three peers as
  an instance: peer 1 is elected, takes a command and replicates it to peer 0.
\<close>

text \<open>
  C2. Log matching, given that elections are safe: take any run of a group in which no term has been won twice and no
  snapshot of another peer has replaced a log; the code ensures neither by itself, so both are conditions. When
  two peers then hold entries of the same term at the same index, up to that index their logs hold the same entries
  (as they look after a trip over the wire), wherever both still hold one, and the term a
  peer keeps for the end of its compacted part is the term the other has there; whatever requests were lost,
  repeated or reordered, however often logs were cut back or compacted, and whatever old elections were started.
  Handlers have an allocated reply, replies come from other peers, crashed peers stay away, and commands arrive
  while an index is left.
\<close>

theorem logs_match:
  assumes "cluster_start s0" "cluster_run s0 s"
    and once: "distinct (map fst (wins s))" and no_snapshot: "\<not> installed s"
    and peers: "unat i < members s" "unat j < members s"
    and n: "log_view (lg (peer s i)) n = Some e" "log_view (lg (peer s j)) n = Some e'" "Entry_Term e = Entry_Term e'"
    and m: "m \<le> n" "log_base (lg (peer s i)) \<le> m" "log_base (lg (peer s j)) \<le> m"
  shows "log_term (lg (peer s i)) m = log_term (lg (peer s j)) m \<and>
    (log_base (lg (peer s i)) < m \<longrightarrow> log_base (lg (peer s j)) < m \<longrightarrow>
      map_option Entry_norm (log_view (lg (peer s i)) m) = map_option Entry_norm (log_view (lg (peer s j)) m))"
  by (rule cluster_logs_match[OF assms(2,1,3-)])

definition fresh_peer :: "uint64 \<Rightarrow> Raft" where
  "fresh_peer i = saved (Raft_zero\<lparr>rf_peers := 3, rf_me := i,
     hardState := Some \<lparr>HardState_Term = 0, VotedFor = 0, Commit = 0\<rparr>, stateLog := Some 0, rf_log := Some 0,
     heap := [\<lparr>Log_Entries = [], IncludedIndex = 0, IncludedTerm = 0\<rparr>]\<rparr>)"

definition fresh_group :: cluster where
  "fresh_group = \<lparr>members = 3, peer = fresh_peer, net = {}, wins = [], installed = False\<rparr>"

definition first_entry :: Entry where
  "first_entry = \<lparr>Entry_Term = 1, Entry_Index = 1, Entry_Data = Some [7]\<rparr>"

definition first_request :: AppendEntriesArgs where
  "first_request = \<lparr>AEArgs_Args = Some \<lparr>Args_Term = 1, Args_Leader = 1\<rparr>, AEArgs_Entries = [Some first_entry],
     CommitTerm = 0, LeaderCommit = 0, PrevLogIndex = 0, PrevLogTerm = 0\<rparr>"

lemma fresh_fields [simp]:
  "hs (fresh_peer i) = \<lparr>HardState_Term = 0, VotedFor = 0, Commit = 0\<rparr>" "rf_me (fresh_peer i) = i" "rf_peers (fresh_peer i) = 3"
  "rf_state (fresh_peer i) = ServerStateFollower" "term_of (fresh_peer i) = 0" "commit_of (fresh_peer i) = 0"
  "lg (fresh_peer i) = \<lparr>Log_Entries = [], IncludedIndex = 0, IncludedTerm = 0\<rparr>"
  by (simp_all add: fresh_peer_def term_of_def commit_of_def, simp_all add: hs_def lg_def Raft_zero_def)

lemma empty_log [simp]:
  "log_wf \<lparr>Log_Entries = [], IncludedIndex = 0, IncludedTerm = 0\<rparr>"
  "log_base \<lparr>Log_Entries = [], IncludedIndex = 0, IncludedTerm = 0\<rparr> = 0"
  "log_last \<lparr>Log_Entries = [], IncludedIndex = 0, IncludedTerm = 0\<rparr> = 0"
  by (simp_all add: log_wf_iff log_base_def log_last_def)

lemma fresh_ok: "unat i < 3 \<Longrightarrow> raft_ok (fresh_peer i)"
proof -
  assume i: "unat i < 3"
  have "peer_ok (fresh_peer i)" by (simp add: peer_ok_def del: peer_okD) (simp add: fresh_peer_def saved_def Raft_zero_def)
  then show ?thesis using i by (simp add: raft_ok_def leader_ok_def) (simp add: fresh_peer_def)
qed

lemma fresh_start: "cluster_start fresh_group"
  by (simp add: cluster_start_def fresh_group_def fresh_ok)

lemma first_leader:
  "\<exists>rf1 rf. handle (EvLaunchElection 1) (fresh_peer 1) = Ok rf1 \<and> rf_state rf1 \<noteq> ServerStateLeader \<and>
     handle (EvVote (Some \<lparr>RVReply_Term = 1, VoteGranted = True\<rparr>)) rf1 = Ok rf \<and> raft_ok rf \<and> rf_state rf = ServerStateLeader \<and>
     term_of rf = 1 \<and> commit_of rf = 0 \<and> rf_me rf = 1 \<and> lg rf = lg (fresh_peer 1) \<and> nextIndex rf = [1, 1, 1]"
proof -
  have ok: "raft_ok (fresh_peer 1)" by (rule fresh_ok) simp
  from launchElection_spec[OF ok, of 1] obtain rf1 where 1: "launchElection 1 (fresh_peer 1) = Ok rf1" "raft_ok rf1"
    "hs rf1 = \<lparr>HardState_Term = 1, VotedFor = 1, Commit = 0\<rparr>" "lg rf1 = lg (fresh_peer 1)" "rf_state rf1 = ServerStateCandidate"
    "votes rf1 = 1" "rf_me rf1 = 1" "rf_peers rf1 = 3" by auto
  let ?rf = "rf1\<lparr>votes := 2\<rparr>"
  have "peer_ok ?rf" "unat (rf_me ?rf) < rf_peers ?rf" using 1(2,7,8) by (auto simp: raft_ok_def)
  from convertToLeader_spec[OF this] 1 obtain rf where
    "convertToLeader ?rf = Ok rf" "raft_ok rf" "rf_state rf = ServerStateLeader" "term_of rf = 1" "commit_of rf = 0"
    "rf_me rf = 1" "lg rf = lg (fresh_peer 1)" "nextIndex rf = [1, 1, 1]"
    by (auto simp: term_of_def commit_of_def numeral_3_eq_3)
  with 1 show ?thesis by (intro exI[of _ rf1] exI[of _ rf]) (simp add: receiveVote_def Let_def)
qed

lemma first_send:
  assumes rf: "raft_ok rf" "rf_state rf = ServerStateLeader" "term_of rf = 1" "commit_of rf = 0" "rf_me rf = 1" "nextIndex rf = [1, 2, 1]"
    "log_base (lg rf) = 0" "IncludedTerm (lg rf) = 0" "log_last (lg rf) = 1" "log_view (lg rf) 1 = Some first_entry"
  shows "callAppendEntries_send c 0 False rf = Ok (Inr first_request, rf)"
proof -
  have ii: "IncludedIndex (lg rf) = 0" using rf(7) by (simp add: log_base_def unat_eq_0)
  have v: "map (log_view (lg rf)) [unat 1..<log_last (lg rf) + 1] = [Some first_entry]" using rf(9,10) by simp
  have "newAppendEntriesArgs 0 False rf = Ok first_request"
    using newAppendEntriesArgs_spec[OF rf(1), of 0 1 False] rf ii v
    by (auto simp: first_request_def term_at_def map_eq_Cons_conv)
  then show ?thesis using rf ii by (simp add: callAppendEntries_send_def indexInt_def LastIncludedIndex_def raft_ok_def)
qed

lemma first_command:
  assumes "raft_ok rf" "rf_state rf = ServerStateLeader" "term_of rf = 1" "commit_of rf = 0" "rf_me rf = 1"
    "lg rf = lg (fresh_peer 1)" "nextIndex rf = [1, 1, 1]"
  shows "\<exists>rf'. handle (EvStart (Some [7])) rf = Ok rf' \<and> rf_state rf' = ServerStateLeader \<and> term_of rf' = 1 \<and>
    callAppendEntries_send c 0 False rf' = Ok (Inr first_request, rf') \<and> log_view (lg rf') 1 = Some first_entry"
proof -
  from Start_appends[OF assms(1,2), of "Some [7]"] assms obtain rf' where s: "Start (Some [7]) rf = Ok ((1, 1, True), rf')"
    "raft_ok rf'" "rf_state rf' = ServerStateLeader" "nextIndex rf' = [1, 2, 1]"
    "log_view (lg rf') = (log_view (lg rf))(1 \<mapsto> \<lparr>Entry_Term = 1, Entry_Index = 1, Entry_Data = Some [7]\<rparr>)" by auto
  have "rf' \<noteq> rf" using s(4) assms(7) by auto
  with Start_log[OF assms(1) _ _ s(1)] assms have l: "commit_of rf' = 0" "term_of rf' = 1" "log_base (lg rf') = 0" "IncludedTerm (lg rf') = 0" "log_last (lg rf') = 1"
    by (auto simp: own_next_def)
  moreover have "rf_me rf' = 1" using Start_grows[OF assms(1) _ s(1)] assms(5,6) by (simp add: grows_def)
  ultimately have "callAppendEntries_send c 0 False rf' = Ok (Inr first_request, rf')"
    using s l by (intro first_send) (simp_all add: first_entry_def)
  then show ?thesis using s l by (intro exI[of _ rf']) (simp add: first_entry_def)
qed

lemma first_bytes:
  "AppendEntriesArgs_Marshal (Some first_request) = Ok (AppendEntriesArgs_enc first_request)"
  "length (AppendEntriesArgs_enc first_request) < 2 ^ 63"
  "AppendEntriesArgs_Unmarshal AppendEntriesArgs_zero (AppendEntriesArgs_enc first_request) = (first_request, None)"
proof -
  have ok: "AppendEntriesArgs_ok first_request" by (simp add: AppendEntriesArgs_ok_def first_request_def)
  show "AppendEntriesArgs_Marshal (Some first_request) = Ok (AppendEntriesArgs_enc first_request)"
    unfolding AppendEntriesArgs_Marshal_def using ok by (rule AppendEntriesArgs_pb.marshal)
  have "AppendEntriesArgs_Size (Some first_request) = 15" by code_simp
  then show l: "length (AppendEntriesArgs_enc first_request) < 2 ^ 63" using AppendEntriesArgs_size[OF ok] by simp
  have "AppendEntriesArgs_norm first_request = first_request"
    by (simp add: AppendEntriesArgs_norm_def first_request_def Entry_norm_def first_entry_def normBytes_def)
  then show "AppendEntriesArgs_Unmarshal AppendEntriesArgs_zero (AppendEntriesArgs_enc first_request) = (first_request, None)"
    unfolding AppendEntriesArgs_Unmarshal_def using AppendEntriesArgs_pb.unmarshal_enc[OF ok l] by simp
qed

lemma first_receive:
  "\<exists>r rf e. AppendEntries_with (Some AppendEntriesReply_zero) first_request (fresh_peer 0) = Ok (r, rf) \<and>
     AEReply_Status r = Success \<and> log_view (lg rf) 1 = Some e \<and> Entry_Term e = 1 \<and> log_base (lg rf) = 0 \<and>
     rf_state rf \<noteq> ServerStateLeader"
proof -
  have ok: "raft_ok (fresh_peer 0)" by (rule fresh_ok) simp
  have "\<exists>r rf'. AppendEntries_with (Some AppendEntriesReply_zero) first_request (fresh_peer 0) = Ok (r, rf') \<and>
      grows (fresh_peer 0) rf' \<and> term_of rf' = 1 \<and> leaderId rf' = 1 \<and> merged (lg (fresh_peer 0)) (unat 0) [first_entry] (lg rf') \<and>
      commit_of rf' = followed_commit first_request (lg rf') (commit_of (fresh_peer 0)) \<and>
      r = AppendEntriesReply_zero\<lparr>AEReply_Term := term_of (fresh_peer 0), AEReply_Status := Success\<rparr>"
    using AppendEntries_accept[OF ok, of first_request "\<lparr>Args_Term = 1, Args_Leader = 1\<rparr>" "[first_entry]"]
    by (simp add: first_request_def first_entry_def batch_at_def term_at_def)
  then obtain r rf' where rf': "AppendEntries_with (Some AppendEntriesReply_zero) first_request (fresh_peer 0) = Ok (r, rf')"
    "AEReply_Status r = Success" "merged (lg (fresh_peer 0)) (unat 0) [first_entry] (lg rf')" by auto
  have "rf_state rf' \<noteq> ServerStateLeader"
    using AppendEntries_log[OF ok, of first_request "\<lparr>Args_Term = 1, Args_Leader = 1\<rparr>" "[first_entry]"] rf'(1)
    by (auto simp: first_request_def first_entry_def batch_at_def)
  with rf' show ?thesis by (auto simp: merged_def first_entry_def)
qed

lemma first_ready:
  "\<exists>s. cluster_run fresh_group s \<and> members s = 3 \<and> wins s = [(1, 1)] \<and> \<not> installed s \<and> net s = {} \<and> peer s 0 = fresh_peer 0 \<and>
     callAppendEntries_send 0 0 False (peer s 1) = Ok (Inr first_request, peer s 1) \<and>
     log_view (lg (peer s 1)) 1 = Some first_entry"
proof -
  let ?s0 = "fresh_group"
  from first_leader obtain rf1 rf2 where rf1: "handle (EvLaunchElection 1) (fresh_peer 1) = Ok rf1" "rf_state rf1 \<noteq> ServerStateLeader"
    and rf2: "handle (EvVote (Some \<lparr>RVReply_Term = 1, VoteGranted = True\<rparr>)) rf1 = Ok rf2" "raft_ok rf2" "rf_state rf2 = ServerStateLeader"
      "term_of rf2 = 1" "commit_of rf2 = 0" "rf_me rf2 = 1" "lg rf2 = lg (fresh_peer 1)" "nextIndex rf2 = [1, 1, 1]" by blast
  from first_command[OF rf2(2-8), of 0] obtain rf3 where rf3: "handle (EvStart (Some [7])) rf2 = Ok rf3" "rf_state rf3 = ServerStateLeader"
    "term_of rf3 = 1" "callAppendEntries_send 0 0 False rf3 = Ok (Inr first_request, rf3)" "log_view (lg rf3) 1 = Some first_entry" by blast
  let ?step = "\<lambda>s ev rf. s\<lparr>peer := (peer s)(1 := rf), wins := wins s @ won 1 (peer s 1) rf,
      installed := installed s \<or> replaces ev (peer s 1) rf\<rparr>"
  let ?vote = "EvVote (Some \<lparr>RVReply_Term = 1, VoteGranted = True\<rparr>)"
  let ?s1 = "?step ?s0 (EvLaunchElection 1) rf1"
  let ?s2 = "?step ?s1 ?vote rf2"
  let ?s3 = "?step ?s2 (EvStart (Some [7])) rf3"
  have 1: "cluster_step ?s0 ?s1" by (rule peer_event[where ev = "EvLaunchElection 1"]) (use rf1 in \<open>simp_all add: fresh_group_def\<close>)
  have 2: "cluster_step ?s1 ?s2"
    by (rule peer_event[where ev = ?vote]) (use rf1 rf2 in \<open>simp_all add: fresh_group_def\<close>)
  have 3: "cluster_step ?s2 ?s3"
    by (rule peer_event[where ev = "EvStart (Some [7])"]) (use rf1 rf2 rf3 in \<open>simp_all add: fresh_group_def\<close>)
  have "cluster_run ?s0 ?s3" by (rule cluster_more[OF cluster_more[OF cluster_more[OF cluster_refl 1] 2] 3])
  then show ?thesis using rf1(2) rf2(3,4) rf3(2-5) by (intro exI[of _ ?s3]) (simp add: fresh_group_def won_def)
qed

lemma first_run:
  "\<exists>s e e'. cluster_run fresh_group s \<and> members s = 3 \<and> wins s = [(1, 1)] \<and> \<not> installed s \<and> log_view (lg (peer s 1)) 1 = Some e \<and>
     log_view (lg (peer s 0)) 1 = Some e' \<and> Entry_Term e = 1 \<and> Entry_Term e' = 1"
proof -
  let ?bs = "AppendEntriesArgs_enc first_request"
  from first_ready obtain s where s: "cluster_run fresh_group s" "members s = 3" "peer s 0 = fresh_peer 0" "wins s = [(1, 1)]" "\<not> installed s"
    "callAppendEntries_send 0 0 False (peer s 1) = Ok (Inr first_request, peer s 1)" "log_view (lg (peer s 1)) 1 = Some first_entry" by blast
  from first_receive obtain r rf e where rf: "AppendEntries_with (Some AppendEntriesReply_zero) first_request (fresh_peer 0) = Ok (r, rf)"
    "log_view (lg rf) 1 = Some e" "Entry_Term e = 1" "rf_state rf \<noteq> ServerStateLeader" by blast
  let ?s1 = "s\<lparr>peer := (peer s)(1 := peer s 1), net := {(of_nat 0, ?bs)} \<union> net s\<rparr>"
  let ?s2 = "?s1\<lparr>peer := (peer ?s1)(0 := rf), wins := wins ?s1 @ won 0 (peer ?s1 0) rf\<rparr>"
  have 1: "cluster_step s ?s1"
    by (rule send_entries[where c = 0 and hb = False and args = first_request]) (use s first_bytes in simp_all)
  have 2: "cluster_step ?s1 ?s2"
    by (rule receive_entries[where args = first_request and bs = ?bs and r = r]) (use s rf first_bytes in simp_all)
  have "cluster_run fresh_group ?s2" by (rule cluster_more[OF cluster_more[OF s(1) 1] 2])
  then show ?thesis using s rf(2-4)
    by (intro exI[of _ ?s2] exI[of _ first_entry] exI[of _ e]) (simp add: first_entry_def won_nil)
qed

lemma logs_match_witness:
  "\<exists>s e e'. cluster_run fresh_group s \<and> log_view (lg (peer s 1)) 1 = Some e \<and> log_view (lg (peer s 0)) 1 = Some e' \<and>
     Entry_norm e = Entry_norm e'"
proof -
  from first_run obtain s e e' where s: "cluster_run fresh_group s" "members s = 3" "wins s = [(1, 1)]" "\<not> installed s" "log_view (lg (peer s 1)) 1 = Some e"
    "log_view (lg (peer s 0)) 1 = Some e'" "Entry_Term e = Entry_Term e'" by auto
  have "log_base (lg (peer s k)) < 1" if "log_view (lg (peer s k)) 1 = Some x" for k x
    using that by (auto simp: log_view_def split: if_splits)
  then have b: "log_base (lg (peer s 1)) < 1" "log_base (lg (peer s 0)) < 1" using s(5,6) by blast+
  then have "map_option Entry_norm (log_view (lg (peer s 1)) 1) = map_option Entry_norm (log_view (lg (peer s 0)) 1)"
    using logs_match[OF fresh_start s(1) _ s(4) _ _ s(5-7), of 1] s(2,3) by simp
  then show ?thesis using s by auto
qed

text \<open>
  C3. Replication end to end, given that elections are safe: in any state a group can reach without a term won
  twice and without a log replaced by a snapshot of another peer, when a leader's request reaches another peer
  over the wire and is answered with Success, that peer's log holds afterwards exactly the leader's entries,
  at every index up to the leader's last one that neither has compacted away, however
  far apart the logs were before. The runs are those of C2, with the same conditions.
\<close>

theorem exchange_copies_log:
  assumes "cluster_start s0" "cluster_run s0 s"
    and once: "distinct (map fst (wins s))" and no_snapshot: "\<not> installed s"
    and peers: "unat i < members s" "server < members s" "of_nat server \<noteq> i"
    and send: "callAppendEntries_send c server False (peer s i) = Ok (Inr args, rf)"
      "AppendEntriesArgs_Marshal (Some args) = Ok bs" "length bs < 2 ^ 63"
    and receive: "AppendEntriesArgs_Unmarshal AppendEntriesArgs_zero bs = (args', None)"
      "AppendEntries_with (Some AppendEntriesReply_zero) args' (peer s (of_nat server)) = Ok (r, rf')" "AEReply_Status r = Success"
    and m: "log_base (lg (peer s i)) < m" "log_base (lg rf') < m" "m \<le> log_last (lg (peer s i))"
  shows "map_option Entry_norm (log_view (lg rf') m) = map_option Entry_norm (log_view (lg (peer s i)) m)"
proof -
  let ?j = "of_nat server :: uint64"
  have j: "unat ?j < members s" using peers(2) mod_less_eq_dividend[of server "2 ^ 64"] by (simp add: unat_of_nat)
  have ok: "raft_ok (peer s i)" "raft_ok (peer s ?j)" "boundary_ok (lg (peer s ?j))"
    and "\<exists>C. log_from C (lg (peer s i))" using cluster_run_ok[OF assms(2,1) once no_snapshot] peers(1) j by auto
  then obtain es where es: "AEArgs_Entries args = map Some es" using send_from[OF ok(1) _ send(1)] by blast
  have rf: "rf = peer s i" using send_log[OF ok(1) send(1)] by blast
  have a: "AppendEntriesArgs_ok args" by (simp add: AppendEntriesArgs_ok_def es)
  have bs: "bs = AppendEntriesArgs_enc args" using AppendEntriesArgs_pb.marshal[OF a] send(2) by (simp add: AppendEntriesArgs_Marshal_def)
  then have args': "args' = AppendEntriesArgs_norm args"
    using AppendEntriesArgs_pb.unmarshal_enc[OF a] send(3) receive(1) by (simp add: AppendEntriesArgs_Unmarshal_def)
  let ?s1 = "s\<lparr>peer := (peer s)(i := rf), net := {(?j, bs)} \<union> net s\<rparr>"
  let ?s2 = "?s1\<lparr>peer := (peer ?s1)(?j := rf'), wins := wins ?s1 @ won ?j (peer ?s1 ?j) rf'\<rparr>"
  have 1: "cluster_step s ?s1" by (rule send_entries[OF peers send])
  have 2: "cluster_step ?s1 ?s2"
    using j peers(3) rf by (intro receive_entries[OF _ _ receive(1)]) (use receive(2) in auto)
  have "cluster_run s0 ?s1" using assms(2) 1 cluster_more by blast
  then obtain C where "cluster_inv C ?s1" using cluster_run_inv[OF _ assms(1), of ?s1] once no_snapshot by auto
  then have p1: "peer_inv (wins s) C ?j (peer s ?j)" "wire_inv (wins s) C ?j bs" using j peers(3) by (auto simp: cluster_inv_def)
  have "won ?j (peer ?s1 ?j) rf' = []" using receive_inv[OF p1(1) once p1(2) receive(1,2)] peers(3) by simp
  then have s2: "distinct (map fst (wins ?s2))" "\<not> installed ?s2" using once no_snapshot by simp_all
  have run: "cluster_run s0 ?s2" using \<open>cluster_run s0 ?s1\<close> 2 cluster_more by blast
  have "log_base (lg rf') < log_last (lg (peer s i))" "log_base (lg (peer s i)) < log_last (lg (peer s i))" using m by auto
  from accepted_last[OF ok(1) send(1) ok(2,3) receive(2)[unfolded args'] receive(3) this] obtain e e' where
    e: "log_view (lg (peer s i)) (log_last (lg (peer s i))) = Some e" "log_view (lg rf') (log_last (lg (peer s i))) = Some e'"
      "Entry_Term e = Entry_Term e'" by blast
  have p: "peer ?s2 i = peer s i" "peer ?s2 ?j = rf'" "members ?s2 = members s" using peers(3) rf by auto
  show ?thesis
    using cluster_logs_match[OF run assms(1) s2, of i ?j "log_last (lg (peer s i))" e e' m] e m j peers(1) unfolding p by simp
qed

lemma exchange_copies_log_witness:
  "\<exists>rf' r. AppendEntries_with (Some AppendEntriesReply_zero) first_request (fresh_peer 0) = Ok (r, rf') \<and>
     map_option Entry_norm (log_view (lg rf') 1) = Some first_entry"
proof -
  from first_ready obtain s where s: "cluster_run fresh_group s" "members s = 3" "peer s 0 = fresh_peer 0" "wins s = [(1, 1)]" "\<not> installed s"
    "callAppendEntries_send 0 0 False (peer s 1) = Ok (Inr first_request, peer s 1)" "log_view (lg (peer s 1)) 1 = Some first_entry" by blast
  from first_receive obtain r rf where rf: "AppendEntries_with (Some AppendEntriesReply_zero) first_request (fresh_peer 0) = Ok (r, rf)"
    "AEReply_Status r = Success" "log_base (lg rf) = 0" by blast
  have l: "log_base (lg (peer s 1)) < 1" "1 \<le> log_last (lg (peer s 1))"
    using s(7) by (auto simp: log_view_def split: if_splits)
  have "map_option Entry_norm (log_view (lg rf) 1) = map_option Entry_norm (log_view (lg (peer s 1)) 1)"
    using exchange_copies_log[OF fresh_start s(1) _ s(5) _ _ _ s(6) first_bytes, of r rf 1] s(2-4) rf l by simp
  moreover have "Entry_norm first_entry = first_entry" by (simp add: Entry_norm_def first_entry_def normBytes_def)
  ultimately show ?thesis using rf s(7) by (intro exI[of _ rf] exI[of _ r]) simp
qed

end
