(* ===== verification/Spec2Isabelle.thy ===== *)
theory Spec2Isabelle
  imports Raft_Properties Codec_Properties Session_Properties Shardctl_Properties Shardctl_Client KV_Properties KV_Monitors Sharding_Properties Service_Properties
    Raft_Cluster_Properties
begin

text \<open>
  A verification development for yqkv (github.com/wangyuqi0706/yqkv), a sharded key/value store
  replicated with Raft, written in Go.

  \<^bold>\<open>The program.\<close> A Raft peer (package raft) keeps a log of commands in agreement with its group and
  hands committed entries to the service above it as messages on a channel. Two services sit on it.
  The shard controller (package shardctl) keeps the numbered history of configurations, which say
  what group serves which shard. A group of store servers (package server) keeps the shards it is
  responsible for, fetches configurations from the controller and moves shards to and from other
  groups. Both services guard themselves against repeated requests with a table of client sessions
  (package session). Commands, replies, the peers' messages and the persistent state are protocol
  buffers with generated codecs.

  \<^bold>\<open>The theories.\<close> Prelude and wire format:
  \<^item> Go_Prelude: machine integers, the outcome of a Go call (\<open>Ok\<close> or a panic), checked indexing and
    slicing, \<^verbatim>\<open>sort.Search\<close> and its correctness.
  \<^item> Wire, Wire_Laws: the building blocks of the generated codecs (varints, tags, sized buffers,
    skipping unknown fields) and their laws. Wire_Containers: those the services use besides (strings,
    packed integers, maps).
  \<^item> Message_Codec: the contract of a message type as the locale \<open>pb_codec\<close>, which \<open>pb_message\<close> derives from
    what one generated field handler does. Raft_Messages: the messages of raft/raftpb/raft.pb.go with Size,
    Marshal, MarshalTo and Unmarshal; Raft_Codec interprets the contract for every one; Codec_Properties.
    Service_Messages: the same for sessionpb, shardctlpb and yqkvpb; Service_Codec and Service_Codec_Maps
    the interpretations.

  Package raft:
  \<^item> Raft_Log: raft_log.go; the locale \<open>replicated_log\<close> is its contract, interpreted on the code's
    operations. Persister: persister.go; locale \<open>stable_store\<close>.
  \<^item> Raft: raft.go. The record \<open>Raft\<close> is the struct; each method that runs under \<^verbatim>\<open>rf.mu\<close> is one function,
    methods that release the lock around a call are split there (\<open>callAppendEntries_send\<close> and
    \<open>callAppendEntries_receive\<close>, and so on). The struct has two pointers to a \<^verbatim>\<open>pb.Log\<close>, so the logs live in a small
    heap. \<open>X_with\<close> is the body of the remote handler \<open>X\<close> for a given reply pointer.
  \<^item> Raft_Laws: the invariant \<open>raft_ok\<close> (log well formed, pointers equal, leader arrays present, storage in
    step) and the effect of each method. Raft_Machine: the peer as a state machine, \<open>handle\<close> for one
    event and \<open>run\<close> for reachability; an election may be for any term, as in the code. Raft_Properties.
  \<^item> Raft_Cluster: a group of peers, with their requests for replication as bytes on a network that loses,
    repeats and reorders them (\<open>cluster_step\<close>), and the invariant from which the logs of a group match.
    Raft_Cluster_Properties.

  Services:
  \<^item> Session: session/session.go; the locale \<open>session_table\<close> states what a service relies on, proves that
    a service it guards executes every request at most once, and is interpreted on the code's table.
    Session_Properties.
  \<^item> Shardctl_Config: shardctl/config.go. Shardctl_Server: shardctl/server.go (\<open>ctl_run\<close> is one message of
    the loop \<^verbatim>\<open>run\<close>, \<open>ctl_Execute_begin\<close> and \<open>ctl_Execute_end\<close> the two halves of \<^verbatim>\<open>Execute\<close> around its wait).
    Shardctl_Laws: invariant of the history, independence of map orders, \<open>ctl_run\<close> as a guarded service.
    Shardctl_Properties. Shardctl_Client: shardctl/client.go and its property.
  \<^item> Shard_Store: server/shard.go; its interface KV is the locale \<open>kv_store\<close>. KV_Server: server/server.go
    (\<open>kv_apply\<close> is \<^verbatim>\<open>apply\<close>, \<open>kv_command\<close> its switch, \<open>kv_run\<close> one message of the loop). KV_Laws: the invariant
    \<open>kv_ok\<close> and its preservation. KV_Migration: the shards as one map, reconfiguration, transfer.
    KV_Properties. KV_Monitors: what the monitors and handlers propose, call and answer.

  The groups together:
  \<^item> Migration_Protocol is an abstract specification of the groups of store servers: one map from keys to
    values, and a protocol by which groups adopt configurations and take shards over from each other.
    Migration_Invariant and Migration_Safety show of every run of the protocol that a shard has at most
    one serving group, which holds the contents of the map, and that requests are executed once.
  \<^item> Shard_System is the code as such a system: any number of groups, each with its replicated state
    machine, the commands its log may bring, and the calls between groups; \<open>sys_step\<close> composes the
    functions of KV_Server as the monitors, handlers and the message loop do. Slow replicas are part of
    it: monitors and handlers act on any earlier state of their group (\<open>sys_past\<close>). A call that panics is
    not a step. Shard_Simulation and Shard_Refinement: each step of the system is one of the protocol
    (locale \<open>forward_simulation\<close>, interpreted on the two). Sharding_Properties.

  Service_Properties puts the codecs under the services: commands on their way through the log, and shards on
  their way from one group to another. This theory composes a peer with the service above it.

  \<^bold>\<open>Conventions.\<close> A nil pointer is \<open>None\<close>; a panic is a value, so every dereference, index, map write,
  type assertion and close that can fail is a branch. \<^verbatim>\<open>uint64\<close> and \<^verbatim>\<open>int64\<close> are 64-bit words. A \<^verbatim>\<open>range\<close> over a
  map takes the visiting order as an argument. Every loop of the code is a total function: over a
  list, over the bytes of a buffer (the decoders carry a bound on the steps that
  \<open>decoding_ends\<close> shows is never reached: each turn consumes at least one byte of the input), or, for
  the endless loops of goroutines, one turn at a time. Lengths are natural numbers and inputs of
  decoders are assumed shorter than \<open>2 ^ 63\<close> bytes.

  \<^bold>\<open>What is a parameter.\<close> Code of other modules: \<^verbatim>\<open>types.Any\<close> and its conversions, \<^verbatim>\<open>proto.Clone\<close>, the ring of
  package consistent, package gob, gRPC calls and dialling, and package client, of which the
  repository holds no code (\<^verbatim>\<open>Key2shard\<close> and the store's clerk). What is relied on of them is stated as
  \<open>ring_ok\<close>, \<open>ring_commutes\<close>, \<open>clone_ok\<close>, \<open>any_ok\<close> and \<open>env_ok\<close>. \<^verbatim>\<open>proto.Unmarshal\<close>
  empties the message and calls its generated method; the services take decoder and encoder of their commands as
  arguments, for which Service_Properties puts the codecs of Service_Messages.

  The system of groups takes package client to do what its names say (theory Shard_System). Every group starts in
  configuration 0 with any of the shards, empty. \<^verbatim>\<open>StartServer\<close> creates none; the code's own runs, which start
  so, are among those of the system, and no group ever serves a key in them (\<open>kv_never_serves\<close>,
  \<open>code_runs_answer_nothing\<close>). Pulled shards may be proposed under
  the type \<^verbatim>\<open>migratingAction\<close> uses, which \<^verbatim>\<open>apply\<close> does not know (\<open>pulled_shards_are_dropped\<close>), or under the
  one it knows. What is proved of the system holds of the code as it is and of the code with these two slips put right.
  Responses and commands arrive as they were given or as the wire gives them back, with empty maps nil, after
  which a write to such a shard panics (\<open>empty_shard_cannot_be_written\<close>).

  \<^bold>\<open>Not modelled.\<close> Blocking, timers, condition variables, data races and log output; starting
  goroutines is recorded in the state. In the .pb.go files, enum tables, getters, descriptors and gRPC registration
  are generated glue, and \<^verbatim>\<open>ServerSession\<close> of yqkvpb is used nowhere. \<^verbatim>\<open>newLog\<close>, \<^verbatim>\<open>DPrintf\<close> and three unused struct types of raft.go
  have no effect on anything. The safety of commitment and of elections is not
  stated: the code never elects a leader (\<open>votes_are_dropped\<close>), counts late votes of other terms
  (\<open>late_votes_elect\<close>) and its remote handlers panic (\<open>handlers_panic\<close>). What is shown of a group is that
  logs match and that a successful exchange makes them equal, in every run in which no term has been won twice and
  no snapshot of another peer has replaced a log. The step relation (theory Raft_Cluster) admits such runs, as the
  code does, and records both; the two conditions are hypotheses of the theorems. Handlers have a reply to
  write to, and restarts are left out, since \<^verbatim>\<open>Make\<close> panics (\<open>make_panics\<close>).
\<close>

section \<open>From the log to the service\<close>

text \<open>Messages with the orders in which a replica visits its maps while it applies them.\<close>

definition with_orders :: "(visit \<times> visit) list \<Rightarrow> ApplyMsg list \<Rightarrow> (visit \<times> visit \<times> ApplyMsg) list" where
  "with_orders vs msgs = map2 (\<lambda>(v1, v2) msg. (v1, v2, msg)) vs msgs"

lemma with_orders_simps:
  "length vs = length msgs \<Longrightarrow> map (\<lambda>(_, _, msg). msg) (with_orders vs msgs) = msgs"
  "(v1, v2, msg) \<in> set (with_orders vs msgs) \<Longrightarrow> (v1, v2) \<in> set vs"
proof -
  show "map (\<lambda>(_, _, msg). msg) (with_orders vs msgs) = msgs" if "length vs = length msgs"
    using that by (induction vs msgs rule: list_induct2) (auto simp: with_orders_def)
  show "(v1, v2) \<in> set vs" if "(v1, v2, msg) \<in> set (with_orders vs msgs)"
    using that by (auto simp: with_orders_def dest: set_zip_leftD)
qed

text \<open>
  C12. Replication reaches the service: two peers that have applied the same prefix of the log and
  agree on the next \<open>k\<close> committed entries hand the same messages to their controllers in the same
  order, and two controllers in the same state that receive them end in the same state, or panic
  alike, whatever the orders in which each of them visits its maps.
\<close>

theorem same_log_same_state:
  assumes peers: "raft_ok rf" "raft_ok rf'" "lastApplied rf' = lastApplied rf"
    and ahead: "log_base (lg rf) \<le> unat (lastApplied rf)" "unat (lastApplied rf) + k \<le> unat (commit_of rf)"
      "unat (commit_of rf) \<le> log_last (lg rf)"
      "log_base (lg rf') \<le> unat (lastApplied rf)" "unat (lastApplied rf) + k \<le> unat (commit_of rf')"
      "unat (commit_of rf') \<le> log_last (lg rf')"
    and agree: "\<forall>n. unat (lastApplied rf) < n \<and> n \<le> unat (lastApplied rf) + k \<longrightarrow> log_view (lg rf') n = log_view (lg rf) n"
    and ctl: "ring_commutes R" "history_ok (configs sc)"
    and visit: "length vs = k" "length ws = k" "\<forall>(v1, v2) \<in> set vs \<union> set ws. visits v1 \<and> visits v2"
  shows "\<exists>rf1 rf1' msgs. foldM_go (\<lambda>rf _. applyCommittedLogs_turn rf) rf (replicate k ()) = Ok rf1 \<and>
    foldM_go (\<lambda>rf _. applyCommittedLogs_turn rf) rf' (replicate k ()) = Ok rf1' \<and>
    applied rf1 = applied rf @ msgs \<and> applied rf1' = applied rf' @ msgs \<and> length msgs = k \<and>
    ctl_runs decode marshalAny R (with_orders vs msgs) sc = ctl_runs decode marshalAny R (with_orders ws msgs) sc"
proof -
  let ?msgs = "\<lambda>rf. map (\<lambda>n. command_msg (the (log_view (lg rf) n))) [unat (lastApplied rf) + 1..<unat (lastApplied rf) + k + 1]"
  have same: "?msgs rf' = ?msgs rf" using agree peers(3) by (intro map_cong) auto
  have len: "length (?msgs rf) = k" by simp
  have runs: "ctl_runs decode marshalAny R (with_orders vs (?msgs rf)) sc = ctl_runs decode marshalAny R (with_orders ws (?msgs rf)) sc"
  proof (rule ctl_runs_order[OF ctl])
    show "map (\<lambda>(_, _, msg). msg) (with_orders vs (?msgs rf)) = map (\<lambda>(_, _, msg). msg) (with_orders ws (?msgs rf))"
      using visit(1,2) by (simp add: with_orders_simps)
    show "visits v1 \<and> visits v2" if "(v1, v2, msg) \<in> set (with_orders vs (?msgs rf)) \<union> set (with_orders ws (?msgs rf))" for v1 v2 msg
      using that visit(3) with_orders_simps(2) by blast
  qed
  have "foldM_go (\<lambda>rf _. applyCommittedLogs_turn rf) rf (replicate k ()) = Ok (rf\<lparr>
      lastApplied := lastApplied rf + of_nat k, applied := applied rf @ ?msgs rf\<rparr>)"
    using peers(1) ahead(1-3) by (rule apply_turns)
  moreover have "foldM_go (\<lambda>rf _. applyCommittedLogs_turn rf) rf' (replicate k ()) = Ok (rf'\<lparr>
      lastApplied := lastApplied rf' + of_nat k, applied := applied rf' @ ?msgs rf\<rparr>)"
    using apply_turns[of rf' k] peers(2,3) ahead(4-6) same by simp
  ultimately show ?thesis using runs len
    by (intro exI[of _ "rf\<lparr>lastApplied := lastApplied rf + of_nat k, applied := applied rf @ ?msgs rf\<rparr>"]
        exI[of _ "rf'\<lparr>lastApplied := lastApplied rf' + of_nat k, applied := applied rf' @ ?msgs rf\<rparr>"]
        exI[of _ "?msgs rf"]) simp
qed

theorem same_log_same_state_witness:
  "\<exists>rf1 msgs. applyCommittedLogs_turn sample_peer = Ok rf1 \<and> applied rf1 = msgs \<and> length msgs = 1 \<and>
    ctl_runs move_args (\<lambda>_. (Some (0 :: nat), None :: unit option)) sample_ring (with_orders [(ascending, descending)] msgs) sample_ctl =
    ctl_runs move_args (\<lambda>_. (Some (0 :: nat), None :: unit option)) sample_ring (with_orders [(descending, ascending)] msgs) sample_ctl"
proof -
  have "history_ok (configs sample_ctl)" by (simp add: sample_ctl_def first_history)
  from same_log_same_state[OF sample_ok sample_ok refl _ _ _ _ _ _ _ sample_ring_ok(2) this,
      where k = 1 and vs = "[(ascending, descending)]" and ws = "[(descending, ascending)]"
        and decode = move_args and marshalAny = "\<lambda>_. (Some (0 :: nat), None :: unit option)"]
  show ?thesis by (auto simp: sample_visits)
qed

end
